(* ===== verification/Prelude.thy ===== *)
theory Prelude
  imports Main "HOL-Library.Word" "HOL-Library.List_Lexorder" "HOL-Library.Monad_Syntax"
begin

text \<open>
  Shared vocabulary of the development: names for Rust's integer types, the
  big-endian byte codecs of the Rust standard library (\<open>to_be_bytes\<close>,
  \<open>from_be_bytes\<close>), saturating arithmetic, byte-string order, and the generic
  lemmas the component theories share.

  Conventions.  A call that returns normally is \<open>Some\<close>; an error propagated by \<open>?\<close> or a
  panic (\<open>unwrap\<close> on \<open>None\<close>, an index out of range, an integer underflow) is \<open>None\<close>.
  Fixed-width integers whose wrap-around matters are words; byte counts are \<open>nat\<close>.
\<close>

unbundle bit_operations_syntax

named_theorems codec_simps "length and round-trip equations of the byte codecs"
named_theorems key_order "order of byte keys in terms of the order of their fields"

type_synonym u8 = "8 word"
type_synonym u16 = "16 word"
type_synonym u32 = "32 word"
type_synonym u64 = "64 word"
type_synonym bytes = "u8 list"

section \<open>Big-endian byte codecs\<close>

primrec be_enc :: "nat \<Rightarrow> nat \<Rightarrow> bytes" where
  "be_enc 0 x = []"
| "be_enc (Suc n) x = of_nat (x div 256 ^ n) # be_enc n x"

primrec be_nat :: "bytes \<Rightarrow> nat" where
  "be_nat [] = 0"
| "be_nat (b # bs) = unat b * 256 ^ length bs + be_nat bs"

definition be16 :: "u16 \<Rightarrow> bytes" where "be16 x = be_enc 2 (unat x)"
definition be32 :: "u32 \<Rightarrow> bytes" where "be32 x = be_enc 4 (unat x)"
definition be64 :: "u64 \<Rightarrow> bytes" where "be64 x = be_enc 8 (unat x)"

definition of_be16 :: "bytes \<Rightarrow> u16" where "of_be16 bs = of_nat (be_nat bs)"
definition of_be32 :: "bytes \<Rightarrow> u32" where "of_be32 bs = of_nat (be_nat bs)"
definition of_be64 :: "bytes \<Rightarrow> u64" where "of_be64 bs = of_nat (be_nat bs)"

lemma unat_lt_pow: "unat (w :: 'a::len word) < 2 ^ LENGTH('a)"
  by (rule unsigned_less)

lemma unat_ucast_up:
  assumes "LENGTH('a::len) \<le> LENGTH('b::len)"
  shows "unat (ucast (w :: 'a word) :: 'b word) = unat w"
proof -
  have "unat w < 2 ^ LENGTH('b)"
    using unat_lt_pow [of w] assms
    by (metis one_less_numeral_iff order_less_le_trans power_increasing_iff semiring_norm(76))
  then show ?thesis by (simp add: unsigned_ucast_eq take_bit_nat_eq_self)
qed

lemma unat_ucast_32_64 [simp]: "unat (ucast (w :: u32) :: u64) = unat w"
  by (simp add: unat_ucast_up)

lemma length_be_enc [simp]: "length (be_enc n x) = n"
  by (induction n) auto

lemma be_nat_less: "be_nat bs < 256 ^ length bs"
proof (induction bs)
  case (Cons b bs)
  have "Suc (unat b) \<le> 256"
    using unat_lt_pow [of b] by simp
  then have "Suc (unat b) * 256 ^ length bs \<le> 256 * 256 ^ length bs"
    by (rule mult_le_mono1)
  with Cons.IH have "unat b * 256 ^ length bs + be_nat bs < 256 * 256 ^ length bs"
    by (simp only: mult_Suc)
  then show ?case by simp
qed simp

lemma be_nat_be_enc: "be_nat (be_enc n x) = x mod 256 ^ n"
proof (induction n)
  case (Suc n)
  have "unat (of_nat (x div 256 ^ n) :: u8) = x div 256 ^ n mod 256"
    by (simp add: unat_of_nat)
  then have "be_nat (be_enc (Suc n) x) = x div 256 ^ n mod 256 * 256 ^ n + x mod 256 ^ n"
    using Suc.IH by simp
  also have "\<dots> = x mod (256 ^ n * 256)"
    using mod_mult2_eq [of x "256 ^ n" 256] by (simp add: mult.commute)
  finally show ?case by (simp add: mult.commute)
qed simp

lemma of_nat_u8_mod: "(of_nat (x mod 256) :: u8) = of_nat x"
  by (simp add: unat_of_nat word_unat_eq_iff)

lemma of_nat_u8_add: "(of_nat (a * 256 + x) :: u8) = of_nat x"
  by (metis mod_mult_self3 of_nat_u8_mod)

lemma be_enc_shift: "be_enc n (a * 256 ^ n + y) = be_enc n y"
proof (induction n arbitrary: a y)
  case (Suc n)
  have eq: "a * 256 ^ Suc n + y = (a * 256) * 256 ^ n + y" by simp
  have "((a * 256) * 256 ^ n + y) div 256 ^ n = a * 256 + y div 256 ^ n"
    by (simp add: add.commute)
  then show ?case
    unfolding eq using Suc.IH [of "a * 256" y] by (simp only: be_enc.simps of_nat_u8_add)
qed simp

lemma be_enc_be_nat: "length bs = n \<Longrightarrow> be_enc n (be_nat bs) = bs"
proof (induction bs arbitrary: n)
  case (Cons b bs)
  then have n: "n = Suc (length bs)" and IH: "be_enc (length bs) (be_nat bs) = bs" by auto
  have "be_nat (b # bs) div 256 ^ length bs = unat b"
    using be_nat_less [of bs] by simp
  then have "be_enc n (be_nat (b # bs)) = of_nat (unat b) # be_enc (length bs) (be_nat bs)"
    using be_enc_shift [of "length bs" "unat b" "be_nat bs"] n by simp
  with IH show ?case by simp
qed simp

lemma length_be [simp]:
  "length (be16 x) = 2" "length (be32 y) = 4" "length (be64 z) = 8"
  by (simp_all add: be16_def be32_def be64_def)

lemma of_be_be [simp, codec_simps]:
  "of_be16 (be16 x) = x" "of_be32 (be32 y) = y" "of_be64 (be64 z) = z"
  using unat_lt_pow [of x] unat_lt_pow [of y] unat_lt_pow [of z]
  by (simp_all add: be16_def be32_def be64_def of_be16_def of_be32_def of_be64_def
      be_nat_be_enc)

lemma be_of_be16: "length bs = 2 \<Longrightarrow> be16 (of_be16 bs) = bs"
  using be_nat_less [of bs] by (simp add: be16_def of_be16_def unat_of_nat be_enc_be_nat)

lemma be_of_be32: "length bs = 4 \<Longrightarrow> be32 (of_be32 bs) = bs"
  using be_nat_less [of bs] by (simp add: be32_def of_be32_def unat_of_nat be_enc_be_nat)

lemma be_of_be64: "length bs = 8 \<Longrightarrow> be64 (of_be64 bs) = bs"
  using be_nat_less [of bs] by (simp add: be64_def of_be64_def unat_of_nat be_enc_be_nat)

lemma be64_inject [simp]: "be64 x = be64 y \<longleftrightarrow> x = y"
  by (metis of_be_be(3))

lemma be16_inject [simp]: "be16 x = be16 y \<longleftrightarrow> x = y"
  by (metis of_be_be(1))

lemma be32_inject [simp]: "be32 x = be32 y \<longleftrightarrow> x = y"
  by (metis of_be_be(2))

section \<open>Order of byte strings\<close>

text \<open>
  The order on \<^typ>\<open>bytes\<close> is the lexicographic one of \<open>List_Lexorder\<close>, the order in which an
  LMDB database keeps its keys.  On byte strings of one length it is the order of the
  big-endian numbers they spell.
\<close>

lemma be_nat_le_iff:
  "length xs = length ys \<Longrightarrow> xs \<le> ys \<longleftrightarrow> be_nat xs \<le> be_nat ys"
proof (induction xs ys rule: list_induct2)
  case (Cons x xs y ys)
  have bx: "be_nat xs < 256 ^ length ys" and b_y: "be_nat ys < 256 ^ length ys"
    using be_nat_less [of xs] be_nat_less [of ys] Cons.hyps by auto
  consider (lt) "unat x < unat y" | (eq) "x = y" | (gt) "unat y < unat x"
    by (metis linorder_neqE_nat word_unat_eq_iff)
  then show ?case
  proof cases
    case lt
    then have "Suc (unat x) * 256 ^ length ys \<le> unat y * 256 ^ length ys"
      by (intro mult_right_mono) auto
    with lt bx Cons.hyps show ?thesis by (simp add: word_less_nat_alt)
  next
    case eq
    with Cons show ?thesis by simp
  next
    case gt
    then have "Suc (unat y) * 256 ^ length ys \<le> unat x * 256 ^ length ys"
      by (intro mult_right_mono) auto
    with gt b_y Cons.hyps show ?thesis by (auto simp: word_less_nat_alt)
  qed
qed simp

lemma bytes_append_le_iff:
  fixes xs :: bytes
  shows "length xs = length ys \<Longrightarrow> xs @ us \<le> ys @ vs \<longleftrightarrow> xs < ys \<or> (xs = ys \<and> us \<le> vs)"
  by (induction xs ys rule: list_induct2) auto

lemma be64_le_iff [simp, key_order]: "be64 x \<le> be64 y \<longleftrightarrow> x \<le> y"
proof -
  have "be64 x \<le> be64 y \<longleftrightarrow> be_nat (be64 x) \<le> be_nat (be64 y)"
    by (rule be_nat_le_iff) simp
  then show ?thesis
    using unat_lt_pow [of x] unat_lt_pow [of y]
    by (simp add: be64_def be_nat_be_enc word_le_nat_alt)
qed

lemma be64_less_iff [simp, key_order]: "be64 x < be64 y \<longleftrightarrow> x < y"
  by (simp add: less_le)

lemma bytes_bounds:
  assumes "length xs = n"
  shows "replicate n 0 \<le> (xs :: bytes)" and "xs \<le> replicate n 255"
proof -
  have "be_nat (replicate n 0) = 0" "Suc (be_nat (replicate n 255)) = 256 ^ n"
    by (induction n) simp_all
  then show "replicate n 0 \<le> (xs :: bytes)" "xs \<le> replicate n 255"
    using assms be_nat_less [of xs] by (simp_all add: be_nat_le_iff)
qed

section \<open>Saturating arithmetic on u64\<close>

definition sat_add64 :: "u64 \<Rightarrow> u64 \<Rightarrow> u64" where
  "sat_add64 a b = (if unat a + unat b < 2 ^ 64 then a + b else - 1)"

definition sat_sub64 :: "u64 \<Rightarrow> u64 \<Rightarrow> u64" where
  "sat_sub64 a b = (if b \<le> a then a - b else 0)"

lemma unat_sat_add64: "unat (sat_add64 a b) = min (unat a + unat b) (2 ^ 64 - 1)"
proof -
  have m: "unat (- 1 :: u64) = 2 ^ 64 - 1"
    by (simp add: unsigned_minus_1_eq_mask mask_eq_exp_minus_1)
  show ?thesis unfolding sat_add64_def
    using m by (auto simp: unat_word_ariths)
qed

lemma unat_sat_sub64: "unat (sat_sub64 a b) = unat a - unat b"
  by (auto simp: sat_sub64_def unat_sub word_le_nat_alt)

section \<open>Checked natural subtraction\<close>

text \<open>\<open>a -= b\<close> on an unsigned byte counter: \<open>None\<close> is the overflow panic.\<close>

definition checked_sub :: "nat \<Rightarrow> nat \<Rightarrow> nat option" where
  "checked_sub a b = (if b \<le> a then Some (a - b) else None)"

lemma checked_sub_Some [simp]: "checked_sub a b = Some c \<longleftrightarrow> b \<le> a \<and> c = a - b"
  by (auto simp: checked_sub_def)

section \<open>Recursion through the option monad\<close>

lemma bind_cong_fundef [fundef_cong]:
  "x = x' \<Longrightarrow> (\<And>a. x' = Some a \<Longrightarrow> f a = g a) \<Longrightarrow> Option.bind x f = Option.bind x' g"
  by (cases x') auto

lemma bind_SomeE:
  "Option.bind x f = Some y \<Longrightarrow> (\<And>a. x = Some a \<Longrightarrow> f a = Some y \<Longrightarrow> P) \<Longrightarrow> P"
  by (cases x) auto

section \<open>Decimal text\<close>

text \<open>\<open>format!("{}", n)\<close> of an unsigned number.\<close>

definition digit_char :: "nat \<Rightarrow> char" where "digit_char d = char_of (48 + d)"

fun show_nat :: "nat \<Rightarrow> string" where
  "show_nat n = (if n < 10 then [digit_char n] else show_nat (n div 10) @ [digit_char (n mod 10)])"

declare show_nat.simps [simp del]

section \<open>Generic list lemmas\<close>

lemma sorted_wrt_filter_mono: "sorted_wrt P xs \<Longrightarrow> sorted_wrt P (filter Q xs)"
  by (induction xs) auto

end
