(* ===== verification/Idx.thy ===== *)
theory Idx
  imports Prelude
begin

text \<open>
  The packet locator of \<open>src/src/id.rs\<close>: \<open>IDX(u64) = file_id << 32 | offset\<close>, the anchor that leads
  from any QR pair back to the bytes on disk.  \<open>encode\<close>/\<open>decode\<close> are \<open>encode_idx\<close>/\<open>decode_idx\<close> here.
\<close>

definition MAX_FILE_SIZE :: u64 where
  "MAX_FILE_SIZE = ucast (- 1 :: u32)"

definition encode_idx :: "u32 \<Rightarrow> u32 \<Rightarrow> u64" where
  "encode_idx file_id offset = push_bit 32 (ucast file_id) OR ucast offset"

definition decode_idx :: "u64 \<Rightarrow> u32 \<times> u32" where
  "decode_idx idx = (ucast (drop_bit 32 idx), ucast idx)"

definition idx_to_bytes :: "u64 \<Rightarrow> bytes" where
  "idx_to_bytes idx = be64 idx"

definition idx_from_bytes :: "bytes \<Rightarrow> u64 option" where
  "idx_from_bytes b = (if length b \<noteq> 8 then None else Some (of_be64 b))"

lemma bit_encode_idx:
  "bit (encode_idx f off) n \<longleftrightarrow> n < 64 \<and> (if n < 32 then bit off n else bit f (n - 32))"
  by (auto simp: encode_idx_def bit_or_iff bit_push_bit_iff bit_unsigned_iff
      dest: bit_imp_le_length)

text \<open>Packing a file id and an offset and unpacking the result gives them back.\<close>

lemma decode_encode_idx: "decode_idx (encode_idx f off) = (f, off)"
proof -
  have "ucast (drop_bit 32 (encode_idx f off)) = f"
    by (rule bit_eqI) (auto simp: bit_unsigned_iff bit_drop_bit_eq bit_encode_idx)
  moreover have "ucast (encode_idx f off) = off"
    by (rule bit_eqI) (auto simp: bit_unsigned_iff bit_encode_idx)
  ultimately show ?thesis by (simp add: decode_idx_def)
qed

lemma encode_decode_idx: "(case decode_idx i of (f, off) \<Rightarrow> encode_idx f off) = i"
  by (rule bit_eqI)
    (auto simp: decode_idx_def bit_encode_idx bit_unsigned_iff bit_drop_bit_eq)

lemma encode_idx_inject: "encode_idx f off = encode_idx g p \<longleftrightarrow> f = g \<and> off = p"
  by (metis decode_encode_idx prod.inject)

lemma unat_encode_idx: "unat (encode_idx f off) = unat f * 2 ^ 32 + unat off"
proof -
  have disj: "push_bit 32 (ucast f) AND ucast off = (0 :: u64)"
    by (rule bit_eqI) (auto simp: bit_and_iff bit_push_bit_iff bit_unsigned_iff
        dest: bit_imp_le_length)
  have "encode_idx f off = push_bit 32 (ucast f) + ucast off"
    unfolding encode_idx_def using disj by (simp add: disjunctive_add_eq_or)
  moreover have "unat (push_bit 32 (ucast f) :: u64) = unat f * 2 ^ 32"
    using unat_lt_pow [of f]
    by (simp add: push_bit_eq_mult unat_word_ariths)
  ultimately show ?thesis
    using unat_lt_pow [of f] unat_lt_pow [of off]
    by (simp add: unat_word_ariths)
qed

lemma encode_idx_le_iff:
  "encode_idx f off \<le> encode_idx g p \<longleftrightarrow> f < g \<or> (f = g \<and> off \<le> p)"
proof -
  have "unat f * 2 ^ 32 + unat off \<le> unat g * 2 ^ 32 + unat p \<longleftrightarrow>
      unat f < unat g \<or> (unat f = unat g \<and> unat off \<le> unat p)"
    using unat_lt_pow [of off] unat_lt_pow [of p] by auto
  then show ?thesis
    by (auto simp: word_le_nat_alt word_less_nat_alt unat_encode_idx word_unat_eq_iff)
qed

lemma idx_bytes_roundtrip [codec_simps]: "idx_from_bytes (idx_to_bytes i) = Some i"
  by (simp add: idx_from_bytes_def idx_to_bytes_def)

lemma idx_from_bytes_Some: "idx_from_bytes b = Some i \<longleftrightarrow> b = idx_to_bytes i"
  by (auto simp: idx_from_bytes_def idx_to_bytes_def be_of_be64)

end
