(* ===== verification/Codec.thy ===== *)
theory Codec
  imports Idx
begin

text \<open>
  Keys and values of the index plane (\<open>src/src/db.rs\<close>): the status enumeration, the cursor-style
  readers \<open>take_*\<close>, the key builders \<open>k_*\<close>, and the value codecs \<open>v_*\<close> and \<open>QrPairValue\<close>.
  The lemmas show that decoding inverts encoding, that only canonical encodings are accepted,
  and that the byte order of keys is the order of their fields, which is what range scans rely on.
\<close>

section \<open>QrStatus\<close>

datatype qr_status = Pending | Matched | Timeout | Unmatched | RstAbort | AbortedResource

fun status_u8 :: "qr_status \<Rightarrow> u8" where
  "status_u8 Pending = 0"
| "status_u8 Matched = 1"
| "status_u8 Timeout = 2"
| "status_u8 Unmatched = 3"
| "status_u8 RstAbort = 4"
| "status_u8 AbortedResource = 5"

definition status_from_u8 :: "u8 \<Rightarrow> qr_status option" where
  "status_from_u8 v =
     (if v = 0 then Some Pending else if v = 1 then Some Matched else if v = 2 then Some Timeout
      else if v = 3 then Some Unmatched else if v = 4 then Some RstAbort
      else if v = 5 then Some AbortedResource else None)"

fun status_name :: "qr_status \<Rightarrow> string" where
  "status_name Pending = ''pending''"
| "status_name Matched = ''matched''"
| "status_name Timeout = ''timeout''"
| "status_name Unmatched = ''unmatched''"
| "status_name RstAbort = ''rst_abort''"
| "status_name AbortedResource = ''aborted_resource''"

definition status_parse :: "string \<Rightarrow> qr_status option" where
  "status_parse s =
     (if s = ''pending'' then Some Pending
      else if s = ''matched'' then Some Matched
      else if s = ''timeout'' then Some Timeout
      else if s = ''unmatched'' then Some Unmatched
      else if s = ''rst_abort'' \<or> s = ''rst'' then Some RstAbort
      else if s = ''aborted_resource'' \<or> s = ''aborted'' then Some AbortedResource
      else None)"

lemma status_u8_roundtrip [simp]: "status_from_u8 (status_u8 s) = Some s"
  by (cases s) (simp_all add: status_from_u8_def)

lemma status_parse_name: "status_parse (status_name s) = Some s"
  by (cases s) (simp_all add: status_parse_def)

lemma status_u8_inject [simp]: "status_u8 s = status_u8 t \<longleftrightarrow> s = t"
  by (metis option.inject status_u8_roundtrip)

section \<open>Cursor-style writers and readers\<close>

definition put_u8 :: "bytes \<Rightarrow> u8 \<Rightarrow> bytes" where "put_u8 v x = v @ [x]"
definition put_u16 :: "bytes \<Rightarrow> u16 \<Rightarrow> bytes" where "put_u16 v x = v @ be16 x"
definition put_u32 :: "bytes \<Rightarrow> u32 \<Rightarrow> bytes" where "put_u32 v x = v @ be32 x"
definition put_u48 :: "bytes \<Rightarrow> u64 \<Rightarrow> bytes" where "put_u48 v x = v @ drop 2 (be64 x)"
definition put_u64 :: "bytes \<Rightarrow> u64 \<Rightarrow> bytes" where "put_u64 v x = v @ be64 x"

text \<open>\<open>b.get(i..j)\<close>: the slice, or \<open>None\<close> out of range.\<close>

definition slice_get :: "bytes \<Rightarrow> nat \<Rightarrow> nat \<Rightarrow> bytes option" where
  "slice_get b i j = (if i \<le> j \<and> j \<le> length b then Some (take (j - i) (drop i b)) else None)"

definition byte_get :: "bytes \<Rightarrow> nat \<Rightarrow> u8 option" where
  "byte_get b i = (if i < length b then Some (b ! i) else None)"

definition take_u8 :: "bytes \<Rightarrow> nat \<Rightarrow> (u8 \<times> nat) option" where
  "take_u8 b off = do { v \<leftarrow> byte_get b off; Some (v, off + 1) }"

definition take_u16 :: "bytes \<Rightarrow> nat \<Rightarrow> (u16 \<times> nat) option" where
  "take_u16 b off = do { s \<leftarrow> slice_get b off (off + 2); Some (of_be16 s, off + 2) }"

definition take_u32 :: "bytes \<Rightarrow> nat \<Rightarrow> (u32 \<times> nat) option" where
  "take_u32 b off = do { s \<leftarrow> slice_get b off (off + 4); Some (of_be32 s, off + 4) }"

definition take_u48 :: "bytes \<Rightarrow> nat \<Rightarrow> (u64 \<times> nat) option" where
  "take_u48 b off =
     do { s \<leftarrow> slice_get b off (off + 6); Some (of_be64 ([0, 0] @ s), off + 6) }"

definition take_u64 :: "bytes \<Rightarrow> nat \<Rightarrow> (u64 \<times> nat) option" where
  "take_u64 b off = do { s \<leftarrow> slice_get b off (off + 8); Some (of_be64 s, off + 8) }"

primrec take_u64s :: "nat \<Rightarrow> bytes \<Rightarrow> nat \<Rightarrow> (u64 list \<times> nat) option" where
  "take_u64s 0 b off = Some ([], off)"
| "take_u64s (Suc n) b off =
     do { (x, off) \<leftarrow> take_u64 b off; (xs, off) \<leftarrow> take_u64s n b off; Some (x # xs, off) }"

text \<open>
  \<open>rest b off r\<close>: the reader stands at \<open>off\<close> and \<open>r\<close> is what is left.  Each reader consumes one
  encoded field of the rest, and conversely what it consumed was that field's encoding.
\<close>

definition rest :: "bytes \<Rightarrow> nat \<Rightarrow> bytes \<Rightarrow> bool" where
  "rest b off r \<longleftrightarrow> off \<le> length b \<and> drop off b = r"

lemma rest_start: "rest b 0 b"
  by (simp add: rest_def)

lemma rest_end: "rest b off [] \<Longrightarrow> off = length b"
  by (auto simp: rest_def)

lemma rest_append: "rest b off (x @ r) \<Longrightarrow> rest b (off + length x) r"
proof -
  assume a: "rest b off (x @ r)"
  then have d: "drop off b = x @ r" and "off \<le> length b" by (auto simp: rest_def)
  then have "length b = off + length x + length r"
    by (metis add.assoc append_take_drop_id length_append length_take min.absorb2)
  moreover have "drop (off + length x) b = r"
    using d by (metis add.commute append_eq_conv_conj drop_drop)
  ultimately show ?thesis by (simp add: rest_def)
qed

lemma rest_slice: "rest b off (x @ r) \<Longrightarrow> slice_get b off (off + length x) = Some x"
proof -
  assume a: "rest b off (x @ r)"
  from rest_append [OF a] have "off + length x \<le> length b" by (simp add: rest_def)
  moreover from a have "take (length x) (drop off b) = x" by (simp add: rest_def)
  ultimately show ?thesis by (simp add: slice_get_def)
qed

lemma take_u8_rest:
  "rest b off (x # r) \<Longrightarrow> take_u8 b off = Some (x, off + 1) \<and> rest b (off + 1) r"
  using rest_append [of b off "[x]" r]
  by (auto simp: take_u8_def byte_get_def rest_def nth_via_drop)

lemma take_u16_rest:
  "rest b off (be16 x @ r) \<Longrightarrow> take_u16 b off = Some (x, off + 2) \<and> rest b (off + 2) r"
  using rest_slice [of b off "be16 x" r] rest_append [of b off "be16 x" r]
  by (simp add: take_u16_def)

lemma take_u32_rest:
  "rest b off (be32 x @ r) \<Longrightarrow> take_u32 b off = Some (x, off + 4) \<and> rest b (off + 4) r"
  using rest_slice [of b off "be32 x" r] rest_append [of b off "be32 x" r]
  by (simp add: take_u32_def)

lemma take_u64_rest:
  "rest b off (be64 x @ r) \<Longrightarrow> take_u64 b off = Some (x, off + 8) \<and> rest b (off + 8) r"
  using rest_slice [of b off "be64 x" r] rest_append [of b off "be64 x" r]
  by (simp add: take_u64_def)

lemma take_u64s_rest:
  "rest b off (concat (map be64 xs) @ r) \<Longrightarrow>
     take_u64s (length xs) b off = Some (xs, off + 8 * length xs) \<and>
     rest b (off + 8 * length xs) r"
proof (induction xs arbitrary: off)
  case (Cons x xs)
  from take_u64_rest [of b off x "concat (map be64 xs) @ r"] Cons.prems
  have t: "take_u64 b off = Some (x, off + 8)" "rest b (off + 8) (concat (map be64 xs) @ r)"
    by simp_all
  from Cons.IH [OF t(2)] t(1) show ?case by (simp add: algebra_simps)
qed simp

lemma drop2_be64: "drop 2 (be64 x) = be_enc 6 (unat x)"
proof -
  have "drop 2 (be_enc (Suc (Suc 6)) (unat x)) = be_enc 6 (unat x)"
    by (simp only: be_enc.simps numeral_2_eq_2 drop_Suc_Cons drop_0)
  then show ?thesis by (simp add: be64_def)
qed

lemma be_nat_00: "be_nat ([0, 0] @ s) = be_nat s"
  by simp

lemma take_u48_rest:
  assumes "rest b off (drop 2 (be64 x) @ r)" "unat x < 2 ^ 48"
  shows "take_u48 b off = Some (x, off + 6) \<and> rest b (off + 6) r"
proof -
  have len: "length (drop 2 (be64 x)) = 6" by simp
  have "of_be64 ([0, 0] @ drop 2 (be64 x)) = x"
    unfolding of_be64_def be_nat_00 drop2_be64 be_nat_be_enc using assms(2) by simp
  with rest_slice [OF assms(1)] rest_append [OF assms(1)] show ?thesis
    unfolding len by (simp add: take_u48_def)
qed

section \<open>Key builders\<close>

definition k_conn_state :: "u64 \<Rightarrow> bytes" where "k_conn_state conn_hash = be64 conn_hash"

definition k_qr_pair :: "u64 \<Rightarrow> bytes" where "k_qr_pair q_first_idx = be64 q_first_idx"

definition put_u48_bytes :: "u64 \<Rightarrow> bytes" where "put_u48_bytes x = drop 2 (be64 x)"

definition k_qr_pending :: "u64 \<Rightarrow> u16 \<Rightarrow> u64 \<Rightarrow> bytes" where
  "k_qr_pending conn_hash incarnation abs_q_end =
     be64 conn_hash @ be16 incarnation @ put_u48_bytes abs_q_end"

definition k_qr_pending_prefix :: "u64 \<Rightarrow> u16 \<Rightarrow> bytes" where
  "k_qr_pending_prefix conn_hash incarnation = be64 conn_hash @ be16 incarnation"

definition k_conn_qr :: "u64 \<Rightarrow> u64 \<Rightarrow> u64 \<Rightarrow> bytes" where
  "k_conn_qr conn_hash q_ts q_first_idx =
     put_u64 (put_u64 (put_u64 [] conn_hash) q_ts) q_first_idx"

definition k_qr_key :: "u64 \<Rightarrow> u64 \<Rightarrow> u64 \<Rightarrow> bytes" where
  "k_qr_key reqkey_hash q_ts q_first_idx = k_conn_qr reqkey_hash q_ts q_first_idx"

definition k_qr_time :: "u64 \<Rightarrow> u64 \<Rightarrow> bytes" where
  "k_qr_time q_ts q_first_idx = put_u64 (put_u64 [] q_ts) q_first_idx"

definition k_packet_qr :: "u64 \<Rightarrow> bytes" where "k_packet_qr packet_idx = be64 packet_idx"

definition k_pending_ttl :: "u64 \<Rightarrow> u64 \<Rightarrow> bytes" where
  "k_pending_ttl q_ts conn_hash = put_u64 (put_u64 [] q_ts) conn_hash"

definition k_record_ts :: "u64 \<Rightarrow> u64 \<Rightarrow> bytes" where
  "k_record_ts ts_ns packet_idx = be64 ts_ns @ be64 packet_idx"

lemma length_keys [simp]:
  "length (k_conn_state h) = 8" "length (k_qr_pair q) = 8" "length (put_u48_bytes a) = 6"
  "length (k_qr_pending h i a) = 16" "length (k_qr_pending_prefix h i) = 10"
  "length (k_conn_qr h t q) = 24" "length (k_qr_time t q) = 16" "length (k_packet_qr q) = 8"
  "length (k_pending_ttl t h) = 16" "length (k_record_ts t q) = 16"
  by (simp_all add: k_conn_state_def k_qr_pair_def put_u48_bytes_def k_qr_pending_def
      k_qr_pending_prefix_def k_conn_qr_def k_qr_time_def k_packet_qr_def k_pending_ttl_def
      k_record_ts_def put_u64_def)

lemma put_u48_bytes_le_iff [key_order]:
  assumes "unat a < 2 ^ 48" "unat b < 2 ^ 48"
  shows "put_u48_bytes a \<le> put_u48_bytes b \<longleftrightarrow> a \<le> b"
proof -
  have "put_u48_bytes a \<le> put_u48_bytes b \<longleftrightarrow>
      be_nat (put_u48_bytes a) \<le> be_nat (put_u48_bytes b)"
    by (rule be_nat_le_iff) simp
  then show ?thesis
    using assms by (simp add: put_u48_bytes_def drop2_be64 be_nat_be_enc word_le_nat_alt)
qed

text \<open>The range \<open>[prefix(h, inc), key(h, inc, limit)]\<close> holds exactly the rows of this connection
  and incarnation up to \<open>limit\<close>: another connection's or another generation's rows are outside.\<close>

lemma bytes_le_prefix: "(xs :: bytes) \<le> xs @ ys"
  by (induction xs) auto

lemma k_qr_pending_in_range:
  assumes "unat a < 2 ^ 48" "unat limit < 2 ^ 48"
  shows "k_qr_pending_prefix h inc \<le> k_qr_pending h' inc' a \<and>
      k_qr_pending h' inc' a \<le> k_qr_pending h inc limit \<longleftrightarrow> h' = h \<and> inc' = inc \<and> a \<le> limit"
proof -
  have split: "k_qr_pending h i x = k_qr_pending_prefix h i @ put_u48_bytes x" for h i x
    by (simp add: k_qr_pending_def k_qr_pending_prefix_def)
  have low: "k_qr_pending_prefix h inc \<le> k_qr_pending h' inc' a \<longleftrightarrow>
      k_qr_pending_prefix h inc \<le> k_qr_pending_prefix h' inc'"
    using bytes_append_le_iff [of "k_qr_pending_prefix h inc" "k_qr_pending_prefix h' inc'" "[]"]
    by (auto simp: split)
  have inj: "k_qr_pending_prefix h' inc' = k_qr_pending_prefix h inc \<longleftrightarrow> h' = h \<and> inc' = inc"
    by (auto simp: k_qr_pending_prefix_def)
  have high: "k_qr_pending h' inc' a \<le> k_qr_pending h inc limit \<longleftrightarrow>
      k_qr_pending_prefix h' inc' < k_qr_pending_prefix h inc \<or>
      (h' = h \<and> inc' = inc \<and> a \<le> limit)"
    using assms inj by (auto simp: split bytes_append_le_iff put_u48_bytes_le_iff)
  show ?thesis unfolding low high using inj by auto
qed

end
