(* ===== verification/Connection.thy ===== *)
theory Connection
  imports Codec
begin

text \<open>
  Connection identity and hot state (\<open>src/src/connection.rs\<close>): the FNV-1a-64 connection hash, the
  17-byte connection key, and the 191-byte \<open>ConnState\<close> row with its fixed big-endian layout.
  \<open>meta_bind_id\<close> is an \<open>i64\<close>: the word is read with \<open>sint\<close>.
\<close>

section \<open>Connection hash\<close>

definition FNV1A64_OFFSET :: u64 where "FNV1A64_OFFSET = 0xcbf29ce484222325"
definition FNV1A64_PRIME :: u64 where "FNV1A64_PRIME = 0x00000100000001b3"

definition fnv1a64 :: "bytes \<Rightarrow> u64" where
  "fnv1a64 data = foldl (\<lambda>h b. (h XOR ucast b) * FNV1A64_PRIME) FNV1A64_OFFSET data"

definition conn_key_bytes :: "u32 \<Rightarrow> u32 \<Rightarrow> u16 \<Rightarrow> u32 \<Rightarrow> u16 \<Rightarrow> u8 \<Rightarrow> bytes" where
  "conn_key_bytes dev_id client_ip client_port server_ip server_port proto =
     be32 dev_id @ be32 client_ip @ be16 client_port @ be32 server_ip @ be16 server_port @ [proto]"

definition conn_hash :: "u32 \<Rightarrow> u32 \<Rightarrow> u16 \<Rightarrow> u32 \<Rightarrow> u16 \<Rightarrow> u8 \<Rightarrow> u64" where
  "conn_hash dev_id client_ip client_port server_ip server_port proto =
     fnv1a64 (conn_key_bytes dev_id client_ip client_port server_ip server_port proto)"

text \<open>The vectors of the unit test \<open>fnv1a64_known_vector\<close>.\<close>

lemma fnv1a64_vectors:
  "fnv1a64 [] = 0xcbf29ce484222325" "fnv1a64 [97] = 0xaf63dc4c8601ec8c"
  by (simp_all add: fnv1a64_def FNV1A64_OFFSET_def FNV1A64_PRIME_def)

lemma conn_key_bytes_inject:
  "conn_key_bytes d ci cp si sp p = conn_key_bytes d' ci' cp' si' sp' p' \<longleftrightarrow>
     d = d' \<and> ci = ci' \<and> cp = cp' \<and> si = si' \<and> sp = sp' \<and> p = p'"
  by (auto simp: conn_key_bytes_def)

lemma length_conn_key_bytes [simp]: "length (conn_key_bytes d ci cp si sp p) = 17"
  by (simp add: conn_key_bytes_def)

text \<open>One round of FNV-1a is a bijection of the accumulator, because the prime is odd.\<close>

definition FNV1A64_PRIME_INV :: u64 where "FNV1A64_PRIME_INV = 0xce965057aff6957b"

lemma fnv_prime_inv: "FNV1A64_PRIME * FNV1A64_PRIME_INV = 1"
  by (simp add: FNV1A64_PRIME_def FNV1A64_PRIME_INV_def)

lemma fnv_mult_inject: "x * FNV1A64_PRIME = y * FNV1A64_PRIME \<longleftrightarrow> x = y"
proof
  assume "x * FNV1A64_PRIME = y * FNV1A64_PRIME"
  then have "x * (FNV1A64_PRIME * FNV1A64_PRIME_INV) = y * (FNV1A64_PRIME * FNV1A64_PRIME_INV)"
    by (simp only: mult.assoc [symmetric])
  then show "x = y" by (simp only: fnv_prime_inv mult_1_right)
qed simp

lemma xor_left_inject: "(h :: u64) XOR x = h XOR y \<longleftrightarrow> x = y"
  by (auto simp: bit_eq_iff bit_xor_iff)

lemma ucast_u8_u64_inject: "(ucast (a :: u8) :: u64) = ucast b \<longleftrightarrow> a = b"
proof
  assume "(ucast a :: u64) = ucast b"
  then have "unat (ucast a :: u64) = unat (ucast b :: u64)" by simp
  then show "a = b" by (simp add: unat_ucast_up word_unat_eq_iff)
qed simp

text \<open>Two connections of one device that differ only in the transport protocol never share a
  hash, whatever their addresses and ports.\<close>

lemma conn_hash_proto_distinct:
  "conn_hash d ci cp si sp p = conn_hash d ci cp si sp p' \<longleftrightarrow> p = p'"
proof -
  have "fnv1a64 (xs @ [p]) = fnv1a64 (xs @ [p']) \<longleftrightarrow> p = p'" for xs
    by (simp add: fnv1a64_def fnv_mult_inject xor_left_inject ucast_u8_u64_inject)
  then show ?thesis by (metis append.assoc conn_hash_def conn_key_bytes_def)
qed

section \<open>ConnState\<close>

datatype conn_state_kind =
  SynSent | SynRcvd | Established | Closed | Reset | ConnTimeout | HalfOpen | Quarantined

fun kind_u8 :: "conn_state_kind \<Rightarrow> u8" where
  "kind_u8 SynSent = 0"
| "kind_u8 SynRcvd = 1"
| "kind_u8 Established = 2"
| "kind_u8 Closed = 3"
| "kind_u8 Reset = 4"
| "kind_u8 ConnTimeout = 5"
| "kind_u8 HalfOpen = 6"
| "kind_u8 Quarantined = 7"

lemma kind_u8_inject [simp]: "kind_u8 a = kind_u8 b \<longleftrightarrow> a = b"
  by (cases a; cases b) simp_all

text \<open>\<open>anomaly\<close> bit masks.\<close>

definition ANOM_INCOMPLETE :: u32 where "ANOM_INCOMPLETE = push_bit 0 1"
definition ANOM_RESET :: u32 where "ANOM_RESET = push_bit 1 1"
definition ANOM_HALF_OPEN :: u32 where "ANOM_HALF_OPEN = push_bit 2 1"
definition ANOM_QR_UNMATCHED_BIT :: u32 where "ANOM_QR_UNMATCHED_BIT = push_bit 3 1"
definition ANOM_SYN_SEEN :: u32 where "ANOM_SYN_SEEN = push_bit 4 1"
definition ANOM_FIN_SEEN :: u32 where "ANOM_FIN_SEEN = push_bit 5 1"
definition ANOM_ZERO_WIN :: u32 where "ANOM_ZERO_WIN = push_bit 6 1"
definition ANOM_RETRANS :: u32 where "ANOM_RETRANS = push_bit 7 1"
definition ANOM_SEQ_GAP :: u32 where "ANOM_SEQ_GAP = push_bit 8 1"
definition ANOM_DEGRADED :: u32 where "ANOM_DEGRADED = push_bit 9 1"
definition ANOM_CONN_QR_FLOOD :: u32 where "ANOM_CONN_QR_FLOOD = push_bit 10 1"
definition ANOM_CONN_OOO_FLOOD :: u32 where "ANOM_CONN_OOO_FLOOD = push_bit 11 1"

record conn_state =
  cs_state :: u8
  cs_client_ip :: u32
  cs_client_port :: u16
  cs_server_ip :: u32
  cs_server_port :: u16
  cs_proto :: u8
  cs_first_ts :: u64
  cs_last_ts :: u64
  cs_syn_seen :: u64
  cs_synack_seen :: u64
  cs_fin_seen :: u64
  cs_rst_seen :: u64
  cs_req_cnt :: u64
  cs_resp_cnt :: u64
  cs_bytes_c :: u64
  cs_bytes_s :: u64
  cs_pkts_c :: u64
  cs_pkts_s :: u64
  cs_abs_seq_c :: u64
  cs_abs_seq_s :: u64
  cs_consumed_ack_c :: u64
  cs_consumed_ack_s :: u64
  cs_meta_bind_id :: u64
  cs_protocol_hint :: u8
  cs_anomaly_flags :: u32
  cs_qr_open :: u64
  cs_last_raw_c :: u32
  cs_last_raw_s :: u32
  cs_incarnation :: u16
  cs_dir_flags :: u8
  cs_syn_pkt_idx :: u64

definition default_conn_state :: conn_state where
  "default_conn_state = \<lparr>cs_state = 0, cs_client_ip = 0, cs_client_port = 0, cs_server_ip = 0,
     cs_server_port = 0, cs_proto = 0, cs_first_ts = 0, cs_last_ts = 0, cs_syn_seen = 0,
     cs_synack_seen = 0, cs_fin_seen = 0, cs_rst_seen = 0, cs_req_cnt = 0, cs_resp_cnt = 0,
     cs_bytes_c = 0, cs_bytes_s = 0, cs_pkts_c = 0, cs_pkts_s = 0, cs_abs_seq_c = 0,
     cs_abs_seq_s = 0, cs_consumed_ack_c = 0, cs_consumed_ack_s = 0, cs_meta_bind_id = 0,
     cs_protocol_hint = 0, cs_anomaly_flags = 0, cs_qr_open = 0, cs_last_raw_c = 0,
     cs_last_raw_s = 0, cs_incarnation = 0, cs_dir_flags = 0, cs_syn_pkt_idx = 0\<rparr>"

definition active_c :: "conn_state \<Rightarrow> bool" where
  "active_c st \<longleftrightarrow> cs_dir_flags st AND 1 \<noteq> 0"

definition active_s :: "conn_state \<Rightarrow> bool" where
  "active_s st \<longleftrightarrow> cs_dir_flags st AND 2 \<noteq> 0"

definition set_active_c :: "bool \<Rightarrow> conn_state \<Rightarrow> conn_state" where
  "set_active_c a st =
     (if a then st\<lparr>cs_dir_flags := cs_dir_flags st OR 1\<rparr>
      else st\<lparr>cs_dir_flags := cs_dir_flags st AND NOT 1\<rparr>)"

definition set_active_s :: "bool \<Rightarrow> conn_state \<Rightarrow> conn_state" where
  "set_active_s a st =
     (if a then st\<lparr>cs_dir_flags := cs_dir_flags st OR 2\<rparr>
      else st\<lparr>cs_dir_flags := cs_dir_flags st AND NOT 2\<rparr>)"

lemma and_1_u8: "(w :: u8) AND 1 \<noteq> 0 \<longleftrightarrow> bit w 0"
  using bit_iff_and_push_bit_not_eq_0 [of w 0] by simp

lemma and_2_u8: "(w :: u8) AND 2 \<noteq> 0 \<longleftrightarrow> bit w 1"
  using bit_iff_and_push_bit_not_eq_0 [of w 1] by simp

lemma active_set [simp]:
  "active_c (set_active_c a st) = a" "active_s (set_active_s a st) = a"
  "active_s (set_active_c a st) = active_s st" "active_c (set_active_s a st) = active_c st"
  by (auto simp: active_c_def active_s_def set_active_c_def set_active_s_def and_1_u8 and_2_u8
      bit_or_iff bit_and_iff bit_not_iff bit_1_iff bit_2_iff)

section \<open>Fixed-length row\<close>

definition CONN_STATE_SIZE :: nat where "CONN_STATE_SIZE = 191"

definition conn_state_to_bytes :: "conn_state \<Rightarrow> bytes" where
  "conn_state_to_bytes st =
     [cs_state st] @ replicate 7 0 @ be32 (cs_client_ip st) @ be32 (cs_server_ip st)
       @ be16 (cs_client_port st) @ be16 (cs_server_port st) @ [cs_proto st, 0]
       @ be64 (cs_first_ts st) @ be64 (cs_last_ts st) @ be64 (cs_syn_seen st)
       @ be64 (cs_synack_seen st) @ be64 (cs_fin_seen st) @ be64 (cs_rst_seen st)
       @ be64 (cs_req_cnt st) @ be64 (cs_resp_cnt st) @ be64 (cs_bytes_c st)
       @ be64 (cs_bytes_s st) @ be64 (cs_pkts_c st) @ be64 (cs_pkts_s st)
       @ be64 (cs_abs_seq_c st) @ be64 (cs_abs_seq_s st) @ be64 (cs_consumed_ack_c st)
       @ be64 (cs_consumed_ack_s st) @ be64 (cs_meta_bind_id st) @ [cs_protocol_hint st]
       @ be32 (cs_anomaly_flags st) @ be64 (cs_qr_open st) @ be32 (cs_last_raw_c st)
       @ be32 (cs_last_raw_s st) @ be16 (cs_incarnation st) @ [cs_dir_flags st, 0]
       @ be64 (cs_syn_pkt_idx st)"

definition rd16 :: "bytes \<Rightarrow> nat \<Rightarrow> u16" where "rd16 b off = of_be16 (take 2 (drop off b))"
definition rd32 :: "bytes \<Rightarrow> nat \<Rightarrow> u32" where "rd32 b off = of_be32 (take 4 (drop off b))"
definition rd64 :: "bytes \<Rightarrow> nat \<Rightarrow> u64" where "rd64 b off = of_be64 (take 8 (drop off b))"

definition conn_state_from_bytes :: "bytes \<Rightarrow> conn_state option" where
  "conn_state_from_bytes b =
     (if length b \<noteq> CONN_STATE_SIZE then None
      else Some \<lparr>cs_state = b ! 0, cs_client_ip = rd32 b 8, cs_client_port = rd16 b 16,
        cs_server_ip = rd32 b 12, cs_server_port = rd16 b 18, cs_proto = b ! 20,
        cs_first_ts = rd64 b 22, cs_last_ts = rd64 b 30, cs_syn_seen = rd64 b 38,
        cs_synack_seen = rd64 b 46, cs_fin_seen = rd64 b 54, cs_rst_seen = rd64 b 62,
        cs_req_cnt = rd64 b 70, cs_resp_cnt = rd64 b 78, cs_bytes_c = rd64 b 86,
        cs_bytes_s = rd64 b 94, cs_pkts_c = rd64 b 102, cs_pkts_s = rd64 b 110,
        cs_abs_seq_c = rd64 b 118, cs_abs_seq_s = rd64 b 126, cs_consumed_ack_c = rd64 b 134,
        cs_consumed_ack_s = rd64 b 142, cs_meta_bind_id = rd64 b 150,
        cs_protocol_hint = b ! 158, cs_anomaly_flags = rd32 b 159, cs_qr_open = rd64 b 163,
        cs_last_raw_c = rd32 b 171, cs_last_raw_s = rd32 b 175, cs_incarnation = rd16 b 179,
        cs_dir_flags = b ! 181, cs_syn_pkt_idx = rd64 b 183\<rparr>)"

lemma length_conn_state_to_bytes [simp]: "length (conn_state_to_bytes st) = CONN_STATE_SIZE"
  by (simp add: conn_state_to_bytes_def CONN_STATE_SIZE_def)

lemma conn_state_from_to_bytes:
  "conn_state_from_bytes (conn_state_to_bytes st) = Some st"
  unfolding conn_state_from_bytes_def length_conn_state_to_bytes
  by (simp add: rd16_def rd32_def rd64_def)
    (simp add: conn_state_to_bytes_def nth_append nth_Cons')

text \<open>Writing a connection row and reading it back gives the same state.\<close>

lemma conn_state_roundtrip:
  "conn_state_from_bytes (conn_state_to_bytes st) = Some st"
  by (rule conn_state_from_to_bytes)

end
