(* ===== verification/Meta.thy ===== *)
theory Meta
  imports Complex_Main Connection
begin

text \<open>
  Protocol fingerprints and request keys (\<open>src/src/meta.rs\<close>): detection of the protocol of a first
  payload, extraction of a readable key (HTTP request line, TLS server name, DNS query name) or a
  stable pseudo key, and the registry of configured bindings.

  A function that can index out of range returns \<open>None\<close> for the panic and \<open>Some\<close> of its result
  otherwise.  The \<open>f64\<close> entropy is the real number it approximates; the one comparison made with it is
  decided exactly on the byte counts (\<open>entropy_exceeds_4\<close>).
\<close>

section \<open>Protocol kinds\<close>

datatype protocol_kind = ProtoUnknown | Http | Tls | Dns | Json | Binary

fun protocol_u8 :: "protocol_kind \<Rightarrow> u8" where
  "protocol_u8 ProtoUnknown = 0"
| "protocol_u8 Http = 1"
| "protocol_u8 Tls = 2"
| "protocol_u8 Dns = 3"
| "protocol_u8 Json = 4"
| "protocol_u8 Binary = 5"

definition protocol_from_u8 :: "u8 \<Rightarrow> protocol_kind" where
  "protocol_from_u8 v =
     (if v = 1 then Http else if v = 2 then Tls else if v = 3 then Dns else if v = 4 then Json
      else if v = 5 then Binary else ProtoUnknown)"

fun protocol_name :: "protocol_kind \<Rightarrow> string" where
  "protocol_name ProtoUnknown = ''unknown''"
| "protocol_name Http = ''http''"
| "protocol_name Tls = ''tls''"
| "protocol_name Dns = ''dns''"
| "protocol_name Json = ''json''"
| "protocol_name Binary = ''binary''"

definition ascii_lower :: "char \<Rightarrow> char" where
  "ascii_lower c = (if (of_char c :: nat) \<in> {65..90} then char_of (of_char c + 32 :: nat) else c)"

definition protocol_from_fingerprint :: "string \<Rightarrow> protocol_kind option" where
  "protocol_from_fingerprint s =
     (let s = map ascii_lower s
      in if s = ''http'' then Some Http
         else if s = ''tls'' then Some Tls
         else if s = ''dns'' then Some Dns
         else if s = ''json'' then Some Json
         else if s = ''binary'' then Some Binary
         else None)"

lemma protocol_u8_roundtrip [simp]: "protocol_from_u8 (protocol_u8 k) = k"
  by (cases k) (simp_all add: protocol_from_u8_def)

lemma protocol_name_roundtrip:
  "protocol_from_fingerprint (protocol_name k) = (if k = ProtoUnknown then None else Some k)"
  by (cases k) (simp_all add: protocol_from_fingerprint_def ascii_lower_def)

section \<open>Fingerprints\<close>

definition ENTROPY_SAMPLE :: nat where "ENTROPY_SAMPLE = 64"
definition MAGIC_MAX :: nat where "MAGIC_MAX = 4"

record fingerprint =
  fp_magic_prefix :: bytes
  fp_entropy :: real
  fp_has_fixed_header :: bool

text \<open>The byte histogram, without its zero entries.\<close>

definition byte_counts :: "bytes \<Rightarrow> nat list" where
  "byte_counts bs = map (count_list bs) (remdups bs)"

definition shannon_entropy :: "bytes \<Rightarrow> real" where
  "shannon_entropy bs =
     (if bs = [] then 0
      else - (\<Sum>c\<leftarrow>byte_counts bs. let p = real c / real (length bs) in p * log 2 p))"

definition is_tls_record :: "bytes \<Rightarrow> bool" where
  "is_tls_record b \<longleftrightarrow> 5 \<le> length b \<and> b ! 0 = 0x16 \<and> b ! 1 = 0x03"

definition is_dns_header :: "bytes \<Rightarrow> bool" where
  "is_dns_header b \<longleftrightarrow> 12 \<le> length b \<and>
     (let qd = of_be16 [b ! 4, b ! 5]; ar = of_be16 [b ! 10, b ! 11]; flags = b ! 2
      in (flags AND 0x80 \<noteq> 0 \<or> flags AND 0x01 \<noteq> 0) \<and> flags AND 0x78 = 0
         \<and> 1 \<le> qd \<and> qd \<le> 16 \<and> ar \<le> 16)"

definition fingerprint_of :: "bytes \<Rightarrow> fingerprint" where
  "fingerprint_of payload =
     \<lparr>fp_magic_prefix = take (min (length payload) MAGIC_MAX) payload,
      fp_entropy = shannon_entropy (take (min (length payload) ENTROPY_SAMPLE) payload),
      fp_has_fixed_header = is_tls_record payload \<or> is_dns_header payload\<rparr>"

definition entropy_exceeds_4 :: "bytes \<Rightarrow> bool" where
  "entropy_exceeds_4 bs \<longleftrightarrow>
     16 ^ length bs * (\<Prod>c\<leftarrow>byte_counts bs. c ^ c) < length bs ^ length bs"

section \<open>Detection\<close>

definition ascii :: "string \<Rightarrow> bytes" where
  "ascii s = map (\<lambda>c. of_nat (of_char c)) s"

definition starts_with :: "bytes \<Rightarrow> bytes \<Rightarrow> bool" where
  "starts_with m b \<longleftrightarrow> take (length m) b = m"

definition is_http_magic :: "bytes \<Rightarrow> bool" where
  "is_http_magic b \<longleftrightarrow>
     (let n = min (length b) 8
      in list_ex (\<lambda>m. starts_with (ascii m) (take n b))
           [''GET '', ''POST '', ''PUT '', ''DELETE '', ''HEAD '', ''OPTIONS '', ''PATCH '', ''TRACE ''])
     \<or> starts_with (ascii ''HTTP/1.'') b"

definition detect_protocol :: "bytes \<Rightarrow> u16 \<Rightarrow> protocol_kind" where
  "detect_protocol payload dst_port =
     (if is_tls_record payload then Tls
      else if is_http_magic payload then Http
      else if is_dns_header payload then Dns
      else if payload \<noteq> [] \<and> hd payload = 0x7B then Json
      else if dst_port = 443 \<or> dst_port = 8443 then Tls
      else if dst_port = 53 then Dns
      else if dst_port = 80 \<or> dst_port = 8080 then Http
      else if 16 \<le> length payload \<and> entropy_exceeds_4 payload then Binary
      else ProtoUnknown)"

section \<open>Request keys\<close>

record extracted_key =
  ek_key :: bytes
  ek_pseudo :: bool

definition pseudo_key :: "bytes \<Rightarrow> extracted_key" where
  "pseudo_key payload =
     (let seed = take (min (length payload) MAGIC_MAX) payload
                 @ take (min (length payload) ENTROPY_SAMPLE) payload
      in \<lparr>ek_key = be64 (fnv1a64 seed), ek_pseudo = True\<rparr>)"

definition http_request_line :: "bytes \<Rightarrow> bytes option" where
  "http_request_line payload =
     (let line = takeWhile (\<lambda>b. b \<noteq> 10) payload;
          line = (if line \<noteq> [] \<and> last line = 13 then butlast line else line);
          n = min (length line) 256
      in if n = 0 then None else Some (take n line))"

text \<open>The loop over the extensions: \<open>e\<close> is the cursor, \<open>stop\<close> is \<open>o + ext_total\<close>.\<close>

function sni_extensions :: "bytes \<Rightarrow> nat \<Rightarrow> nat \<Rightarrow> bytes option" where
  "sni_extensions body stop e =
     (if e + 4 \<le> stop then
        do {
          etype \<leftarrow> slice_get body e (e + 2);
          elen \<leftarrow> slice_get body (e + 2) (e + 4);
          let elen = unat (of_be16 elen);
          let e = e + 4;
          if of_be16 etype = 0 then
            do {
              data \<leftarrow> slice_get body e (e + elen);
              name_type \<leftarrow> byte_get data 2;
              name_len \<leftarrow> slice_get data 3 5;
              if name_type = 0 then
                do {
                  name \<leftarrow> slice_get data 5 (5 + unat (of_be16 name_len));
                  if name \<noteq> [] then Some name else sni_extensions body stop (e + elen)
                }
              else sni_extensions body stop (e + elen)
            }
          else sni_extensions body stop (e + elen)
        }
      else None)"
  by pat_completeness auto

termination
  by (relation "measure (\<lambda>(body, stop, e). stop - e)") auto

declare sni_extensions.simps [simp del]

text \<open>\<open>tls_sni\<close>, with the outer \<open>None\<close> for the index panic of \<open>hs[1]\<close>, \<open>hs[2]\<close>, \<open>hs[3]\<close>.\<close>

definition tls_sni_body :: "bytes \<Rightarrow> nat \<Rightarrow> bytes option" where
  "tls_sni_body hs hs_len =
     do {
       body \<leftarrow> slice_get hs 4 (4 + hs_len);
       version \<leftarrow> slice_get body 0 2;
       if version ! 0 \<noteq> 0x03 then None
       else do {
         let off = 2 + 32;
         sid_len \<leftarrow> byte_get body off;
         let off = off + (1 + unat sid_len);
         cs_len \<leftarrow> slice_get body off (off + 2);
         let off = off + (2 + unat (of_be16 cs_len));
         cm_len \<leftarrow> byte_get body off;
         let off = off + (1 + unat cm_len);
         ext_total \<leftarrow> slice_get body off (off + 2);
         let off = off + 2;
         sni_extensions body (off + unat (of_be16 ext_total)) off
       }
     }"

definition tls_sni :: "bytes \<Rightarrow> bytes option option" where
  "tls_sni payload =
     (if length payload < 5 then Some None
      else let hs = drop 5 payload
           in if length hs < 4 then None
              else Some (tls_sni_body hs
                (unat (hs ! 1) * 2 ^ 16 + unat (hs ! 2) * 2 ^ 8 + unat (hs ! 3))))"

function dns_labels :: "bytes \<Rightarrow> nat \<Rightarrow> bytes \<Rightarrow> bytes option" where
  "dns_labels payload off out =
     do {
       l \<leftarrow> byte_get payload off;
       if l = 0 then Some out
       else if l AND 0xC0 = 0xC0 then None
       else if 63 < l then None
       else do {
         label \<leftarrow> slice_get payload (off + 1) (off + 1 + unat l);
         let out = (if out \<noteq> [] then out @ [46] else out) @ label;
         let off = off + (1 + unat l);
         if 255 < length out then None else dns_labels payload off out
       }
     }"
  by pat_completeness auto

termination
  by (relation "measure (\<lambda>(payload, off, out). length payload - off)")
    (auto simp: byte_get_def split: if_splits)

declare dns_labels.simps [simp del]

definition dns_qname :: "bytes \<Rightarrow> bytes option" where
  "dns_qname payload =
     (if \<not> is_dns_header payload \<or> length payload < 12 then None
      else do { out \<leftarrow> dns_labels payload 12 []; if out = [] then None else Some out })"

text \<open>\<open>match f(payload) { Some(k) => \<dots> pseudo: false, None => pseudo_key(payload) }\<close>.\<close>

definition key_or_pseudo :: "bytes \<Rightarrow> bytes option \<Rightarrow> extracted_key" where
  "key_or_pseudo payload k =
     (case k of Some k \<Rightarrow> \<lparr>ek_key = k, ek_pseudo = False\<rparr> | None \<Rightarrow> pseudo_key payload)"

fun extract_key :: "bytes \<Rightarrow> protocol_kind \<Rightarrow> extracted_key option" where
  "extract_key payload Http = Some (key_or_pseudo payload (http_request_line payload))"
| "extract_key payload Tls = do { k \<leftarrow> tls_sni payload; Some (key_or_pseudo payload k) }"
| "extract_key payload Dns = Some (key_or_pseudo payload (dns_qname payload))"
| "extract_key payload _ = Some (pseudo_key payload)"

section \<open>Registry\<close>

record meta_bind =
  mb_name :: string
  mb_proto :: u8
  mb_dst_port :: u16
  mb_fingerprint :: string
  mb_extractor :: string

record meta_bind_rule =
  mr_id :: u64
  mr_name :: string
  mr_proto :: u8
  mr_dst_port :: u16
  mr_fingerprint :: "protocol_kind option"
  mr_extractor :: "string option"

type_synonym meta_registry = "meta_bind_rule list"

record bind_result =
  br_meta_bind_id :: u64
  br_protocol_hint :: u8
  br_key :: bytes
  br_pseudo :: bool

record ext_meta_event =
  em_conn_hash :: u64
  em_protocol_hint :: u8
  em_dst_port :: u16
  em_magic_prefix :: bytes
  em_entropy :: real
  em_has_fixed_header :: bool

definition registry_from_binds :: "meta_bind list \<Rightarrow> meta_registry" where
  "registry_from_binds binds =
     map (\<lambda>(i, b). \<lparr>mr_id = of_nat i + 1, mr_name = mb_name b, mr_proto = mb_proto b,
       mr_dst_port = mb_dst_port b, mr_fingerprint = protocol_from_fingerprint (mb_fingerprint b),
       mr_extractor = (if mb_extractor b \<noteq> [] then Some (mb_extractor b) else None)\<rparr>)
     (List.enumerate 0 binds)"

definition set_rule_id :: "nat \<Rightarrow> u64 \<Rightarrow> meta_registry \<Rightarrow> meta_registry" where
  "set_rule_id idx new_id rules =
     (if idx < length rules then rules[idx := (rules ! idx)\<lparr>mr_id := new_id\<rparr>] else rules)"

definition resolve :: "meta_registry \<Rightarrow> u8 \<Rightarrow> u16 \<Rightarrow> meta_bind_rule option" where
  "resolve rules proto dst_port = find (\<lambda>r. mr_proto r = proto \<and> mr_dst_port r = dst_port) rules"

definition bind_and_extract :: "meta_registry \<Rightarrow> bytes \<Rightarrow> u8 \<Rightarrow> u16 \<Rightarrow> bind_result option" where
  "bind_and_extract rules payload proto dst_port =
     (case resolve rules proto dst_port of
        Some rule \<Rightarrow>
          do {
            let kind = (case mr_fingerprint rule of
                          Some k \<Rightarrow> k | None \<Rightarrow> detect_protocol payload dst_port);
            k \<leftarrow> extract_key payload kind;
            Some \<lparr>br_meta_bind_id = mr_id rule, br_protocol_hint = protocol_u8 kind,
              br_key = ek_key k, br_pseudo = ek_pseudo k\<rparr>
          }
      | None \<Rightarrow>
          do {
            let kind = detect_protocol payload dst_port;
            k \<leftarrow> extract_key payload kind;
            Some \<lparr>br_meta_bind_id = - 1, br_protocol_hint = protocol_u8 kind,
              br_key = ek_key k, br_pseudo = ek_pseudo k\<rparr>
          })"

end
