(* ===== verification/Meta_Facts.thy ===== *)
theory Meta_Facts
  imports Meta
begin

text \<open>
  Correctness of fingerprinting and key extraction: where the TLS parser can panic, that it finds
  the server name of every well-formed ClientHello, that DNS names are read back, that pseudo keys
  depend on the signature only, and that the integer test of the entropy threshold is exact.
\<close>

section \<open>Panics\<close>

text \<open>C25: key extraction panics exactly for payloads of five to eight bytes taken for TLS, whatever
  the bytes are; \<open>detect_protocol\<close> takes every short payload to port 443 or 8443 for TLS.\<close>

theorem extract_key_panics_iff:
  "extract_key payload kind = None \<longleftrightarrow> kind = Tls \<and> 5 \<le> length payload \<and> length payload \<le> 8"
  by (cases kind) (auto simp: tls_sni_def Let_def)

lemma bind_and_extract_panics:
  "bind_and_extract [] (ascii ''hello'') 6 443 = None"
  by (simp add: bind_and_extract_def resolve_def ascii_def detect_protocol_def is_tls_record_def
      is_http_magic_def starts_with_def is_dns_header_def tls_sni_def)

section \<open>TLS server name\<close>

definition tls_ext :: "u16 \<Rightarrow> bytes \<Rightarrow> bytes" where
  "tls_ext t d = be16 t @ be16 (of_nat (length d)) @ d"

definition server_name_data :: "u16 \<Rightarrow> bytes \<Rightarrow> bytes" where
  "server_name_data list_len name = be16 list_len @ 0 # be16 (of_nat (length name)) @ name"

text \<open>The extensions of a ClientHello: \<open>before\<close> the server name, and anything after it.\<close>

definition hello_extensions :: "(u16 \<times> bytes) list \<Rightarrow> u16 \<Rightarrow> bytes \<Rightarrow> bytes \<Rightarrow> bytes" where
  "hello_extensions before list_len name after =
     concat (map (\<lambda>(t, d). tls_ext t d) before) @ tls_ext 0 (server_name_data list_len name) @ after"

definition hello_body :: "u8 \<Rightarrow> bytes \<Rightarrow> bytes \<Rightarrow> bytes \<Rightarrow> bytes \<Rightarrow> bytes \<Rightarrow> bytes" where
  "hello_body minor random sid cs cm exts =
     [0x03, minor] @ random @ of_nat (length sid) # sid @ be16 (of_nat (length cs)) @ cs
       @ of_nat (length cm) # cm @ be16 (of_nat (length exts)) @ exts"

definition client_hello :: "bytes \<Rightarrow> bytes \<Rightarrow> bytes" where
  "client_hello record_header body = record_header @ 1 # be_enc 3 (length body) @ body"

lemma slice_get_rest:
  "rest b off (x @ r) \<Longrightarrow> j = off + length x \<Longrightarrow> slice_get b off j = Some x"
  using rest_slice by simp

lemma byte_get_rest: "rest b off (x # r) \<Longrightarrow> byte_get b off = Some x \<and> rest b (off + 1) r"
  using take_u8_rest [of b off x r] by (auto simp: take_u8_def split: Option.bind_splits)

lemma unat_of_nat_u16: "n < 65536 \<Longrightarrow> unat (of_nat n :: u16) = n"
  by (simp add: unat_of_nat)

lemma tls_ext_rest:
  assumes "rest b e (tls_ext t d @ r)" "length d < 65536"
  shows "slice_get b e (e + 2) = Some (be16 t)"
    and "slice_get b (e + 2) (e + 4) = Some (be16 (of_nat (length d)))"
    and "rest b (e + 4) (d @ r)" and "slice_get b (e + 4) (e + 4 + length d) = Some d"
    and "rest b (e + 4 + length d) r"
proof -
  have 1: "rest b e (be16 t @ be16 (of_nat (length d)) @ d @ r)"
    using assms(1) by (simp add: tls_ext_def)
  from rest_append [OF 1] have 2: "rest b (e + 2) (be16 (of_nat (length d)) @ d @ r)" by simp
  from rest_append [OF 2] have 3: "rest b (e + 4) (d @ r)" by (simp add: numeral_eq_Suc)
  show "slice_get b e (e + 2) = Some (be16 t)" by (rule slice_get_rest [OF 1]) simp
  show "slice_get b (e + 2) (e + 4) = Some (be16 (of_nat (length d)))"
    by (rule slice_get_rest [OF 2]) simp
  show "rest b (e + 4) (d @ r)" by (rule 3)
  show "slice_get b (e + 4) (e + 4 + length d) = Some d" by (rule slice_get_rest [OF 3]) simp
  show "rest b (e + 4 + length d) r" by (rule rest_append [OF 3])
qed

lemma sni_skip:
  assumes "rest b e (tls_ext t d @ r)" "length d < 65536" "t \<noteq> 0" "e + 4 \<le> stop"
  shows "sni_extensions b stop e = sni_extensions b stop (e + 4 + length d)"
  using assms(3,4) tls_ext_rest(1,2) [OF assms(1,2)]
  by (subst sni_extensions.simps) (simp add: Let_def unat_of_nat_u16 [OF assms(2)])

lemma sni_hit:
  assumes "rest b e (tls_ext 0 (server_name_data ll name) @ r)" "name \<noteq> []"
    "length name + 5 < 65536" "e + 4 \<le> stop"
  shows "sni_extensions b stop e = Some name"
proof -
  let ?d = "server_name_data ll name"
  have len: "length ?d < 65536" using assms(3) by (simp add: server_name_data_def)
  note x = tls_ext_rest [OF assms(1) len]
  have 0: "rest ?d 0 (be16 ll @ 0 # be16 (of_nat (length name)) @ name)"
    using rest_start [of ?d] by (simp add: server_name_data_def)
  from rest_append [OF 0] have 1: "rest ?d 2 (0 # be16 (of_nat (length name)) @ name)"
    by (simp add: numeral_2_eq_2)
  from byte_get_rest [OF 1] have 2: "byte_get ?d 2 = Some 0"
    "rest ?d 3 (be16 (of_nat (length name)) @ name)" by simp_all
  from rest_append [OF 2(2)] have 3: "rest ?d 5 (name @ [])" by simp
  have "slice_get ?d 3 5 = Some (be16 (of_nat (length name)))"
    by (rule slice_get_rest [OF 2(2)]) simp
  moreover have "slice_get ?d 5 (5 + length name) = Some name"
    by (rule slice_get_rest [OF 3]) simp
  moreover have "unat (of_nat (length name) :: u16) = length name"
    using assms(3) by (simp add: unat_of_nat_u16)
  ultimately show ?thesis
    using x assms(2,4) 2(1)
    by (subst sni_extensions.simps) (simp add: Let_def unat_of_nat_u16 [OF len])
qed

lemma sni_extensions_finds:
  "rest b e (hello_extensions before ll name after @ r) \<Longrightarrow>
   \<forall>(t, d) \<in> set before. t \<noteq> 0 \<and> length d < 65536 \<Longrightarrow> name \<noteq> [] \<Longrightarrow>
   length name + 5 < 65536 \<Longrightarrow> e + length (hello_extensions before ll name after) \<le> stop \<Longrightarrow>
   sni_extensions b stop e = Some name"
proof (induction before arbitrary: e)
  case Nil
  then show ?case
    by (intro sni_hit [of b e ll name "after @ r"]) (auto simp: hello_extensions_def tls_ext_def)
next
  case (Cons p before)
  obtain t d where p: "p = (t, d)" by (cases p)
  let ?r = "hello_extensions before ll name after @ r"
  have r: "rest b e (tls_ext t d @ ?r)" using Cons.prems(1) p by (simp add: hello_extensions_def)
  have d: "t \<noteq> 0" "length d < 65536" using Cons.prems(2) p by auto
  have le: "e + 4 + length d + length (hello_extensions before ll name after) \<le> stop"
    using Cons.prems(5) p by (simp add: hello_extensions_def tls_ext_def)
  have "sni_extensions b stop e = sni_extensions b stop (e + 4 + length d)"
    using le by (intro sni_skip [OF r d(2,1)]) simp
  also have "\<dots> = Some name"
    using Cons.IH [OF tls_ext_rest(5) [OF r d(2)]] Cons.prems(2,3,4) le by simp
  finally show ?case .
qed

lemma be_enc3: "be_enc 3 n = [of_nat (n div 65536), of_nat (n div 256), of_nat n]"
  by (simp add: numeral_3_eq_3)

lemma hello_length_bytes:
  assumes "n < 2 ^ 24"
  shows "unat (of_nat (n div 65536) :: u8) * 2 ^ 16 + unat (of_nat (n div 256) :: u8) * 2 ^ 8
    + unat (of_nat n :: u8) = n"
proof -
  have "n div 65536 < 256" using assms by (simp add: less_mult_imp_div_less)
  then have "unat (of_nat (n div 65536) :: u8) = n div 65536" by (simp add: unat_of_nat)
  moreover have "unat (of_nat (n div 256) :: u8) = n div 256 mod 256"
    and "unat (of_nat n :: u8) = n mod 256" by (simp_all add: unat_of_nat)
  moreover have "n div 65536 = n div 256 div 256" by (simp flip: div_mult2_eq)
  moreover have "a div 256 div 256 * 65536 + a div 256 mod 256 * 256 + a mod 256 = a" for a :: nat
    using div_mult_mod_eq [of a 256] div_mult_mod_eq [of "a div 256" 256] by linarith
  ultimately show ?thesis by simp
qed

text \<open>C26: the server name of every well-formed ClientHello is found, whatever the lengths of the
  session id, the cipher suites, the compression methods and the other extensions are.\<close>

theorem tls_sni_finds:
  assumes "length header = 5" "length random = 32" "length sid < 256" "length cs < 65536"
    "length cm < 256" "\<forall>(t, d) \<in> set before. t \<noteq> 0 \<and> length d < 65536" "name \<noteq> []"
    "length name + 5 < 65536" "length (hello_extensions before ll name after) < 65536"
  shows "tls_sni (client_hello header
    (hello_body minor random sid cs cm (hello_extensions before ll name after))) = Some (Some name)"
proof -
  let ?x = "hello_extensions before ll name after"
  let ?b = "hello_body minor random sid cs cm ?x"
  let ?hs = "1 # be_enc 3 (length ?b) @ ?b"
  have u8: "unat (of_nat n :: u8) = n" if "n < 256" for n using that by (simp add: unat_of_nat)
  have lb: "length ?b < 2 ^ 24" using assms(2-5,9) by (simp add: hello_body_def)
  have hs: "rest ?hs 4 (?b @ [])"
    using rest_append [of ?hs 0 "1 # be_enc 3 (length ?b)" ?b] rest_start [of ?hs] by simp
  have 0: "rest ?b 0 ([3, minor] @ random @ of_nat (length sid) # sid @ be16 (of_nat (length cs)) @ cs
       @ of_nat (length cm) # cm @ be16 (of_nat (length ?x)) @ ?x)"
    using rest_start [of ?b] by (simp add: hello_body_def)
  let ?o0 = "2 + 32 :: nat"
  let ?o1 = "?o0 + (1 + length sid)"
  let ?o2 = "?o1 + (2 + length cs)"
  let ?o3 = "?o2 + (1 + length cm)"
  have v: "slice_get ?b 0 2 = Some [3, minor]" by (rule slice_get_rest [OF 0]) simp
  have "rest ?b ?o0 (of_nat (length sid) # sid @ be16 (of_nat (length cs)) @ cs
       @ of_nat (length cm) # cm @ be16 (of_nat (length ?x)) @ ?x)"
    using rest_append [OF rest_append [OF 0]] assms(2) by (simp add: numeral_2_eq_2)
  from byte_get_rest [OF this] have 1: "byte_get ?b ?o0 = Some (of_nat (length sid))"
    and "rest ?b (?o0 + 1) (sid @ be16 (of_nat (length cs)) @ cs
       @ of_nat (length cm) # cm @ be16 (of_nat (length ?x)) @ ?x)" by blast+
  from rest_append [OF this(2)] have r1: "rest ?b ?o1 (be16 (of_nat (length cs)) @ cs
       @ of_nat (length cm) # cm @ be16 (of_nat (length ?x)) @ ?x)" by (simp only: add.assoc)
  have 2: "slice_get ?b ?o1 (?o1 + 2) = Some (be16 (of_nat (length cs)))"
    by (rule slice_get_rest [OF r1]) simp
  have "rest ?b ?o2 (of_nat (length cm) # cm @ be16 (of_nat (length ?x)) @ ?x)"
    using rest_append [OF rest_append [OF r1]] by (simp only: length_be add.assoc)
  from byte_get_rest [OF this] have 3: "byte_get ?b ?o2 = Some (of_nat (length cm))"
    and "rest ?b (?o2 + 1) (cm @ be16 (of_nat (length ?x)) @ ?x)" by blast+
  from rest_append [OF this(2)] have r3: "rest ?b ?o3 (be16 (of_nat (length ?x)) @ ?x)"
    by (simp only: add.assoc)
  have 4: "slice_get ?b ?o3 (?o3 + 2) = Some (be16 (of_nat (length ?x)))"
    by (rule slice_get_rest [OF r3]) simp
  have r: "rest ?b (?o3 + 2) (?x @ [])" using rest_append [OF r3] by (simp only: length_be append_Nil2)
  have 5: "sni_extensions ?b (?o3 + 2 + length ?x) (?o3 + 2) = Some name"
    by (rule sni_extensions_finds [OF r assms(6-8)]) simp
  have 6: "slice_get ?hs 4 (4 + length ?b) = Some ?b" by (rule slice_get_rest [OF hs]) simp
  have "tls_sni_body ?hs (length ?b) = Some name"
    unfolding tls_sni_body_def Let_def
    by (simp only: 6 v 1 2 3 4 5 Option.bind.bind_lunit u8 [OF assms(3)] u8 [OF assms(5)]
        unat_of_nat_u16 [OF assms(4)] unat_of_nat_u16 [OF assms(9)] of_be_be nth_Cons_0 simp_thms
        if_False)
  then show ?thesis
    using assms(1) hello_length_bytes [OF lb]
    by (simp add: tls_sni_def client_hello_def be_enc3)
qed

theorem tls_sni_finds_witness:
  "tls_sni (client_hello [0x16, 3, 1, 0, 80] (hello_body 3 (replicate 32 7) [] [0x13, 1] [0]
     (hello_extensions [(10, [0, 2, 0, 29])] 9 (ascii ''a.test'') []))) = Some (Some (ascii ''a.test''))"
  by (rule tls_sni_finds)
    (simp_all add: hello_extensions_def tls_ext_def server_name_data_def ascii_def)

section \<open>DNS names\<close>

text \<open>The labels of a query name on the wire, and the dotted name.\<close>

fun dns_wire :: "bytes list \<Rightarrow> bytes" where
  "dns_wire [] = [0]"
| "dns_wire (l # ls) = of_nat (length l) # l @ dns_wire ls"

fun dotted :: "bytes \<Rightarrow> bytes list \<Rightarrow> bytes" where
  "dotted out [] = out"
| "dotted out (l # ls) = dotted ((if out \<noteq> [] then out @ [46] else out) @ l) ls"

definition dns_label_ok :: "bytes \<Rightarrow> bool" where
  "dns_label_ok l \<longleftrightarrow> 1 \<le> length l \<and> length l \<le> 63"

lemma length_dotted_ge: "length out \<le> length (dotted out ls)"
proof (induction ls arbitrary: out)
  case (Cons l ls)
  have "length out \<le> length ((if out \<noteq> [] then out @ [46] else out) @ l)" by simp
  also have "\<dots> \<le> length (dotted ((if out \<noteq> [] then out @ [46] else out) @ l) ls)" by (rule Cons.IH)
  finally show ?case by simp
qed simp

lemma unat_bit: "bit (unat (w :: u8)) n \<longleftrightarrow> bit w n"
  by (simp add: bit_unsigned_iff)

lemma small_label_byte:
  assumes "1 \<le> n" "n \<le> 63"
  shows "unat (of_nat n :: u8) = n" "(of_nat n :: u8) \<noteq> 0" "(of_nat n :: u8) AND 0xC0 \<noteq> 0xC0"
    "\<not> 63 < (of_nat n :: u8)"
proof -
  show u: "unat (of_nat n :: u8) = n" using assms by (simp add: unat_of_nat)
  then show "(of_nat n :: u8) \<noteq> 0" using assms by auto
  show "\<not> 63 < (of_nat n :: u8)" using u assms by (simp add: word_less_nat_alt)
  have "\<not> bit n 7" using assms by (simp add: bit_iff_odd)
  then have "\<not> bit (of_nat n :: u8) 7" using unat_bit [of "of_nat n" 7] unfolding u by blast
  then have "\<not> bit ((of_nat n :: u8) AND 0xC0) 7" by (simp add: bit_and_iff)
  moreover have "bit (0xC0 :: u8) 7" by simp
  ultimately show "(of_nat n :: u8) AND 0xC0 \<noteq> 0xC0" by metis
qed

lemma dns_labels_wire:
  "rest payload off (dns_wire ls @ r) \<Longrightarrow> list_all dns_label_ok ls \<Longrightarrow>
   length (dotted out ls) \<le> 255 \<Longrightarrow> dns_labels payload off out = Some (dotted out ls)"
proof (induction ls arbitrary: off out)
  case Nil
  then have "byte_get payload off = Some 0" using byte_get_rest by fastforce
  then show ?case by (subst dns_labels.simps) simp
next
  case (Cons l ls)
  have n: "1 \<le> length l" "length l \<le> 63" using Cons.prems(2) by (auto simp: dns_label_ok_def)
  from Cons.prems(1) have "rest payload off (of_nat (length l) # l @ dns_wire ls @ r)" by simp
  from byte_get_rest [OF this] have b: "byte_get payload off = Some (of_nat (length l))"
    "rest payload (off + 1) (l @ dns_wire ls @ r)" by blast+
  have s: "slice_get payload (off + 1) (off + 1 + length l) = Some l"
    by (rule slice_get_rest [OF b(2) refl])
  let ?out = "(if out \<noteq> [] then out @ [46] else out) @ l"
  have "length ?out \<le> 255" using Cons.prems(3) length_dotted_ge [of ?out ls] by simp
  moreover have "dns_labels payload (off + 1 + length l) ?out = Some (dotted ?out ls)"
    using Cons.IH [OF rest_append [OF b(2)]] Cons.prems by simp
  ultimately show ?case
    using b(1) s small_label_byte [OF n]
    by (subst dns_labels.simps) (simp add: Let_def add.assoc)
qed

text \<open>C27: the query name of a DNS packet is read back from its labels; a name that is longer than 255
  bytes is never returned.\<close>

theorem dns_qname_reads_labels:
  assumes "is_dns_header (header @ dns_wire ls @ tail)" "length header = 12"
    "list_all dns_label_ok ls" "ls \<noteq> []" "length (dotted [] ls) \<le> 255"
  shows "dns_qname (header @ dns_wire ls @ tail) = Some (dotted [] ls)"
proof -
  let ?p = "header @ dns_wire ls @ tail"
  have "rest ?p 12 (dns_wire ls @ tail)"
    using rest_append [OF rest_start [of ?p]] assms(2) by simp
  then have "dns_labels ?p 12 [] = Some (dotted [] ls)"
    by (rule dns_labels_wire [OF _ assms(3,5)])
  moreover have "dotted [] ls \<noteq> []"
    using assms(3,4) length_dotted_ge [of "hd ls" "tl ls"] by (cases ls) (auto simp: dns_label_ok_def)
  ultimately show ?thesis using assms(1) by (simp add: dns_qname_def is_dns_header_def)
qed

theorem dns_qname_reads_labels_witness:
  "dns_qname ([0x12, 0x34, 1, 0, 0, 1, 0, 0, 0, 0, 0, 0] @ dns_wire [ascii ''ab'', ascii ''c''] @ [0, 1, 0, 1]) =
     Some (ascii ''ab.c'')"
  using dns_qname_reads_labels [of "[0x12, 0x34, 1, 0, 0, 1, 0, 0, 0, 0, 0, 0]"
      "[ascii ''ab'', ascii ''c'']" "[0, 1, 0, 1]"]
  by (simp add: is_dns_header_def of_be16_def ascii_def dns_label_ok_def)

section \<open>Readable and pseudo keys\<close>

text \<open>A key is readable (not pseudo) only if it is non-empty, and a readable HTTP key is at most
  256 bytes of the first line.\<close>

lemma http_key_is_first_line:
  assumes "http_request_line payload = Some k"
  shows "k \<noteq> [] \<and> length k \<le> 256 \<and> 10 \<notin> set k \<and> take (length k) payload = k"
proof -
  let ?l = "takeWhile (\<lambda>b. b \<noteq> 10) payload"
  let ?s = "if ?l \<noteq> [] \<and> last ?l = 13 then butlast ?l else ?l"
  have k: "k = take (min (length ?s) 256) ?s" "?s \<noteq> []"
    using assms by (auto simp: http_request_line_def Let_def split: if_splits)
  define l where "l = ?l"
  have "\<exists>n. l = take n payload" unfolding l_def using takeWhile_eq_take by blast
  moreover have "\<exists>n. ?s = take n l" unfolding l_def [symmetric]
    by (metis butlast_conv_take take_all order_refl)
  ultimately have "\<exists>n. ?s = take n payload" unfolding l_def [symmetric] by (metis take_take)
  then obtain m where m: "?s = take m payload" by blast
  have "k = take (min (min (length ?s) 256) m) payload" using k(1) unfolding m take_take .
  then obtain q where "k = take q payload" by blast
  then have p: "take (length k) payload = k" by (simp add: min_def)
  have "set k \<subseteq> set ?l" using k(1) by (auto dest!: in_set_takeD in_set_butlastD split: if_splits)
  then have "10 \<notin> set k" using set_takeWhileD by fastforce
  with k p show ?thesis by (auto simp: min_def split: if_splits)
qed

theorem http_key_is_first_line_witness:
  "take 3 (ascii ''GET'' @ [13, 10, 65]) = ascii ''GET'' \<and> 10 \<notin> set (ascii ''GET'')"
  using http_key_is_first_line [of "ascii ''GET'' @ [13, 10, 65]" "ascii ''GET''"]
  by (simp add: http_request_line_def ascii_def Let_def)

text \<open>A pseudo key is eight bytes and depends on the first 64 bytes of the payload only, so
  payloads of the same signature share their key.\<close>

lemma pseudo_key_stable:
  "length (ek_key (pseudo_key payload)) = 8 \<and> ek_pseudo (pseudo_key payload) \<and>
   pseudo_key payload = pseudo_key (take 64 payload)"
  by (simp add: pseudo_key_def MAGIC_MAX_def ENTROPY_SAMPLE_def min_def)

section \<open>The entropy threshold\<close>

lemma byte_counts_sum: "sum_list (byte_counts bs) = length bs"
proof -
  have "sum_list (byte_counts bs) = sum (count_list bs) (set bs)"
    by (simp add: byte_counts_def sum_list_distinct_conv_sum_set)
  also have "\<dots> = length bs" by (rule sum_count_set) auto
  finally show ?thesis .
qed

lemma byte_counts_pos: "c \<in> set (byte_counts bs) \<Longrightarrow> 0 < c"
  by (auto simp: byte_counts_def) (metis count_list_0_iff gr0I)

lemma entropy_sum:
  assumes "0 < n" "\<forall>c\<in>set cs. 0 < c"
  shows "(\<Sum>c\<leftarrow>cs. let p = real c / n in p * log 2 p) =
    ((\<Sum>c\<leftarrow>cs. real c * log 2 (real c)) - real (sum_list cs) * log 2 n) / n"
  using assms(2)
proof (induction cs)
  case (Cons c cs)
  have "real c / n * log 2 (real c / n) = (real c * log 2 (real c) - real c * log 2 n) / n"
    using Cons.prems assms(1) by (simp add: log_divide field_simps)
  with Cons show ?case by (simp add: Let_def add_divide_distrib diff_divide_distrib ring_distribs)
qed simp

lemma log_prod_powers:
  "\<forall>c\<in>set cs. 0 < c \<Longrightarrow>
   0 < (\<Prod>c\<leftarrow>cs. c ^ c) \<and> log 2 (real (\<Prod>c\<leftarrow>cs. c ^ c)) = (\<Sum>c\<leftarrow>cs. real c * log 2 (real c))"
proof (induction cs)
  case (Cons c cs)
  then show ?case by (simp add: log_mult log_nat_power)
qed simp

text \<open>The entropy test of \<open>detect_protocol\<close> is exact on integers: more than four bits per byte
  means \<open>16 ^ n * (product of c ^ c) < n ^ n\<close> for the byte counts \<open>c\<close> of the \<open>n\<close> bytes.\<close>

lemma entropy_exceeds_4_iff: "entropy_exceeds_4 bs \<longleftrightarrow> 4 < shannon_entropy bs"
proof (cases "bs = []")
  case True
  then show ?thesis by (simp add: entropy_exceeds_4_def shannon_entropy_def byte_counts_def)
next
  case False
  let ?n = "length bs" and ?cs = "byte_counts bs"
  let ?P = "\<Prod>c\<leftarrow>?cs. c ^ c"
  have n: "0 < ?n" using False by simp
  have pos: "\<forall>c\<in>set ?cs. 0 < c" using byte_counts_pos by blast
  note P = log_prod_powers [OF pos]
  have pp: "0 < 16 ^ ?n * ?P" "0 < ?n ^ ?n" using n P by (auto intro: mult_pos_pos)
  have "shannon_entropy bs = - (((\<Sum>c\<leftarrow>?cs. real c * log 2 (real c)) - real ?n * log 2 (real ?n)) / real ?n)"
    using False entropy_sum [of "real ?n" ?cs] n pos by (simp add: shannon_entropy_def byte_counts_sum)
  also have "\<dots> = (real ?n * log 2 (real ?n) - log 2 (real ?P)) / real ?n"
    using P by (simp add: diff_divide_distrib)
  finally have h: "shannon_entropy bs = (real ?n * log 2 (real ?n) - log 2 (real ?P)) / real ?n" .
  have "4 < shannon_entropy bs \<longleftrightarrow> 4 * real ?n + log 2 (real ?P) < real ?n * log 2 (real ?n)"
    unfolding h using n by (simp add: pos_less_divide_eq less_diff_eq)
  also have "4 * real ?n + log 2 (real ?P) = log 2 (real (16 ^ ?n * ?P))"
  proof -
    have "log 2 ((16 :: real) ^ ?n) = real ?n * log 2 (2 ^ 4)" by (simp add: log_nat_power)
    also have "\<dots> = 4 * real ?n" by (simp only: log_nat_power) simp
    finally show ?thesis using P by (simp add: log_mult)
  qed
  also have "real ?n * log 2 (real ?n) = log 2 (real (?n ^ ?n))"
    using n by (simp add: log_nat_power)
  also have "log 2 (real (16 ^ ?n * ?P)) < log 2 (real (?n ^ ?n)) \<longleftrightarrow> 16 ^ ?n * ?P < ?n ^ ?n"
    using log_less_cancel_iff [of 2 "real (16 ^ ?n * ?P)" "real (?n ^ ?n)"] pp
    by (simp only: of_nat_0_less_iff of_nat_less_iff)
  finally show ?thesis by (simp add: entropy_exceeds_4_def)
qed

end
