(* ===== verification/Maps.thy ===== *)
theory Maps
  imports Prelude "HOL-Library.AList"
begin

text \<open>
  The containers of the Rust standard library that the program iterates over.  A \<open>HashMap\<close> is an
  association list updated in place (\<open>AList.update\<close>), in an iteration order no theorem depends
  on; a \<open>BTreeMap\<close> is an association list kept sorted by key.  The lemmas describe lookups by
  \<open>map_of\<close> and how sums over the entries move when one entry changes.
\<close>

section \<open>BTreeMap\<close>

fun bt_insert :: "'k::linorder \<Rightarrow> 'v \<Rightarrow> ('k \<times> 'v) list \<Rightarrow> ('k \<times> 'v) list" where
  "bt_insert k v [] = [(k, v)]"
| "bt_insert k v ((k', v') # xs) =
     (if k < k' then (k, v) # (k', v') # xs
      else if k = k' then (k, v) # xs
      else (k', v') # bt_insert k v xs)"

definition bt_remove :: "'k \<Rightarrow> ('k \<times> 'v) list \<Rightarrow> ('k \<times> 'v) list" where
  "bt_remove k xs = filter (\<lambda>e. fst e \<noteq> k) xs"

abbreviation bt_sorted :: "('k::linorder \<times> 'v) list \<Rightarrow> bool" where
  "bt_sorted xs \<equiv> sorted_wrt (<) (map fst xs)"

lemma map_of_bt_insert [simp]: "map_of (bt_insert k v xs) = (map_of xs)(k \<mapsto> v)"
  by (induction k v xs rule: bt_insert.induct) (auto simp: fun_eq_iff)

lemma fst_set_bt_insert [simp]: "fst ` set (bt_insert k v xs) = insert k (fst ` set xs)"
  by (induction k v xs rule: bt_insert.induct) auto

lemma ball_keys_bt_insert:
  "(\<forall>e\<in>set (bt_insert k v xs). P (fst e)) \<longleftrightarrow> P k \<and> (\<forall>e\<in>set xs. P (fst e))"
proof -
  have "(\<forall>a\<in>fst ` set (bt_insert k v xs). P a) \<longleftrightarrow> P k \<and> (\<forall>a\<in>fst ` set xs. P a)"
    by (simp only: fst_set_bt_insert ball_simps)
  then show ?thesis by (simp only: ball_simps)
qed

lemma bt_sorted_insert: "bt_sorted xs \<Longrightarrow> bt_sorted (bt_insert k v xs)"
proof (induction k v xs rule: bt_insert.induct)
  case (2 k v k' v' xs)
  consider "k < k'" | "k = k'" | "k' < k" by (rule linorder_cases)
  then show ?case
  proof cases
    case 1
    with 2 show ?thesis by (auto intro: less_trans)
  next
    case 2
    with "2.prems" show ?thesis by simp
  next
    case 3
    then have "k' < k" "\<not> k < k'" "k \<noteq> k'" by auto
    with 2 show ?thesis by (simp add: ball_keys_bt_insert [where P = "\<lambda>a. k' < a"])
  qed
qed simp

lemma set_bt_insert_subset: "set (bt_insert k v xs) \<subseteq> insert (k, v) (set xs)"
  by (induction k v xs rule: bt_insert.induct) auto

lemma map_of_bt_remove [simp]: "map_of (bt_remove k xs) = (map_of xs)(k := None)"
  by (induction xs) (auto simp: bt_remove_def fun_eq_iff)

lemma bt_sorted_remove: "bt_sorted xs \<Longrightarrow> bt_sorted (bt_remove k xs)"
  by (induction xs) (auto simp: bt_remove_def)

lemma set_bt_remove: "set (bt_remove k xs) = {e \<in> set xs. fst e \<noteq> k}"
  by (auto simp: bt_remove_def)

lemma length_bt_remove_less: "map_of xs k = Some v \<Longrightarrow> length (bt_remove k xs) < length xs"
  by (induction xs) (auto simp: bt_remove_def less_Suc_eq_le split: if_splits)

lemma bt_sorted_distinct: "bt_sorted xs \<Longrightarrow> distinct (map fst xs)"
  by (simp add: strict_sorted_iff)

lemma bt_remove_absent: "k \<notin> fst ` set xs \<Longrightarrow> bt_remove k xs = xs"
  by (force simp: bt_remove_def filter_id_conv)

section \<open>Sums over the entries of a map\<close>

lemma sum_update:
  fixes f :: "'k \<times> 'v \<Rightarrow> nat"
  assumes "map_of xs k = Some v"
  shows "sum_list (map f (AList.update k w xs)) + f (k, v) = sum_list (map f xs) + f (k, w)"
  using assms by (induction xs) auto

lemma sum_update_new:
  fixes f :: "'k \<times> 'v \<Rightarrow> nat"
  assumes "map_of xs k = None"
  shows "sum_list (map f (AList.update k w xs)) = sum_list (map f xs) + f (k, w)"
  using assms by (induction xs) (auto split: if_splits)

lemma sum_delete:
  fixes f :: "'k \<times> 'v \<Rightarrow> nat"
  assumes "distinct (map fst xs)" "map_of xs k = Some v"
  shows "sum_list (map f (AList.delete k xs)) + f (k, v) = sum_list (map f xs)"
  using assms
proof (induction xs)
  case (Cons e xs)
  show ?case
  proof (cases "fst e = k")
    case True
    then have "k \<notin> fst ` set xs" using Cons.prems(1) by auto
    then have "AList.delete k xs = xs" by (simp add: AList.delete_idem)
    with Cons.prems True show ?thesis by (cases e) auto
  next
    case False
    with Cons show ?thesis by (cases e) (auto simp: AList.delete_eq)
  qed
qed simp

lemma sum_bt_remove:
  fixes f :: "'k::linorder \<times> 'v \<Rightarrow> nat"
  assumes "bt_sorted xs" "map_of xs k = Some v"
  shows "sum_list (map f (bt_remove k xs)) + f (k, v) = sum_list (map f xs)"
proof -
  have "bt_remove k xs = AList.delete k xs"
    by (auto simp: bt_remove_def AList.delete_eq intro!: filter_cong)
  then show ?thesis
    using sum_delete [OF bt_sorted_distinct [OF assms(1)] assms(2)] by simp
qed

lemma sum_bt_insert_le:
  fixes f :: "'k::linorder \<times> 'v \<Rightarrow> nat"
  shows "sum_list (map f (bt_insert k v xs)) \<le> sum_list (map f xs) + f (k, v)"
  by (induction k v xs rule: bt_insert.induct) auto

lemma member_le_sum:
  fixes f :: "'a \<Rightarrow> nat"
  shows "x \<in> set xs \<Longrightarrow> f x \<le> sum_list (map f xs)"
  by (induction xs) auto

lemma set_update_subset: "set (AList.update k v xs) \<subseteq> insert (k, v) (set xs)"
  by (induction xs) auto

lemma set_update_iff:
  "distinct (map fst xs) \<Longrightarrow>
   (k', w) \<in> set (AList.update k v xs) \<longleftrightarrow> (if k' = k then w = v else (k', w) \<in> set xs)"
proof -
  assume d: "distinct (map fst xs)"
  have "(k', w) \<in> set (AList.update k v xs) \<longleftrightarrow> map_of (AList.update k v xs) k' = Some w"
    by (rule map_of_eq_Some_iff [OF distinct_update [OF d], symmetric])
  also have "\<dots> \<longleftrightarrow> (if k' = k then w = v else map_of xs k' = Some w)"
    by (auto simp: update_conv')
  finally show ?thesis using map_of_eq_Some_iff [OF d] by simp
qed

end
