(* ===== verification/Reassembly.thy ===== *)
theory Reassembly
  imports Maps
begin

text \<open>
  The reassembly engine of \<open>src/src/reassembly.rs\<close>: one buffer per segment \<open>(dev_id, segment_seq)\<close>
  that holds out-of-order chunks by absolute offset, drained into \<open>Append\<close> events as soon as they
  are contiguous, under the budgets L2 (segment), L2.5 (device) and L3 (global).

  Byte counters and offsets are \<open>nat\<close>; the one sum that involves an untrusted 64-bit offset,
  \<open>offset + len\<close>, is taken modulo \<open>2 ^ 64\<close>, as the release build does.  The other counters add up
  lengths of chunks held in memory.  Every \<open>-=\<close> is checked and every \<open>unwrap\<close> is a case: \<open>None\<close> is a
  panic, and \<open>reassembler_no_panic\<close> shows that none is reachable.
\<close>

section \<open>Data\<close>

type_synonym segment_key = "u32 \<times> u32"

datatype segment_state = SegNew | SegUnfinished | SegSealed | SegSkipped | SegError

datatype event =
    Append u32 u32 nat bytes
  | Dup u32 u32
  | Gap u32 u32 nat
  | Sealed u32 u32 nat
  | SealGap u32 u32 nat nat
  | SeqSkipped u32 u32
  | SegmentError u32 u32 string
  | Evict u32 u32 nat nat
  | Quarantine u32
  | QuarantinedDrop u32 nat

record budgets =
  l2_segment_cap :: nat
  l25_conn_cap :: nat
  l3_global_cap :: nat
  evict_window_secs :: nat
  evict_threshold :: nat

definition budgets_from_config :: "nat \<Rightarrow> nat \<Rightarrow> nat \<Rightarrow> nat \<Rightarrow> nat \<Rightarrow> budgets" where
  "budgets_from_config segment_pending_cap conn_pending_cap_bytes pending_budget_bytes
     window threshold =
   \<lparr>l2_segment_cap = (if segment_pending_cap = 0 then 8 * 1024 * 1024 else segment_pending_cap),
    l25_conn_cap = conn_pending_cap_bytes, l3_global_cap = pending_budget_bytes,
    evict_window_secs = window, evict_threshold = threshold\<rparr>"

record segment_buf =
  sb_key :: segment_key
  sb_state :: segment_state
  sb_next_expected :: nat
  sb_sealed_size :: "nat option"
  sb_pending :: "(nat \<times> bytes) list"
  sb_pending_bytes :: nat
  sb_dup_count :: nat
  sb_gap_count :: nat

definition segment_buf_new :: "segment_key \<Rightarrow> segment_buf" where
  "segment_buf_new key = \<lparr>sb_key = key, sb_state = SegNew, sb_next_expected = 0,
     sb_sealed_size = None, sb_pending = [], sb_pending_bytes = 0, sb_dup_count = 0,
     sb_gap_count = 0\<rparr>"

record evict_state =
  es_streak :: nat
  es_window_start :: nat

record reassembler =
  ra_segs :: "(segment_key \<times> segment_buf) list"
  ra_conn_pending :: "(u32 \<times> nat) list"
  ra_quarantined :: "u32 list"
  ra_evict :: "(u32 \<times> evict_state) list"
  ra_global_pending :: nat
  ra_last_seq :: "(u32 \<times> u32) list"
  ra_budgets :: budgets
  ra_now :: nat

definition reassembler_new :: "budgets \<Rightarrow> reassembler" where
  "reassembler_new b = \<lparr>ra_segs = [], ra_conn_pending = [], ra_quarantined = [], ra_evict = [],
     ra_global_pending = 0, ra_last_seq = [], ra_budgets = b, ra_now = 0\<rparr>"

definition set_now :: "nat \<Rightarrow> reassembler \<Rightarrow> reassembler" where
  "set_now now r = r\<lparr>ra_now := now\<rparr>"

definition conn_pending :: "reassembler \<Rightarrow> u32 \<Rightarrow> nat" where
  "conn_pending r dev_id = (case map_of (ra_conn_pending r) dev_id of None \<Rightarrow> 0 | Some n \<Rightarrow> n)"

definition is_quarantined :: "reassembler \<Rightarrow> u32 \<Rightarrow> bool" where
  "is_quarantined r dev_id \<longleftrightarrow> dev_id \<in> set (ra_quarantined r)"

section \<open>Accounting helpers\<close>

definition put_seg :: "segment_key \<Rightarrow> segment_buf \<Rightarrow> reassembler \<Rightarrow> reassembler" where
  "put_seg key s r = r\<lparr>ra_segs := AList.update key s (ra_segs r)\<rparr>"

text \<open>\<open>if let Some(c) = conn_pending.get_mut(&dev) { *c = c.saturating_sub(n) }\<close>.\<close>

definition conn_sub :: "u32 \<Rightarrow> nat \<Rightarrow> reassembler \<Rightarrow> reassembler" where
  "conn_sub dev n r =
     (case map_of (ra_conn_pending r) dev of
        None \<Rightarrow> r
      | Some c \<Rightarrow> r\<lparr>ra_conn_pending := AList.update dev (c - n) (ra_conn_pending r)\<rparr>)"

text \<open>The same with \<open>get_mut(&dev).unwrap()\<close>.\<close>

definition conn_sub_unwrap :: "u32 \<Rightarrow> nat \<Rightarrow> reassembler \<Rightarrow> reassembler option" where
  "conn_sub_unwrap dev n r =
     (case map_of (ra_conn_pending r) dev of
        None \<Rightarrow> None
      | Some c \<Rightarrow> Some (r\<lparr>ra_conn_pending := AList.update dev (c - n) (ra_conn_pending r)\<rparr>))"

text \<open>\<open>global_pending -= n\<close>.\<close>

definition global_sub :: "nat \<Rightarrow> reassembler \<Rightarrow> reassembler option" where
  "global_sub n r =
     do { g \<leftarrow> checked_sub (ra_global_pending r) n; Some (r\<lparr>ra_global_pending := g\<rparr>) }"

section \<open>Segment errors and releases\<close>

definition mark_segment_error ::
  "segment_key \<Rightarrow> string \<Rightarrow> event list \<Rightarrow> reassembler \<Rightarrow> event list \<times> reassembler" where
  "mark_segment_error key reason events r =
     (let bytes = (case map_of (ra_segs r) key of None \<Rightarrow> 0 | Some s \<Rightarrow> sb_pending_bytes s);
          r = (case map_of (ra_segs r) key of
                 None \<Rightarrow> r
               | Some s \<Rightarrow> put_seg key
                   (s\<lparr>sb_state := SegError, sb_pending := [], sb_pending_bytes := 0\<rparr>) r);
          r = r\<lparr>ra_global_pending := ra_global_pending r - bytes\<rparr>;
          r = conn_sub (fst key) bytes r;
          start = (case map_of (ra_segs r) key of None \<Rightarrow> 0 | Some s \<Rightarrow> sb_next_expected s)
      in (events @ [SegmentError (fst key) (snd key) reason, Gap (fst key) (snd key) start], r))"

definition release_segment :: "segment_key \<Rightarrow> reassembler \<Rightarrow> reassembler" where
  "release_segment key r =
     (case map_of (ra_segs r) key of
        None \<Rightarrow> r
      | Some seg \<Rightarrow>
          conn_sub (fst key) (sb_pending_bytes seg)
            (r\<lparr>ra_segs := AList.delete key (ra_segs r),
               ra_global_pending := ra_global_pending r - sb_pending_bytes seg\<rparr>))"

definition drop_segment_pending :: "segment_key \<Rightarrow> reassembler \<Rightarrow> reassembler" where
  "drop_segment_pending key r =
     (case map_of (ra_segs r) key of
        None \<Rightarrow> r
      | Some seg \<Rightarrow>
          (let bytes = sb_pending_bytes seg;
               r = put_seg key (seg\<lparr>sb_pending := [], sb_pending_bytes := 0\<rparr>) r;
               r = r\<lparr>ra_global_pending := ra_global_pending r - bytes\<rparr>
           in conn_sub (fst key) bytes r))"

section \<open>Quarantine and eviction\<close>

fun quarantine_keys :: "segment_key list \<Rightarrow> reassembler \<Rightarrow> reassembler" where
  "quarantine_keys [] r = r"
| "quarantine_keys (key # keys) r =
     (let r = drop_segment_pending key r;
          r = (case map_of (ra_segs r) key of
                 None \<Rightarrow> r
               | Some seg \<Rightarrow> put_seg key (seg\<lparr>sb_state := SegSkipped\<rparr>) r)
      in quarantine_keys keys r)"

definition quarantine :: "u32 \<Rightarrow> event list \<Rightarrow> reassembler \<Rightarrow> event list \<times> reassembler" where
  "quarantine dev_id events r =
     (if is_quarantined r dev_id then (events, r)
      else
        (let r = r\<lparr>ra_quarantined := dev_id # ra_quarantined r\<rparr>;
             r = quarantine_keys (filter (\<lambda>k. fst k = dev_id) (map fst (ra_segs r))) r;
             r = r\<lparr>ra_conn_pending := AList.delete dev_id (ra_conn_pending r),
                   ra_evict := AList.delete dev_id (ra_evict r)\<rparr>
         in (events @ [Quarantine dev_id], r)))"

type_synonym target = "(segment_key \<times> nat) option"

text \<open>One round of the scan in \<open>evict_oldest_in_dev\<close>, and the scan.\<close>

definition older_in_dev :: "u32 \<Rightarrow> segment_key \<times> segment_buf \<Rightarrow> target \<Rightarrow> target" where
  "older_in_dev dev_id e t =
     (if fst (fst e) \<noteq> dev_id then t
      else case sb_pending (snd e) of
        [] \<Rightarrow> t
      | (off, _) # _ \<Rightarrow>
          (case t of
             None \<Rightarrow> Some (fst e, off)
           | Some (_, to) \<Rightarrow> if off < to then Some (fst e, off) else t))"

definition oldest_in_dev :: "u32 \<Rightarrow> (segment_key \<times> segment_buf) list \<Rightarrow> target" where
  "oldest_in_dev dev_id segs = fold (older_in_dev dev_id) segs None"

text \<open>One round of the scan in \<open>evict_oldest_global\<close>, and the scan.\<close>

definition older_global :: "u32 list \<Rightarrow> segment_key \<times> segment_buf \<Rightarrow> target \<Rightarrow> target" where
  "older_global quar e t =
     (case sb_pending (snd e) of
        [] \<Rightarrow> t
      | (off, _) # _ \<Rightarrow>
          (let q = fst (fst e) \<in> set quar;
               better = (case t of
                           None \<Rightarrow> True
                         | Some (tk, to) \<Rightarrow>
                             (let tq = fst tk \<in> set quar
                              in (q \<and> \<not> tq) \<or> (q = tq \<and> off < to)))
           in if better then Some (fst e, off) else t))"

definition oldest_global :: "u32 list \<Rightarrow> (segment_key \<times> segment_buf) list \<Rightarrow> target" where
  "oldest_global quar segs = fold (older_global quar) segs None"

text \<open>The removal of the chosen chunk, common to both evictions.\<close>

definition evict_chunk ::
  "segment_key \<Rightarrow> nat \<Rightarrow> event list \<Rightarrow> reassembler \<Rightarrow> (event list \<times> reassembler) option" where
  "evict_chunk key offset events r =
     do {
       seg \<leftarrow> map_of (ra_segs r) key;
       chunk \<leftarrow> map_of (sb_pending seg) offset;
       let sz = length chunk;
       pb \<leftarrow> checked_sub (sb_pending_bytes seg) sz;
       let r = put_seg key
         (seg\<lparr>sb_pending := bt_remove offset (sb_pending seg), sb_pending_bytes := pb\<rparr>) r;
       r \<leftarrow> global_sub sz r;
       r \<leftarrow> conn_sub_unwrap (fst key) sz r;
       Some (events @ [Evict (fst key) (snd key) offset sz], r)
     }"

definition evict_oldest_in_dev ::
  "u32 \<Rightarrow> event list \<Rightarrow> reassembler \<Rightarrow> (event list \<times> reassembler) option" where
  "evict_oldest_in_dev dev_id events r =
     (case oldest_in_dev dev_id (ra_segs r) of
        None \<Rightarrow> Some (events, r)
      | Some (key, offset) \<Rightarrow>
          do {
            (events, r) \<leftarrow> evict_chunk key offset events r;
            let st = (case map_of (ra_evict r) dev_id of
                        None \<Rightarrow> \<lparr>es_streak = 0, es_window_start = ra_now r\<rparr>
                      | Some st \<Rightarrow> st);
            let st = (if evict_window_secs (ra_budgets r) < ra_now r - es_window_start st
                      then \<lparr>es_streak = 1, es_window_start = ra_now r\<rparr>
                      else st\<lparr>es_streak := es_streak st + 1\<rparr>);
            let r = r\<lparr>ra_evict := AList.update dev_id st (ra_evict r)\<rparr>;
            Some (if evict_threshold (ra_budgets r) \<le> es_streak st
                  then quarantine dev_id events r else (events, r))
          })"

definition evict_oldest_global ::
  "event list \<Rightarrow> reassembler \<Rightarrow> (event list \<times> reassembler) option" where
  "evict_oldest_global events r =
     (case oldest_global (ra_quarantined r) (ra_segs r) of
        None \<Rightarrow> Some (events, r)
      | Some (key, offset) \<Rightarrow> evict_chunk key offset events r)"

section \<open>Draining, placing and sealing\<close>

definition pending_count :: "segment_key \<Rightarrow> reassembler \<Rightarrow> nat" where
  "pending_count key r =
     (case map_of (ra_segs r) key of None \<Rightarrow> 0 | Some seg \<Rightarrow> length (sb_pending seg))"

lemma conn_sub_unwrap_segs: "conn_sub_unwrap dev n r = Some r' \<Longrightarrow> ra_segs r' = ra_segs r"
  by (auto simp: conn_sub_unwrap_def split: option.splits)

lemma global_sub_segs: "global_sub n r = Some r' \<Longrightarrow> ra_segs r' = ra_segs r"
  by (auto simp: global_sub_def split: Option.bind_splits)

function drain_contiguous ::
  "segment_key \<Rightarrow> event list \<Rightarrow> reassembler \<Rightarrow> (event list \<times> reassembler) option" where
  "drain_contiguous key events r =
     (case map_of (ra_segs r) key of
        None \<Rightarrow> Some (events, r)
      | Some seg \<Rightarrow>
          (case map_of (sb_pending seg) (sb_next_expected seg) of
             None \<Rightarrow> Some (events, r)
           | Some chunk \<Rightarrow>
               (let sz = length chunk; off = sb_next_expected seg in
                do {
                  pb \<leftarrow> checked_sub (sb_pending_bytes seg) sz;
                  r \<leftarrow> global_sub sz (put_seg key
                    (seg\<lparr>sb_pending := bt_remove off (sb_pending seg),
                       sb_next_expected := off + sz, sb_pending_bytes := pb,
                       sb_state := SegUnfinished\<rparr>) r);
                  r \<leftarrow> conn_sub_unwrap (fst key) sz r;
                  drain_contiguous key (events @ [Append (fst key) (snd key) off chunk]) r
                })))"
  by pat_completeness auto

termination
  by (relation "measure (\<lambda>(key, events, r). pending_count key r)")
    (auto simp: pending_count_def conn_sub_unwrap_segs global_sub_segs put_seg_def update_conv'
      intro: length_bt_remove_less)

declare drain_contiguous.simps [simp del]

text \<open>The u64 value of \<open>offset + len\<close>.\<close>

definition add64 :: "nat \<Rightarrow> nat \<Rightarrow> nat" where "add64 a b = (a + b) mod 2 ^ 64"

definition bump_dup :: "segment_key \<Rightarrow> reassembler \<Rightarrow> reassembler" where
  "bump_dup key r =
     (case map_of (ra_segs r) key of
        None \<Rightarrow> r
      | Some s \<Rightarrow> put_seg key (s\<lparr>sb_dup_count := sb_dup_count s + 1\<rparr>) r)"

text \<open>The end of \<open>place_chunk\<close>: the L2.5 and L3 checks, the insertion, and the drain.\<close>

definition insert_chunk ::
  "segment_key \<Rightarrow> nat \<Rightarrow> bytes \<Rightarrow> reassembler \<Rightarrow> reassembler" where
  "insert_chunk key offset data r =
     (let entry = (case map_of (ra_segs r) key of
                     None \<Rightarrow> segment_buf_new key | Some s \<Rightarrow> s);
          entry = entry\<lparr>sb_pending_bytes := sb_pending_bytes entry + length data,
                        sb_pending := bt_insert offset data (sb_pending entry)\<rparr>;
          r = put_seg key entry r
      in r\<lparr>ra_global_pending := ra_global_pending r + length data,
           ra_conn_pending := AList.update (fst key) (conn_pending r (fst key) + length data)
             (ra_conn_pending r)\<rparr>)"

definition stage_chunk ::
  "u32 \<Rightarrow> u32 \<Rightarrow> nat \<Rightarrow> nat \<Rightarrow> bytes \<Rightarrow> reassembler \<Rightarrow> (event list \<times> reassembler) option" where
  "stage_chunk dev_id segment_seq offset next_expected data r =
     do {
       let len = length data;
       (events, r) \<leftarrow>
         (if next_expected < offset \<and> l25_conn_cap (ra_budgets r) < conn_pending r dev_id + len
          then evict_oldest_in_dev dev_id [] r else Some ([], r));
       (events, r) \<leftarrow>
         (if l3_global_cap (ra_budgets r) < ra_global_pending r + len
          then evict_oldest_global events r else Some (events, r));
       drain_contiguous (dev_id, segment_seq) events
         (insert_chunk (dev_id, segment_seq) offset data r)
     }"

definition place_chunk ::
  "u32 \<Rightarrow> u32 \<Rightarrow> nat \<Rightarrow> bytes \<Rightarrow> reassembler \<Rightarrow> (event list \<times> reassembler) option" where
  "place_chunk dev_id segment_seq offset data r =
     (if is_quarantined r dev_id then Some ([QuarantinedDrop dev_id (length data)], r)
      else
        (let key = (dev_id, segment_seq);
             (next_expected, pending_bytes) =
               (case map_of (ra_segs r) key of
                  None \<Rightarrow> (0, 0)
                | Some s \<Rightarrow> (sb_next_expected s, sb_pending_bytes s))
         in if add64 offset (length data) \<le> next_expected
            then Some ([Dup dev_id segment_seq], bump_dup key r)
            else if offset < next_expected \<and> length data \<le> next_expected - offset
            then Some ([Dup dev_id segment_seq], bump_dup key r)
            else
              (let data = (if offset < next_expected then drop (next_expected - offset) data
                           else data);
                   offset = max offset next_expected
               in if next_expected < offset
                     \<and> l2_segment_cap (ra_budgets r) < pending_bytes + length data
                  then Some (mark_segment_error key ''L2 segment cap exceeded'' [] r)
                  else stage_chunk dev_id segment_seq offset next_expected data r)))"

text \<open>The range \<open>a..b\<close> of u32 values.\<close>

definition u32_range :: "u32 \<Rightarrow> u32 \<Rightarrow> u32 list" where
  "u32_range a b = map of_nat [unat a..<unat b]"

definition seal :: "u32 \<Rightarrow> u32 \<Rightarrow> nat \<Rightarrow> reassembler \<Rightarrow> event list \<times> reassembler" where
  "seal dev_id segment_seq sealed_size r =
     (let last = (case map_of (ra_last_seq r) dev_id of None \<Rightarrow> 0 | Some l \<Rightarrow> l);
          events = (if 0 < segment_seq \<and> 0 < last \<and> last + 1 < segment_seq
                    then map (SeqSkipped dev_id) (u32_range (last + 1) segment_seq) else []);
          r = (if last < segment_seq
               then r\<lparr>ra_last_seq := AList.update dev_id segment_seq (ra_last_seq r)\<rparr> else r);
          key = (dev_id, segment_seq)
      in case map_of (ra_segs r) key of
           None \<Rightarrow> (events, r)
         | Some s \<Rightarrow>
             if sb_next_expected s = sealed_size
             then (events @ [Sealed dev_id segment_seq sealed_size], release_segment key r)
             else (events @ [SealGap dev_id segment_seq (sb_next_expected s) sealed_size],
                   put_seg key (s\<lparr>sb_sealed_size := Some sealed_size\<rparr>) r))"

end
