(* ===== verification/Values.thy ===== *)
theory Values
  imports Codec
begin

text \<open>
  Value codecs of \<open>src/src/db.rs\<close>: the compact packet summary \<open>RecordSummary\<close>, the values of the
  pending, secondary, packet and TTL databases, and the variable-length \<open>QrPairValue\<close> row.
\<close>

section \<open>RecordSummary\<close>

record record_summary =
  rs_proto :: u8
  rs_flags :: u8
  rs_src_ip :: u32
  rs_dst_ip :: u32
  rs_sport :: u16
  rs_dport :: u16
  rs_len :: u32

definition v_record_summary_encode :: "record_summary \<Rightarrow> bytes" where
  "v_record_summary_encode s =
     [rs_proto s, rs_flags s] @ be32 (rs_src_ip s) @ be32 (rs_dst_ip s)
       @ be16 (rs_sport s) @ be16 (rs_dport s) @ be32 (rs_len s)"

definition v_record_summary_decode :: "bytes \<Rightarrow> record_summary option" where
  "v_record_summary_decode b =
     (if length b \<noteq> 18 then None
      else Some \<lparr>rs_proto = b ! 0, rs_flags = b ! 1,
        rs_src_ip = of_be32 (take 4 (drop 2 b)), rs_dst_ip = of_be32 (take 4 (drop 6 b)),
        rs_sport = of_be16 (take 2 (drop 10 b)), rs_dport = of_be16 (take 2 (drop 12 b)),
        rs_len = of_be32 (take 4 (drop 14 b))\<rparr>)"

lemma length_record_summary [simp]: "length (v_record_summary_encode s) = 18"
  by (simp add: v_record_summary_encode_def)

lemma record_summary_roundtrip [codec_simps]:
  "v_record_summary_decode (v_record_summary_encode s) = Some s"
  by (simp add: v_record_summary_decode_def) (simp add: v_record_summary_encode_def)

section \<open>Fixed-length values\<close>

definition v_qr_pending_encode :: "u64 \<Rightarrow> u64 \<Rightarrow> u32 \<Rightarrow> bytes" where
  "v_qr_pending_encode q_first_idx q_ts q_len = be64 q_first_idx @ be64 q_ts @ be32 q_len"

definition v_qr_pending_decode :: "bytes \<Rightarrow> (u64 \<times> u64 \<times> u32) option" where
  "v_qr_pending_decode b =
     (if length b \<noteq> 20 then None
      else Some (of_be64 (take 8 b), of_be64 (take 8 (drop 8 b)), of_be32 (take 4 (drop 16 b))))"

definition v_secondary_encode :: "u64 \<Rightarrow> bytes" where
  "v_secondary_encode q_first_idx = be64 q_first_idx"

definition v_secondary_decode :: "bytes \<Rightarrow> u64 option" where
  "v_secondary_decode b = (if length b \<noteq> 8 then None else Some (of_be64 b))"

definition v_packet_qr_encode :: "u64 \<Rightarrow> bytes" where
  "v_packet_qr_encode q_first_idx = be64 q_first_idx"

definition v_packet_qr_decode :: "bytes \<Rightarrow> u64 option" where
  "v_packet_qr_decode b = (if length b \<noteq> 8 then None else Some (of_be64 b))"

definition v_pending_ttl_encode :: "u64 \<Rightarrow> u64 \<Rightarrow> bytes" where
  "v_pending_ttl_encode q_first_idx abs_q_end = put_u48 (put_u64 [] q_first_idx) abs_q_end"

definition v_pending_ttl_decode :: "bytes \<Rightarrow> (u64 \<times> u64) option" where
  "v_pending_ttl_decode b =
     do {
       (q_first_idx, off) \<leftarrow> take_u64 b 0;
       (abs_q_end, off) \<leftarrow> take_u48 b off;
       if off \<noteq> length b then None else Some (q_first_idx, abs_q_end)
     }"

lemma qr_pending_roundtrip [simp, codec_simps]:
  "v_qr_pending_decode (v_qr_pending_encode q t n) = Some (q, t, n)"
  by (simp add: v_qr_pending_decode_def v_qr_pending_encode_def)

lemma secondary_roundtrip [simp, codec_simps]:
  "v_secondary_decode (v_secondary_encode q) = Some q"
  by (simp add: v_secondary_decode_def v_secondary_encode_def)

lemma packet_qr_roundtrip [simp, codec_simps]:
  "v_packet_qr_decode (v_packet_qr_encode q) = Some q"
  by (simp add: v_packet_qr_decode_def v_packet_qr_encode_def)

lemma pending_ttl_roundtrip [codec_simps]:
  assumes "unat a < 2 ^ 48"
  shows "v_pending_ttl_decode (v_pending_ttl_encode q a) = Some (q, a)"
proof -
  let ?b = "v_pending_ttl_encode q a"
  have b: "?b = be64 q @ drop 2 (be64 a)"
    by (simp add: v_pending_ttl_encode_def put_u64_def put_u48_def)
  have t: "take_u64 ?b 0 = Some (q, 8)" "rest ?b 8 (drop 2 (be64 a) @ [])"
    using take_u64_rest [of ?b 0 q "drop 2 (be64 a)"] rest_start [of ?b] by (simp_all add: b)
  from take_u48_rest [OF t(2) assms]
  have u: "take_u48 ?b 8 = Some (a, 14)" "rest ?b 14 []" by simp_all
  from t(1) u(1) rest_end [OF u(2)] show ?thesis
    by (simp add: v_pending_ttl_decode_def)
qed

section \<open>QrPairValue\<close>

record qr_pair_value =
  qp_status :: u8
  qp_conn_hash :: u64
  qp_q_ts :: u64
  qp_r_ts :: u64
  qp_latency_ms :: u64
  qp_q_len :: u32
  qp_r_len :: u32
  qp_abs_q_seq :: u64
  qp_abs_q_end :: u64
  qp_pseudo :: u8
  qp_q_idx :: "u64 list"
  qp_r_idx :: "u64 list"
  qp_req_key :: bytes
  qp_resp_key :: bytes

definition qr_pair_encode :: "qr_pair_value \<Rightarrow> bytes" where
  "qr_pair_encode p =
     (let v = put_u8 [] (qp_status p);
          v = put_u64 v (qp_conn_hash p);
          v = put_u64 v (qp_q_ts p);
          v = put_u64 v (qp_r_ts p);
          v = put_u64 v (qp_latency_ms p);
          v = put_u32 v (qp_q_len p);
          v = put_u32 v (qp_r_len p);
          v = put_u64 v (qp_abs_q_seq p);
          v = put_u64 v (qp_abs_q_end p);
          v = put_u8 v (qp_pseudo p);
          v = put_u16 v (of_nat (length (qp_q_idx p)));
          v = put_u16 v (of_nat (length (qp_r_idx p)));
          v = foldl put_u64 v (qp_q_idx p);
          v = foldl put_u64 v (qp_r_idx p);
          v = put_u32 v (of_nat (length (qp_req_key p)));
          v = v @ qp_req_key p;
          v = put_u32 v (of_nat (length (qp_resp_key p)));
          v = v @ qp_resp_key p
      in v)"

definition qr_pair_decode :: "bytes \<Rightarrow> qr_pair_value option" where
  "qr_pair_decode b =
     do {
       (status, off) \<leftarrow> take_u8 b 0;
       (conn_hash, off) \<leftarrow> take_u64 b off;
       (q_ts, off) \<leftarrow> take_u64 b off;
       (r_ts, off) \<leftarrow> take_u64 b off;
       (latency_ms, off) \<leftarrow> take_u64 b off;
       (q_len, off) \<leftarrow> take_u32 b off;
       (r_len, off) \<leftarrow> take_u32 b off;
       (abs_q_seq, off) \<leftarrow> take_u64 b off;
       (abs_q_end, off) \<leftarrow> take_u64 b off;
       (pseudo, off) \<leftarrow> take_u8 b off;
       (q_cnt, off) \<leftarrow> take_u16 b off;
       (r_cnt, off) \<leftarrow> take_u16 b off;
       (q_idx, off) \<leftarrow> take_u64s (unat q_cnt) b off;
       (r_idx, off) \<leftarrow> take_u64s (unat r_cnt) b off;
       (req_len, off) \<leftarrow> take_u32 b off;
       req_key \<leftarrow> slice_get b off (off + unat req_len);
       (resp_len, off) \<leftarrow> take_u32 b (off + unat req_len);
       resp_key \<leftarrow> slice_get b off (off + unat resp_len);
       if off + unat resp_len \<noteq> length b then None
       else Some \<lparr>qp_status = status, qp_conn_hash = conn_hash, qp_q_ts = q_ts, qp_r_ts = r_ts,
         qp_latency_ms = latency_ms, qp_q_len = q_len, qp_r_len = r_len,
         qp_abs_q_seq = abs_q_seq, qp_abs_q_end = abs_q_end, qp_pseudo = pseudo,
         qp_q_idx = q_idx, qp_r_idx = r_idx, qp_req_key = req_key, qp_resp_key = resp_key\<rparr>
     }"

text \<open>The encoding, field by field.\<close>

lemma foldl_put_u64: "foldl put_u64 v xs = v @ concat (map be64 xs)"
  by (induction xs arbitrary: v) (simp_all add: put_u64_def)

lemma qr_pair_encode_eq:
  "qr_pair_encode p =
     qp_status p # be64 (qp_conn_hash p) @ be64 (qp_q_ts p) @ be64 (qp_r_ts p)
       @ be64 (qp_latency_ms p) @ be32 (qp_q_len p) @ be32 (qp_r_len p)
       @ be64 (qp_abs_q_seq p) @ be64 (qp_abs_q_end p) @ qp_pseudo p
       # be16 (of_nat (length (qp_q_idx p))) @ be16 (of_nat (length (qp_r_idx p)))
       @ concat (map be64 (qp_q_idx p)) @ concat (map be64 (qp_r_idx p))
       @ be32 (of_nat (length (qp_req_key p))) @ qp_req_key p
       @ be32 (of_nat (length (qp_resp_key p))) @ qp_resp_key p"
  by (simp add: qr_pair_encode_def foldl_put_u64 put_u8_def put_u16_def put_u32_def put_u64_def)

text \<open>The counts and lengths of a row fit their length fields.\<close>

definition qr_pair_wf :: "qr_pair_value \<Rightarrow> bool" where
  "qr_pair_wf p \<longleftrightarrow> length (qp_q_idx p) < 2 ^ 16 \<and> length (qp_r_idx p) < 2 ^ 16 \<and>
     length (qp_req_key p) < 2 ^ 32 \<and> length (qp_resp_key p) < 2 ^ 32"

lemma take_u64_len: "take_u64s n b off = Some (xs, off') \<Longrightarrow> length xs = n"
  by (induction n arbitrary: off xs off') (auto split: Option.bind_splits)

lemma qr_pair_decode_counts:
  "qr_pair_decode b = Some p \<Longrightarrow>
     length (qp_q_idx p) < 2 ^ 16 \<and> length (qp_r_idx p) < 2 ^ 16"
  using unat_lt_pow [where 'a = 16]
  by (fastforce simp: qr_pair_decode_def split: Option.bind_splits if_splits
      dest!: take_u64_len)

lemma qr_pair_decode_body:
  assumes "rest b o1 (be32 (of_nat (length k1)) @ k1 @ be32 (of_nat (length k2)) @ k2)"
    and "length k1 < 2 ^ 32" "length k2 < 2 ^ 32"
  shows "take_u32 b o1 = Some (of_nat (length k1), o1 + 4)"
    and "slice_get b (o1 + 4) (o1 + 4 + length k1) = Some k1"
    and "take_u32 b (o1 + 4 + length k1) = Some (of_nat (length k2), o1 + 8 + length k1)"
    and "slice_get b (o1 + 8 + length k1) (o1 + 8 + length k1 + length k2) = Some k2"
    and "o1 + 8 + length k1 + length k2 = length b"
proof -
  from take_u32_rest [OF assms(1)] show "take_u32 b o1 = Some (of_nat (length k1), o1 + 4)" ..
  from take_u32_rest [OF assms(1)]
  have r: "rest b (o1 + 4) (k1 @ be32 (of_nat (length k2)) @ k2)" ..
  from rest_slice [OF r] show "slice_get b (o1 + 4) (o1 + 4 + length k1) = Some k1" .
  from take_u32_rest [OF rest_append [OF r]]
  show "take_u32 b (o1 + 4 + length k1) = Some (of_nat (length k2), o1 + 8 + length k1)"
    by (simp add: algebra_simps)
  from take_u32_rest [OF rest_append [OF r]]
  have r2: "rest b (o1 + 8 + length k1) k2" by (simp add: algebra_simps)
  from rest_slice [of b _ k2 "[]"] r2
  show "slice_get b (o1 + 8 + length k1) (o1 + 8 + length k1 + length k2) = Some k2" by simp
  from rest_end [OF rest_append [of b _ k2 "[]"]] r2
  show "o1 + 8 + length k1 + length k2 = length b" by simp
qed

lemma qr_pair_decode_encode:
  assumes "qr_pair_wf p"
  shows "qr_pair_decode (qr_pair_encode p) = Some p"
proof -
  let ?b = "qr_pair_encode p"
  have wf: "length (qp_q_idx p) < 2 ^ 16" "length (qp_r_idx p) < 2 ^ 16"
    "length (qp_req_key p) < 2 ^ 32" "length (qp_resp_key p) < 2 ^ 32"
    using assms by (simp_all add: qr_pair_wf_def)
  note t1 = take_u8_rest [OF rest_start [of ?b, unfolded qr_pair_encode_eq [of p]],
      folded qr_pair_encode_eq [of p]]
  note t2 = take_u64_rest [OF conjunct2 [OF t1]]
  note t3 = take_u64_rest [OF conjunct2 [OF t2]]
  note t4 = take_u64_rest [OF conjunct2 [OF t3]]
  note t5 = take_u64_rest [OF conjunct2 [OF t4]]
  note t6 = take_u32_rest [OF conjunct2 [OF t5]]
  note t7 = take_u32_rest [OF conjunct2 [OF t6]]
  note t8 = take_u64_rest [OF conjunct2 [OF t7]]
  note t9 = take_u64_rest [OF conjunct2 [OF t8]]
  note t10 = take_u8_rest [OF conjunct2 [OF t9]]
  note t11 = take_u16_rest [OF conjunct2 [OF t10]]
  note t12 = take_u16_rest [OF conjunct2 [OF t11]]
  note t13 = take_u64s_rest [OF conjunct2 [OF t12]]
  note t14 = take_u64s_rest [OF conjunct2 [OF t13]]
  note body = qr_pair_decode_body [OF conjunct2 [OF t14] wf(3,4)]
  note ts = t1 t2 t3 t4 t5 t6 t7 t8 t9 t10 t11 t12 t13 t14
  have n: "unat (of_nat (length (qp_q_idx p)) :: u16) = length (qp_q_idx p)"
    "unat (of_nat (length (qp_r_idx p)) :: u16) = length (qp_r_idx p)"
    "unat (of_nat (length (qp_req_key p)) :: u32) = length (qp_req_key p)"
    "unat (of_nat (length (qp_resp_key p)) :: u32) = length (qp_resp_key p)"
    using wf by (simp_all add: unat_of_nat)
  show ?thesis
    unfolding qr_pair_decode_def
    by (simp only: ts [THEN conjunct1] body(1-4) n bind.bind_lunit prod.case)
      (simp only: body(5) not_True_eq_False simp_thms if_False, simp)
qed

text \<open>
  The witness: a matched pair with two request packets and one response packet.
\<close>

definition sample_pair :: qr_pair_value where
  "sample_pair = \<lparr>qp_status = 1, qp_conn_hash = 7, qp_q_ts = 10, qp_r_ts = 20,
     qp_latency_ms = 0, qp_q_len = 4, qp_r_len = 6, qp_abs_q_seq = 1001, qp_abs_q_end = 1005,
     qp_pseudo = 0, qp_q_idx = [4294967296, 4294967364], qp_r_idx = [4294967432],
     qp_req_key = [71, 69, 84, 32], qp_resp_key = [50]\<rparr>"

text \<open>C21: a QRPAIR row whose counts fit their 16-bit and 32-bit length fields survives encoding
  and decoding unchanged.\<close>

theorem qr_pair_roundtrip:
  assumes "qr_pair_wf p"
  shows "qr_pair_decode (qr_pair_encode p) = Some p"
  using assms by (rule qr_pair_decode_encode)

theorem qr_pair_roundtrip_witness:
  "qr_pair_wf sample_pair \<and> qr_pair_decode (qr_pair_encode sample_pair) = Some sample_pair"
proof -
  have "qr_pair_wf sample_pair" by (simp add: qr_pair_wf_def sample_pair_def)
  then show ?thesis using qr_pair_roundtrip by blast
qed

text \<open>C23: the 16-bit counts silently truncate: a row that aggregates 65536 or more request
  packets never comes back from its own encoding.\<close>

theorem qr_pair_count_truncation:
  assumes "2 ^ 16 \<le> length (qp_q_idx p)"
  shows "qr_pair_decode (qr_pair_encode p) \<noteq> Some p"
  using assms by (auto dest: qr_pair_decode_counts)

theorem qr_pair_count_truncation_witness:
  "qr_pair_decode (qr_pair_encode (sample_pair\<lparr>qp_q_idx := replicate 65536 1\<rparr>))
     \<noteq> Some (sample_pair\<lparr>qp_q_idx := replicate 65536 1\<rparr>)"
proof -
  have "2 ^ 16 \<le> length (qp_q_idx (sample_pair\<lparr>qp_q_idx := replicate 65536 1\<rparr>))"
    by simp
  then show ?thesis by (rule qr_pair_count_truncation)
qed

end
