(* ===== verification/Records.thy ===== *)
theory Records
  imports Values
begin

text \<open>
  The packet records that flow through the program.  \<open>WalRecord\<close> is a struct of the crate
  \<open>sov_probe\<close>: its fields are those the program reads.  The constants of that crate are the
  parameter \<open>wal_consts\<close>; nothing but their use as bit masks is assumed of them.
\<close>

record wal_record =
  wr_timestamp_ns :: u64
  wr_flags :: u16
  wr_tcp_flags :: u8
  wr_tcp_seq :: u32
  wr_tcp_ack :: u32
  wr_window_size :: u16
  wr_src_ip :: bytes
  wr_dst_ip :: bytes
  wr_src_port :: u16
  wr_dst_port :: u16
  wr_proto :: u16
  wr_orig_payload_len :: u32
  wr_payload :: bytes

text \<open>What the Rust types of the fields guarantee.\<close>

definition wal_ok :: "wal_record \<Rightarrow> bool" where
  "wal_ok r \<longleftrightarrow> length (wr_src_ip r) = 4 \<and> length (wr_dst_ip r) = 4 \<and> length (wr_payload r) < 2 ^ 32"

record wal_consts =
  wc_fin :: u8
  wc_syn :: u8
  wc_rst :: u8
  wc_psh :: u8
  wc_ack :: u8
  wc_urg :: u8
  wc_degraded :: u16

text \<open>A record with its anchor in the data plane (\<open>IndexedRecord\<close> of \<open>batch.rs\<close>).\<close>

record indexed_record =
  ir_dev_id :: u32
  ir_file_id :: u32
  ir_offset :: u32
  ir_rec :: wal_record

definition ir_idx :: "indexed_record \<Rightarrow> u64" where
  "ir_idx r = encode_idx (ir_file_id r) (ir_offset r)"

definition ir_rec_len :: "indexed_record \<Rightarrow> nat" where
  "ir_rec_len r = 64 + length (wr_payload (ir_rec r))"

definition record_summary_of :: "wal_consts \<Rightarrow> wal_record \<Rightarrow> record_summary" where
  "record_summary_of C rec =
     \<lparr>rs_proto = ucast (wr_proto rec),
      rs_flags = wr_tcp_flags rec OR ucast (wr_flags rec AND wc_degraded C),
      rs_src_ip = of_be32 (wr_src_ip rec), rs_dst_ip = of_be32 (wr_dst_ip rec),
      rs_sport = wr_src_port rec, rs_dport = wr_dst_port rec,
      rs_len = of_nat (length (wr_payload rec))\<rparr>"

section \<open>Audit events\<close>

text \<open>\<open>AnomalyEvent\<close> of \<open>ledger.rs\<close>; its \<open>i64\<close> fields are words that are read signed.\<close>

record anomaly_event =
  ae_ts :: u64
  ae_kind :: u64
  ae_dev_id :: "u64 option"
  ae_segment_seq :: "u64 option"
  ae_conn_hash :: "bytes option"
  ae_qr_id :: "u64 option"
  ae_detail :: "string option"

definition ANOM_EPOCH_REBIRTH :: u64 where "ANOM_EPOCH_REBIRTH = 10"
definition ANOM_CONN_RST :: u64 where "ANOM_CONN_RST = 11"
definition ANOM_QR_TIMEOUT :: u64 where "ANOM_QR_TIMEOUT = 12"
definition ANOM_QR_UNMATCHED :: u64 where "ANOM_QR_UNMATCHED = 13"
definition ANOM_QR_RST_ABORT :: u64 where "ANOM_QR_RST_ABORT = 14"

lemmas anomaly_kinds = ANOM_EPOCH_REBIRTH_def ANOM_CONN_RST_def ANOM_QR_TIMEOUT_def
  ANOM_QR_UNMATCHED_def ANOM_QR_RST_ABORT_def

definition conn_event :: "u64 \<Rightarrow> u64 \<Rightarrow> u64 \<Rightarrow> u64 option \<Rightarrow> string \<Rightarrow> anomaly_event" where
  "conn_event ts kind h qr detail =
     \<lparr>ae_ts = ts, ae_kind = kind, ae_dev_id = None, ae_segment_seq = None,
      ae_conn_hash = Some (be64 h), ae_qr_id = qr, ae_detail = Some detail\<rparr>"

end
