(* ===== verification/Wal_Codec.thy ===== *)
theory Wal_Codec
  imports Records
begin

text \<open>
  The record format of the crate \<open>sov_probe\<close>, as far as the program relies on it.  \<open>encode\<close>,
  \<open>try_decode\<close> and \<open>decode_stream\<close> are not part of the repository: the locale \<open>wal_codec\<close> states
  that decoding inverts encoding and where the payload length lies, \<open>wal_stream\<close> that a stream is
  decoded record by record and what follows an incomplete or damaged record stays as residual.
  A reference format satisfies both.
\<close>

record wal_format =
  wf_header_size :: nat
  wf_magic :: u16
  wf_version :: u8

text \<open>\<open>bad_header\<close> of \<open>walscan.rs\<close>: a complete header with a wrong magic or version.\<close>

definition bad_header :: "wal_format \<Rightarrow> bytes \<Rightarrow> bool" where
  "bad_header F buf =
     (if length buf < wf_header_size F then False
      else of_be16 (take 2 buf) \<noteq> wf_magic F \<or> buf ! 2 \<noteq> wf_version F)"

locale wal_codec =
  fixes enc :: "wal_record \<Rightarrow> bytes" and try_decode :: "bytes \<Rightarrow> (wal_record \<times> nat) option"
  assumes enc_length: "length (enc r) = 64 + length (wr_payload r)"
    and enc_payload_len: "take 4 (drop 56 (enc r)) = be32 (of_nat (length (wr_payload r)))"
    and decode_enc: "wal_ok r \<Longrightarrow> try_decode (enc r) = Some (r, length (enc r))"

locale wal_stream =
  fixes enc :: "wal_record \<Rightarrow> bytes" and decode_stream :: "bytes \<Rightarrow> wal_record list \<times> nat" and F :: wal_format
  assumes header: "3 \<le> wf_header_size F"
    and stream_nil: "decode_stream [] = ([], 0)"
    and stream_enc: "wal_ok r \<Longrightarrow>
      decode_stream (enc r @ xs) = (r # fst (decode_stream xs), snd (decode_stream xs))"
    and stream_residual: "snd (decode_stream xs) \<le> length xs"
    and stream_append: "decode_stream (xs @ ys) =
      (fst (decode_stream xs) @ fst (decode_stream (drop (length xs - snd (decode_stream xs)) xs @ ys)),
       snd (decode_stream (drop (length xs - snd (decode_stream xs)) xs @ ys)))"
    and stream_bad: "bad_header F xs \<Longrightarrow> decode_stream xs = ([], length xs)"
begin

lemma stream_of_records:
  "\<forall>r \<in> set rs. wal_ok r \<Longrightarrow> decode_stream (concat (map enc rs)) = (rs, 0)"
  by (induction rs) (simp_all add: stream_nil stream_enc)

text \<open>The rest of a stream decodes to nothing by itself.\<close>

lemma residual_decodes:
  "snd (decode_stream xs) = n \<Longrightarrow> decode_stream (drop (length xs - n) xs) = ([], n)"
proof -
  assume n: "snd (decode_stream xs) = n"
  have "decode_stream xs = (fst (decode_stream xs) @ fst (decode_stream (drop (length xs - n) xs)),
      snd (decode_stream (drop (length xs - n) xs)))"
    using stream_append [of xs "[]"] n by simp
  then show ?thesis using n by (metis append_self_conv fst_conv prod.collapse snd_conv)
qed

end

section \<open>A reference format\<close>

definition ref_format :: wal_format where
  "ref_format = \<lparr>wf_header_size = 64, wf_magic = 0x5756, wf_version = 4\<rparr>"

definition ref_enc :: "wal_record \<Rightarrow> bytes" where
  "ref_enc r =
     take 56 (be16 0x5756 @ [4, wr_tcp_flags r] @ be64 (wr_timestamp_ns r) @ be16 (wr_flags r) @ be32 (wr_tcp_seq r)
       @ be32 (wr_tcp_ack r) @ be16 (wr_window_size r) @ be16 (wr_src_port r) @ be16 (wr_dst_port r)
       @ be16 (wr_proto r) @ be32 (wr_orig_payload_len r) @ wr_src_ip r @ wr_dst_ip r @ replicate 56 0)
     @ be32 (of_nat (length (wr_payload r))) @ replicate 4 0 @ wr_payload r"

definition ref_try_decode :: "bytes \<Rightarrow> (wal_record \<times> nat) option" where
  "ref_try_decode b =
     (if length b < 64 \<or> bad_header ref_format b then None
      else
        let n = unat (of_be32 (take 4 (drop 56 b)) :: u32)
        in if length b < 64 + n then None
           else Some (\<lparr>wr_timestamp_ns = of_be64 (take 8 (drop 4 b)), wr_flags = of_be16 (take 2 (drop 12 b)),
             wr_tcp_flags = b ! 3, wr_tcp_seq = of_be32 (take 4 (drop 14 b)),
             wr_tcp_ack = of_be32 (take 4 (drop 18 b)), wr_window_size = of_be16 (take 2 (drop 22 b)),
             wr_src_ip = take 4 (drop 34 b), wr_dst_ip = take 4 (drop 38 b),
             wr_src_port = of_be16 (take 2 (drop 24 b)), wr_dst_port = of_be16 (take 2 (drop 26 b)),
             wr_proto = of_be16 (take 2 (drop 28 b)), wr_orig_payload_len = of_be32 (take 4 (drop 30 b)),
             wr_payload = take n (drop 64 b)\<rparr>, 64 + n))"

function ref_decode_stream :: "bytes \<Rightarrow> wal_record list \<times> nat" where
  "ref_decode_stream b =
     (case ref_try_decode b of
        None \<Rightarrow> ([], length b)
      | Some (r, n) \<Rightarrow>
          (case ref_decode_stream (drop n b) of (rs, residual) \<Rightarrow> (r # rs, residual)))"
  by pat_completeness auto

termination
  by (relation "measure length")
    (auto simp: ref_try_decode_def Let_def split: if_splits)

declare ref_decode_stream.simps [simp del]

lemma bad_header_append:
  "wf_header_size F \<le> length a \<Longrightarrow> 3 \<le> length a \<Longrightarrow> bad_header F (a @ b) \<longleftrightarrow> bad_header F a"
  by (auto simp: bad_header_def nth_append)

lemma ref_decode_bounds: "ref_try_decode a = Some (r, n) \<Longrightarrow> 64 \<le> n \<and> n \<le> length a"
  by (auto simp: ref_try_decode_def Let_def split: if_splits)

lemma ref_decode_prefix:
  assumes "ref_try_decode a = Some (r, n)"
  shows "ref_try_decode (a @ b) = Some (r, n)"
proof -
  have a: "64 \<le> length a" "\<not> bad_header ref_format a" "64 + unat (of_be32 (take 4 (drop 56 a)) :: u32) \<le> length a"
    using assms by (auto simp: ref_try_decode_def Let_def split: if_splits)
  then have "\<not> bad_header ref_format (a @ b)" by (subst bad_header_append) (simp_all add: ref_format_def)
  then show ?thesis using assms a by (simp add: ref_try_decode_def Let_def nth_append)
qed

lemma ref_decode_enc:
  assumes "wal_ok r"
  shows "ref_try_decode (ref_enc r) = Some (r, length (ref_enc r))"
proof -
  have n: "unat (word_of_nat (length (wr_payload r)) :: u32) = length (wr_payload r)"
    using assms by (simp add: wal_ok_def unat_of_nat take_bit_nat_eq_self)
  have "\<not> bad_header ref_format (ref_enc r)"
    by (simp add: bad_header_def ref_format_def ref_enc_def nth_append)
  then show ?thesis
    using assms n by (simp add: ref_try_decode_def ref_enc_def wal_ok_def Let_def nth_append)
qed

interpretation ref_codec: wal_codec ref_enc ref_try_decode
  by unfold_locales (simp_all add: ref_decode_enc, simp_all add: ref_enc_def)

lemma ref_stream_append:
  "ref_decode_stream (xs @ ys) =
    (fst (ref_decode_stream xs) @ fst (ref_decode_stream (drop (length xs - snd (ref_decode_stream xs)) xs @ ys)),
     snd (ref_decode_stream (drop (length xs - snd (ref_decode_stream xs)) xs @ ys)))
   \<and> snd (ref_decode_stream xs) \<le> length xs"
proof (induction xs rule: ref_decode_stream.induct)
  case (1 xs)
  show ?case
  proof (cases "ref_try_decode xs")
    case None
    then show ?thesis by (simp add: ref_decode_stream.simps [of xs])
  next
    case (Some rn)
    then obtain r n where d: "ref_try_decode xs = Some (r, n)" by (cases rn) auto
    note b = ref_decode_bounds [OF d]
    obtain rs m where t: "ref_decode_stream (drop n xs) = (rs, m)" by fastforce
    have whole: "ref_decode_stream xs = (r # rs, m)" "ref_decode_stream (xs @ ys) =
        (r # fst (ref_decode_stream (drop n xs @ ys)), snd (ref_decode_stream (drop n xs @ ys)))"
      using d ref_decode_prefix [OF d, of ys] b t
      by (simp_all add: ref_decode_stream.simps [of xs] ref_decode_stream.simps [of "xs @ ys"] split: prod.splits)
    note IH = "1.IH" [OF d refl, unfolded t fst_conv snd_conv]
    have m: "m \<le> length xs - n" using IH by simp
    then have "length xs - m = n + (length xs - n - m)" using b by arith
    then have "drop (length xs - m) xs = drop (length xs - n - m) (drop n xs)" by (simp add: add.commute)
    moreover have "m \<le> length xs" using m b by arith
    ultimately show ?thesis using whole IH by simp
  qed
qed

interpretation ref_stream: wal_stream ref_enc ref_decode_stream ref_format
proof unfold_locales
  fix xs r
  show "3 \<le> wf_header_size ref_format" by (simp add: ref_format_def)
  show "ref_decode_stream [] = ([], 0)"
    by (simp add: ref_decode_stream.simps [of "[]"] ref_try_decode_def)
  show "wal_ok r \<Longrightarrow> ref_decode_stream (ref_enc r @ xs) =
      (r # fst (ref_decode_stream xs), snd (ref_decode_stream xs))"
    using ref_decode_prefix [OF ref_decode_enc, of r xs]
    by (simp add: ref_decode_stream.simps [of "ref_enc r @ xs"] split: prod.splits)
  show "bad_header ref_format xs \<Longrightarrow> ref_decode_stream xs = ([], length xs)"
    by (simp add: ref_decode_stream.simps [of xs] ref_try_decode_def)
qed (use ref_stream_append in blast)+

end
