(* ===== verification/Util.thy ===== *)
theory Util
  imports Prelude "HOL-Library.List_Lexorder" "HOL-Library.Char_ord"
begin

text \<open>
  Text conversions: the number parser of the standard library as the program uses it, dotted
  addresses and timestamps of \<open>src/src/util.rs\<close>, and byte sizes of \<open>src/src/config.rs\<close>.
\<close>

section \<open>Numbers\<close>

definition digit_value :: "char \<Rightarrow> nat" where
  "digit_value c = of_char c - 48"

definition is_digit :: "char \<Rightarrow> bool" where
  "is_digit c \<longleftrightarrow> (48 :: nat) \<le> of_char c \<and> (of_char c :: nat) \<le> 57"

definition digits_value :: "string \<Rightarrow> nat" where
  "digits_value ds = foldl (\<lambda>n c. 10 * n + digit_value c) 0 ds"

text \<open>\<open>str::parse\<close> for an unsigned type with values below \<open>bound\<close>: a plus sign is accepted.\<close>

definition parse_uint :: "nat \<Rightarrow> string \<Rightarrow> nat option" where
  "parse_uint bound s =
     (let ds = (case s of [] \<Rightarrow> [] | c # cs \<Rightarrow> if c = CHR ''+'' then cs else s)
      in if ds \<noteq> [] \<and> list_all is_digit ds \<and> digits_value ds < bound then Some (digits_value ds) else None)"

lemma digit_char_nat [simp]: "n < 10 \<Longrightarrow> (of_char (digit_char n) :: nat) = 48 + n"
  by (simp add: digit_char_def)

lemma digit_char_digit [simp]: "n < 10 \<Longrightarrow> is_digit (digit_char n)" "n < 10 \<Longrightarrow> digit_value (digit_char n) = n"
  by (simp_all add: is_digit_def digit_value_def)

lemma digits_value_snoc: "digits_value (ds @ [c]) = 10 * digits_value ds + digit_value c"
  by (simp add: digits_value_def)

lemma show_nat_digits: "list_all is_digit (show_nat n) \<and> digits_value (show_nat n) = n \<and> show_nat n \<noteq> []"
proof (induction n rule: show_nat.induct)
  case (1 n)
  show ?case
  proof (cases "n < 10")
    case True
    then show ?thesis by (simp add: show_nat.simps digits_value_def)
  next
    case False
    then show ?thesis using 1 by (simp add: show_nat.simps [of n] digits_value_snoc)
  qed
qed

lemma digits_not: "list_all is_digit ds \<Longrightarrow> c \<in> set ds \<Longrightarrow> is_digit c"
  by (simp add: list_all_iff)

text \<open>Leading zeros do not matter, and what \<open>format!\<close> writes is read back.\<close>

lemma digits_value_zeros: "digits_value (replicate k (CHR ''0'') @ ds) = digits_value ds"
  by (induction k) (simp_all add: digits_value_def digit_value_def)

lemma parse_digits:
  "list_all is_digit ds \<Longrightarrow> ds \<noteq> [] \<Longrightarrow> digits_value ds < bound \<Longrightarrow>
   parse_uint bound (replicate k (CHR ''0'') @ ds) = Some (digits_value ds)"
proof -
  assume *: "list_all is_digit ds" "ds \<noteq> []" "digits_value ds < bound"
  let ?s = "replicate k (CHR ''0'') @ ds"
  have "is_digit (CHR ''0'')" by (simp add: is_digit_def)
  then have d: "list_all is_digit ?s" using *(1) by (auto simp: list_all_iff)
  moreover have "\<not> is_digit (CHR ''+'')" by (simp add: is_digit_def)
  ultimately have "CHR ''+'' \<notin> set ?s" by (metis digits_not)
  then have "(case ?s of [] \<Rightarrow> [] | c # cs \<Rightarrow> if c = CHR ''+'' then cs else ?s) = ?s"
    by (cases ?s) auto
  then show ?thesis using * d by (simp add: parse_uint_def digits_value_zeros)
qed

lemma parse_show: "n < bound \<Longrightarrow> parse_uint bound (show_nat n) = Some n"
  using parse_digits [of "show_nat n" bound 0] show_nat_digits [of n] by simp

section \<open>Addresses\<close>

definition ip4_to_string :: "u32 \<Rightarrow> string" where
  "ip4_to_string ip =
     show_nat (unat (drop_bit 24 ip AND 0xFF)) @ ''.'' @ show_nat (unat (drop_bit 16 ip AND 0xFF)) @ ''.''
       @ show_nat (unat (drop_bit 8 ip AND 0xFF)) @ ''.'' @ show_nat (unat (ip AND 0xFF))"

fun split_at :: "char \<Rightarrow> string \<Rightarrow> string list" where
  "split_at c [] = [[]]"
| "split_at c (x # xs) =
     (if x = c then [] # split_at c xs
      else case split_at c xs of [] \<Rightarrow> [[x]] | p # ps \<Rightarrow> (x # p) # ps)"

text \<open>The loop over the parts.\<close>

fun ip4_parts :: "string list \<Rightarrow> u32 \<Rightarrow> u32 option" where
  "ip4_parts [] ip = Some ip"
| "ip4_parts (p # ps) ip =
     do {
       n \<leftarrow> parse_uint (2 ^ 32) p;
       if 255 < n then None else ip4_parts ps (push_bit 8 ip OR of_nat n)
     }"

definition ip4_from_string :: "string \<Rightarrow> u32 option" where
  "ip4_from_string s = (let parts = split_at (CHR ''.'') s in if length parts \<noteq> 4 then None else ip4_parts parts 0)"

lemma split_at_append: "c \<notin> set xs \<Longrightarrow> split_at c (xs @ c # ys) = xs # split_at c ys"
  by (induction xs) auto

lemma split_at_none: "c \<notin> set xs \<Longrightarrow> split_at c xs = [xs]"
  by (induction xs) auto

lemma show_nat_no_dot: "CHR ''.'' \<notin> set (show_nat n)"
  using show_nat_digits [of n] by (auto simp: list_all_iff is_digit_def)

lemma octets_join:
  "push_bit 8 (push_bit 8 (push_bit 8 (push_bit 8 0 OR (drop_bit 24 ip AND 0xFF)) OR
     (drop_bit 16 ip AND 0xFF)) OR (drop_bit 8 ip AND 0xFF)) OR (ip AND 0xFF) = (ip :: u32)"
proof -
  have m: "(0xFF :: u32) = mask 8" by (simp add: mask_eq_exp_minus_1)
  show ?thesis
    unfolding m
  proof (rule bit_word_eqI)
    fix n
    assume "n < LENGTH(32)"
    then consider "n < 8" | "8 \<le> n" "n < 16" | "16 \<le> n" "n < 24" | "24 \<le> n" "n < 32" by fastforce
    then show "bit (push_bit 8 (push_bit 8 (push_bit 8 (push_bit 8 0 OR (drop_bit 24 ip AND mask 8)) OR
        (drop_bit 16 ip AND mask 8)) OR (drop_bit 8 ip AND mask 8)) OR (ip AND mask 8)) n = bit ip n"
      by cases (auto simp: bit_simps)
  qed
qed

lemma ip4_from_to: "ip4_from_string (ip4_to_string ip) = Some ip"
proof -
  have small: "unat (w AND 0xFF :: u32) < 256" for w
  proof -
    have "w AND 0xFF \<le> 0xFF" by (rule word_and_le1)
    then show ?thesis by (simp add: word_le_nat_alt)
  qed
  have p: "parse_uint 4294967296 (show_nat (unat (w AND 0xFF :: u32))) = Some (unat (w AND 0xFF))"
    "\<not> 255 < unat (w AND 0xFF :: u32)" for w
    using small [of w] by (auto intro: parse_show)
  show ?thesis
    using octets_join [of ip]
    by (simp add: ip4_from_string_def ip4_to_string_def split_at_append split_at_none
        show_nat_no_dot p Let_def)
qed

section \<open>Dates\<close>

text \<open>\<open>civil_from_days\<close>: days since 1970-01-01 to year, month and day.\<close>

definition civil_from_days :: "int \<Rightarrow> int \<times> int \<times> int" where
  "civil_from_days z =
     (let z = z + 719468;
          era = z div 146097;
          doe = z mod 146097;
          yoe = (doe - doe div 1460 + doe div 36524 - doe div 146096) div 365;
          y = yoe + era * 400;
          doy = doe - (365 * yoe + yoe div 4 - yoe div 100);
          mp = (5 * doy + 2) div 153;
          d = doy - (153 * mp + 2) div 5 + 1;
          m = (if mp < 10 then mp + 3 else mp - 9);
          y = (if m \<le> 2 then y + 1 else y)
      in (y, m, d))"

text \<open>\<open>{:04}\<close>, \<open>{:02}\<close> and \<open>{:09}\<close> of non-negative numbers.\<close>

definition pad :: "nat \<Rightarrow> nat \<Rightarrow> string" where
  "pad k n = replicate (k - length (show_nat n)) (CHR ''0'') @ show_nat n"

definition ts_to_rfc3339 :: "u64 \<Rightarrow> string" where
  "ts_to_rfc3339 ts =
     (let secs = unat ts div 1000000000; nanos = unat ts mod 1000000000;
          days = secs div 86400; rem = secs mod 86400;
          (y, m, d) = civil_from_days (int days)
      in pad 4 (nat y) @ ''-'' @ pad 2 (nat m) @ ''-'' @ pad 2 (nat d) @ ''T''
         @ pad 2 (rem div 3600) @ '':'' @ pad 2 (rem mod 3600 div 60) @ '':'' @ pad 2 (rem mod 60)
         @ ''.'' @ pad 9 nanos @ ''Z'')"

section \<open>Byte sizes\<close>

text \<open>\<open>str::trim\<close> on ASCII text.\<close>

definition is_space :: "char \<Rightarrow> bool" where
  "is_space c \<longleftrightarrow> c = CHR '' '' \<or> (9 :: nat) \<le> of_char c \<and> (of_char c :: nat) \<le> 13"

definition trim :: "string \<Rightarrow> string" where
  "trim s = rev (dropWhile is_space (rev (dropWhile is_space s)))"

definition ends_with :: "string \<Rightarrow> string \<Rightarrow> bool" where
  "ends_with s suf \<longleftrightarrow> length suf \<le> length s \<and> drop (length s - length suf) s = suf"

definition strip_last :: "nat \<Rightarrow> string \<Rightarrow> string" where
  "strip_last k s = take (length s - k) s"

definition parse_size :: "string \<Rightarrow> u64 option" where
  "parse_size s0 =
     (let s = trim s0
      in if s = [] then None
         else
           let (num, mult) =
             (if ends_with s ''KB'' then (strip_last 2 s, 1024)
              else if ends_with s ''MB'' then (strip_last 2 s, 1024 * 1024)
              else if ends_with s ''GB'' then (strip_last 2 s, 1024 * 1024 * 1024)
              else if ends_with s ''B'' then (strip_last 1 s, 1)
              else (s, 1))
           in do {
             n \<leftarrow> parse_uint (2 ^ 64) (trim num);
             if n * mult < 2 ^ 64 then Some (of_nat (n * mult)) else None
           })"

end
