(* ===== verification/Transport.thy ===== *)
theory Transport
  imports Wal_Codec Util
begin

text \<open>
  What carries record bytes into the program: decryption of chunk payloads (\<open>decrypt.rs\<close>), the
  streaming decoder of one segment (\<open>WalStreamDecoder\<close> of \<open>ingest/zenoh.rs\<close>), and the scan of WAL
  files (\<open>walscan.rs\<close>, \<open>ingest/offline.rs\<close>).

  The cipher (ChaCha20-Poly1305), \<open>hex::decode\<close> and \<open>decode_stream\<close> are parameters.  A reader is the
  list of what its \<open>read\<close> calls give, \<open>None\<close> being an I/O error; an empty read is the end of file.
\<close>

section \<open>Decryption\<close>

definition NONCE_LEN :: nat where "NONCE_LEN = 12"
definition TAG_LEN :: nat where "TAG_LEN = 16"

definition from_key_hex :: "(string \<Rightarrow> bytes option) \<Rightarrow> string \<Rightarrow> bytes option" where
  "from_key_hex hex_decode s =
     do { key \<leftarrow> hex_decode (trim s); if length key \<noteq> 32 then None else Some key }"

definition from_key_file :: "(string \<Rightarrow> bytes option) \<Rightarrow> string \<Rightarrow> bytes option" where
  "from_key_file fs path = do { b \<leftarrow> fs path; if length b \<noteq> 32 then None else Some b }"

text \<open>\<open>open_box key nonce ciphertext\<close> checks the tag and gives the plain text.\<close>

definition decrypt_chunk_payload ::
  "(bytes \<Rightarrow> bytes \<Rightarrow> bytes \<Rightarrow> bytes option) \<Rightarrow> bytes \<Rightarrow> bytes \<Rightarrow> u32 \<Rightarrow> bytes option" where
  "decrypt_chunk_payload open_box key payload chunk_len =
     (if length payload < NONCE_LEN then None
      else
        let expected = NONCE_LEN + unat chunk_len + TAG_LEN
        in if length payload \<noteq> expected then None
           else open_box key (take NONCE_LEN payload) (drop NONCE_LEN payload))"

section \<open>The streaming decoder\<close>

definition WAL_RESIDUAL_CAP :: nat where "WAL_RESIDUAL_CAP = 1024 * 1024"

definition decoder_feed ::
  "(bytes \<Rightarrow> wal_record list \<times> nat) \<Rightarrow> bytes \<Rightarrow> bytes \<Rightarrow> wal_record list \<times> bytes" where
  "decoder_feed decode_stream data residual =
     (let residual = residual @ data
      in if WAL_RESIDUAL_CAP < length residual then ([], [])
         else
           let (recs, res) = decode_stream residual; keep = length residual - res
           in (recs, drop keep residual))"

section \<open>Scanning a file\<close>

record scan_stats =
  ss_records :: u64
  ss_payload_bytes :: u64
  ss_total_bytes :: u64
  ss_dirty_tail_bytes :: u64
  ss_stopped_early :: bool

definition scan_stats_default :: scan_stats where
  "scan_stats_default = \<lparr>ss_records = 0, ss_payload_bytes = 0, ss_total_bytes = 0,
     ss_dirty_tail_bytes = 0, ss_stopped_early = False\<rparr>"

text \<open>The read loop: pending bytes, statistics and records at its end.\<close>

fun scan_loop ::
  "wal_format \<Rightarrow> (bytes \<Rightarrow> wal_record list \<times> nat) \<Rightarrow> bytes option list \<Rightarrow>
     bytes \<times> scan_stats \<times> wal_record list \<Rightarrow> (bytes \<times> scan_stats \<times> wal_record list) option" where
  "scan_loop F decode_stream [] state = Some state"
| "scan_loop F decode_stream (None # reads) state = None"
| "scan_loop F decode_stream (Some chunk # reads) (pending, stats, records) =
     (if chunk = [] then Some (pending, stats, records)
      else
        let pending = pending @ chunk;
            stats = stats\<lparr>ss_total_bytes := ss_total_bytes stats + of_nat (length chunk)\<rparr>
        in if bad_header F pending
           then Some ([], stats\<lparr>ss_stopped_early := True, ss_dirty_tail_bytes := of_nat (length pending)\<rparr>, records)
           else
             let (recs, residual) = decode_stream pending
             in scan_loop F decode_stream reads
                  (drop (length pending - residual) pending, stats, records @ recs))"

definition scan_reader ::
  "wal_format \<Rightarrow> (bytes \<Rightarrow> wal_record list \<times> nat) \<Rightarrow> bytes option list \<Rightarrow>
     (wal_record list \<times> scan_stats) option" where
  "scan_reader F decode_stream reads =
     do {
       (pending, stats, records) \<leftarrow> scan_loop F decode_stream reads ([], scan_stats_default, []);
       let stats = (if pending = [] then stats
         else (if bad_header F pending then stats\<lparr>ss_stopped_early := True\<rparr> else stats)
           \<lparr>ss_dirty_tail_bytes := of_nat (length pending)\<rparr>);
       Some (records, stats\<lparr>ss_records := of_nat (length records),
         ss_payload_bytes := sum_list (map (\<lambda>r. of_nat (length (wr_payload r))) records)\<rparr>)
     }"

section \<open>Scanning a directory\<close>

record wal_file_scan =
  fs_path :: string
  fs_file_size :: u64
  fs_records :: "wal_record list"
  fs_stats :: scan_stats

definition has_wal_extension :: "string \<Rightarrow> bool" where
  "has_wal_extension name \<longleftrightarrow> 4 < length name \<and> ends_with name ''.wal''"

text \<open>A file that can be opened: its size and its reads.\<close>

fun scan_files ::
  "wal_format \<Rightarrow> (bytes \<Rightarrow> wal_record list \<times> nat) \<Rightarrow> (string \<Rightarrow> (u64 \<times> bytes option list) option) \<Rightarrow>
     string list \<Rightarrow> wal_file_scan list option" where
  "scan_files F decode_stream open_file [] = Some []"
| "scan_files F decode_stream open_file (f # files) =
     do {
       (sz, reads) \<leftarrow> open_file f;
       (records, stats) \<leftarrow> scan_reader F decode_stream reads;
       out \<leftarrow> scan_files F decode_stream open_file files;
       Some (\<lparr>fs_path = f, fs_file_size = sz, fs_records = records, fs_stats = stats\<rparr> # out)
     }"

text \<open>The entries of the directory with whether they are files; a failing entry is \<open>None\<close>.\<close>

definition scan_all ::
  "wal_format \<Rightarrow> (bytes \<Rightarrow> wal_record list \<times> nat) \<Rightarrow> (string \<Rightarrow> (u64 \<times> bytes option list) option) \<Rightarrow>
     (string \<times> bool) option list option \<Rightarrow> wal_file_scan list option" where
  "scan_all F decode_stream open_file read_dir =
     do {
       entries \<leftarrow> read_dir;
       entries \<leftarrow> those entries;
       scan_files F decode_stream open_file
         (sort (map fst (filter (\<lambda>(name, is_file). has_wal_extension name \<and> is_file) entries)))
     }"

end
