(* ===== verification/Seq_Stream.thy ===== *)
theory Seq_Stream
  imports Connection
begin

text \<open>
  The absolute-sequence translator \<open>SeqStream\<close> of \<open>src/src/qr.rs\<close>: it maps 32-bit TCP sequence
  numbers to a monotone 64-bit stream position.  The specification is a head position \<open>H :: nat\<close>;
  \<open>tracks s H\<close> says that the translator's two words are \<open>H\<close> modulo their widths.  The refinement
  lemma shows that a packet at the true position \<open>p\<close> is reported at \<open>max p H\<close> with exactly its new
  bytes, as long as it lies within half the sequence space of the head.
\<close>

record seq_stream =
  ss_last_raw :: u32
  ss_last_abs :: u64
  ss_active :: bool

definition seq_from_state :: "conn_state \<Rightarrow> bool \<Rightarrow> seq_stream" where
  "seq_from_state st client =
     (if client
      then \<lparr>ss_last_raw = cs_last_raw_c st, ss_last_abs = cs_abs_seq_c st, ss_active = active_c st\<rparr>
      else \<lparr>ss_last_raw = cs_last_raw_s st, ss_last_abs = cs_abs_seq_s st, ss_active = active_s st\<rparr>)"

definition reset_baseline :: "u32 \<Rightarrow> seq_stream \<Rightarrow> seq_stream" where
  "reset_baseline isn s = s\<lparr>ss_last_raw := isn, ss_last_abs := ucast isn, ss_active := True\<rparr>"

text \<open>The \<open>i32\<close> difference is the word difference read with \<open>sint\<close>.\<close>

definition seq_diff :: "seq_stream \<Rightarrow> u32 \<Rightarrow> u32" where
  "seq_diff s raw = raw - ss_last_raw s"

definition abs_of :: "seq_stream \<Rightarrow> u32 \<Rightarrow> u64" where
  "abs_of s raw =
     (if \<not> ss_active s then ucast raw
      else let d = raw - ss_last_raw s
           in if 0 < sint d then ss_last_abs s + scast d else ss_last_abs s)"

definition feed_packet :: "seq_stream \<Rightarrow> u32 \<Rightarrow> u32 \<Rightarrow> (u64 \<times> u32) \<times> seq_stream" where
  "feed_packet s seq wire_len =
     (if \<not> ss_active s then
        (let s = reset_baseline seq s in ((ss_last_abs s, wire_len), s))
      else
        (let d = seq - ss_last_raw s; end = seq + wire_len
         in if 0 < sint d then
              (let abs_start = ss_last_abs s + scast d
               in ((abs_start, wire_len),
                   s\<lparr>ss_last_abs := abs_start + ucast wire_len, ss_last_raw := end\<rparr>))
            else
              (let new_len = end - ss_last_raw s
               in if new_len = 0 \<or> sint new_len < 0 then ((ss_last_abs s, 0), s)
                  else ((ss_last_abs s, new_len),
                        s\<lparr>ss_last_abs := ss_last_abs s + ucast new_len, ss_last_raw := end\<rparr>))))"

section \<open>Words of a position\<close>

lemma sint_of_int_u32: "- (2 ^ 31) \<le> k \<Longrightarrow> k < 2 ^ 31 \<Longrightarrow> sint (of_int k :: u32) = k"
  by (simp add: signed_of_int signed_take_bit_int_eq_self)

lemma diff_of_int: "(of_nat p :: u32) - of_nat h = of_int (int p - int h)"
  by simp

lemma scast_of_int_u32:
  "- (2 ^ 31) \<le> k \<Longrightarrow> k < 2 ^ 31 \<Longrightarrow> (scast (of_int k :: u32) :: u64) = of_int k"
  by (metis sint_of_int_u32 scast_eq)

lemma sint_zero_iff: "sint (w :: u32) = 0 \<longleftrightarrow> w = 0"
  using signed_eq_0_iff by blast

section \<open>Refinement to a stream head\<close>

definition tracks :: "seq_stream \<Rightarrow> nat \<Rightarrow> bool" where
  "tracks s H \<longleftrightarrow> ss_active s \<and> ss_last_raw s = of_nat H \<and> ss_last_abs s = of_nat H"

text \<open>A packet of \<open>n\<close> bytes at position \<open>p\<close> lies in the window of the head \<open>H\<close>.\<close>

definition in_window :: "nat \<Rightarrow> nat \<Rightarrow> nat \<Rightarrow> bool" where
  "in_window H p n \<longleftrightarrow> p < H + 2 ^ 31 \<and> H \<le> p + 2 ^ 31 \<and> p + n < H + 2 ^ 31"

definition feed_spec :: "nat \<Rightarrow> nat \<Rightarrow> nat \<Rightarrow> (nat \<times> nat) \<times> nat" where
  "feed_spec H p n = ((max p H, p + n - max p H), max H (p + n))"

lemma tracks_reset: "tracks (reset_baseline isn s) (unat isn)"
  by (simp add: tracks_def reset_baseline_def)

lemma ucast_of_nat_u32: "n < 2 ^ 32 \<Longrightarrow> (ucast (of_nat n :: u32) :: u64) = of_nat n"
  by (simp add: word_unat_eq_iff unat_of_nat unat_ucast_up)

lemma feed_ahead:
  assumes "tracks s H" "in_window H p n" "H < p"
  shows "\<exists>s'. feed_packet s (of_nat p) (of_nat n) = ((of_nat p, of_nat n), s') \<and>
      tracks s' (p + n)"
proof -
  have d: "(of_nat p :: u32) - ss_last_raw s = of_int (int p - int H)"
    and r: "- (2 ^ 31) \<le> int p - int H" "int p - int H < 2 ^ 31" and n: "n < 2 ^ 32"
    using assms by (auto simp: tracks_def in_window_def)
  have "ss_last_abs s + scast (of_int (int p - int H) :: u32) = of_nat p"
    using assms(1) r by (simp only: scast_of_int_u32 [OF r]) (simp add: tracks_def)
  with assms d r n show ?thesis
    by (simp add: feed_packet_def tracks_def Let_def sint_of_int_u32 ucast_of_nat_u32
        del: of_int_diff)
qed

lemma feed_behind:
  assumes "tracks s H" "in_window H p n" "p \<le> H"
  shows "\<exists>s'. feed_packet s (of_nat p) (of_nat n) = ((of_nat H, of_nat (p + n - H)), s') \<and>
      tracks s' (max H (p + n))"
proof -
  have t: "ss_active s" "ss_last_raw s = of_nat H" "ss_last_abs s = of_nat H"
    using assms(1) by (auto simp: tracks_def)
  have d: "(of_nat p :: u32) - of_nat H = of_int (int p - int H)"
    and r: "- (2 ^ 31) \<le> int p - int H" "int p - int H < 2 ^ 31"
    using assms by (auto simp: in_window_def)
  have l: "(of_nat p :: u32) + of_nat n - of_nat H = of_int (int (p + n) - int H)"
    and q: "- (2 ^ 31) \<le> int (p + n) - int H" "int (p + n) - int H < 2 ^ 31"
    using assms by (auto simp: in_window_def)
  let ?l = "of_int (int (p + n) - int H) :: u32"
  have sl: "sint ?l = int (p + n) - int H" by (rule sint_of_int_u32 [OF q])
  have l0: "?l = 0 \<longleftrightarrow> p + n = H" using sl sint_zero_iff [of ?l] by linarith
  have nd: "\<not> 0 < sint (of_int (int p - int H) :: u32)"
    using assms(3) by (simp only: sint_of_int_u32 [OF r])
  show ?thesis
  proof (cases "p + n \<le> H")
    case True
    then have "?l = 0 \<or> sint ?l < 0" using sl l0 by linarith
    then have "feed_packet s (of_nat p) (of_nat n) = ((of_nat H, 0), s)"
      by (simp only: feed_packet_def t d l nd Let_def if_True if_False simp_thms)
    with True assms(1) show ?thesis by (simp add: max_def)
  next
    case False
    then have nz: "\<not> (?l = 0 \<or> sint ?l < 0)" using sl l0 by linarith
    have le: "?l = of_nat (p + n - H)" using False by (simp add: of_nat_diff)
    have e: "of_nat H + (ucast ?l :: u64) = of_nat (p + n)"
      using False q unfolding le by (subst ucast_of_nat_u32) (auto simp: of_nat_diff)
    have "feed_packet s (of_nat p) (of_nat n) = ((of_nat H, ?l),
        s\<lparr>ss_last_abs := of_nat (p + n), ss_last_raw := of_nat p + of_nat n\<rparr>)"
      by (simp only: feed_packet_def t d l nd nz e Let_def if_True if_False simp_thms)
    with False t show ?thesis unfolding le by (simp add: tracks_def max_def)
  qed
qed

text \<open>A segment of \<open>n\<close> bytes at the true stream position \<open>p\<close> is reported at \<open>max p H\<close> with
  exactly the bytes beyond the head \<open>H\<close>, and the head moves to \<open>max H (p + n)\<close>: retransmissions
  never count twice and the 32-bit sequence number may wrap any number of times.\<close>

lemma feed_packet_refines:
  assumes "tracks s H" "in_window H p n"
  shows "\<exists>s'. feed_packet s (of_nat p) (of_nat n) =
           ((of_nat (fst (fst (feed_spec H p n))), of_nat (snd (fst (feed_spec H p n)))), s') \<and>
         tracks s' (snd (feed_spec H p n))"
proof (cases "H < p")
  case True
  with feed_ahead [OF assms True] show ?thesis by (simp add: feed_spec_def max_def)
next
  case False
  with feed_behind [OF assms] show ?thesis by (simp add: feed_spec_def max_def)
qed

section \<open>Runs\<close>

text \<open>The translator over a sequence of packets of one direction, and its specification.\<close>

fun feed_run :: "seq_stream \<Rightarrow> (u32 \<times> u32) list \<Rightarrow> (u64 \<times> u32) list \<times> seq_stream" where
  "feed_run s [] = ([], s)"
| "feed_run s ((seq, wire_len) # ps) =
     (let (r, s) = feed_packet s seq wire_len; (rs, s) = feed_run s ps in (r # rs, s))"

fun spec_run :: "nat \<Rightarrow> (nat \<times> nat) list \<Rightarrow> (nat \<times> nat) list \<times> nat" where
  "spec_run H [] = ([], H)"
| "spec_run H ((p, n) # ps) =
     (let (r, H) = feed_spec H p n; (rs, H) = spec_run H ps in (r # rs, H))"

fun run_window :: "nat \<Rightarrow> (nat \<times> nat) list \<Rightarrow> bool" where
  "run_window H [] \<longleftrightarrow> True"
| "run_window H ((p, n) # ps) \<longleftrightarrow> in_window H p n \<and> run_window (max H (p + n)) ps"

abbreviation raw_packets :: "(nat \<times> nat) list \<Rightarrow> (u32 \<times> u32) list" where
  "raw_packets ps \<equiv> map (\<lambda>(p, n). (of_nat p, of_nat n)) ps"

abbreviation raw_results :: "(nat \<times> nat) list \<Rightarrow> (u64 \<times> u32) list" where
  "raw_results rs \<equiv> map (\<lambda>(a, k). (of_nat a, of_nat k)) rs"

text \<open>C20: over any run of packets, each within half the sequence space of the running head, the
  translator reports the true positions and new-byte counts, however many gigabytes pass.\<close>

theorem feed_run_refines:
  "tracks s H \<Longrightarrow> run_window H ps \<Longrightarrow>
   \<exists>s'. feed_run s (raw_packets ps) = (raw_results (fst (spec_run H ps)), s') \<and>
     tracks s' (snd (spec_run H ps))"
proof (induction ps arbitrary: s H)
  case (Cons q ps)
  obtain p n where q: "q = (p, n)" by (cases q)
  with Cons.prems have w: "in_window H p n" "run_window (max H (p + n)) ps" by auto
  obtain s1 where s1: "feed_packet s (of_nat p) (of_nat n) =
      ((of_nat (max p H), of_nat (p + n - max p H)), s1)" "tracks s1 (max H (p + n))"
    using feed_packet_refines [OF Cons.prems(1) w(1)] by (auto simp: feed_spec_def)
  from Cons.IH [OF s1(2) w(2)] s1 q show ?case
    by (auto simp: feed_spec_def Let_def split: prod.splits)
qed simp

theorem feed_run_refines_witness:
  "run_window 4294967290 [(4294967291, 10), (4294967291, 10), (4294967296, 20)] \<and>
   feed_run (reset_baseline 4294967290 \<lparr>ss_last_raw = 0, ss_last_abs = 0, ss_active = False\<rparr>)
     (raw_packets [(4294967291, 10), (4294967291, 10), (4294967296, 20)]) =
   ([(4294967291, 10), (4294967301, 0), (4294967301, 15)],
    \<lparr>ss_last_raw = 20, ss_last_abs = 4294967316, ss_active = True\<rparr>)"
proof -
  let ?s = "reset_baseline 4294967290 \<lparr>ss_last_raw = 0, ss_last_abs = 0, ss_active = False\<rparr>"
  let ?ps = "[(4294967291, 10), (4294967291, 10), (4294967296, 20)] :: (nat \<times> nat) list"
  have w: "run_window 4294967290 ?ps" by (simp add: in_window_def max_def)
  have t: "tracks ?s 4294967290" by (simp add: tracks_def reset_baseline_def)
  have sp: "spec_run 4294967290 ?ps =
      ([(4294967291, 10), (4294967301, 0), (4294967301, 15)], 4294967316)"
    by (simp add: feed_spec_def max_def)
  from feed_run_refines [OF t w] obtain s' where
    s': "feed_run ?s (raw_packets ?ps) = (raw_results (fst (spec_run 4294967290 ?ps)), s')"
      "tracks s' (snd (spec_run 4294967290 ?ps))" by blast
  have "s' = \<lparr>ss_last_raw = 20, ss_last_abs = 4294967316, ss_active = True\<rparr>"
    using s'(2) unfolding sp by (cases s') (simp add: tracks_def)
  with s'(1)[unfolded sp] w show ?thesis by (simp del: feed_run.simps)
qed

text \<open>The new ranges never overlap: together they are no longer than the head's advance.\<close>

lemma spec_run_total:
  "H + sum_list (map snd (fst (spec_run H ps))) \<le> snd (spec_run H ps)"
proof (induction ps arbitrary: H)
  case (Cons q ps)
  obtain p n where q: "q = (p, n)" by (cases q)
  from Cons.IH [of "max H (p + n)"] show ?case
    by (auto simp: q feed_spec_def Let_def max_def split: prod.splits if_splits)
qed simp

section \<open>Read-only translation\<close>

text \<open>An acknowledgement of the true position \<open>a\<close> is translated to \<open>max a H\<close>; in particular an
  acknowledgement behind the head is read as an acknowledgement of the whole stream.\<close>

lemma abs_of_refines:
  assumes "tracks s H" "a < H + 2 ^ 31" "H \<le> a + 2 ^ 31"
  shows "abs_of s (of_nat a) = of_nat (max a H)"
proof -
  have d: "(of_nat a :: u32) - ss_last_raw s = of_int (int a - int H)"
    and r: "- (2 ^ 31) \<le> int a - int H" "int a - int H < 2 ^ 31"
    using assms by (auto simp: tracks_def)
  have sd: "sint (of_int (int a - int H) :: u32) = int a - int H" by (rule sint_of_int_u32 [OF r])
  have "ss_last_abs s + scast (of_int (int a - int H) :: u32) = of_nat a"
    using assms(1) by (simp only: scast_of_int_u32 [OF r]) (simp add: tracks_def)
  then show ?thesis
    using assms(1) unfolding abs_of_def d sd Let_def by (auto simp: tracks_def max_def)
qed

theorem abs_of_refines_witness:
  "tracks \<lparr>ss_last_raw = 1100, ss_last_abs = 1100, ss_active = True\<rparr> 1100 \<and>
   abs_of \<lparr>ss_last_raw = 1100, ss_last_abs = 1100, ss_active = True\<rparr> (of_nat 1000) =
     of_nat (max 1000 1100)"
proof -
  have "tracks \<lparr>ss_last_raw = 1100, ss_last_abs = 1100, ss_active = True\<rparr> 1100"
    by (simp add: tracks_def)
  then show ?thesis using abs_of_refines [of _ 1100 1000] by simp
qed

section \<open>The first packet of a direction\<close>

text \<open>C22: the first packet seen on a direction sets the baseline but does not move the head past
  its own payload, so its retransmission is reported as entirely new data.\<close>

theorem first_packet_retransmission_is_new:
  assumes "\<not> ss_active s" "0 < sint wire_len"
  shows "let ((a1, n1), s1) = feed_packet s seq wire_len;
             ((a2, n2), s2) = feed_packet s1 seq wire_len
         in (a1, n1) = (ucast seq, wire_len) \<and> (a2, n2) = (ucast seq, wire_len)"
proof -
  have "wire_len \<noteq> 0" "\<not> sint wire_len < 0" using assms(2) by auto
  with assms(1) show ?thesis by (simp add: feed_packet_def reset_baseline_def Let_def)
qed

theorem first_packet_retransmission_is_new_witness:
  "let ((a1, n1), s1) = feed_packet \<lparr>ss_last_raw = 0, ss_last_abs = 0, ss_active = False\<rparr> 5000 100;
       ((a2, n2), s2) = feed_packet s1 5000 100
   in (a1, n1) = (5000, 100) \<and> (a2, n2) = (5000, 100)"
  using first_packet_retransmission_is_new
    [of "\<lparr>ss_last_raw = 0, ss_last_abs = 0, ss_active = False\<rparr>" 100 5000] by simp

end
