(* ===== verification/Store.thy ===== *)
theory Store
  imports Maps
begin

text \<open>
  The key-value store behind the index plane.  LMDB (the crate \<open>heed\<close>) is not part of the
  repository: one named database inside a write transaction is a value of the parameter type \<open>'d\<close>,
  and the calls the program makes are the fields of \<open>'d lmdb\<close>.  Every call may fail with an I/O
  error, which the program propagates (\<open>?\<close>), dropping the transaction: that is \<open>None\<close>.

  The contract is the locale \<open>lmdb_store\<close>: what a call that returns does to the contents
  (\<open>view\<close>).  \<open>lmdb_total\<close> adds that no call fails on a key that LMDB accepts (1 to 511 bytes), i.e.
  that there is no I/O error and the map is not full.  A reference store satisfies both.
\<close>

datatype 'd put_result = Written 'd | KeyExist | MdbError

record 'd lmdb =
  lm_get :: "'d \<Rightarrow> bytes \<Rightarrow> bytes option option"
  lm_put :: "'d \<Rightarrow> bytes \<Rightarrow> bytes \<Rightarrow> 'd option"
  lm_put_new :: "'d \<Rightarrow> bytes \<Rightarrow> bytes \<Rightarrow> 'd put_result"
  lm_delete :: "'d \<Rightarrow> bytes \<Rightarrow> ('d \<times> bool) option"
  lm_range :: "'d \<Rightarrow> bytes \<Rightarrow> bytes \<Rightarrow> (bytes \<times> bytes) list option"
  lm_len :: "'d \<Rightarrow> nat option"
  lm_first :: "'d \<Rightarrow> (bytes \<times> bytes) option option"
  lm_last :: "'d \<Rightarrow> (bytes \<times> bytes) option option"

text \<open>\<open>put_no_overwrite\<close> of \<open>db.rs\<close>: an existing key is not an error but the answer \<open>False\<close>.\<close>

definition put_no_overwrite :: "'d lmdb \<Rightarrow> 'd \<Rightarrow> bytes \<Rightarrow> bytes \<Rightarrow> ('d \<times> bool) option" where
  "put_no_overwrite L d key val =
     (case lm_put_new L d key val of
        Written d' \<Rightarrow> Some (d', True)
      | KeyExist \<Rightarrow> Some (d, False)
      | MdbError \<Rightarrow> None)"

section \<open>Contract\<close>

type_synonym contents = "bytes \<Rightarrow> bytes option"

text \<open>The entry with the smallest key; with \<open>flip (\<le>)\<close> for \<open>le\<close> the one with the largest.\<close>

definition extreme_of :: "(bytes \<Rightarrow> bytes \<Rightarrow> bool) \<Rightarrow> contents \<Rightarrow> (bytes \<times> bytes) option \<Rightarrow> bool" where
  "extreme_of le m e \<longleftrightarrow>
     (case e of
        None \<Rightarrow> m = Map.empty
      | Some (k, v) \<Rightarrow> m k = Some v \<and> (\<forall>k'. m k' \<noteq> None \<longrightarrow> le k k'))"

text \<open>The answer of a range scan: the entries between the bounds, in key order.\<close>

definition scan_of :: "contents \<Rightarrow> bytes \<Rightarrow> bytes \<Rightarrow> (bytes \<times> bytes) list \<Rightarrow> bool" where
  "scan_of m lo hi kvs \<longleftrightarrow> bt_sorted kvs \<and>
     (\<forall>k v. (k, v) \<in> set kvs \<longleftrightarrow> m k = Some v \<and> lo \<le> k \<and> k \<le> hi)"

definition valid_key :: "bytes \<Rightarrow> bool" where
  "valid_key k \<longleftrightarrow> 1 \<le> length k \<and> length k \<le> 511"

definition upd_new :: "contents \<Rightarrow> bytes \<Rightarrow> bytes \<Rightarrow> contents" where
  "upd_new m k v = (case m k of None \<Rightarrow> m(k \<mapsto> v) | Some _ \<Rightarrow> m)"

locale lmdb_store =
  fixes L :: "'d lmdb" and view :: "'d \<Rightarrow> contents"
  assumes get_view: "lm_get L d k = Some r \<Longrightarrow> r = view d k"
    and put_view: "lm_put L d k v = Some d' \<Longrightarrow> view d' = (view d)(k \<mapsto> v)"
    and put_new_written: "lm_put_new L d k v = Written d' \<Longrightarrow>
      view d k = None \<and> view d' = (view d)(k \<mapsto> v)"
    and put_new_exists: "lm_put_new L d k v = KeyExist \<Longrightarrow> view d k \<noteq> None"
    and delete_view: "lm_delete L d k = Some (d', b) \<Longrightarrow> view d' = (view d)(k := None)"
    and range_view: "lm_range L d lo hi = Some kvs \<Longrightarrow> scan_of (view d) lo hi kvs"
    and len_view: "lm_len L d = Some n \<Longrightarrow> finite (dom (view d)) \<and> n = card (dom (view d))"
    and first_view: "lm_first L d = Some e \<Longrightarrow> extreme_of (\<le>) (view d) e"
    and last_view: "lm_last L d = Some e \<Longrightarrow> extreme_of (\<ge>) (view d) e"
begin

lemma put_no_overwrite_view:
  "put_no_overwrite L d k v = Some (d', b) \<Longrightarrow>
   view d' = upd_new (view d) k v \<and> (b \<longleftrightarrow> view d k = None)"
  by (auto simp: put_no_overwrite_def upd_new_def split: put_result.splits option.splits
      dest: put_new_written put_new_exists)

text \<open>A database written with \<open>NO_OVERWRITE\<close> only grows: no row ever changes.\<close>

lemma put_no_overwrite_grows:
  "put_no_overwrite L d k v = Some (d', b) \<Longrightarrow> view d \<subseteq>\<^sub>m view d'"
  using put_no_overwrite_view [of d k v d' b]
  by (auto simp: upd_new_def map_le_def split: option.splits if_splits)

lemma put_no_overwrite_present:
  "put_no_overwrite L d k v = Some (d', b) \<Longrightarrow> view d' k \<noteq> None"
  using put_no_overwrite_view [of d k v d' b] by (auto simp: upd_new_def split: option.splits)

lemma put_no_overwrite_other:
  "put_no_overwrite L d k v = Some (d', b) \<Longrightarrow> k' \<noteq> k \<Longrightarrow> view d' k' = view d k'"
  using put_no_overwrite_view [of d k v d' b] by (auto simp: upd_new_def split: option.splits)

text \<open>Writing the same row twice is writing it once: what replays rely on.\<close>

lemma put_no_overwrite_again:
  "put_no_overwrite L d k v = Some (d', b) \<Longrightarrow> put_no_overwrite L d' k v' = Some (d'', b') \<Longrightarrow>
   view d'' = view d' \<and> \<not> b'"
  using put_no_overwrite_view [of d k v d' b] put_no_overwrite_view [of d' k v' d'' b']
  by (auto simp: upd_new_def split: option.splits if_splits)

end

locale lmdb_total = lmdb_store +
  assumes get_total: "valid_key k \<Longrightarrow> lm_get L d k \<noteq> None"
    and put_total: "valid_key k \<Longrightarrow> lm_put L d k v \<noteq> None"
    and put_new_total: "valid_key k \<Longrightarrow> lm_put_new L d k v \<noteq> MdbError"
    and delete_total: "valid_key k \<Longrightarrow> lm_delete L d k \<noteq> None"
    and range_total: "lm_range L d lo hi \<noteq> None"
    and len_total: "lm_len L d \<noteq> None"
begin

lemma put_no_overwrite_total: "valid_key k \<Longrightarrow> put_no_overwrite L d k v \<noteq> None"
  using put_new_total [of k d v] by (auto simp: put_no_overwrite_def split: put_result.splits)

end

section \<open>Reference store\<close>

text \<open>An association list; scans sort it.\<close>

definition sorted_entries :: "(bytes \<times> bytes) list \<Rightarrow> (bytes \<times> bytes) list" where
  "sorted_entries d = foldr (\<lambda>(k, v) acc. bt_insert k v acc) d []"

definition ref_lmdb :: "(bytes \<times> bytes) list lmdb" where
  "ref_lmdb =
     \<lparr>lm_get = (\<lambda>d k. Some (map_of d k)),
      lm_put = (\<lambda>d k v. Some (AList.update k v d)),
      lm_put_new = (\<lambda>d k v. case map_of d k of
        None \<Rightarrow> Written (AList.update k v d) | Some _ \<Rightarrow> KeyExist),
      lm_delete = (\<lambda>d k. Some (AList.delete k d, map_of d k \<noteq> None)),
      lm_range = (\<lambda>d lo hi. Some (filter (\<lambda>(k, v). lo \<le> k \<and> k \<le> hi) (sorted_entries d))),
      lm_len = (\<lambda>d. Some (length (sorted_entries d))),
      lm_first = (\<lambda>d. Some (case sorted_entries d of [] \<Rightarrow> None | e # _ \<Rightarrow> Some e)),
      lm_last = (\<lambda>d. Some (case rev (sorted_entries d) of [] \<Rightarrow> None | e # _ \<Rightarrow> Some e))\<rparr>"

lemma sorted_entries_sorted: "bt_sorted (sorted_entries d)"
  by (induction d) (auto simp: sorted_entries_def bt_sorted_insert)

lemma map_of_sorted_entries: "map_of (sorted_entries d) = map_of d"
  by (induction d) (auto simp: sorted_entries_def)

lemma sorted_entries_iff: "(k, v) \<in> set (sorted_entries d) \<longleftrightarrow> map_of d k = Some v"
  using map_of_eq_Some_iff [OF bt_sorted_distinct [OF sorted_entries_sorted [of d]]]
  by (simp add: map_of_sorted_entries)

lemma bt_sorted_filter: "bt_sorted xs \<Longrightarrow> bt_sorted (filter P xs)"
  by (induction xs) auto

lemma bt_sorted_first: "bt_sorted (e # es) \<Longrightarrow> x \<in> set (e # es) \<Longrightarrow> fst e \<le> fst x"
  by (cases e) (auto simp: less_imp_le)

lemma bt_sorted_last: "bt_sorted (es @ [e]) \<Longrightarrow> x \<in> set (es @ [e]) \<Longrightarrow> fst x \<le> fst e"
  by (induction es) (auto simp: less_imp_le)

lemma extreme_ofI:
  assumes es: "\<And>k v. (k, v) \<in> set es \<longleftrightarrow> m k = Some v"
    and x: "case x of None \<Rightarrow> es = [] | Some e \<Rightarrow> e \<in> set es \<and> (\<forall>y \<in> set es. le (fst e) (fst y))"
  shows "extreme_of le m x"
proof (cases x)
  case None
  then have "m k = None" for k using x es [of k] by (cases "m k") auto
  then show ?thesis using None by (auto simp: extreme_of_def)
next
  case (Some e)
  then have "m (fst e) = Some (snd e)" using x es [of "fst e" "snd e"] by simp
  moreover have "le (fst e) k" if "m k \<noteq> None" for k
    using that x es Some by fastforce
  ultimately show ?thesis using Some by (auto simp: extreme_of_def split: prod.splits)
qed

lemma ref_first: "extreme_of (\<le>) (map_of d) (case sorted_entries d of [] \<Rightarrow> None | e # _ \<Rightarrow> Some e)"
proof (rule extreme_ofI [OF sorted_entries_iff])
  show "case case sorted_entries d of [] \<Rightarrow> None | e # _ \<Rightarrow> Some e of None \<Rightarrow> sorted_entries d = []
    | Some e \<Rightarrow> e \<in> set (sorted_entries d) \<and> (\<forall>y \<in> set (sorted_entries d). fst e \<le> fst y)"
  proof (cases "sorted_entries d")
    case (Cons e es)
    then have "\<forall>y \<in> set (e # es). fst e \<le> fst y"
      using bt_sorted_first [of e es] sorted_entries_sorted [of d] by metis
    then show ?thesis using Cons by simp
  qed simp
qed

lemma ref_last: "extreme_of (\<ge>) (map_of d) (case rev (sorted_entries d) of [] \<Rightarrow> None | e # _ \<Rightarrow> Some e)"
proof (rule extreme_ofI [OF sorted_entries_iff])
  show "case case rev (sorted_entries d) of [] \<Rightarrow> None | e # _ \<Rightarrow> Some e of None \<Rightarrow> sorted_entries d = []
    | Some e \<Rightarrow> e \<in> set (sorted_entries d) \<and> (\<forall>y \<in> set (sorted_entries d). fst e \<ge> fst y)"
  proof (cases "sorted_entries d" rule: rev_cases)
    case (snoc es e)
    then have "\<forall>y \<in> set (es @ [e]). fst y \<le> fst e"
      using bt_sorted_last [of es e] sorted_entries_sorted [of d] by simp
    then show ?thesis using snoc by simp
  qed simp
qed

interpretation ref: lmdb_total ref_lmdb map_of
proof unfold_locales
  fix d :: "(bytes \<times> bytes) list" and lo hi kvs n
  show "lm_range ref_lmdb d lo hi = Some kvs \<Longrightarrow> scan_of (map_of d) lo hi kvs"
    by (auto simp: ref_lmdb_def scan_of_def sorted_entries_iff bt_sorted_filter
        sorted_entries_sorted)
  have c: "card (dom (map_of d)) = length (sorted_entries d)"
    using bt_sorted_distinct [OF sorted_entries_sorted [of d]]
    by (metis distinct_card dom_map_of_conv_image_fst length_map list.set_map map_of_sorted_entries)
  show "lm_first ref_lmdb d = Some e \<Longrightarrow> extreme_of (\<le>) (map_of d) e"
    "lm_last ref_lmdb d = Some e \<Longrightarrow> extreme_of (\<ge>) (map_of d) e" for e
    using ref_first ref_last by (auto simp: ref_lmdb_def)
  show "lm_len ref_lmdb d = Some n \<Longrightarrow>
      finite (dom (map_of d)) \<and> n = card (dom (map_of d))"
    using c by (auto simp: ref_lmdb_def finite_dom_map_of)
qed (auto simp: ref_lmdb_def update_conv' delete_conv' split: option.splits)

end
