(* ===== verification/Qr.thy ===== *)
theory Qr
  imports Records Seq_Stream Meta Store
begin

text \<open>
  The request/response matcher \<open>QrMatcher\<close> of \<open>src/src/qr.rs\<close>: one batch works on a live and an
  epoch write transaction, here the ten named databases of both.  A request (client payload) opens
  a pending pair in the live store; the server's cumulative ACK, a reset or a new generation of the
  connection moves it, with its final status, to the append-only epoch store.

  \<open>None\<close> is an error of the store, a panic of key extraction, or a failed \<open>unwrap\<close>; the caller then
  drops both transactions.
\<close>

section \<open>State\<close>

definition EPOCH_JUMP_THRESHOLD :: u32 where "EPOCH_JUMP_THRESHOLD = push_bit 30 1"
definition U48_MAX :: u64 where "U48_MAX = 0x0000FFFFFFFFFFFF"
definition ACK_LEAD_CAP :: u64 where "ACK_LEAD_CAP = push_bit 26 1"

datatype dir = C2S | S2C

record pending_hit =
  ph_key :: bytes
  ph_q_first_idx :: u64
  ph_q_ts :: u64

record conn_archive_event =
  ca_conn_hash :: u64
  ca_first_ts :: u64
  ca_last_ts :: u64
  ca_state :: u8

text \<open>The named databases of the live store (four) and of the current epoch store (six).\<close>

record 'd dual_db =
  qm_conn_state :: 'd
  qm_live_pair :: 'd
  qm_pending :: 'd
  qm_ttl :: 'd
  qm_ep_pair :: 'd
  qm_conn_qr :: 'd
  qm_qr_key :: 'd
  qm_qr_time :: 'd
  qm_packet_qr :: 'd
  qm_record_ts :: 'd

text \<open>The matcher: both transactions, and the state of the batch.\<close>

record 'd qr_matcher = "'d dual_db" +
  qm_ack_tol :: u32
  qm_conns :: "(u64 \<times> conn_state) list"
  qm_anomalies :: "anomaly_event list"
  qm_meta :: "meta_registry option"
  qm_ext_meta :: "ext_meta_event list"
  qm_conn_archives :: "conn_archive_event list"

definition conn_fresh :: "wal_consts \<Rightarrow> wal_record \<Rightarrow> conn_state" where
  "conn_fresh C rec =
     (let is_syn = (wr_tcp_flags rec AND wc_syn C \<noteq> 0)
      in default_conn_state
        \<lparr>cs_state := kind_u8 HalfOpen, cs_client_ip := of_be32 (wr_src_ip rec),
         cs_client_port := wr_src_port rec, cs_server_ip := of_be32 (wr_dst_ip rec),
         cs_server_port := wr_dst_port rec, cs_proto := ucast (wr_proto rec),
         cs_first_ts := wr_timestamp_ns rec, cs_last_ts := wr_timestamp_ns rec,
         cs_anomaly_flags := (if is_syn then 0 else ANOM_HALF_OPEN), cs_meta_bind_id := - 1\<rparr>)"

text \<open>\<open>req_key_of\<close>: the first 32 bytes of the payload.\<close>

definition req_key_of :: "wal_record \<Rightarrow> bytes" where
  "req_key_of rec = take (min (length (wr_payload rec)) 32) (wr_payload rec)"

definition is_terminal :: "u8 \<Rightarrow> bool" where
  "is_terminal state \<longleftrightarrow> state = kind_u8 Closed \<or> state = kind_u8 Reset
     \<or> state = kind_u8 ConnTimeout \<or> state = kind_u8 Quarantined"

section \<open>Pending requests\<close>

definition hit_of :: "bytes \<times> bytes \<Rightarrow> pending_hit option" where
  "hit_of e = (case v_qr_pending_decode (snd e) of
     None \<Rightarrow> None
   | Some (q, ts, _) \<Rightarrow> Some \<lparr>ph_key = fst e, ph_q_first_idx = q, ph_q_ts = ts\<rparr>)"

definition scan_pending_upto ::
  "'d lmdb \<Rightarrow> u64 \<Rightarrow> u16 \<Rightarrow> u64 \<Rightarrow> 'd qr_matcher \<Rightarrow> pending_hit list option" where
  "scan_pending_upto L h inc abs_limit m =
     do {
       kvs \<leftarrow> lm_range L (qm_pending m) (k_qr_pending_prefix h inc)
         (k_qr_pending h inc (min abs_limit U48_MAX));
       Some (List.map_filter hit_of kvs)
     }"

definition count_live_pending :: "'d lmdb \<Rightarrow> u64 \<Rightarrow> 'd qr_matcher \<Rightarrow> u64 option" where
  "count_live_pending L h m =
     do {
       kvs \<leftarrow> lm_range L (qm_pending m) (be64 h @ replicate 8 0) (be64 h @ replicate 8 0xFF);
       Some (of_nat (length kvs))
     }"

text \<open>The migration of a pair from the live store to its final state in the epoch store.\<close>

definition migrate_terminal ::
  "'d lmdb \<Rightarrow> u64 \<Rightarrow> (qr_pair_value \<Rightarrow> qr_pair_value) \<Rightarrow> 'd qr_matcher \<Rightarrow>
     ('d qr_matcher \<times> bool) option" where
  "migrate_terminal L q_first_idx flip m =
     do {
       let kp = k_qr_pair q_first_idx;
       e \<leftarrow> lm_get L (qm_ep_pair m) kp;
       if e \<noteq> None then
         do {
           (d, _) \<leftarrow> lm_delete L (qm_live_pair m) kp;
           Some (m\<lparr>qm_live_pair := d\<rparr>, False)
         }
       else
         do {
           v \<leftarrow> lm_get L (qm_live_pair m) kp;
           case Option.bind v qr_pair_decode of
             None \<Rightarrow> Some (m, False)
           | Some pair \<Rightarrow>
               if qp_status pair \<noteq> status_u8 Pending then Some (m, False)
               else do {
                 (d, _) \<leftarrow> put_no_overwrite L (qm_ep_pair m) kp (qr_pair_encode (flip pair));
                 let m = m\<lparr>qm_ep_pair := d\<rparr>;
                 (d, _) \<leftarrow> lm_delete L (qm_live_pair m) kp;
                 Some (m\<lparr>qm_live_pair := d\<rparr>, True)
               }
         }
     }"

text \<open>The removal of a hit's \<open>QR_PENDING\<close> and \<open>PENDING_TTL\<close> rows, which follows every migration.\<close>

definition clear_hit ::
  "'d lmdb \<Rightarrow> u64 \<Rightarrow> pending_hit \<Rightarrow> 'd qr_matcher \<Rightarrow> 'd qr_matcher option" where
  "clear_hit L h hit m =
     do {
       (d, _) \<leftarrow> lm_delete L (qm_pending m) (ph_key hit);
       let m = m\<lparr>qm_pending := d\<rparr>;
       (d, _) \<leftarrow> lm_delete L (qm_ttl m) (k_pending_ttl (ph_q_ts hit) h);
       Some (m\<lparr>qm_ttl := d\<rparr>)
     }"

section \<open>Consumption by an ACK\<close>

definition push_new :: "u64 list \<Rightarrow> u64 \<Rightarrow> u64 list" where
  "push_new xs x = (if x \<in> set xs then xs else xs @ [x])"

definition sat_add32 :: "u32 \<Rightarrow> u32 \<Rightarrow> u32" where
  "sat_add32 a b = (if unat a + unat b < 2 ^ 32 then a + b else - 1)"

text \<open>The closure that \<open>consume_r\<close> passes to \<open>migrate_terminal\<close>; \<open>others\<close> are the later hits.\<close>

definition match_flip ::
  "indexed_record \<Rightarrow> bool \<Rightarrow> u64 list \<Rightarrow> qr_pair_value \<Rightarrow> qr_pair_value" where
  "match_flip r primary others pair =
     (let pair = pair\<lparr>qp_status := status_u8 Matched, qp_r_ts := wr_timestamp_ns (ir_rec r)\<rparr>;
          pair = pair\<lparr>qp_latency_ms := sat_sub64 (qp_r_ts pair) (qp_q_ts pair) div 1000000,
            qp_r_len := sat_add32 (qp_r_len pair) (wr_orig_payload_len (ir_rec r)),
            qp_r_idx := qp_r_idx pair @ [ir_idx r]\<rparr>
      in if primary
         then pair\<lparr>qp_resp_key := req_key_of (ir_rec r),
           qp_q_idx := foldl push_new (qp_q_idx pair) others\<rparr>
         else pair)"

fun consume_hits ::
  "'d lmdb \<Rightarrow> u64 \<Rightarrow> indexed_record \<Rightarrow> bool \<Rightarrow> u64 list \<Rightarrow> pending_hit list \<Rightarrow>
     'd qr_matcher \<times> conn_state \<Rightarrow> ('d qr_matcher \<times> conn_state) option" where
  "consume_hits L h r primary others [] (m, st) = Some (m, st)"
| "consume_hits L h r primary others (hit # hits) (m, st) =
     do {
       (m, migrated) \<leftarrow> migrate_terminal L (ph_q_first_idx hit) (match_flip r primary others) m;
       m \<leftarrow> clear_hit L h hit m;
       let st = (if migrated then st\<lparr>cs_qr_open := sat_sub64 (cs_qr_open st) 1\<rparr> else st);
       consume_hits L h r False others hits (m, st)
     }"

definition consume_r ::
  "'d lmdb \<Rightarrow> u64 \<Rightarrow> conn_state \<Rightarrow> indexed_record \<Rightarrow> u64 \<Rightarrow> 'd qr_matcher \<Rightarrow>
     ('d qr_matcher \<times> conn_state) option" where
  "consume_r L h st r abs_ack m =
     do {
       let limit = sat_add64 abs_ack (ucast (qm_ack_tol m));
       hits \<leftarrow> scan_pending_upto L h (cs_incarnation st) limit m;
       (m, st) \<leftarrow> consume_hits L h r True (map ph_q_first_idx (tl hits)) hits (m, st);
       Some (m, st\<lparr>cs_consumed_ack_s := max abs_ack (cs_consumed_ack_s st)\<rparr>)
     }"

section \<open>Generation flips and resets\<close>

text \<open>The loop shared by \<open>flip_epoch\<close> and \<open>rst_cascade\<close>: migrate, audit, clear.\<close>

fun abort_hits ::
  "'d lmdb \<Rightarrow> u64 \<Rightarrow> qr_status \<Rightarrow> (u64 \<Rightarrow> anomaly_event) \<Rightarrow> pending_hit list \<Rightarrow> 'd qr_matcher \<Rightarrow>
     'd qr_matcher option" where
  "abort_hits L h status ev [] m = Some m"
| "abort_hits L h status ev (hit # hits) m =
     do {
       (m, _) \<leftarrow> migrate_terminal L (ph_q_first_idx hit)
         (\<lambda>pair. pair\<lparr>qp_status := status_u8 status\<rparr>) m;
       let m = m\<lparr>qm_anomalies := qm_anomalies m @ [ev (ph_q_first_idx hit)]\<rparr>;
       m \<leftarrow> clear_hit L h hit m;
       abort_hits L h status ev hits m
     }"

definition conn_at :: "u64 \<Rightarrow> 'd qr_matcher \<Rightarrow> conn_state option" where
  "conn_at h m = map_of (qm_conns m) h"

definition persist_state :: "u64 \<Rightarrow> conn_state \<Rightarrow> 'd qr_matcher \<Rightarrow> 'd qr_matcher" where
  "persist_state h st m = m\<lparr>qm_conns := AList.update h st (qm_conns m)\<rparr>"

text \<open>The audit events of both.\<close>

definition gen_flip_event :: "wal_record \<Rightarrow> u64 \<Rightarrow> u16 \<Rightarrow> u64 \<Rightarrow> anomaly_event" where
  "gen_flip_event rec h old_inc q = conn_event (wr_timestamp_ns rec) ANOM_QR_UNMATCHED h (Some q)
     (''epoch='' @ show_nat (unat old_inc) @ '' gen_flip'')"

definition rebirth_event :: "wal_consts \<Rightarrow> wal_record \<Rightarrow> u64 \<Rightarrow> nat \<Rightarrow> anomaly_event" where
  "rebirth_event C rec h n =
     (let detail = (if wr_tcp_flags rec AND wc_syn C \<noteq> 0 then ''EPOCH_REBIRTH_SYN''
                    else ''EPOCH_REBIRTH_JUMP'')
      in conn_event (wr_timestamp_ns rec) ANOM_EPOCH_REBIRTH h None
           (detail @ '' pending='' @ show_nat n))"

definition rst_abort_event :: "wal_record \<Rightarrow> u64 \<Rightarrow> u16 \<Rightarrow> u64 \<Rightarrow> anomaly_event" where
  "rst_abort_event rec h inc q = conn_event (wr_timestamp_ns rec) ANOM_QR_RST_ABORT h (Some q)
     (''inc='' @ show_nat (unat inc) @ '' rst_cascade'')"

definition rst_event :: "wal_record \<Rightarrow> u64 \<Rightarrow> nat \<Rightarrow> anomaly_event" where
  "rst_event rec h n = conn_event (wr_timestamp_ns rec) ANOM_CONN_RST h None
     (''RST cascade pending='' @ show_nat n)"

text \<open>The connection of the new generation: baselines, state and consumption start over.\<close>

definition reborn :: "wal_consts \<Rightarrow> wal_record \<Rightarrow> dir \<Rightarrow> u64 \<Rightarrow> conn_state \<Rightarrow> conn_state" where
  "reborn C rec dir syn_idx st =
     (let is_syn = (wr_tcp_flags rec AND wc_syn C \<noteq> 0);
          st = st\<lparr>cs_incarnation := cs_incarnation st + 1, cs_qr_open := 0,
                  cs_syn_pkt_idx := (if is_syn then syn_idx else 0)\<rparr>;
          st = (case dir of
            C2S \<Rightarrow> set_active_s False (set_active_c True
              (st\<lparr>cs_last_raw_c := wr_tcp_seq rec, cs_abs_seq_c := ucast (wr_tcp_seq rec),
                  cs_last_raw_s := 0, cs_abs_seq_s := 0\<rparr>))
          | S2C \<Rightarrow> set_active_c False (set_active_s True
              (st\<lparr>cs_last_raw_s := wr_tcp_seq rec, cs_abs_seq_s := ucast (wr_tcp_seq rec),
                  cs_last_raw_c := 0, cs_abs_seq_c := 0\<rparr>)))
      in st\<lparr>cs_state := kind_u8 HalfOpen, cs_consumed_ack_c := 0, cs_consumed_ack_s := 0\<rparr>)"

definition flip_epoch ::
  "'d lmdb \<Rightarrow> wal_consts \<Rightarrow> u64 \<Rightarrow> wal_record \<Rightarrow> dir \<Rightarrow> u64 \<Rightarrow> 'd qr_matcher \<Rightarrow>
     'd qr_matcher option" where
  "flip_epoch L C h rec dir syn_idx m =
     do {
       st \<leftarrow> conn_at h m;
       let old_inc = cs_incarnation st;
       hits \<leftarrow> scan_pending_upto L h old_inc U48_MAX m;
       m \<leftarrow> abort_hits L h Unmatched (gen_flip_event rec h old_inc) hits m;
       st \<leftarrow> conn_at h m;
       let m = persist_state h (reborn C rec dir syn_idx st) m;
       Some (m\<lparr>qm_anomalies := qm_anomalies m @ [rebirth_event C rec h (length hits)]\<rparr>)
     }"

definition rst_cascade ::
  "'d lmdb \<Rightarrow> u64 \<Rightarrow> conn_state \<Rightarrow> wal_record \<Rightarrow> 'd qr_matcher \<Rightarrow>
     ('d qr_matcher \<times> conn_state) option" where
  "rst_cascade L h st rec m =
     do {
       let inc = cs_incarnation st;
       hits \<leftarrow> scan_pending_upto L h inc U48_MAX m;
       m \<leftarrow> abort_hits L h RstAbort (rst_abort_event rec h inc) hits m;
       Some (m\<lparr>qm_anomalies := qm_anomalies m @ [rst_event rec h (length hits)]\<rparr>,
         st\<lparr>cs_qr_open := sat_sub64 (cs_qr_open st) (of_nat (length hits))\<rparr>)
     }"

section \<open>Opening a request\<close>

text \<open>The request key: the first payload binds the connection, later ones reuse its protocol hint;
  without a registry the key is the 32-byte prefix.\<close>

definition request_key ::
  "u64 \<Rightarrow> indexed_record \<Rightarrow> conn_state \<Rightarrow> 'd qr_matcher \<Rightarrow>
     ((bytes \<times> u8) \<times> conn_state \<times> 'd qr_matcher) option" where
  "request_key h r st m =
     (let rec = ir_rec r in
      case qm_meta m of
        None \<Rightarrow> Some ((req_key_of rec, 0), st, m)
      | Some mr \<Rightarrow>
          if sint (cs_meta_bind_id st) < 0 then
            do {
              b \<leftarrow> bind_and_extract mr (wr_payload rec) (ucast (wr_proto rec)) (wr_dst_port rec);
              let st = st\<lparr>cs_meta_bind_id := br_meta_bind_id b,
                          cs_protocol_hint := br_protocol_hint b\<rparr>;
              let m = (if cs_protocol_hint st \<noteq> protocol_u8 ProtoUnknown
                then (let fp = fingerprint_of (wr_payload rec)
                      in m\<lparr>qm_ext_meta := qm_ext_meta m @
                        [\<lparr>em_conn_hash = h, em_protocol_hint = cs_protocol_hint st,
                          em_dst_port = wr_dst_port rec, em_magic_prefix = fp_magic_prefix fp,
                          em_entropy = fp_entropy fp,
                          em_has_fixed_header = fp_has_fixed_header fp\<rparr>]\<rparr>)
                else m);
              Some ((br_key b, if br_pseudo b then 1 else 0), st, m)
            }
          else
            do {
              k \<leftarrow> extract_key (wr_payload rec) (protocol_from_u8 (cs_protocol_hint st));
              Some ((ek_key k, if ek_pseudo k then 1 else 0), st, m)
            })"

definition pending_pair ::
  "u64 \<Rightarrow> indexed_record \<Rightarrow> u64 \<Rightarrow> u64 \<Rightarrow> bytes \<Rightarrow> u8 \<Rightarrow> qr_pair_value" where
  "pending_pair h r abs_start abs_end req_key pseudo =
     \<lparr>qp_status = status_u8 Pending, qp_conn_hash = h, qp_q_ts = wr_timestamp_ns (ir_rec r),
      qp_r_ts = 0, qp_latency_ms = 0, qp_q_len = wr_orig_payload_len (ir_rec r), qp_r_len = 0,
      qp_abs_q_seq = abs_start, qp_abs_q_end = abs_end, qp_pseudo = pseudo,
      qp_q_idx = [ir_idx r], qp_r_idx = [], qp_req_key = req_key, qp_resp_key = []\<rparr>"

text \<open>The three live rows and the four epoch index rows of a request.\<close>

definition open_rows ::
  "'d lmdb \<Rightarrow> u64 \<Rightarrow> u16 \<Rightarrow> u64 \<Rightarrow> qr_pair_value \<Rightarrow> 'd qr_matcher \<Rightarrow> 'd qr_matcher option" where
  "open_rows L h inc q_first_idx pair m =
     do {
       (d, _) \<leftarrow> put_no_overwrite L (qm_live_pair m) (k_qr_pair q_first_idx) (qr_pair_encode pair);
       let m = m\<lparr>qm_live_pair := d\<rparr>;
       (d, _) \<leftarrow> put_no_overwrite L (qm_pending m) (k_qr_pending h inc (qp_abs_q_end pair))
         (v_qr_pending_encode q_first_idx (qp_q_ts pair) (qp_q_len pair));
       let m = m\<lparr>qm_pending := d\<rparr>;
       (d, _) \<leftarrow> put_no_overwrite L (qm_ttl m) (k_pending_ttl (qp_q_ts pair) h)
         (v_pending_ttl_encode q_first_idx (qp_abs_q_end pair));
       let m = m\<lparr>qm_ttl := d\<rparr>;
       (d, _) \<leftarrow> put_no_overwrite L (qm_packet_qr m) (k_packet_qr q_first_idx) (be64 q_first_idx);
       let m = m\<lparr>qm_packet_qr := d\<rparr>;
       let sec = v_secondary_encode q_first_idx;
       (d, _) \<leftarrow> put_no_overwrite L (qm_conn_qr m) (k_conn_qr h (qp_q_ts pair) q_first_idx) sec;
       let m = m\<lparr>qm_conn_qr := d\<rparr>;
       (d, _) \<leftarrow> put_no_overwrite L (qm_qr_key m)
         (k_qr_key (fnv1a64 (qp_req_key pair)) (qp_q_ts pair) q_first_idx) sec;
       let m = m\<lparr>qm_qr_key := d\<rparr>;
       (d, _) \<leftarrow> put_no_overwrite L (qm_qr_time m) (k_qr_time (qp_q_ts pair) q_first_idx) sec;
       Some (m\<lparr>qm_qr_time := d\<rparr>)
     }"

definition open_q ::
  "'d lmdb \<Rightarrow> u64 \<Rightarrow> conn_state \<Rightarrow> indexed_record \<Rightarrow> u64 \<Rightarrow> u64 \<Rightarrow> 'd qr_matcher \<Rightarrow>
     ('d qr_matcher \<times> conn_state) option" where
  "open_q L h st r abs_start abs_end m =
     do {
       ((req_key, pseudo), st, m) \<leftarrow> request_key h r st m;
       m \<leftarrow> open_rows L h (cs_incarnation st) (ir_idx r)
         (pending_pair h r abs_start abs_end req_key pseudo) m;
       Some (m, st\<lparr>cs_req_cnt := cs_req_cnt st + 1, cs_qr_open := cs_qr_open st + 1\<rparr>)
     }"

section \<open>Locating the connection\<close>

definition load_conn :: "'d lmdb \<Rightarrow> u64 \<Rightarrow> 'd qr_matcher \<Rightarrow> ('d qr_matcher \<times> bool) option" where
  "load_conn L h m =
     (if conn_at h m \<noteq> None then Some (m, True)
      else do {
        got \<leftarrow> lm_get L (qm_conn_state m) (k_conn_state h);
        case Option.bind got conn_state_from_bytes of
          None \<Rightarrow> Some (m, False)
        | Some st \<Rightarrow> Some (persist_state h st m, True)
      })"

definition locate ::
  "'d lmdb \<Rightarrow> wal_consts \<Rightarrow> wal_record \<Rightarrow> u32 \<Rightarrow> 'd qr_matcher \<Rightarrow>
     ('d qr_matcher \<times> u64 \<times> dir) option" where
  "locate L C rec dev_id m =
     (let src_ip = of_be32 (wr_src_ip rec); dst_ip = of_be32 (wr_dst_ip rec);
          proto = ucast (wr_proto rec);
          h_f = conn_hash dev_id src_ip (wr_src_port rec) dst_ip (wr_dst_port rec) proto;
          h_b = conn_hash dev_id dst_ip (wr_dst_port rec) src_ip (wr_src_port rec) proto
      in do {
        (m, found) \<leftarrow> load_conn L h_f m;
        if found then Some (m, h_f, C2S)
        else do {
          (m, found) \<leftarrow> load_conn L h_b m;
          if found then Some (m, h_b, S2C)
          else Some (persist_state h_f (conn_fresh C rec) m, h_f, C2S)
        }
      })"

section \<open>One packet\<close>

text \<open>Step 1: the record index, written for every record.\<close>

definition index_record ::
  "'d lmdb \<Rightarrow> wal_consts \<Rightarrow> indexed_record \<Rightarrow> 'd qr_matcher \<Rightarrow> 'd qr_matcher option" where
  "index_record L C r m =
     do {
       (d, _) \<leftarrow> put_no_overwrite L (qm_record_ts m)
         (k_record_ts (wr_timestamp_ns (ir_rec r)) (ir_idx r))
         (v_record_summary_encode (record_summary_of C (ir_rec r)));
       Some (m\<lparr>qm_record_ts := d\<rparr>)
     }"

text \<open>The generation test: a new SYN on an active direction outside the handshake.\<close>

definition epoch_triggered :: "wal_consts \<Rightarrow> indexed_record \<Rightarrow> dir \<Rightarrow> conn_state \<Rightarrow> bool" where
  "epoch_triggered C r dir st =
     (let cur = seq_from_state st (dir = C2S);
          d = seq_diff cur (wr_tcp_seq (ir_rec r));
          is_syn = (wr_tcp_flags (ir_rec r) AND wc_syn C \<noteq> 0);
          in_handshake = (cs_state st = 0 \<or> cs_state st = 1);
          dead_state = (3 \<le> cs_state st \<and> cs_state st \<le> 5)
      in ss_active cur \<and> is_syn \<and> \<not> in_handshake \<and> (d \<noteq> 0 \<or> dead_state)
         \<and> ir_idx r \<noteq> cs_syn_pkt_idx st)"

definition note_jump :: "wal_consts \<Rightarrow> wal_record \<Rightarrow> dir \<Rightarrow> conn_state \<Rightarrow> conn_state" where
  "note_jump C rec dir st =
     (let d = seq_diff (seq_from_state st (dir = C2S)) (wr_tcp_seq rec);
          is_syn = (wr_tcp_flags rec AND wc_syn C \<noteq> 0)
      in if \<not> is_syn \<and> uint EPOCH_JUMP_THRESHOLD < \<bar>sint d\<bar>
         then st\<lparr>cs_anomaly_flags := cs_anomaly_flags st OR ANOM_SEQ_GAP\<rparr> else st)"

text \<open>Step 4: the connection state machine.\<close>

definition advance_state ::
  "wal_consts \<Rightarrow> indexed_record \<Rightarrow> dir \<Rightarrow> conn_state \<Rightarrow> conn_state" where
  "advance_state C r dir st =
     (let rec = ir_rec r;
          is_syn = (wr_tcp_flags rec AND wc_syn C \<noteq> 0);
          is_ack = (wr_tcp_flags rec AND wc_ack C \<noteq> 0);
          is_fin = (wr_tcp_flags rec AND wc_fin C \<noteq> 0);
          st = (if is_syn \<and> dir = C2S then
                  st\<lparr>cs_state := kind_u8 SynSent, cs_syn_seen := wr_timestamp_ns rec,
                     cs_anomaly_flags := cs_anomaly_flags st OR ANOM_SYN_SEEN,
                     cs_syn_pkt_idx := ir_idx r\<rparr>
                else if is_syn \<and> dir = S2C then
                  st\<lparr>cs_state := (if cs_state st = kind_u8 SynSent then kind_u8 SynRcvd
                                  else cs_state st),
                     cs_synack_seen := wr_timestamp_ns rec\<rparr>
                else if is_ack \<and> dir = C2S \<and> cs_state st = kind_u8 SynRcvd then
                  st\<lparr>cs_state := kind_u8 Established\<rparr>
                else st)
      in if is_fin
         then st\<lparr>cs_fin_seen := wr_timestamp_ns rec,
                 cs_anomaly_flags := cs_anomaly_flags st OR ANOM_FIN_SEEN\<rparr>
         else st)"

text \<open>Step 5: the connection counters.\<close>

definition count_packet :: "wal_record \<Rightarrow> dir \<Rightarrow> conn_state \<Rightarrow> conn_state" where
  "count_packet rec dir st =
     (let wire_len = ucast (wr_orig_payload_len rec); st = st\<lparr>cs_last_ts := wr_timestamp_ns rec\<rparr>
      in case dir of
           C2S \<Rightarrow> st\<lparr>cs_pkts_c := cs_pkts_c st + 1,
                     cs_bytes_c := sat_add64 (cs_bytes_c st) wire_len\<rparr>
         | S2C \<Rightarrow> st\<lparr>cs_pkts_s := cs_pkts_s st + 1,
                     cs_bytes_s := sat_add64 (cs_bytes_s st) wire_len\<rparr>)"

text \<open>Step 6: a client payload opens a request, a server ACK consumes requests.\<close>

definition retrans :: "conn_state \<Rightarrow> conn_state" where
  "retrans st = st\<lparr>cs_anomaly_flags := cs_anomaly_flags st OR ANOM_RETRANS\<rparr>"

definition request_response ::
  "'d lmdb \<Rightarrow> u64 \<Rightarrow> indexed_record \<Rightarrow> dir \<Rightarrow> u64 \<Rightarrow> u32 \<Rightarrow> seq_stream \<Rightarrow> conn_state \<Rightarrow>
     'd qr_matcher \<Rightarrow> ('d qr_matcher \<times> conn_state) option" where
  "request_response L h r dir abs_start wire_new stream_c st m =
     (case dir of
        C2S \<Rightarrow>
          if 0 < wr_orig_payload_len (ir_rec r) then
            if 0 < wire_new then
              (let abs_end = sat_add64 abs_start (ucast wire_new)
               in if cs_consumed_ack_s st < abs_end then open_q L h st r abs_start abs_end m
                  else Some (m, retrans st))
            else Some (m, retrans st)
          else Some (m, st)
      | S2C \<Rightarrow>
          (let abs_ack = abs_of stream_c (wr_tcp_ack (ir_rec r));
               st = (if 0 < wire_new then st\<lparr>cs_resp_cnt := cs_resp_cnt st + 1\<rparr> else st)
           in if cs_consumed_ack_s st < abs_ack
                 \<and> abs_ack \<le> sat_add64 (ss_last_abs stream_c) ACK_LEAD_CAP
              then consume_r L h st r abs_ack m else Some (m, st)))"

text \<open>Step 7: the translators go back into the connection state.\<close>

definition save_streams :: "seq_stream \<Rightarrow> seq_stream \<Rightarrow> conn_state \<Rightarrow> conn_state" where
  "save_streams stream_c stream_s st =
     set_active_s (ss_active stream_s)
       ((set_active_c (ss_active stream_c)
          (st\<lparr>cs_last_raw_c := ss_last_raw stream_c, cs_abs_seq_c := ss_last_abs stream_c\<rparr>))
        \<lparr>cs_last_raw_s := ss_last_raw stream_s, cs_abs_seq_s := ss_last_abs stream_s\<rparr>)"

text \<open>The three stages of a TCP packet: the generation test, a reset, and everything else.\<close>

definition enter_generation ::
  "'d lmdb \<Rightarrow> wal_consts \<Rightarrow> indexed_record \<Rightarrow> u64 \<Rightarrow> dir \<Rightarrow> conn_state \<Rightarrow> 'd qr_matcher \<Rightarrow>
     ('d qr_matcher \<times> conn_state) option" where
  "enter_generation L C r h dir st m =
     (if epoch_triggered C r dir st then
        do {
          m \<leftarrow> flip_epoch L C h (ir_rec r) dir (ir_idx r) m;
          st \<leftarrow> conn_at h m;
          Some (m, st)
        }
      else Some (m, note_jump C (ir_rec r) dir st))"

definition ingest_rst ::
  "'d lmdb \<Rightarrow> wal_record \<Rightarrow> u64 \<Rightarrow> conn_state \<Rightarrow> 'd qr_matcher \<Rightarrow> 'd qr_matcher option" where
  "ingest_rst L rec h st m =
     do {
       (m, st) \<leftarrow> rst_cascade L h st rec m;
       let st = st\<lparr>cs_state := kind_u8 Reset, cs_rst_seen := wr_timestamp_ns rec,
                   cs_anomaly_flags := cs_anomaly_flags st OR ANOM_RESET\<rparr>;
       Some (persist_state h st m)
     }"

text \<open>Step 3: the translator of the packet's direction advances.\<close>

definition feed_dir ::
  "dir \<Rightarrow> wal_record \<Rightarrow> conn_state \<Rightarrow> (u64 \<times> u32) \<times> seq_stream \<times> seq_stream" where
  "feed_dir dir rec st =
     (let c = seq_from_state st True; s = seq_from_state st False
      in case dir of
           C2S \<Rightarrow> (let (res, c) = feed_packet c (wr_tcp_seq rec) (wr_orig_payload_len rec)
                   in (res, c, s))
         | S2C \<Rightarrow> (let (res, s) = feed_packet s (wr_tcp_seq rec) (wr_orig_payload_len rec)
                   in (res, c, s)))"

definition ingest_data ::
  "'d lmdb \<Rightarrow> wal_consts \<Rightarrow> indexed_record \<Rightarrow> u64 \<Rightarrow> dir \<Rightarrow> conn_state \<Rightarrow> 'd qr_matcher \<Rightarrow>
     'd qr_matcher option" where
  "ingest_data L C r h dir st m =
     do {
       let ((abs_start, wire_new), stream_c, stream_s) = feed_dir dir (ir_rec r) st;
       let st = count_packet (ir_rec r) dir (advance_state C r dir st);
       (m, st) \<leftarrow> request_response L h r dir abs_start wire_new stream_c st m;
       Some (persist_state h (save_streams stream_c stream_s st) m)
     }"

definition ingest_tcp ::
  "'d lmdb \<Rightarrow> wal_consts \<Rightarrow> indexed_record \<Rightarrow> 'd qr_matcher \<Rightarrow> 'd qr_matcher option" where
  "ingest_tcp L C r m =
     do {
       let rec = ir_rec r;
       (m, h, dir) \<leftarrow> locate L C rec (ir_dev_id r) m;
       st \<leftarrow> conn_at h m;
       (m, st) \<leftarrow> enter_generation L C r h dir st m;
       if wr_tcp_flags rec AND wc_rst C \<noteq> 0 then ingest_rst L rec h st m
       else ingest_data L C r h dir st m
     }"

definition ingest ::
  "'d lmdb \<Rightarrow> wal_consts \<Rightarrow> indexed_record \<Rightarrow> 'd qr_matcher \<Rightarrow> 'd qr_matcher option" where
  "ingest L C r m =
     do {
       m \<leftarrow> index_record L C r m;
       if wr_proto (ir_rec r) \<noteq> 6 then Some m else ingest_tcp L C r m
     }"

section \<open>Commit\<close>

text \<open>\<open>writeback_conns\<close>: the body and the loop over the sorted connection hashes.\<close>

definition archive_conn :: "u64 \<Rightarrow> conn_state \<Rightarrow> 'd qr_matcher \<Rightarrow> 'd qr_matcher" where
  "archive_conn h st m =
     (if is_terminal (cs_state st)
      then m\<lparr>qm_conn_archives := qm_conn_archives m @
        [\<lparr>ca_conn_hash = h, ca_first_ts = cs_first_ts st, ca_last_ts = cs_last_ts st,
          ca_state = cs_state st\<rparr>]\<rparr>
      else m)"

definition writeback_one :: "'d lmdb \<Rightarrow> u64 \<Rightarrow> 'd qr_matcher \<Rightarrow> 'd qr_matcher option" where
  "writeback_one L h m =
     do {
       st \<leftarrow> conn_at h m;
       n \<leftarrow> count_live_pending L h m;
       let st = st\<lparr>cs_qr_open := n\<rparr>;
       d \<leftarrow> lm_put L (qm_conn_state m) (k_conn_state h) (conn_state_to_bytes st);
       Some (archive_conn h st (m\<lparr>qm_conn_state := d\<rparr>))
     }"

fun writeback :: "'d lmdb \<Rightarrow> u64 list \<Rightarrow> 'd qr_matcher \<Rightarrow> 'd qr_matcher option" where
  "writeback L [] m = Some m"
| "writeback L (h # hs) m = do { m \<leftarrow> writeback_one L h m; writeback L hs m }"

definition writeback_conns :: "'d lmdb \<Rightarrow> 'd qr_matcher \<Rightarrow> 'd qr_matcher option" where
  "writeback_conns L m = writeback L (sort (map fst (qm_conns m))) m"

record commit_outcome =
  co_anomalies :: "anomaly_event list"
  co_conn_archives :: "conn_archive_event list"

definition begin_with_meta :: "'d dual_db \<Rightarrow> u32 \<Rightarrow> meta_registry option \<Rightarrow> 'd qr_matcher" where
  "begin_with_meta db ack_tol meta = dual_db.extend db
     (qr_matcher.fields ack_tol [] [] meta [] [])"

text \<open>The two transaction commits: the epoch store first, the live store last.  A crash between them
  leaves \<open>commit_epoch\<close> on disk.\<close>

definition commit_epoch :: "'d qr_matcher \<Rightarrow> 'd dual_db \<Rightarrow> 'd dual_db" where
  "commit_epoch m db =
     db\<lparr>qm_ep_pair := qm_ep_pair m, qm_conn_qr := qm_conn_qr m, qm_qr_key := qm_qr_key m,
        qm_qr_time := qm_qr_time m, qm_packet_qr := qm_packet_qr m,
        qm_record_ts := qm_record_ts m\<rparr>"

definition commit_live :: "'d qr_matcher \<Rightarrow> 'd dual_db \<Rightarrow> 'd dual_db" where
  "commit_live m db =
     db\<lparr>qm_conn_state := qm_conn_state m, qm_live_pair := qm_live_pair m,
        qm_pending := qm_pending m, qm_ttl := qm_ttl m\<rparr>"

definition qr_commit ::
  "'d lmdb \<Rightarrow> 'd qr_matcher \<Rightarrow> 'd dual_db \<Rightarrow> ('d dual_db \<times> commit_outcome) option" where
  "qr_commit L m db =
     do {
       m \<leftarrow> writeback_conns L m;
       let db = commit_epoch m db;
       let db = commit_live m db;
       Some (db, \<lparr>co_anomalies = qm_anomalies m, co_conn_archives = qm_conn_archives m\<rparr>)
     }"

text \<open>\<open>stage_lmdb_with_meta\<close> of \<open>batch.rs\<close>: one batch.\<close>

fun ingest_all ::
  "'d lmdb \<Rightarrow> wal_consts \<Rightarrow> indexed_record list \<Rightarrow> 'd qr_matcher \<Rightarrow> 'd qr_matcher option" where
  "ingest_all L C [] m = Some m"
| "ingest_all L C (r # rs) m = do { m \<leftarrow> ingest L C r m; ingest_all L C rs m }"

definition stage_lmdb_with_meta ::
  "'d lmdb \<Rightarrow> wal_consts \<Rightarrow> 'd dual_db \<Rightarrow> indexed_record list \<Rightarrow> u32 \<Rightarrow> meta_registry option \<Rightarrow>
     ('d dual_db \<times> anomaly_event list \<times> ext_meta_event list \<times> conn_archive_event list) option" where
  "stage_lmdb_with_meta L C db records ack_tol meta =
     do {
       m \<leftarrow> ingest_all L C records (begin_with_meta db ack_tol meta);
       (db, out) \<leftarrow> qr_commit L m db;
       Some (db, co_anomalies out, qm_ext_meta m, co_conn_archives out)
     }"

end
