(* ===== verification/Registry.thy ===== *)
theory Registry
  imports Qr Util
begin

text \<open>
  The registry of index stores, \<open>DbRegistry\<close> of \<open>src/src/db.rs\<close>: the live store, the current epoch
  store, and the frozen epoch stores in their directories.  The directory \<open>qridx\<close> is the list of its
  entries \<open>epoch_*\<close> with the store in each; opening an absent directory creates an empty store
  (\<open>fresh\<close>).  The size of a store on disk is the parameter \<open>disk_size\<close>.
\<close>

section \<open>Epoch stores and their names\<close>

record 'd epoch_env =
  ep_pair :: 'd
  ep_conn_qr :: 'd
  ep_qr_key :: 'd
  ep_qr_time :: 'd
  ep_packet_qr :: 'd
  ep_record_ts :: 'd

definition epoch_of :: "('d, 'z) dual_db_scheme \<Rightarrow> 'd epoch_env" where
  "epoch_of db =
     \<lparr>ep_pair = qm_ep_pair db, ep_conn_qr = qm_conn_qr db, ep_qr_key = qm_qr_key db,
      ep_qr_time = qm_qr_time db, ep_packet_qr = qm_packet_qr db, ep_record_ts = qm_record_ts db\<rparr>"

definition with_epoch :: "'d epoch_env \<Rightarrow> 'd dual_db \<Rightarrow> 'd dual_db" where
  "with_epoch e db =
     db\<lparr>qm_ep_pair := ep_pair e, qm_conn_qr := ep_conn_qr e, qm_qr_key := ep_qr_key e,
        qm_qr_time := ep_qr_time e, qm_packet_qr := ep_packet_qr e, qm_record_ts := ep_record_ts e\<rparr>"

lemma epoch_of_with_epoch [simp]: "epoch_of (with_epoch e db) = e"
  by (simp add: epoch_of_def with_epoch_def)

definition pad4_nat :: "nat \<Rightarrow> string" where
  "pad4_nat n = replicate (4 - length (show_nat n)) (CHR ''0'') @ show_nat n"

definition epoch_name :: "u32 \<Rightarrow> string" where
  "epoch_name n = ''epoch_'' @ pad4_nat (unat n)"

definition strip_prefix :: "string \<Rightarrow> string \<Rightarrow> string option" where
  "strip_prefix pre s = (if take (length pre) s = pre then Some (drop (length pre) s) else None)"

definition epoch_num_of :: "string \<Rightarrow> u32 option" where
  "epoch_num_of name =
     do {
       rest \<leftarrow> strip_prefix ''epoch_'' name;
       n \<leftarrow> parse_uint (2 ^ 32) rest;
       Some (of_nat n)
     }"

definition highest_epoch :: "string list \<Rightarrow> u32" where
  "highest_epoch names =
     foldl (\<lambda>m name. case epoch_num_of name of None \<Rightarrow> m | Some n \<Rightarrow> if m \<le> n then n else m) 0 names"

definition epoch_dirs :: "string list \<Rightarrow> string list" where
  "epoch_dirs names = sort (filter (\<lambda>s. take 6 s = ''epoch_'') names)"

definition epoch_targets :: "string list \<Rightarrow> (u32 \<times> string) list" where
  "epoch_targets names =
     sort_key fst (List.map_filter (\<lambda>d. map_option (\<lambda>n. (n, d)) (epoch_num_of d)) (epoch_dirs names))"

section \<open>The registry\<close>

record 'd registry =
  rg_db :: "'d dual_db"
  rg_frozen :: "(string \<times> 'd epoch_env) list"
  rg_epoch_num :: u32
  rg_epoch_max_bytes :: u64

text \<open>All directories, the one of the current epoch included.\<close>

definition rg_names :: "'d registry \<Rightarrow> string list" where
  "rg_names reg = epoch_name (rg_epoch_num reg) # map fst (rg_frozen reg)"

definition open_or_create :: "'d epoch_env \<Rightarrow> string \<Rightarrow> (string \<times> 'd epoch_env) list \<Rightarrow> 'd epoch_env" where
  "open_or_create fresh name dirs = (case map_of dirs name of None \<Rightarrow> fresh | Some e \<Rightarrow> e)"

text \<open>\<open>open_with\<close>: the highest epoch on disk is the current one.\<close>

definition registry_open ::
  "'d epoch_env \<Rightarrow> u64 \<Rightarrow> 'd dual_db \<Rightarrow> (string \<times> 'd epoch_env) list \<Rightarrow> 'd registry" where
  "registry_open fresh max_bytes live dirs =
     (let n = highest_epoch (map fst dirs); name = epoch_name n
      in \<lparr>rg_db = with_epoch (open_or_create fresh name dirs) live,
          rg_frozen = AList.delete name dirs, rg_epoch_num = n, rg_epoch_max_bytes = max_bytes\<rparr>)"

definition rotate_epoch :: "'d epoch_env \<Rightarrow> 'd registry \<Rightarrow> 'd registry \<times> u32" where
  "rotate_epoch fresh reg =
     (let next_num = rg_epoch_num reg + 1; name = epoch_name next_num;
          frozen = AList.update (epoch_name (rg_epoch_num reg)) (epoch_of (rg_db reg)) (rg_frozen reg)
      in (reg\<lparr>rg_db := with_epoch (open_or_create fresh name frozen) (rg_db reg),
              rg_frozen := AList.delete name frozen, rg_epoch_num := next_num\<rparr>, next_num))"

definition epoch_should_rotate :: "('d epoch_env \<Rightarrow> u64 option) \<Rightarrow> 'd registry \<Rightarrow> bool option" where
  "epoch_should_rotate disk_size reg =
     map_option (\<lambda>n. rg_epoch_max_bytes reg \<le> n) (disk_size (epoch_of (rg_db reg)))"

text \<open>The time of a \<open>RECORD_TS\<close> key.\<close>

definition record_key_ts :: "bytes \<Rightarrow> u64 option" where
  "record_key_ts k = map_option of_be64 (slice_get k 0 8)"

definition current_epoch_bounds :: "'d lmdb \<Rightarrow> 'd registry \<Rightarrow> (u64 option \<times> u64 option \<times> u64) option" where
  "current_epoch_bounds L reg =
     do {
       let db = qm_record_ts (rg_db reg);
       n \<leftarrow> lm_len L db;
       first \<leftarrow> lm_first L db;
       last \<leftarrow> lm_last L db;
       Some (Option.bind first (record_key_ts \<circ> fst), Option.bind last (record_key_ts \<circ> fst), of_nat n)
     }"

definition qr_pair_at :: "'d lmdb \<Rightarrow> 'd registry \<Rightarrow> u64 \<Rightarrow> qr_pair_value option option" where
  "qr_pair_at L reg q =
     do {
       v \<leftarrow> lm_get L (qm_live_pair (rg_db reg)) (k_qr_pair q);
       case Option.bind v qr_pair_decode of
         Some p \<Rightarrow> Some (Some p)
       | None \<Rightarrow>
           do {
             v \<leftarrow> lm_get L (qm_ep_pair (rg_db reg)) (k_qr_pair q);
             Some (Option.bind v qr_pair_decode)
           }
     }"

definition qr_pair_count :: "'d lmdb \<Rightarrow> 'd registry \<Rightarrow> u64 option" where
  "qr_pair_count L reg =
     do {
       a \<leftarrow> lm_len L (qm_live_pair (rg_db reg));
       b \<leftarrow> lm_len L (qm_ep_pair (rg_db reg));
       Some (of_nat a + of_nat b)
     }"

end
