(* ===== verification/Ledger.thy ===== *)
theory Ledger
  imports Records Meta
begin

text \<open>
  The management plane: the SQLite tables of \<open>src/src/ledger.rs\<close>.  A table is the list of its rows
  in rowid order, an \<open>AUTOINCREMENT\<close> key has the last number given out beside it, and each method
  has the effect of its SQL statement.  SQLite integers are \<open>int\<close>.  \<open>None\<close> is a violated constraint,
  a missing row where one is required, or the error that the method raises itself; I/O errors of
  SQLite are not modelled.
\<close>

section \<open>Rows\<close>

datatype file_kind = WalFile | PcapFile
datatype file_state = FileOpen | FileSealed | FileArchived
datatype epoch_state = EpochFrozen | EpochActive

record file_row =
  fr_id :: int
  fr_path :: string
  fr_kind :: file_kind
  fr_dev_id :: int
  fr_segment_seq :: "int option"
  fr_size_bytes :: int
  fr_sha256 :: "bytes option"
  fr_first_ts :: "int option"
  fr_last_ts :: "int option"
  fr_state :: file_state
  fr_analysis_offset :: int
  fr_created_at :: int

record open_file_rec =
  of_file_id :: int
  of_path :: string
  of_watermark :: u64
  of_segment_seq :: "int option"

record ext_meta_row =
  er_meta_bind_id :: int
  er_protocol_hint :: int
  er_magic_prefix :: "bytes option"
  er_entropy :: "real option"
  er_has_fixed_header :: bool
  er_dst_port :: "int option"
  er_hit_count :: int
  er_created_at :: int

record meta_bind_row =
  bw_id :: int
  bw_name :: string
  bw_proto :: "int option"
  bw_dst_port :: "int option"
  bw_dst_ip :: "string option"
  bw_fingerprint :: "string option"
  bw_extractor :: "string option"
  bw_enabled :: int

record epoch_boundary =
  eb_epoch_id :: int
  eb_dir :: string
  eb_min_ts :: "int option"
  eb_max_ts :: "int option"
  eb_record_count :: int
  eb_state :: epoch_state

record conn_archive =
  cr_conn_hash :: int
  cr_first_ts :: "int option"
  cr_last_ts :: "int option"
  cr_state :: int
  cr_updated_at :: int

record ledger =
  lg_files :: "file_row list"
  lg_files_seq :: int
  lg_anomalies :: "anomaly_event list"
  lg_ext_meta :: "ext_meta_row list"
  lg_ext_meta_seq :: int
  lg_meta_binds :: "meta_bind_row list"
  lg_meta_binds_seq :: int
  lg_epochs :: "epoch_boundary list"
  lg_conns :: "conn_archive list"

text \<open>The tables that \<open>init\<close> creates.\<close>

definition ledger_init :: ledger where
  "ledger_init = \<lparr>lg_files = [], lg_files_seq = 0, lg_anomalies = [], lg_ext_meta = [],
     lg_ext_meta_seq = 0, lg_meta_binds = [], lg_meta_binds_seq = 0, lg_epochs = [], lg_conns = []\<rparr>"

text \<open>The two statement forms on a table that are used throughout.\<close>

definition update_where :: "('r \<Rightarrow> bool) \<Rightarrow> ('r \<Rightarrow> 'r) \<Rightarrow> 'r list \<Rightarrow> 'r list" where
  "update_where P f rows = map (\<lambda>r. if P r then f r else r) rows"

definition in_window :: "int option \<Rightarrow> int option \<Rightarrow> int \<Rightarrow> bool" where
  "in_window start stop ts \<longleftrightarrow>
     (case start of None \<Rightarrow> True | Some s \<Rightarrow> s \<le> ts) \<and> (case stop of None \<Rightarrow> True | Some e \<Rightarrow> ts \<le> e)"

section \<open>Files\<close>

definition insert_file ::
  "string \<Rightarrow> file_kind \<Rightarrow> int \<Rightarrow> int option \<Rightarrow> int \<Rightarrow> ledger \<Rightarrow> (ledger \<times> int) option" where
  "insert_file path kind dev_id segment_seq created_at g =
     (if \<exists>r \<in> set (lg_files g). fr_path r = path then None
      else
        let new_id = lg_files_seq g + 1
        in Some (g\<lparr>lg_files := lg_files g @
            [\<lparr>fr_id = new_id, fr_path = path, fr_kind = kind, fr_dev_id = dev_id,
              fr_segment_seq = segment_seq, fr_size_bytes = 0, fr_sha256 = None, fr_first_ts = None,
              fr_last_ts = None, fr_state = FileOpen, fr_analysis_offset = 0,
              fr_created_at = created_at\<rparr>], lg_files_seq := new_id\<rparr>, new_id))"

definition file_at :: "int \<Rightarrow> ledger \<Rightarrow> file_row option" where
  "file_at fid g = find (\<lambda>r. fr_id r = fid) (lg_files g)"

definition watermark :: "int \<Rightarrow> ledger \<Rightarrow> u64 option" where
  "watermark fid g = map_option (\<lambda>r. word_of_int (fr_analysis_offset r)) (file_at fid g)"

definition file_path :: "int \<Rightarrow> ledger \<Rightarrow> string option" where
  "file_path fid g = map_option fr_path (file_at fid g)"

text \<open>\<open>advance_watermark\<close>: the \<open>UPDATE\<close> has the condition, and no affected row is an error.\<close>

definition advance_watermark :: "int \<Rightarrow> u64 \<Rightarrow> ledger \<Rightarrow> ledger option" where
  "advance_watermark fid new_offset g =
     (let hit = (\<lambda>r. fr_id r = fid \<and> fr_analysis_offset r \<le> sint new_offset)
      in if \<exists>r \<in> set (lg_files g). hit r
         then Some (g\<lparr>lg_files := update_where hit
           (\<lambda>r. r\<lparr>fr_analysis_offset := sint new_offset\<rparr>) (lg_files g)\<rparr>)
         else None)"

definition set_file_state :: "int \<Rightarrow> file_state \<Rightarrow> ledger \<Rightarrow> ledger" where
  "set_file_state fid state g =
     g\<lparr>lg_files := update_where (\<lambda>r. fr_id r = fid) (\<lambda>r. r\<lparr>fr_state := state\<rparr>) (lg_files g)\<rparr>"

text \<open>\<open>open_file_for_dev\<close>: the open file of the device with the largest id.\<close>

definition open_file_for_dev :: "int \<Rightarrow> ledger \<Rightarrow> open_file_rec option" where
  "open_file_for_dev dev_id g =
     (case rev (sort_key fr_id (filter (\<lambda>r. fr_dev_id r = dev_id \<and> fr_state r = FileOpen) (lg_files g))) of
        [] \<Rightarrow> None
      | r # _ \<Rightarrow> Some \<lparr>of_file_id = fr_id r, of_path = fr_path r,
          of_watermark = word_of_int (fr_analysis_offset r), of_segment_seq = fr_segment_seq r\<rparr>)"

definition update_file_meta ::
  "int \<Rightarrow> int \<Rightarrow> bytes option \<Rightarrow> int option \<Rightarrow> int option \<Rightarrow> ledger \<Rightarrow> ledger" where
  "update_file_meta fid size_bytes sha256 first_ts last_ts g =
     g\<lparr>lg_files := update_where (\<lambda>r. fr_id r = fid)
       (\<lambda>r. r\<lparr>fr_size_bytes := size_bytes, fr_sha256 := sha256, fr_first_ts := first_ts,
              fr_last_ts := last_ts\<rparr>) (lg_files g)\<rparr>"

section \<open>Audit events\<close>

text \<open>The rowid of an event is its position, from 1.\<close>

definition insert_anomaly :: "anomaly_event \<Rightarrow> ledger \<Rightarrow> ledger \<times> int" where
  "insert_anomaly e g =
     (g\<lparr>lg_anomalies := lg_anomalies g @ [e]\<rparr>, int (length (lg_anomalies g)) + 1)"

definition insert_anomalies :: "anomaly_event list \<Rightarrow> ledger \<Rightarrow> ledger" where
  "insert_anomalies events g =
     (if events = [] then g else g\<lparr>lg_anomalies := lg_anomalies g @ events\<rparr>)"

definition anomaly_summary :: "int option \<Rightarrow> int option \<Rightarrow> ledger \<Rightarrow> (int \<times> int) list" where
  "anomaly_summary start stop g =
     (let kinds = map (\<lambda>e. sint (ae_kind e)) (filter (\<lambda>e. in_window start stop (sint (ae_ts e))) (lg_anomalies g))
      in map (\<lambda>k. (k, int (length (filter ((=) k) kinds)))) (sort (remdups kinds)))"

text \<open>The limit is cast to a signed 64-bit number; SQLite takes a negative limit as none.\<close>

definition sql_limit :: "nat \<Rightarrow> 'a list \<Rightarrow> 'a list" where
  "sql_limit n xs = (if n < 2 ^ 63 then take n xs else xs)"

definition query_anomalies ::
  "int option \<Rightarrow> int option \<Rightarrow> int option \<Rightarrow> nat \<Rightarrow> ledger \<Rightarrow> anomaly_event list" where
  "query_anomalies kind start stop limit g =
     sql_limit limit (rev (filter (\<lambda>e. (case kind of None \<Rightarrow> True | Some k \<Rightarrow> sint (ae_kind e) = k) \<and>
       in_window start stop (sint (ae_ts e))) (lg_anomalies g)))"

section \<open>Protocol metadata\<close>

definition register_ext_meta ::
  "int \<Rightarrow> bytes option \<Rightarrow> real option \<Rightarrow> bool \<Rightarrow> int option \<Rightarrow> int \<Rightarrow> ledger \<Rightarrow> ledger \<times> int" where
  "register_ext_meta hint magic entropy fixed port created_at g =
     (let new_id = lg_ext_meta_seq g + 1
      in (g\<lparr>lg_ext_meta := lg_ext_meta g @
            [\<lparr>er_meta_bind_id = new_id, er_protocol_hint = hint, er_magic_prefix = magic,
              er_entropy = entropy, er_has_fixed_header = fixed, er_dst_port = port,
              er_hit_count = 0, er_created_at = created_at\<rparr>], lg_ext_meta_seq := new_id\<rparr>, new_id))"

definition same_signature :: "int \<Rightarrow> bytes \<Rightarrow> int \<Rightarrow> ext_meta_row \<Rightarrow> bool" where
  "same_signature hint magic port r \<longleftrightarrow>
     er_protocol_hint r = hint \<and> er_magic_prefix r = Some magic \<and> er_dst_port r = Some port"

definition ext_meta_upsert ::
  "int \<Rightarrow> bytes \<Rightarrow> real \<Rightarrow> bool \<Rightarrow> int \<Rightarrow> int \<Rightarrow> ledger \<Rightarrow> ledger \<times> int" where
  "ext_meta_upsert hint magic entropy fixed port created_at g =
     (case find (same_signature hint magic port) (lg_ext_meta g) of
        Some row \<Rightarrow>
          (let new_hits = er_hit_count row + 1
           in (g\<lparr>lg_ext_meta := update_where (same_signature hint magic port)
                 (\<lambda>r. r\<lparr>er_hit_count := new_hits, er_entropy := Some entropy,
                        er_has_fixed_header := fixed\<rparr>) (lg_ext_meta g)\<rparr>, new_hits))
      | None \<Rightarrow>
          (let new_id = lg_ext_meta_seq g + 1
           in (g\<lparr>lg_ext_meta := lg_ext_meta g @
                 [\<lparr>er_meta_bind_id = new_id, er_protocol_hint = hint, er_magic_prefix = Some magic,
                   er_entropy = Some entropy, er_has_fixed_header = fixed, er_dst_port = Some port,
                   er_hit_count = 1, er_created_at = created_at\<rparr>], lg_ext_meta_seq := new_id\<rparr>, 1)))"

text \<open>Rows with equal counts may come in any order; here it is the rowid order.\<close>

definition list_ext_meta :: "ledger \<Rightarrow> ext_meta_row list" where
  "list_ext_meta g = sort_key (\<lambda>r. - er_hit_count r) (lg_ext_meta g)"

definition register_meta_bind ::
  "string \<Rightarrow> int option \<Rightarrow> int option \<Rightarrow> string option \<Rightarrow> string option \<Rightarrow> string option \<Rightarrow>
     ledger \<Rightarrow> ledger \<times> int" where
  "register_meta_bind name proto port ip fp extractor g =
     (let new_id = lg_meta_binds_seq g + 1
      in (g\<lparr>lg_meta_binds := lg_meta_binds g @
            [\<lparr>bw_id = new_id, bw_name = name, bw_proto = proto, bw_dst_port = port, bw_dst_ip = ip,
              bw_fingerprint = fp, bw_extractor = extractor, bw_enabled = 1\<rparr>],
            lg_meta_binds_seq := new_id\<rparr>, new_id))"

definition upsert_meta_bind ::
  "string \<Rightarrow> int \<Rightarrow> int \<Rightarrow> string \<Rightarrow> string \<Rightarrow> ledger \<Rightarrow> ledger \<times> int" where
  "upsert_meta_bind name proto port fp extractor g =
     (case find (\<lambda>r. bw_name r = name) (lg_meta_binds g) of
        Some row \<Rightarrow>
          (g\<lparr>lg_meta_binds := update_where (\<lambda>r. bw_id r = bw_id row)
             (\<lambda>r. r\<lparr>bw_proto := Some proto, bw_dst_port := Some port, bw_fingerprint := Some fp,
                    bw_extractor := Some extractor, bw_enabled := 1\<rparr>) (lg_meta_binds g)\<rparr>, bw_id row)
      | None \<Rightarrow> register_meta_bind name (Some proto) (Some port) None (Some fp) (Some extractor) g)"

definition list_meta_binds :: "ledger \<Rightarrow> meta_bind_row list" where
  "list_meta_binds g = sort_key bw_id (lg_meta_binds g)"

definition meta_bind_count :: "ledger \<Rightarrow> int" where
  "meta_bind_count g = int (length (lg_meta_binds g))"

section \<open>Epochs and connection archives\<close>

definition upsert_epoch_boundary :: "epoch_boundary \<Rightarrow> ledger \<Rightarrow> ledger option" where
  "upsert_epoch_boundary e g =
     (if \<exists>r \<in> set (lg_epochs g). eb_epoch_id r \<noteq> eb_epoch_id e \<and> eb_dir r = eb_dir e then None
      else if \<exists>r \<in> set (lg_epochs g). eb_epoch_id r = eb_epoch_id e
      then Some (g\<lparr>lg_epochs := update_where (\<lambda>r. eb_epoch_id r = eb_epoch_id e) (\<lambda>r. e) (lg_epochs g)\<rparr>)
      else Some (g\<lparr>lg_epochs := lg_epochs g @ [e]\<rparr>))"

definition epoch_boundaries :: "ledger \<Rightarrow> epoch_boundary list" where
  "epoch_boundaries g = sort_key eb_epoch_id (lg_epochs g)"

text \<open>\<open>MIN(COALESCE(a, b), COALESCE(b, a))\<close>, and the same with \<open>MAX\<close>: a missing value is ignored.\<close>

definition merge_opt :: "(int \<Rightarrow> int \<Rightarrow> int) \<Rightarrow> int option \<Rightarrow> int option \<Rightarrow> int option" where
  "merge_opt f a b =
     (let x = (case a of None \<Rightarrow> b | Some _ \<Rightarrow> a); y = (case b of None \<Rightarrow> a | Some _ \<Rightarrow> b)
      in case x of None \<Rightarrow> None | Some u \<Rightarrow> (case y of None \<Rightarrow> None | Some v \<Rightarrow> Some (f u v)))"

definition merge_archive :: "conn_archive \<Rightarrow> conn_archive \<Rightarrow> conn_archive" where
  "merge_archive a r =
     r\<lparr>cr_first_ts := merge_opt min (cr_first_ts r) (cr_first_ts a),
       cr_last_ts := merge_opt max (cr_last_ts r) (cr_last_ts a),
       cr_state := cr_state a, cr_updated_at := cr_updated_at a\<rparr>"

definition upsert_conn_archive :: "conn_archive \<Rightarrow> ledger \<Rightarrow> ledger" where
  "upsert_conn_archive a g =
     (if \<exists>r \<in> set (lg_conns g). cr_conn_hash r = cr_conn_hash a
      then g\<lparr>lg_conns := update_where (\<lambda>r. cr_conn_hash r = cr_conn_hash a) (merge_archive a) (lg_conns g)\<rparr>
      else g\<lparr>lg_conns := lg_conns g @ [a]\<rparr>)"

definition conn_archive_of :: "u64 \<Rightarrow> ledger \<Rightarrow> conn_archive option" where
  "conn_archive_of h g = find (\<lambda>r. cr_conn_hash r = sint h) (lg_conns g)"

section \<open>Order of the tables\<close>

text \<open>File ids are unique and at most the last one given out, and so are the paths; connections and
  epochs have one row each.\<close>

definition ledger_wf :: "ledger \<Rightarrow> bool" where
  "ledger_wf g \<longleftrightarrow> distinct (map fr_id (lg_files g)) \<and> distinct (map fr_path (lg_files g))
     \<and> (\<forall>r \<in> set (lg_files g). 0 < fr_id r \<and> fr_id r \<le> lg_files_seq g) \<and> 0 \<le> lg_files_seq g
     \<and> distinct (map cr_conn_hash (lg_conns g)) \<and> distinct (map eb_epoch_id (lg_epochs g))"

lemma update_where_map [simp]:
  "(\<And>r. P r \<Longrightarrow> g (f r) = g r) \<Longrightarrow> map g (update_where P f rows) = map g rows"
  by (simp add: update_where_def)

lemma in_update_where:
  "r \<in> set (update_where P f rows) \<longleftrightarrow> (\<exists>r0 \<in> set rows. r = (if P r0 then f r0 else r0))"
  by (auto simp: update_where_def)

lemma find_update_where:
  "(\<And>r. P r \<Longrightarrow> Q (f r) = Q r) \<Longrightarrow>
   find Q (update_where P f rows) = map_option (\<lambda>r. if P r then f r else r) (find Q rows)"
  by (induction rows) (auto simp: update_where_def)

lemma find_SomeD: "find P xs = Some x \<Longrightarrow> P x \<and> x \<in> set xs"
  by (metis find_Some_iff nth_mem)

lemma find_key: "distinct (map f xs) \<Longrightarrow> r \<in> set xs \<Longrightarrow> find (\<lambda>x. f x = f r) xs = Some r"
  by (induction xs) force+

lemma find_append: "find P (xs @ ys) = (case find P xs of Some x \<Rightarrow> Some x | None \<Rightarrow> find P ys)"
  by (induction xs) auto

lemma ledger_init_wf: "ledger_wf ledger_init"
  by (simp add: ledger_wf_def ledger_init_def)

lemma insert_file_wf:
  "insert_file path kind dev seg now g = Some (g', fid) \<Longrightarrow> ledger_wf g \<Longrightarrow>
   ledger_wf g' \<and> fid = lg_files_seq g + 1 \<and> file_at fid g = None"
  by (force simp: insert_file_def ledger_wf_def Let_def file_at_def find_None_iff split: if_splits)

lemma ledger_wf_ops:
  "ledger_wf g \<Longrightarrow> advance_watermark fid off g = Some g' \<Longrightarrow> ledger_wf g'"
  "ledger_wf g \<Longrightarrow> ledger_wf (set_file_state fid s g)"
  "ledger_wf g \<Longrightarrow> ledger_wf (update_file_meta fid n sha a b g)"
  "ledger_wf g \<Longrightarrow> ledger_wf (insert_anomalies es g)"
  "ledger_wf g \<Longrightarrow> ledger_wf (upsert_conn_archive a' g)"
  "ledger_wf g \<Longrightarrow> ledger_wf (fst (ext_meta_upsert hint magic ent fixed port t g))"
  by (auto simp: ledger_wf_def advance_watermark_def set_file_state_def update_file_meta_def
      insert_anomalies_def upsert_conn_archive_def ext_meta_upsert_def
      merge_archive_def Let_def in_update_where split: if_splits option.splits)

lemma upsert_epoch_boundary_wf:
  assumes "ledger_wf g" "upsert_epoch_boundary e g = Some g'"
  shows "ledger_wf g'"
proof -
  have "map eb_epoch_id (update_where (\<lambda>r. eb_epoch_id r = eb_epoch_id e) (\<lambda>r. e) rows) =
      map eb_epoch_id rows" for rows by (simp add: update_where_def)
  with assms show ?thesis
    by (fastforce simp: ledger_wf_def upsert_epoch_boundary_def split: if_splits)
qed

text \<open>A watermark never goes back.\<close>

lemma advance_watermark_at:
  assumes "advance_watermark fid off g = Some g'" "ledger_wf g"
  shows "file_at fid g' = map_option (\<lambda>r. r\<lparr>fr_analysis_offset := sint off\<rparr>) (file_at fid g)"
    and "file_at fid g \<noteq> None"
    and "\<forall>r. file_at fid g = Some r \<longrightarrow> fr_analysis_offset r \<le> sint off"
    and "fid' \<noteq> fid \<Longrightarrow> file_at fid' g' = file_at fid' g"
proof -
  let ?hit = "\<lambda>r. fr_id r = fid \<and> fr_analysis_offset r \<le> sint off"
  from assms(1) obtain r where r: "r \<in> set (lg_files g)" "?hit r" and
    g': "g' = g\<lparr>lg_files := update_where ?hit (\<lambda>r. r\<lparr>fr_analysis_offset := sint off\<rparr>) (lg_files g)\<rparr>"
    by (auto simp: advance_watermark_def Let_def split: if_splits)
  have "distinct (map fr_id (lg_files g))" using assms(2) by (simp add: ledger_wf_def)
  with r have at: "file_at fid g = Some r"
    using find_key [of fr_id "lg_files g" r] by (simp add: file_at_def)
  show "file_at fid g \<noteq> None" "\<forall>r. file_at fid g = Some r \<longrightarrow> fr_analysis_offset r \<le> sint off"
    using at r(2) by simp_all
  show "file_at fid g' = map_option (\<lambda>r. r\<lparr>fr_analysis_offset := sint off\<rparr>) (file_at fid g)"
    using at r(2) by (auto simp: file_at_def g' find_update_where)
  show "fid' \<noteq> fid \<Longrightarrow> file_at fid' g' = file_at fid' g"
    by (auto simp: file_at_def g' find_update_where intro!: option.map_ident_strong dest: find_SomeD)
qed

end
