(* ===== verification/Qr_Inv.thy ===== *)
theory Qr_Inv
  imports Qr
begin

text \<open>
  The invariants of the two stores.  A live pair is pending and an epoch pair is final; the epoch
  databases only grow; no pair ever disappears from both stores; and every pending, TTL and index
  row names a pair that one of the stores has.  \<open>keeps view m m'\<close> says that a step from \<open>m\<close> to \<open>m'\<close>
  respects all of this; it is a preorder, so that a handler keeps what its calls keep.
\<close>

declare split_paired_All [simp del] split_paired_Ex [simp del]

section \<open>Rows\<close>

definition pending_row :: "bytes \<Rightarrow> bool" where
  "pending_row v \<longleftrightarrow>
     (\<exists>p. v = qr_pair_encode p \<and> qr_pair_wf p \<and> qp_status p = status_u8 Pending)"

definition terminal_row :: "bytes \<Rightarrow> bool" where
  "terminal_row v \<longleftrightarrow> (\<exists>p. v = qr_pair_encode p \<and> qp_status p \<noteq> status_u8 Pending)"

definition known :: "contents \<Rightarrow> contents \<Rightarrow> u64 \<Rightarrow> bool" where
  "known lp ep q \<longleftrightarrow> lp (k_qr_pair q) \<noteq> None \<or> ep (k_qr_pair q) \<noteq> None"

definition index_ok :: "contents \<Rightarrow> contents \<Rightarrow> contents \<Rightarrow> bool" where
  "index_ok lp ep x \<longleftrightarrow> (\<forall>k v. x k = Some v \<longrightarrow> (\<exists>q. v = be64 q \<and> known lp ep q))"

definition pending_ok :: "contents \<Rightarrow> contents \<Rightarrow> contents \<Rightarrow> bool" where
  "pending_ok lp ep x \<longleftrightarrow>
     (\<forall>k v. x k = Some v \<longrightarrow>
        length k = 16 \<and> (\<exists>q ts n. v = v_qr_pending_encode q ts n \<and> known lp ep q))"

definition ttl_ok :: "contents \<Rightarrow> contents \<Rightarrow> contents \<Rightarrow> bool" where
  "ttl_ok lp ep x \<longleftrightarrow>
     (\<forall>k v. x k = Some v \<longrightarrow>
        length k = 16 \<and> (\<exists>q e. v = v_pending_ttl_encode q e \<and> known lp ep q))"

definition pairs_ok :: "contents \<Rightarrow> contents \<Rightarrow> bool" where
  "pairs_ok lp ep \<longleftrightarrow> (\<forall>k v. lp k = Some v \<longrightarrow> pending_row v)
     \<and> (\<forall>k v. ep k = Some v \<longrightarrow> terminal_row v)"

text \<open>The step from one pair of pair databases to the next.\<close>

definition pairs_step :: "contents \<Rightarrow> contents \<Rightarrow> contents \<Rightarrow> contents \<Rightarrow> bool" where
  "pairs_step lp ep lp' ep' \<longleftrightarrow> ep \<subseteq>\<^sub>m ep' \<and> (\<forall>k. lp k \<noteq> None \<longrightarrow> lp' k \<noteq> None \<or> ep' k \<noteq> None)
     \<and> (pairs_ok lp ep \<longrightarrow> pairs_ok lp' ep')"

lemma pairs_step_refl [simp, intro]: "pairs_step lp ep lp ep"
  by (simp add: pairs_step_def)

lemma map_le_present: "m \<subseteq>\<^sub>m m' \<Longrightarrow> m k \<noteq> None \<Longrightarrow> m' k \<noteq> None"
  by (metis domIff map_le_def)

lemma pairs_step_present:
  "pairs_step lp ep lp' ep' \<Longrightarrow> lp k \<noteq> None \<or> ep k \<noteq> None \<Longrightarrow> lp' k \<noteq> None \<or> ep' k \<noteq> None"
  using map_le_present [of ep ep' k] by (auto simp: pairs_step_def)

lemma pairs_step_trans:
  assumes "pairs_step lp ep lp' ep'" "pairs_step lp' ep' lp'' ep''"
  shows "pairs_step lp ep lp'' ep''"
proof -
  have "ep \<subseteq>\<^sub>m ep''" using assms map_le_trans unfolding pairs_step_def by blast
  moreover have "lp'' k \<noteq> None \<or> ep'' k \<noteq> None" if "lp k \<noteq> None" for k
    using pairs_step_present [OF assms(2), of k] pairs_step_present [OF assms(1), of k] that by simp
  ultimately show ?thesis using assms by (simp add: pairs_step_def)
qed

lemma pairs_step_known: "pairs_step lp ep lp' ep' \<Longrightarrow> known lp ep q \<Longrightarrow> known lp' ep' q"
  unfolding known_def by (rule pairs_step_present)

lemma index_ok_step: "pairs_step lp ep lp' ep' \<Longrightarrow> index_ok lp ep x \<Longrightarrow> index_ok lp' ep' x"
  unfolding index_ok_def using pairs_step_known by blast

lemma pending_ok_step: "pairs_step lp ep lp' ep' \<Longrightarrow> pending_ok lp ep x \<Longrightarrow> pending_ok lp' ep' x"
  unfolding pending_ok_def using pairs_step_known by blast

lemma ttl_ok_step: "pairs_step lp ep lp' ep' \<Longrightarrow> ttl_ok lp ep x \<Longrightarrow> ttl_ok lp' ep' x"
  unfolding ttl_ok_def using pairs_step_known by blast

lemma ok_delete:
  "pending_ok lp ep x \<Longrightarrow> pending_ok lp ep (x(k := None))"
  "ttl_ok lp ep x \<Longrightarrow> ttl_ok lp ep (x(k := None))"
  by (auto simp: pending_ok_def ttl_ok_def)

lemma ok_insert:
  "pending_ok lp ep x \<Longrightarrow> known lp ep q \<Longrightarrow> length k = 16 \<Longrightarrow>
     pending_ok lp ep (upd_new x k (v_qr_pending_encode q ts n))"
  "ttl_ok lp ep x \<Longrightarrow> known lp ep q \<Longrightarrow> length k = 16 \<Longrightarrow>
     ttl_ok lp ep (upd_new x k (v_pending_ttl_encode q e))"
  "index_ok lp ep x \<Longrightarrow> known lp ep q \<Longrightarrow> index_ok lp ep (upd_new x k (be64 q))"
  by (auto simp: pending_ok_def ttl_ok_def index_ok_def upd_new_def split: option.splits)

lemma upd_new_le: "x \<subseteq>\<^sub>m upd_new x k v"
  by (auto simp: upd_new_def map_le_def split: option.splits)

lemma upd_new_present: "upd_new x k v k \<noteq> None"
  by (auto simp: upd_new_def split: option.splits)

section \<open>The invariant of a matcher\<close>

definition qm_inv :: "('d \<Rightarrow> contents) \<Rightarrow> ('d, 'z) dual_db_scheme \<Rightarrow> bool" where
  "qm_inv view m \<longleftrightarrow>
     (let lp = view (qm_live_pair m); ep = view (qm_ep_pair m)
      in pairs_ok lp ep \<and> pending_ok lp ep (view (qm_pending m)) \<and> ttl_ok lp ep (view (qm_ttl m))
         \<and> index_ok lp ep (view (qm_conn_qr m)) \<and> index_ok lp ep (view (qm_qr_key m))
         \<and> index_ok lp ep (view (qm_qr_time m)) \<and> index_ok lp ep (view (qm_packet_qr m)))"

definition epoch_grows ::
  "('d \<Rightarrow> contents) \<Rightarrow> ('d, 'z) dual_db_scheme \<Rightarrow> ('d, 'y) dual_db_scheme \<Rightarrow> bool" where
  "epoch_grows view m m' \<longleftrightarrow> view (qm_ep_pair m) \<subseteq>\<^sub>m view (qm_ep_pair m')
     \<and> view (qm_conn_qr m) \<subseteq>\<^sub>m view (qm_conn_qr m') \<and> view (qm_qr_key m) \<subseteq>\<^sub>m view (qm_qr_key m')
     \<and> view (qm_qr_time m) \<subseteq>\<^sub>m view (qm_qr_time m')
     \<and> view (qm_packet_qr m) \<subseteq>\<^sub>m view (qm_packet_qr m')
     \<and> view (qm_record_ts m) \<subseteq>\<^sub>m view (qm_record_ts m')"

definition keeps ::
  "('d \<Rightarrow> contents) \<Rightarrow> ('d, 'z) dual_db_scheme \<Rightarrow> ('d, 'z) dual_db_scheme \<Rightarrow> bool" where
  "keeps view m m' \<longleftrightarrow> epoch_grows view m m'
     \<and> pairs_step (view (qm_live_pair m)) (view (qm_ep_pair m))
         (view (qm_live_pair m')) (view (qm_ep_pair m'))
     \<and> (qm_inv view m \<longrightarrow> qm_inv view m')"

lemma epoch_grows_refl [simp, intro]: "epoch_grows view m m"
  by (simp add: epoch_grows_def)

lemma epoch_grows_trans: "epoch_grows view m m' \<Longrightarrow> epoch_grows view m' m'' \<Longrightarrow> epoch_grows view m m''"
  unfolding epoch_grows_def using map_le_trans by blast

lemma keeps_refl [simp, intro]: "keeps view m m"
  by (simp add: keeps_def)

lemma keeps_trans [trans]: "keeps view m m' \<Longrightarrow> keeps view m' m'' \<Longrightarrow> keeps view m m''"
  unfolding keeps_def using epoch_grows_trans pairs_step_trans by blast

text \<open>Changes of the batch state, and of the connection rows, keep everything.\<close>

definition same_rows :: "('d, 'z) dual_db_scheme \<Rightarrow> ('d, 'z) dual_db_scheme \<Rightarrow> bool" where
  "same_rows m m' \<longleftrightarrow> qm_live_pair m' = qm_live_pair m \<and> qm_pending m' = qm_pending m
     \<and> qm_ttl m' = qm_ttl m \<and> qm_ep_pair m' = qm_ep_pair m \<and> qm_conn_qr m' = qm_conn_qr m
     \<and> qm_qr_key m' = qm_qr_key m \<and> qm_qr_time m' = qm_qr_time m
     \<and> qm_packet_qr m' = qm_packet_qr m \<and> qm_record_ts m' = qm_record_ts m"

lemma same_rows_keeps: "same_rows m m' \<Longrightarrow> keeps view m m'"
  by (simp add: same_rows_def keeps_def epoch_grows_def qm_inv_def)

lemma same_rows_persist [simp, intro]: "same_rows m (persist_state h st m)"
  by (simp add: same_rows_def persist_state_def)

lemma same_rows_batch [simp, intro]:
  "same_rows m (m\<lparr>qm_anomalies := a\<rparr>)" "same_rows m (m\<lparr>qm_ext_meta := e\<rparr>)"
  "same_rows m (m\<lparr>qm_conn_archives := c\<rparr>)" "same_rows m (m\<lparr>qm_conn_state := d\<rparr>)"
  "same_rows m m"
  by (simp_all add: same_rows_def)

text \<open>A step of the pair databases alone, of the pending rows alone, and of one index.\<close>

lemma keeps_pairs:
  assumes "m' = m\<lparr>qm_live_pair := d, qm_ep_pair := e\<rparr>"
    "pairs_step (view (qm_live_pair m)) (view (qm_ep_pair m)) (view d) (view e)"
  shows "keeps view m m'"
proof -
  have "view (qm_ep_pair m) \<subseteq>\<^sub>m view e" using assms(2) by (simp add: pairs_step_def)
  moreover have "pairs_ok (view (qm_live_pair m)) (view (qm_ep_pair m)) \<Longrightarrow> pairs_ok (view d) (view e)"
    using assms(2) by (simp add: pairs_step_def)
  ultimately show ?thesis
    using assms index_ok_step [OF assms(2)] pending_ok_step [OF assms(2)] ttl_ok_step [OF assms(2)]
    by (simp add: keeps_def epoch_grows_def qm_inv_def Let_def)
qed

lemma keeps_insert_live:
  assumes "view d = upd_new (view (qm_live_pair m)) k v" "pending_row v"
  shows "keeps view m (m\<lparr>qm_live_pair := d\<rparr>)"
proof (rule keeps_pairs)
  show "pairs_step (view (qm_live_pair m)) (view (qm_ep_pair m)) (view d) (view (qm_ep_pair m))"
    using assms by (auto simp: pairs_step_def pairs_ok_def upd_new_def split: option.splits if_splits)
qed simp

definition pair_known :: "('d \<Rightarrow> contents) \<Rightarrow> ('d, 'z) dual_db_scheme \<Rightarrow> u64 \<Rightarrow> bool" where
  "pair_known view m q \<longleftrightarrow> known (view (qm_live_pair m)) (view (qm_ep_pair m)) q"

lemma keeps_known: "keeps view m m' \<Longrightarrow> pair_known view m q \<Longrightarrow> pair_known view m' q"
  unfolding keeps_def pair_known_def using pairs_step_known by blast

lemma keeps_insert_row:
  assumes "pair_known view m q"
  shows "view d = upd_new (view (qm_pending m)) k (v_qr_pending_encode q ts n) \<Longrightarrow> length k = 16 \<Longrightarrow>
      keeps view m (m\<lparr>qm_pending := d\<rparr>)"
    and "view d = upd_new (view (qm_ttl m)) k (v_pending_ttl_encode q e) \<Longrightarrow> length k = 16 \<Longrightarrow>
      keeps view m (m\<lparr>qm_ttl := d\<rparr>)"
    and "view d = upd_new (view (qm_packet_qr m)) k (be64 q) \<Longrightarrow>
      keeps view m (m\<lparr>qm_packet_qr := d\<rparr>)"
    and "view d = upd_new (view (qm_conn_qr m)) k (be64 q) \<Longrightarrow>
      keeps view m (m\<lparr>qm_conn_qr := d\<rparr>)"
    and "view d = upd_new (view (qm_qr_key m)) k (be64 q) \<Longrightarrow>
      keeps view m (m\<lparr>qm_qr_key := d\<rparr>)"
    and "view d = upd_new (view (qm_qr_time m)) k (be64 q) \<Longrightarrow>
      keeps view m (m\<lparr>qm_qr_time := d\<rparr>)"
  using assms
  by (auto simp: keeps_def epoch_grows_def qm_inv_def Let_def pair_known_def upd_new_le
      intro: ok_insert)

lemma keeps_record_ts:
  "view d = upd_new (view (qm_record_ts m)) k v \<Longrightarrow> keeps view m (m\<lparr>qm_record_ts := d\<rparr>)"
  by (simp add: keeps_def epoch_grows_def qm_inv_def Let_def upd_new_le)

section \<open>The operations keep the stores in order\<close>

lemma status_u8_zero [simp]: "status_u8 s = 0 \<longleftrightarrow> s = Pending"
  by (cases s) simp_all

text \<open>The three outcomes of a migration.\<close>

definition migrated ::
  "('d \<Rightarrow> contents) \<Rightarrow> u64 \<Rightarrow> (qr_pair_value \<Rightarrow> qr_pair_value) \<Rightarrow> ('d, 'z) dual_db_scheme \<Rightarrow> 'd \<Rightarrow> 'd \<Rightarrow>
     bool \<Rightarrow> bool" where
  "migrated view q flip m d e b \<longleftrightarrow>
     (let lp = view (qm_live_pair m); ep = view (qm_ep_pair m); kp = k_qr_pair q
      in (ep kp \<noteq> None \<and> \<not> b \<and> view d = lp(kp := None) \<and> view e = ep)
         \<or> (ep kp = None \<and> \<not> (\<exists>v p. lp kp = Some v \<and> qr_pair_decode v = Some p \<and>
               qp_status p = status_u8 Pending) \<and> \<not> b \<and> view d = lp \<and> view e = ep)
         \<or> (\<exists>v p. ep kp = None \<and> lp kp = Some v \<and> qr_pair_decode v = Some p
               \<and> qp_status p = status_u8 Pending \<and> b \<and> view d = lp(kp := None)
               \<and> view e = ep(kp \<mapsto> qr_pair_encode (flip p))))"

lemma pending_row_decode:
  "pending_row v \<Longrightarrow> \<exists>p. qr_pair_decode v = Some p \<and> qp_status p = status_u8 Pending"
  using qr_pair_decode_encode by (auto simp: pending_row_def)

text \<open>With the invariant, the second outcome only happens to a pair that neither store has.\<close>

lemma migrated_pairs:
  assumes "migrated view q flip m d e b" "pairs_ok (view (qm_live_pair m)) (view (qm_ep_pair m))"
  shows "view d = (view (qm_live_pair m))(k_qr_pair q := None)"
    and "known (view (qm_live_pair m)) (view (qm_ep_pair m)) q \<Longrightarrow> view e (k_qr_pair q) \<noteq> None"
    and "b \<longleftrightarrow> view (qm_live_pair m) (k_qr_pair q) \<noteq> None \<and> view (qm_ep_pair m) (k_qr_pair q) = None"
proof -
  let ?lp = "view (qm_live_pair m)" and ?kp = "k_qr_pair q"
  have row: "?lp ?kp = Some v \<Longrightarrow> \<exists>p. qr_pair_decode v = Some p \<and> qp_status p = status_u8 Pending" for v
    using assms(2) pending_row_decode [of v] by (simp add: pairs_ok_def)
  have triv: "?lp ?kp = None \<Longrightarrow> ?lp = ?lp(?kp := None)" by auto
  have "view d = ?lp(?kp := None) \<and> (known ?lp (view (qm_ep_pair m)) q \<longrightarrow> view e ?kp \<noteq> None) \<and>
      (b \<longleftrightarrow> ?lp ?kp \<noteq> None \<and> view (qm_ep_pair m) ?kp = None)"
  proof (cases "?lp ?kp")
    case None
    show ?thesis
      using assms(1) None triv [OF None] unfolding migrated_def Let_def known_def
      by (metis option.distinct(1))
  next
    case (Some v)
    with row obtain p where "qr_pair_decode v = Some p" "qp_status p = status_u8 Pending" by blast
    then show ?thesis using assms(1) Some by (auto simp: migrated_def Let_def)
  qed
  then show "view d = ?lp(?kp := None)"
    "known ?lp (view (qm_ep_pair m)) q \<Longrightarrow> view e ?kp \<noteq> None"
    "b \<longleftrightarrow> ?lp ?kp \<noteq> None \<and> view (qm_ep_pair m) ?kp = None"
    by blast+
qed

lemma qm_inv_pairs: "qm_inv view m \<Longrightarrow> pairs_ok (view (qm_live_pair m)) (view (qm_ep_pair m))"
  by (simp add: qm_inv_def Let_def)

lemma migrated_inv:
  assumes "migrated view q flip m d e b" "qm_inv view m"
  shows "view d = (view (qm_live_pair m))(k_qr_pair q := None)"
    and "known (view (qm_live_pair m)) (view (qm_ep_pair m)) q \<Longrightarrow> view e (k_qr_pair q) \<noteq> None"
    and "b \<longleftrightarrow> view (qm_live_pair m) (k_qr_pair q) \<noteq> None \<and> view (qm_ep_pair m) (k_qr_pair q) = None"
  using migrated_pairs [OF assms(1) qm_inv_pairs [OF assms(2)]] by blast+

lemma migrated_pairs_step:
  assumes "migrated view q flip m d e b"
    and flip: "\<And>p. qp_status (flip p) \<noteq> status_u8 Pending"
  shows "pairs_step (view (qm_live_pair m)) (view (qm_ep_pair m)) (view d) (view e)"
proof -
  have "terminal_row (qr_pair_encode (flip p))" for p
    using flip by (auto simp: terminal_row_def)
  then show ?thesis
    using assms(1)
    by (auto simp: migrated_def Let_def pairs_step_def pairs_ok_def map_le_def split: if_splits)
qed

context lmdb_store
begin

lemma migrate_terminal_Some:
  assumes "migrate_terminal L q flip m = Some (m', b)"
  obtains d e where "m' = m\<lparr>qm_live_pair := d, qm_ep_pair := e\<rparr>" "migrated view q flip m d e b"
proof -
  let ?kp = "k_qr_pair q"
  from assms obtain r where g: "lm_get L (qm_ep_pair m) ?kp = Some r"
    by (auto simp: migrate_terminal_def Let_def split: Option.bind_splits)
  note gv = get_view [OF g]
  show thesis
  proof (cases r)
    case (Some v)
    then have ev: "view (qm_ep_pair m) ?kp = Some v" using gv by simp
    from Some assms g obtain d b' where d: "lm_delete L (qm_live_pair m) ?kp = Some (d, b')"
      "m' = m\<lparr>qm_live_pair := d\<rparr>" "\<not> b"
      by (auto simp: migrate_terminal_def Let_def split: Option.bind_splits)
    show thesis
    proof (rule that)
      show "m' = m\<lparr>qm_live_pair := d, qm_ep_pair := qm_ep_pair m\<rparr>" using d(2) by simp
      show "migrated view q flip m d (qm_ep_pair m) b"
        using delete_view [OF d(1)] d(3) ev by (simp add: migrated_def Let_def)
    qed
  next
    case None
    with assms g obtain v where v: "lm_get L (qm_live_pair m) ?kp = Some v"
      by (auto simp: migrate_terminal_def Let_def split: Option.bind_splits)
    note vv = get_view [OF v]
    show thesis
    proof (cases "\<exists>p. Option.bind v qr_pair_decode = Some p \<and> qp_status p = status_u8 Pending")
      case False
      then have "m' = m" "\<not> b"
        using assms g v None
        by (auto simp: migrate_terminal_def Let_def split: option.splits if_splits)
      show thesis
      proof (rule that)
        show "m' = m\<lparr>qm_live_pair := qm_live_pair m, qm_ep_pair := qm_ep_pair m\<rparr>"
          using \<open>m' = m\<close> by simp
        show "migrated view q flip m (qm_live_pair m) (qm_ep_pair m) b"
          using False vv gv None \<open>\<not> b\<close> by (auto simp: migrated_def Let_def)
      qed
    next
      case True
      then obtain p where p: "Option.bind v qr_pair_decode = Some p" "qp_status p = status_u8 Pending"
        by blast
      with assms g v None obtain e be d bd where
        e: "put_no_overwrite L (qm_ep_pair m) ?kp (qr_pair_encode (flip p)) = Some (e, be)" and
        d: "lm_delete L (qm_live_pair m) ?kp = Some (d, bd)" and
        m': "m' = m\<lparr>qm_ep_pair := e, qm_live_pair := d\<rparr>" "b"
        by (auto simp: migrate_terminal_def Let_def split: Option.bind_splits)
      show thesis
      proof (rule that)
        show "m' = m\<lparr>qm_live_pair := d, qm_ep_pair := e\<rparr>" using m' by simp
        show "migrated view q flip m d e b"
          using delete_view [OF d] put_no_overwrite_view [OF e] p vv gv None m'(2)
          by (auto simp: migrated_def Let_def upd_new_def bind_eq_Some_conv)
      qed
    qed
  qed
qed

lemma migrate_terminal_keeps:
  assumes "migrate_terminal L q flip m = Some (m', b)"
    and "\<And>p. qp_status (flip p) \<noteq> status_u8 Pending"
  shows "keeps view m m'"
  using assms(1)
proof (rule migrate_terminal_Some)
  fix d e
  assume "m' = m\<lparr>qm_live_pair := d, qm_ep_pair := e\<rparr>" "migrated view q flip m d e b"
  then show ?thesis by (rule keeps_pairs [OF _ migrated_pairs_step [OF _ assms(2)]])
qed

lemma clear_hit_Some:
  assumes "clear_hit L h hit m = Some m'"
  obtains d e where "m' = m\<lparr>qm_pending := d, qm_ttl := e\<rparr>"
    "view d = (view (qm_pending m))(ph_key hit := None)"
    "view e = (view (qm_ttl m))(k_pending_ttl (ph_q_ts hit) h := None)"
proof -
  from assms obtain d b e c where
    d: "lm_delete L (qm_pending m) (ph_key hit) = Some (d, b)" and
    e: "lm_delete L (qm_ttl m) (k_pending_ttl (ph_q_ts hit) h) = Some (e, c)" and
    m': "m' = m\<lparr>qm_pending := d, qm_ttl := e\<rparr>"
    by (auto simp: clear_hit_def Let_def split: Option.bind_splits)
  show thesis by (rule that [OF m' delete_view [OF d] delete_view [OF e]])
qed

lemma clear_hit_keeps:
  assumes "clear_hit L h hit m = Some m'"
  shows "keeps view m m'"
  using assms
proof (rule clear_hit_Some)
  fix d e
  assume "m' = m\<lparr>qm_pending := d, qm_ttl := e\<rparr>"
    "view d = (view (qm_pending m))(ph_key hit := None)"
    "view e = (view (qm_ttl m))(k_pending_ttl (ph_q_ts hit) h := None)"
  then show ?thesis by (simp add: keeps_def epoch_grows_def qm_inv_def Let_def ok_delete)
qed

lemma match_flip_status [simp]: "qp_status (match_flip r primary others p) = status_u8 Matched"
  by (simp add: match_flip_def Let_def)

lemma consume_hits_keeps:
  "consume_hits L h r primary others hits (m, st) = Some (m', st') \<Longrightarrow> keeps view m m'"
proof (induction hits arbitrary: primary m st)
  case (Cons hit hits)
  from Cons.prems obtain m1 b m2 st2 where
    1: "migrate_terminal L (ph_q_first_idx hit) (match_flip r primary others) m = Some (m1, b)" and
    2: "clear_hit L h hit m1 = Some m2" and
    3: "consume_hits L h r False others hits (m2, st2) = Some (m', st')"
    by (auto simp: Let_def split: Option.bind_splits)
  have "keeps view m m1" by (rule migrate_terminal_keeps [OF 1]) simp
  also have "keeps view m1 m2" by (rule clear_hit_keeps [OF 2])
  also have "keeps view m2 m'" by (rule Cons.IH [OF 3])
  finally show ?case .
qed simp

lemma abort_hits_keeps:
  assumes "status \<noteq> Pending"
  shows "abort_hits L h status ev hits m = Some m' \<Longrightarrow> keeps view m m'"
proof (induction hits arbitrary: m)
  case (Cons hit hits)
  from Cons.prems obtain m1 b m2 where
    1: "migrate_terminal L (ph_q_first_idx hit) (\<lambda>pair. pair\<lparr>qp_status := status_u8 status\<rparr>) m =
        Some (m1, b)" and
    2: "clear_hit L h hit (m1\<lparr>qm_anomalies := qm_anomalies m1 @ [ev (ph_q_first_idx hit)]\<rparr>) = Some m2" and
    3: "abort_hits L h status ev hits m2 = Some m'"
    by (auto simp: Let_def split: Option.bind_splits)
  have "keeps view m m1" by (rule migrate_terminal_keeps [OF 1]) (simp add: assms)
  also have "keeps view m1 (m1\<lparr>qm_anomalies := qm_anomalies m1 @ [ev (ph_q_first_idx hit)]\<rparr>)"
    by (rule same_rows_keeps) simp
  also have "keeps view \<dots> m2" by (rule clear_hit_keeps [OF 2])
  also have "keeps view m2 m'" by (rule Cons.IH [OF 3])
  finally show ?case .
qed simp

lemma consume_r_keeps: "consume_r L h st r ack m = Some (m', st') \<Longrightarrow> keeps view m m'"
  by (auto simp: consume_r_def Let_def split: Option.bind_splits intro: consume_hits_keeps)

lemma rst_cascade_keeps: "rst_cascade L h st rec m = Some (m', st') \<Longrightarrow> keeps view m m'"
proof -
  assume "rst_cascade L h st rec m = Some (m', st')"
  then obtain hits m1 a where
    1: "abort_hits L h RstAbort a hits m = Some m1" and
    m': "\<exists>x. m' = m1\<lparr>qm_anomalies := x\<rparr>"
    by (auto simp: rst_cascade_def Let_def split: Option.bind_splits)
  have "keeps view m m1" by (rule abort_hits_keeps [OF _ 1]) simp
  also have "keeps view m1 m'" using m' by (auto intro: same_rows_keeps)
  finally show ?thesis .
qed

lemma flip_epoch_Some:
  assumes "flip_epoch L C h rec dir idx m = Some m'"
  obtains st hits m1 st1 where "conn_at h m = Some st"
    "scan_pending_upto L h (cs_incarnation st) U48_MAX m = Some hits"
    "abort_hits L h Unmatched (gen_flip_event rec h (cs_incarnation st)) hits m = Some m1"
    "conn_at h m1 = Some st1"
    "m' = (persist_state h (reborn C rec dir idx st1) m1)
      \<lparr>qm_anomalies := qm_anomalies m1 @ [rebirth_event C rec h (length hits)]\<rparr>"
  using assms unfolding flip_epoch_def Let_def
  by (elim bind_SomeE) (rule that, assumption+, simp add: persist_state_def)

lemma flip_epoch_keeps: "flip_epoch L C h rec dir idx m = Some m' \<Longrightarrow> keeps view m m'"
proof (elim flip_epoch_Some)
  fix st hits m1 st1
  assume 1: "abort_hits L h Unmatched (gen_flip_event rec h (cs_incarnation st)) hits m = Some m1"
    and m': "m' = (persist_state h (reborn C rec dir idx st1) m1)
      \<lparr>qm_anomalies := qm_anomalies m1 @ [rebirth_event C rec h (length hits)]\<rparr>"
  have "keeps view m m1" by (rule abort_hits_keeps [OF _ 1]) simp
  also have "keeps view m1 (persist_state h (reborn C rec dir idx st1) m1)"
    by (rule same_rows_keeps) simp
  also have "keeps view \<dots> m'" unfolding m' by (rule same_rows_keeps) simp
  finally show ?thesis .
qed

lemma open_rows_keeps:
  assumes "open_rows L h inc q pair m = Some m'" "pending_row (qr_pair_encode pair)"
  shows "keeps view m m' \<and> pair_known view m' q"
proof -
  obtain d1 b1 d2 b2 d3 b3 d4 b4 d5 b5 d6 b6 d7 b7 where
    1: "put_no_overwrite L (qm_live_pair m) (k_qr_pair q) (qr_pair_encode pair) = Some (d1, b1)" and
    2: "put_no_overwrite L (qm_pending m) (k_qr_pending h inc (qp_abs_q_end pair))
      (v_qr_pending_encode q (qp_q_ts pair) (qp_q_len pair)) = Some (d2, b2)" and
    3: "put_no_overwrite L (qm_ttl m) (k_pending_ttl (qp_q_ts pair) h)
      (v_pending_ttl_encode q (qp_abs_q_end pair)) = Some (d3, b3)" and
    4: "put_no_overwrite L (qm_packet_qr m) (k_packet_qr q) (be64 q) = Some (d4, b4)" and
    5: "put_no_overwrite L (qm_conn_qr m) (k_conn_qr h (qp_q_ts pair) q) (be64 q) = Some (d5, b5)" and
    6: "put_no_overwrite L (qm_qr_key m) (k_qr_key (fnv1a64 (qp_req_key pair)) (qp_q_ts pair) q)
      (be64 q) = Some (d6, b6)" and
    7: "put_no_overwrite L (qm_qr_time m) (k_qr_time (qp_q_ts pair) q) (be64 q) = Some (d7, b7)" and
    m': "m' = m\<lparr>qm_live_pair := d1, qm_pending := d2, qm_ttl := d3, qm_packet_qr := d4,
      qm_conn_qr := d5, qm_qr_key := d6, qm_qr_time := d7\<rparr>"
    using assms(1)
    by (auto simp: open_rows_def Let_def v_secondary_encode_def elim!: bind_SomeE)
  note v = put_no_overwrite_view [THEN conjunct1]
  define m1 where "m1 = m\<lparr>qm_live_pair := d1\<rparr>"
  define m2 where "m2 = m1\<lparr>qm_pending := d2\<rparr>"
  define m3 where "m3 = m2\<lparr>qm_ttl := d3\<rparr>"
  define m4 where "m4 = m3\<lparr>qm_packet_qr := d4\<rparr>"
  define m5 where "m5 = m4\<lparr>qm_conn_qr := d5\<rparr>"
  define m6 where "m6 = m5\<lparr>qm_qr_key := d6\<rparr>"
  note ms = m1_def m2_def m3_def m4_def m5_def m6_def
  have k1: "keeps view m m1" unfolding m1_def by (rule keeps_insert_live [OF v [OF 1] assms(2)])
  have p: "pair_known view m1 q"
    using v [OF 1] upd_new_present [of "view (qm_live_pair m)" "k_qr_pair q"]
    by (simp add: pair_known_def known_def m1_def)
  have k2: "keeps view m1 m2" unfolding m2_def
    by (rule keeps_insert_row(1) [OF p]) (simp add: ms v [OF 2], simp)
  note p = keeps_known [OF k2 p]
  have k3: "keeps view m2 m3" unfolding m3_def
    by (rule keeps_insert_row(2) [OF p]) (simp add: ms v [OF 3], simp)
  note p = keeps_known [OF k3 p]
  have k4: "keeps view m3 m4" unfolding m4_def
    by (rule keeps_insert_row(3) [OF p]) (simp add: ms v [OF 4])
  note p = keeps_known [OF k4 p]
  have k5: "keeps view m4 m5" unfolding m5_def
    by (rule keeps_insert_row(4) [OF p]) (simp add: ms v [OF 5])
  note p = keeps_known [OF k5 p]
  have k6: "keeps view m5 m6" unfolding m6_def
    by (rule keeps_insert_row(5) [OF p]) (simp add: ms v [OF 6])
  note p = keeps_known [OF k6 p]
  have "keeps view m6 (m6\<lparr>qm_qr_time := d7\<rparr>)"
    by (rule keeps_insert_row(6) [OF p]) (simp add: ms v [OF 7])
  moreover have "m' = m6\<lparr>qm_qr_time := d7\<rparr>" by (simp add: m' ms)
  ultimately have k7: "keeps view m6 m'" by simp
  show ?thesis
    using keeps_known [OF k7 p]
      keeps_trans [OF k1 keeps_trans [OF k2 keeps_trans [OF k3 keeps_trans [OF k4
        keeps_trans [OF k5 keeps_trans [OF k6 k7]]]]]] by blast
qed

end

end
