(* ===== verification/Qr_Ingest.thy ===== *)
theory Qr_Ingest
  imports Qr_Inv Meta_Facts
begin

text \<open>
  The invariants of \<open>Qr_Inv\<close> for whole packets and batches: opening a request, locating a
  connection, \<open>ingest\<close>, and the commit.
\<close>

section \<open>Key lengths\<close>

lemma slice_get_length: "slice_get b i j = Some s \<Longrightarrow> length s = j - i"
  by (auto simp: slice_get_def split: if_splits)

lemma sni_extensions_length:
  "sni_extensions body stop e = Some name \<Longrightarrow> length name < 65536"
proof (induction "stop - e" arbitrary: e rule: less_induct)
  case less
  have slice: "slice_get data 5 (5 + unat (w :: u16)) = Some name \<Longrightarrow> length name < 65536"
    for data w using slice_get_length [of data 5] unat_lt_pow [of w] by fastforce
  have IH: "sni_extensions body stop (e + 4 + n) = Some name \<Longrightarrow> e + 4 \<le> stop \<Longrightarrow>
      length name < 65536" for n
    by (rule less.hyps [of "e + 4 + n"]) simp_all
  from less.prems show ?case
    unfolding sni_extensions.simps [of body stop e] Let_def
    by (auto split: if_splits elim!: bind_SomeE dest!: slice IH)
qed

lemma tls_sni_length: "tls_sni payload = Some (Some k) \<Longrightarrow> length k < 2 ^ 16"
  by (auto simp: tls_sni_def tls_sni_body_def Let_def split: if_splits elim!: bind_SomeE
      dest!: sni_extensions_length)

lemma dns_labels_length:
  "dns_labels payload off out = Some k \<Longrightarrow> length out \<le> 255 \<Longrightarrow> length k \<le> 255"
proof (induction "length payload - off" arbitrary: off out rule: less_induct)
  case less
  have IH: "dns_labels payload (Suc (off + unat l)) out' = Some k \<Longrightarrow>
      byte_get payload off = Some l \<Longrightarrow> length out' \<le> 255 \<Longrightarrow> length k \<le> 255" for l out'
    by (rule less.hyps [of "Suc (off + unat l)" out']) (auto simp: byte_get_def split: if_splits)
  from less.prems show ?case
    unfolding dns_labels.simps [of payload off out] Let_def
    by (auto simp: not_less split: if_splits elim!: bind_SomeE dest!: IH)
qed

lemma dns_qname_length: "dns_qname payload = Some k \<Longrightarrow> length k \<le> 255"
  by (auto simp: dns_qname_def split: if_splits elim!: bind_SomeE dest: dns_labels_length)

lemma key_or_pseudo_length:
  "(\<And>l. k = Some l \<Longrightarrow> length l < 2 ^ 16) \<Longrightarrow> length (ek_key (key_or_pseudo payload k)) < 2 ^ 16"
  by (auto simp: key_or_pseudo_def pseudo_key_def Let_def split: option.split)

lemma extract_key_length:
  assumes "extract_key payload kind = Some k"
  shows "length (ek_key k) < 2 ^ 16"
proof -
  have h: "http_request_line payload = Some l \<Longrightarrow> length l < 2 ^ 16" for l
    by (auto simp: http_request_line_def Let_def min_def split: if_splits)
  have d: "dns_qname payload = Some l \<Longrightarrow> length l < 2 ^ 16" for l
    using dns_qname_length [of payload l] by simp
  have p: "length (ek_key (pseudo_key payload)) < 2 ^ 16" by (simp add: pseudo_key_def Let_def)
  show ?thesis
  proof (cases kind)
    case Tls
    with assms obtain sni where "tls_sni payload = Some sni" "k = key_or_pseudo payload sni"
      by (auto elim!: bind_SomeE)
    then show ?thesis using key_or_pseudo_length [of sni payload] tls_sni_length by blast
  next
    case Http
    with assms show ?thesis using key_or_pseudo_length [OF h] by auto
  next
    case Dns
    with assms show ?thesis using key_or_pseudo_length [OF d] by auto
  qed (use assms p in auto)
qed

lemma request_key_Some:
  assumes "request_key h r st m = Some ((key, pseudo), st', m')"
  shows "length key < 2 ^ 16 \<and> same_rows m m' \<and> cs_incarnation st' = cs_incarnation st"
proof (cases "qm_meta m")
  case None
  with assms show ?thesis by (auto simp: request_key_def req_key_of_def Let_def)
next
  case (Some mr)
  note p = extract_key_length
  show ?thesis
  proof (cases "sint (cs_meta_bind_id st) < 0")
    case True
    with assms Some obtain b where
      b: "bind_and_extract mr (wr_payload (ir_rec r)) (ucast (wr_proto (ir_rec r)))
        (wr_dst_port (ir_rec r)) = Some b" "key = br_key b" "same_rows m m'"
        "cs_incarnation st' = cs_incarnation st"
      by (auto simp: request_key_def Let_def elim!: bind_SomeE split: if_splits)
    from b(1) have "length (br_key b) < 2 ^ 16"
      by (auto simp: bind_and_extract_def Let_def split: option.splits elim!: bind_SomeE
          dest: extract_key_length)
    with b show ?thesis by simp
  next
    case False
    with assms Some p show ?thesis
      by (auto simp: request_key_def Let_def elim!: bind_SomeE)
  qed
qed

lemma pending_pair_row:
  assumes "length key < 2 ^ 16"
  shows "pending_row (qr_pair_encode (pending_pair h r a b key pseudo))"
proof -
  let ?p = "pending_pair h r a b key pseudo"
  have "qr_pair_wf ?p" "qp_status ?p = status_u8 Pending"
    using assms by (simp_all add: pending_pair_def qr_pair_wf_def)
  then show ?thesis unfolding pending_row_def by blast
qed

section \<open>Handlers\<close>

context lmdb_store
begin

lemma open_q_keeps:
  assumes "open_q L h st r a b m = Some (m', st')"
  shows "keeps view m m' \<and> pair_known view m' (ir_idx r)"
proof -
  from assms obtain key pseudo st1 m1 where
    1: "request_key h r st m = Some ((key, pseudo), st1, m1)" and
    2: "open_rows L h (cs_incarnation st1) (ir_idx r) (pending_pair h r a b key pseudo) m1 = Some m'"
    by (auto simp: open_q_def elim!: bind_SomeE)
  note k = request_key_Some [OF 1]
  have "keeps view m1 m' \<and> pair_known view m' (ir_idx r)"
    by (rule open_rows_keeps [OF 2 pending_pair_row]) (use k in simp)
  then show ?thesis using keeps_trans [OF same_rows_keeps] k by blast
qed

lemma load_conn_keeps: "load_conn L h m = Some (m', b) \<Longrightarrow> same_rows m m'"
  by (auto simp: load_conn_def split: if_splits option.splits elim!: bind_SomeE)

lemma same_rows_trans: "same_rows m m' \<Longrightarrow> same_rows m' m'' \<Longrightarrow> same_rows m m''"
  by (simp add: same_rows_def)

lemma locate_keeps: "locate L C rec dev m = Some (m', h, dir) \<Longrightarrow> same_rows m m'"
  by (auto simp: locate_def Let_def split: if_splits elim!: bind_SomeE
      dest!: load_conn_keeps simp: same_rows_def persist_state_def)

lemma index_record_keeps:
  "index_record L C r m = Some m' \<Longrightarrow> keeps view m m' \<and>
   view (qm_record_ts m') (k_record_ts (wr_timestamp_ns (ir_rec r)) (ir_idx r)) \<noteq> None"
  by (auto simp: index_record_def elim!: bind_SomeE dest!: put_no_overwrite_view
      intro: keeps_record_ts) (auto simp: upd_new_def split: option.splits)

lemma request_response_keeps:
  assumes "request_response L h r dir a n s st m = Some (m', st')"
  shows "keeps view m m'"
  using assms open_q_keeps consume_r_keeps
  by (auto simp: request_response_def Let_def split: dir.splits if_splits)

lemma enter_generation_keeps:
  "enter_generation L C r h dir st m = Some (m', st') \<Longrightarrow> keeps view m m'"
  by (auto simp: enter_generation_def split: if_splits elim!: bind_SomeE intro: flip_epoch_keeps)

lemma ingest_rst_keeps: "ingest_rst L rec h st m = Some m' \<Longrightarrow> keeps view m m'"
  by (auto simp: ingest_rst_def Let_def elim!: bind_SomeE
      intro: keeps_trans [OF rst_cascade_keeps same_rows_keeps [OF same_rows_persist]])

lemma ingest_data_keeps: "ingest_data L C r h dir st m = Some m' \<Longrightarrow> keeps view m m'"
  by (auto simp: ingest_data_def Let_def split: prod.splits elim!: bind_SomeE
      intro: keeps_trans [OF request_response_keeps same_rows_keeps [OF same_rows_persist]])

lemma ingest_tcp_keeps:
  assumes "ingest_tcp L C r m = Some m'"
  shows "keeps view m m'"
proof -
  from assms obtain m1 h dir st m2 st2 where
    1: "locate L C (ir_rec r) (ir_dev_id r) m = Some (m1, h, dir)" and
    2: "enter_generation L C r h dir st m1 = Some (m2, st2)" and
    3: "ingest_rst L (ir_rec r) h st2 m2 = Some m' \<or> ingest_data L C r h dir st2 m2 = Some m'"
    by (auto simp: ingest_tcp_def Let_def split: if_splits elim!: bind_SomeE)
  have "keeps view m m1" by (rule same_rows_keeps [OF locate_keeps [OF 1]])
  also have "keeps view m1 m2" by (rule enter_generation_keeps [OF 2])
  also have "keeps view m2 m'" using 3 ingest_rst_keeps ingest_data_keeps by blast
  finally show ?thesis .
qed

lemma ingest_keeps:
  assumes "ingest L C r m = Some m'"
  shows "keeps view m m'"
proof -
  from assms obtain m1 where
    1: "index_record L C r m = Some m1" and 2: "m' = m1 \<or> ingest_tcp L C r m1 = Some m'"
    by (auto simp: ingest_def split: if_splits elim!: bind_SomeE)
  then show ?thesis
    using index_record_keeps [OF 1] ingest_tcp_keeps keeps_trans by blast
qed

lemma ingest_indexes:
  assumes "ingest L C r m = Some m'"
  shows "view (qm_record_ts m') (k_record_ts (wr_timestamp_ns (ir_rec r)) (ir_idx r)) \<noteq> None"
proof -
  from assms obtain m1 where
    1: "index_record L C r m = Some m1" and 2: "m' = m1 \<or> ingest_tcp L C r m1 = Some m'"
    by (auto simp: ingest_def split: if_splits elim!: bind_SomeE)
  have "view (qm_record_ts m1) \<subseteq>\<^sub>m view (qm_record_ts m')"
    using 2 ingest_tcp_keeps [of C r m1 m'] by (auto simp: keeps_def epoch_grows_def)
  then show ?thesis
    by (rule map_le_present [where m = "view (qm_record_ts m1)"])
      (rule conjunct2 [OF index_record_keeps [OF 1]])
qed

lemma ingest_all_keeps: "ingest_all L C rs m = Some m' \<Longrightarrow> keeps view m m'"
proof (induction rs arbitrary: m)
  case (Cons r rs)
  then show ?case by (auto elim!: bind_SomeE intro: keeps_trans [OF ingest_keeps])
qed simp

lemma ingest_all_indexes:
  "ingest_all L C rs m = Some m' \<Longrightarrow> r \<in> set rs \<Longrightarrow>
   view (qm_record_ts m') (k_record_ts (wr_timestamp_ns (ir_rec r)) (ir_idx r)) \<noteq> None"
proof (induction rs arbitrary: m)
  case (Cons r' rs)
  then obtain m1 where m1: "ingest L C r' m = Some m1" "ingest_all L C rs m1 = Some m'"
    by (auto elim!: bind_SomeE)
  have le: "view (qm_record_ts m1) \<subseteq>\<^sub>m view (qm_record_ts m')"
    using ingest_all_keeps [OF m1(2)] by (auto simp: keeps_def epoch_grows_def)
  show ?case
    using Cons.IH [OF m1(2)] Cons.prems(2) ingest_indexes [OF m1(1)]
      map_le_present [OF le, of "k_record_ts (wr_timestamp_ns (ir_rec r)) (ir_idx r)"]
    by auto
qed simp

lemma writeback_one_same_rows: "writeback_one L h m = Some m' \<Longrightarrow> same_rows m m'"
  by (auto simp: writeback_one_def archive_conn_def same_rows_def Let_def elim!: bind_SomeE)

lemma writeback_same_rows: "writeback L hs m = Some m' \<Longrightarrow> same_rows m m'"
proof (induction hs arbitrary: m)
  case (Cons h hs)
  then show ?case by (auto elim!: bind_SomeE intro: same_rows_trans [OF writeback_one_same_rows])
qed simp

end

end
