(* ===== verification/Qr_Props.thy ===== *)
theory Qr_Props
  imports Qr_Ingest
begin

text \<open>
  What the matcher guarantees about the stores, over the contract of the key-value store: an ACK
  consumes exactly the requests it covers, a reset or a new generation leaves no request of the
  connection pending, migrations can be replayed, and a batch keeps both stores in order.
\<close>

section \<open>Scans\<close>

definition in_scan :: "u64 \<Rightarrow> u16 \<Rightarrow> u64 \<Rightarrow> bytes \<Rightarrow> bool" where
  "in_scan h inc limit k \<longleftrightarrow>
     k_qr_pending_prefix h inc \<le> k \<and> k \<le> k_qr_pending h inc (min limit U48_MAX)"

lemma unat_U48_MAX: "unat U48_MAX = 2 ^ 48 - 1"
  by (simp add: U48_MAX_def)

lemma le_U48_iff: "a \<le> U48_MAX \<longleftrightarrow> unat a < 2 ^ 48"
  using unat_U48_MAX by (auto simp: word_le_nat_alt)

lemma in_scan_key:
  assumes "a \<le> U48_MAX"
  shows "in_scan h inc limit (k_qr_pending h' inc' a) \<longleftrightarrow> h' = h \<and> inc' = inc \<and> a \<le> limit"
proof -
  have "unat (min limit U48_MAX) < 2 ^ 48" using le_U48_iff [of "min limit U48_MAX"] by simp
  then show ?thesis
    using k_qr_pending_in_range [of a "min limit U48_MAX" h inc h' inc'] assms
    by (auto simp: in_scan_def le_U48_iff min_le_iff_disj)
qed

lemma pending_value_decode: "v_qr_pending_decode (v_qr_pending_encode q ts n) = Some (q, ts, n)"
  by (simp add: v_qr_pending_decode_def v_qr_pending_encode_def)

context lmdb_store
begin

text \<open>A scan returns the rows in its range, each with the request it names.\<close>

lemma scan_pending_hits:
  assumes "scan_pending_upto L h inc limit m = Some hits" "qm_inv view m"
  shows "ph_key ` set hits = {k. view (qm_pending m) k \<noteq> None \<and> in_scan h inc limit k}"
    and "hit \<in> set hits \<Longrightarrow> \<exists>n. view (qm_pending m) (ph_key hit) =
      Some (v_qr_pending_encode (ph_q_first_idx hit) (ph_q_ts hit) n)"
    and "hit \<in> set hits \<Longrightarrow> pair_known view m (ph_q_first_idx hit)"
proof -
  let ?P = "view (qm_pending m)"
  have ok: "pending_ok (view (qm_live_pair m)) (view (qm_ep_pair m)) ?P"
    using assms(2) by (simp add: qm_inv_def Let_def)
  from assms(1) obtain kvs where
    kvs: "lm_range L (qm_pending m) (k_qr_pending_prefix h inc)
      (k_qr_pending h inc (min limit U48_MAX)) = Some kvs" and
    hits: "hits = List.map_filter hit_of kvs"
    by (auto simp: scan_pending_upto_def elim!: bind_SomeE)
  have mem: "(k, v) \<in> set kvs \<longleftrightarrow> ?P k = Some v \<and> in_scan h inc limit k" for k v
    using range_view [OF kvs] by (simp add: scan_of_def in_scan_def)
  have row: "\<exists>q ts n. v = v_qr_pending_encode q ts n \<and> pair_known view m q" if "?P k = Some v" for k v
    using ok that unfolding pending_ok_def pair_known_def by blast
  have hit: "hit \<in> set hits \<longleftrightarrow> (\<exists>k v. ?P k = Some v \<and> in_scan h inc limit k \<and> hit_of (k, v) = Some hit)"
    for hit
    using mem by (force simp: hits List.map_filter_def image_iff)
  have hit_of_row: "hit_of (k, v_qr_pending_encode q ts n) =
      Some \<lparr>ph_key = k, ph_q_first_idx = q, ph_q_ts = ts\<rparr>" for k q ts n
    by (simp add: hit_of_def pending_value_decode)
  have of_hit: "\<exists>n. ?P (ph_key hit) = Some (v_qr_pending_encode (ph_q_first_idx hit) (ph_q_ts hit) n) \<and>
      in_scan h inc limit (ph_key hit) \<and> pair_known view m (ph_q_first_idx hit)"
    if "hit \<in> set hits" for hit
  proof -
    from that hit obtain k v where kv: "?P k = Some v" "in_scan h inc limit k" "hit_of (k, v) = Some hit"
      by blast
    with row obtain q ts n where "v = v_qr_pending_encode q ts n" "pair_known view m q" by blast
    with kv hit_of_row show ?thesis by force
  qed
  then show "hit \<in> set hits \<Longrightarrow> \<exists>n. ?P (ph_key hit) =
      Some (v_qr_pending_encode (ph_q_first_idx hit) (ph_q_ts hit) n)"
    and "hit \<in> set hits \<Longrightarrow> pair_known view m (ph_q_first_idx hit)" by blast+
  show "ph_key ` set hits = {k. ?P k \<noteq> None \<and> in_scan h inc limit k}"
  proof (intro equalityI subsetI)
    fix k assume "k \<in> {k. ?P k \<noteq> None \<and> in_scan h inc limit k}"
    then obtain v where "?P k = Some v" "in_scan h inc limit k" by auto
    moreover from this row obtain q ts n where "v = v_qr_pending_encode q ts n" by blast
    ultimately have "\<lparr>ph_key = k, ph_q_first_idx = q, ph_q_ts = ts\<rparr> \<in> set hits"
      using hit hit_of_row by blast
    then show "k \<in> ph_key ` set hits" by force
  qed (use of_hit in fastforce)
qed

text \<open>The effect of working off a list of hits, whichever handler does it: their pending rows go,
  their pairs leave the live store and are in the epoch store.\<close>

definition worked_off :: "pending_hit list \<Rightarrow> 'd qr_matcher \<Rightarrow> 'd qr_matcher \<Rightarrow> bool" where
  "worked_off hits m m' \<longleftrightarrow>
     view (qm_pending m') = view (qm_pending m) |` (- ph_key ` set hits)
     \<and> view (qm_live_pair m') = view (qm_live_pair m) |` (- (k_qr_pair \<circ> ph_q_first_idx) ` set hits)
     \<and> (\<forall>hit \<in> set hits. pair_known view m (ph_q_first_idx hit) \<longrightarrow>
          view (qm_ep_pair m') (k_qr_pair (ph_q_first_idx hit)) \<noteq> None)
     \<and> qm_conns m' = qm_conns m"

lemma restrict_map_UNIV [simp]: "m |` UNIV = m"
  by (simp add: restrict_map_def)

lemma worked_off_cons:
  assumes inv: "qm_inv view m"
    and 1: "migrate_terminal L (ph_q_first_idx hit) flip m = Some (m1, b)"
    and st: "\<And>p. qp_status (flip p) \<noteq> status_u8 Pending"
    and 2: "clear_hit L h hit m1' = Some m2"
      "m1' = m1 \<or> (\<exists>a. m1' = m1\<lparr>qm_anomalies := a\<rparr>)"
    and 3: "worked_off hits m2 m'" "keeps view m2 m'"
  shows "worked_off (hit # hits) m m'"
proof -
  let ?kp = "k_qr_pair (ph_q_first_idx hit)"
  from 1 obtain d e where
    m1: "m1 = m\<lparr>qm_live_pair := d, qm_ep_pair := e\<rparr>" "migrated view (ph_q_first_idx hit) flip m d e b"
    by (rule migrate_terminal_Some)
  note mi = migrated_inv [OF m1(2) inv]
  from 2(1) obtain d2 e2 where m2: "m2 = m1'\<lparr>qm_pending := d2, qm_ttl := e2\<rparr>"
    "view d2 = (view (qm_pending m1'))(ph_key hit := None)"
    by (rule clear_hit_Some)
  have f: "view (qm_pending m2) = (view (qm_pending m))(ph_key hit := None)"
    "view (qm_live_pair m2) = (view (qm_live_pair m))(?kp := None)"
    "qm_ep_pair m2 = e" "qm_conns m2 = qm_conns m"
    using 2(2) m1 m2 mi(1) by auto
  have k: "keeps view m m1" by (rule migrate_terminal_keeps [OF 1 st])
  have k2: "keeps view m1' m2" by (rule clear_hit_keeps [OF 2(1)])
  have "keeps view m1 m1'" using 2(2) by (auto intro: same_rows_keeps)
  with k k2 have k02: "keeps view m m2" by (blast intro: keeps_trans)
  have le: "view e \<subseteq>\<^sub>m view (qm_ep_pair m')" using 3(2) f by (simp add: keeps_def epoch_grows_def)
  have "view (qm_ep_pair m') ?kp \<noteq> None" if "pair_known view m (ph_q_first_idx hit)"
    using map_le_present [OF le, of ?kp] mi(2) that by (simp add: pair_known_def)
  moreover have "view (qm_ep_pair m') (k_qr_pair (ph_q_first_idx x)) \<noteq> None"
    if "x \<in> set hits" "pair_known view m (ph_q_first_idx x)" for x
    using 3(1) that keeps_known [OF k02] by (simp add: worked_off_def)
  moreover have "(m(x := None)) |` (- A) = m |` (- insert x A)"
    for m :: "bytes \<Rightarrow> bytes option" and x A
    by (auto simp: restrict_map_def)
  ultimately show ?thesis
    using 3(1) f by (auto simp: worked_off_def)
qed

lemma consume_hits_worked_off:
  "qm_inv view m \<Longrightarrow> consume_hits L h r primary others hits (m, st) = Some (m', st') \<Longrightarrow>
   worked_off hits m m'"
proof (induction hits arbitrary: primary m st)
  case Nil
  then show ?case by (simp add: worked_off_def)
next
  case (Cons hit hits)
  from Cons.prems(2) obtain m1 b m2 st2 where
    1: "migrate_terminal L (ph_q_first_idx hit) (match_flip r primary others) m = Some (m1, b)" and
    2: "clear_hit L h hit m1 = Some m2" and
    3: "consume_hits L h r False others hits (m2, st2) = Some (m', st')"
    by (auto simp: Let_def elim!: bind_SomeE)
  have "keeps view m m2"
    using migrate_terminal_keeps [OF 1] clear_hit_keeps [OF 2] keeps_trans by fastforce
  then have "qm_inv view m2" using Cons.prems(1) by (simp add: keeps_def)
  from Cons.IH [OF this 3] consume_hits_keeps [OF 3] show ?case
    by (intro worked_off_cons [OF Cons.prems(1) 1 _ 2]) simp_all
qed

lemma abort_hits_worked_off:
  assumes "status \<noteq> Pending"
  shows "qm_inv view m \<Longrightarrow> abort_hits L h status ev hits m = Some m' \<Longrightarrow> worked_off hits m m'"
proof (induction hits arbitrary: m)
  case Nil
  then show ?case by (simp add: worked_off_def)
next
  case (Cons hit hits)
  let ?a = "\<lambda>m. m\<lparr>qm_anomalies := qm_anomalies m @ [ev (ph_q_first_idx hit)]\<rparr>"
  from Cons.prems(2) obtain m1 b m2 where
    1: "migrate_terminal L (ph_q_first_idx hit) (\<lambda>pair. pair\<lparr>qp_status := status_u8 status\<rparr>) m =
        Some (m1, b)" and
    2: "clear_hit L h hit (?a m1) = Some m2" and
    3: "abort_hits L h status ev hits m2 = Some m'"
    by (auto simp: Let_def elim!: bind_SomeE)
  have "keeps view m m1" by (rule migrate_terminal_keeps [OF 1]) (simp add: assms)
  also have "keeps view m1 (?a m1)" by (rule same_rows_keeps) simp
  also have "keeps view \<dots> m2" by (rule clear_hit_keeps [OF 2])
  finally have "qm_inv view m2" using Cons.prems(1) by (simp add: keeps_def)
  from Cons.IH [OF this 3] abort_hits_keeps [OF assms 3] show ?case
    by (intro worked_off_cons [OF Cons.prems(1) 1 _ 2]) (auto simp: assms)
qed

lemma consume_r_Some:
  assumes "consume_r L h st r ack m = Some (m', st')"
  obtains hits st1 where
    "scan_pending_upto L h (cs_incarnation st) (sat_add64 ack (ucast (qm_ack_tol m))) m = Some hits"
    "consume_hits L h r True (map ph_q_first_idx (tl hits)) hits (m, st) = Some (m', st1)"
    "st' = st1\<lparr>cs_consumed_ack_s := max ack (cs_consumed_ack_s st1)\<rparr>"
  using assms unfolding consume_r_def Let_def
  by (elim bind_SomeE) (auto simp: that)

text \<open>The requests that were worked off, in terms of the pending rows of a connection.\<close>

lemma worked_off_scan:
  assumes "scan_pending_upto L h inc limit m = Some hits" "qm_inv view m" "worked_off hits m m'"
  shows "a \<le> U48_MAX \<Longrightarrow> view (qm_pending m') (k_qr_pending h' inc' a) =
      (if h' = h \<and> inc' = inc \<and> a \<le> limit then None
       else view (qm_pending m) (k_qr_pending h' inc' a))"
    and "view (qm_pending m) (k_qr_pending h inc a) = Some (v_qr_pending_encode q ts n) \<Longrightarrow>
      a \<le> limit \<Longrightarrow> a \<le> U48_MAX \<Longrightarrow>
      view (qm_live_pair m') (k_qr_pair q) = None \<and> view (qm_ep_pair m') (k_qr_pair q) \<noteq> None"
proof -
  note hits = scan_pending_hits [OF assms(1,2)]
  show "view (qm_pending m') (k_qr_pending h' inc' a) =
      (if h' = h \<and> inc' = inc \<and> a \<le> limit then None
       else view (qm_pending m) (k_qr_pending h' inc' a))" if "a \<le> U48_MAX"
    using assms(3) hits(1) in_scan_key [OF that, of h inc limit h' inc']
    by (auto simp: worked_off_def restrict_map_def)
  assume p: "view (qm_pending m) (k_qr_pending h inc a) = Some (v_qr_pending_encode q ts n)"
    and a: "a \<le> limit" "a \<le> U48_MAX"
  then have "k_qr_pending h inc a \<in> ph_key ` set hits"
    using hits(1) in_scan_key [OF a(2), of h inc limit h inc] by auto
  then obtain hit where hit: "hit \<in> set hits" "ph_key hit = k_qr_pending h inc a" by auto
  from hits(2) [OF hit(1)] p hit(2) obtain n' where
    "v_qr_pending_encode q ts n = v_qr_pending_encode (ph_q_first_idx hit) (ph_q_ts hit) n'" by auto
  then have "q = ph_q_first_idx hit"
    by (metis Pair_inject option.inject pending_value_decode)
  then show "view (qm_live_pair m') (k_qr_pair q) = None \<and> view (qm_ep_pair m') (k_qr_pair q) \<noteq> None"
    using assms(3) hit(1) hits(3) [OF hit(1)] by (auto simp: worked_off_def restrict_map_def)
qed

lemma consume_r_exact:
  assumes "qm_inv view m" "consume_r L h st r ack m = Some (m', st')"
  defines "limit \<equiv> sat_add64 ack (ucast (qm_ack_tol m))"
  shows "a \<le> U48_MAX \<Longrightarrow> view (qm_pending m') (k_qr_pending h' inc' a) =
      (if h' = h \<and> inc' = cs_incarnation st \<and> a \<le> limit then None
       else view (qm_pending m) (k_qr_pending h' inc' a))"
    and "view (qm_pending m) (k_qr_pending h (cs_incarnation st) a) =
        Some (v_qr_pending_encode q ts n) \<Longrightarrow> a \<le> limit \<Longrightarrow> a \<le> U48_MAX \<Longrightarrow>
      view (qm_live_pair m') (k_qr_pair q) = None \<and> view (qm_ep_pair m') (k_qr_pair q) \<noteq> None"
proof -
  from assms(2) obtain hits st1 where
    h: "scan_pending_upto L h (cs_incarnation st) limit m = Some hits"
      "consume_hits L h r True (map ph_q_first_idx (tl hits)) hits (m, st) = Some (m', st1)"
    unfolding limit_def by (rule consume_r_Some)
  note w = worked_off_scan [OF h(1) assms(1) consume_hits_worked_off [OF assms(1) h(2)]]
  show "a \<le> U48_MAX \<Longrightarrow> view (qm_pending m') (k_qr_pending h' inc' a) =
      (if h' = h \<and> inc' = cs_incarnation st \<and> a \<le> limit then None
       else view (qm_pending m) (k_qr_pending h' inc' a))" by (rule w(1))
  show "view (qm_pending m) (k_qr_pending h (cs_incarnation st) a) =
        Some (v_qr_pending_encode q ts n) \<Longrightarrow> a \<le> limit \<Longrightarrow> a \<le> U48_MAX \<Longrightarrow>
      view (qm_live_pair m') (k_qr_pair q) = None \<and> view (qm_ep_pair m') (k_qr_pair q) \<noteq> None"
    by (rule w(2))
qed

lemma flip_epoch_clears:
  assumes "qm_inv view m" "conn_at h m = Some st" "flip_epoch L C h rec dir idx m = Some m'"
    "a \<le> U48_MAX"
  shows "view (qm_pending m') (k_qr_pending h (cs_incarnation st) a) = None"
    and "conn_at h m' = Some (reborn C rec dir idx st)"
proof -
  from assms(3) obtain st0 hits m1 st1 where
    1: "conn_at h m = Some st0"
      "scan_pending_upto L h (cs_incarnation st0) U48_MAX m = Some hits"
      "abort_hits L h Unmatched (gen_flip_event rec h (cs_incarnation st0)) hits m = Some m1"
      "conn_at h m1 = Some st1"
      "m' = (persist_state h (reborn C rec dir idx st1) m1)
        \<lparr>qm_anomalies := qm_anomalies m1 @ [rebirth_event C rec h (length hits)]\<rparr>"
    by (rule flip_epoch_Some)
  have "worked_off hits m m1" by (rule abort_hits_worked_off [OF _ assms(1) 1(3)]) simp
  from worked_off_scan(1) [OF 1(2) assms(1) this assms(4)] this assms(2) 1
  show "view (qm_pending m') (k_qr_pending h (cs_incarnation st) a) = None"
    and "conn_at h m' = Some (reborn C rec dir idx st)"
    using assms(4)
    by (auto simp: persist_state_def conn_at_def worked_off_def update_conv')
qed

lemma rst_cascade_clears:
  assumes "qm_inv view m" "rst_cascade L h st rec m = Some (m', st')" "a \<le> U48_MAX"
  shows "view (qm_pending m') (k_qr_pending h (cs_incarnation st) a) = None"
proof -
  from assms(2) obtain hits m1 where
    1: "scan_pending_upto L h (cs_incarnation st) U48_MAX m = Some hits"
      "abort_hits L h RstAbort (rst_abort_event rec h (cs_incarnation st)) hits m = Some m1"
      "qm_pending m' = qm_pending m1"
    by (auto simp: rst_cascade_def Let_def elim!: bind_SomeE)
  have "worked_off hits m m1" by (rule abort_hits_worked_off [OF _ assms(1) 1(2)]) simp
  from worked_off_scan(1) [OF 1(1) assms(1) this assms(3)] assms(3) 1(3) show ?thesis by simp
qed

end

end
