(* ===== verification/Qr_Total.thy ===== *)
theory Qr_Total
  imports Qr_Props
begin

text \<open>
  Without store errors no packet fails: every handler returns, for every packet, whenever keys are
  not extracted by the TLS parser (no registry configured).  The proof goes through the contract
  \<open>lmdb_total\<close> and the invariant, which bounds the keys that the handlers delete.
\<close>

lemma valid_keys [simp]:
  "valid_key (k_conn_state h)" "valid_key (k_qr_pair q)" "valid_key (k_qr_pending h i a)"
  "valid_key (k_conn_qr h t q)" "valid_key (k_qr_time t q)" "valid_key (k_packet_qr q)"
  "valid_key (k_pending_ttl t h)" "valid_key (k_record_ts t q)" "valid_key (k_qr_key kh t q)"
  by (simp_all add: valid_key_def k_qr_key_def)

context lmdb_total
begin

lemma get_Some: "valid_key k \<Longrightarrow> lm_get L d k = Some (view d k)"
  using get_total [of k d] get_view by fastforce

lemma put_new_Some: "valid_key k \<Longrightarrow> \<exists>d' b. put_no_overwrite L d k v = Some (d', b)"
  using put_no_overwrite_total [of k d v] by auto

lemma delete_Some: "valid_key k \<Longrightarrow> \<exists>d' b. lm_delete L d k = Some (d', b)"
  using delete_total [of k d] by auto

lemma migrate_terminal_total: "\<exists>m' b. migrate_terminal L q flip m = Some (m', b)"
proof -
  let ?k = "k_qr_pair q"
  obtain d b where d: "lm_delete L (qm_live_pair m) ?k = Some (d, b)" using delete_Some by fastforce
  have p: "\<exists>e b. put_no_overwrite L (qm_ep_pair m) ?k v = Some (e, b)" for v
    by (rule put_new_Some) simp
  show ?thesis
  proof (cases "Option.bind (view (qm_live_pair m) ?k) qr_pair_decode")
    case None
    then show ?thesis
      by (cases "view (qm_ep_pair m) ?k") (auto simp: migrate_terminal_def Let_def get_Some d)
  next
    case (Some pair)
    from p [of "qr_pair_encode (flip pair)"] obtain e c where
      "put_no_overwrite L (qm_ep_pair m) ?k (qr_pair_encode (flip pair)) = Some (e, c)" by blast
    with Some d show ?thesis
      by (cases "view (qm_ep_pair m) ?k"; cases "qp_status pair = 0")
        (auto simp: migrate_terminal_def Let_def get_Some)
  qed
qed

lemma clear_hit_total: "valid_key (ph_key hit) \<Longrightarrow> \<exists>m'. clear_hit L h hit m = Some m'"
proof -
  assume "valid_key (ph_key hit)"
  then obtain d b where "lm_delete L (qm_pending m) (ph_key hit) = Some (d, b)"
    using delete_Some by blast
  moreover obtain e c where
    "lm_delete L (qm_ttl m) (k_pending_ttl (ph_q_ts hit) h) = Some (e, c)"
    using delete_Some by fastforce
  ultimately show ?thesis by (simp add: clear_hit_def)
qed

lemma scan_total:
  assumes "qm_inv view m"
  shows "\<exists>hits. scan_pending_upto L h inc limit m = Some hits \<and>
    (\<forall>hit \<in> set hits. valid_key (ph_key hit))"
proof -
  obtain kvs where "lm_range L (qm_pending m) (k_qr_pending_prefix h inc)
      (k_qr_pending h inc (min limit U48_MAX)) = Some kvs"
    using range_total by fastforce
  then have s: "scan_pending_upto L h inc limit m = Some (List.map_filter hit_of kvs)"
    by (simp add: scan_pending_upto_def)
  have "length (ph_key hit) = 16" if "hit \<in> set (List.map_filter hit_of kvs)" for hit
    using scan_pending_hits(2) [OF s assms that] assms
    by (auto simp: qm_inv_def Let_def pending_ok_def)
  then show ?thesis using s by (auto simp: valid_key_def)
qed

lemma consume_hits_total:
  "\<forall>hit \<in> set hits. valid_key (ph_key hit) \<Longrightarrow>
   \<exists>m' st'. consume_hits L h r primary others hits (m, st) = Some (m', st')"
proof (induction hits arbitrary: primary m st)
  case (Cons hit hits)
  obtain m1 b where 1: "migrate_terminal L (ph_q_first_idx hit) (match_flip r primary others) m =
      Some (m1, b)" using migrate_terminal_total by blast
  moreover obtain m2 where "clear_hit L h hit m1 = Some m2"
    using clear_hit_total Cons.prems by fastforce
  ultimately show ?case using Cons by simp
qed simp

lemma abort_hits_total:
  "\<forall>hit \<in> set hits. valid_key (ph_key hit) \<Longrightarrow> \<exists>m'. abort_hits L h s ev hits m = Some m'"
proof (induction hits arbitrary: m)
  case (Cons hit hits)
  obtain m1 b where 1: "migrate_terminal L (ph_q_first_idx hit)
      (\<lambda>pair. pair\<lparr>qp_status := status_u8 s\<rparr>) m = Some (m1, b)" using migrate_terminal_total by blast
  moreover obtain m2 where
    "clear_hit L h hit (m1\<lparr>qm_anomalies := qm_anomalies m1 @ [ev (ph_q_first_idx hit)]\<rparr>) = Some m2"
    using clear_hit_total Cons.prems by fastforce
  ultimately show ?case using Cons by simp
qed simp

lemma consume_r_total:
  assumes "qm_inv view m"
  shows "\<exists>m' st'. consume_r L h st r ack m = Some (m', st')"
proof -
  obtain hits where "scan_pending_upto L h (cs_incarnation st)
      (sat_add64 ack (ucast (qm_ack_tol m))) m = Some hits" "\<forall>hit \<in> set hits. valid_key (ph_key hit)"
    using scan_total [OF assms] by blast
  moreover from this(2) obtain m' st' where
    "consume_hits L h r True (map ph_q_first_idx (tl hits)) hits (m, st) = Some (m', st')"
    using consume_hits_total by blast
  ultimately show ?thesis by (simp add: consume_r_def)
qed

lemma rst_cascade_total:
  assumes "qm_inv view m"
  shows "\<exists>m' st'. rst_cascade L h st rec m = Some (m', st')"
proof -
  obtain hits where "scan_pending_upto L h (cs_incarnation st) U48_MAX m = Some hits"
    "\<forall>hit \<in> set hits. valid_key (ph_key hit)" using scan_total [OF assms] by blast
  moreover from this(2) obtain m' where
    "abort_hits L h RstAbort (rst_abort_event rec h (cs_incarnation st)) hits m = Some m'"
    using abort_hits_total by blast
  ultimately show ?thesis by (simp add: rst_cascade_def)
qed

lemma flip_epoch_total:
  assumes "qm_inv view m" "conn_at h m = Some st"
  shows "\<exists>m' st'. flip_epoch L C h rec dir idx m = Some m' \<and> conn_at h m' = Some st'"
proof -
  obtain hits where s: "scan_pending_upto L h (cs_incarnation st) U48_MAX m = Some hits"
    "\<forall>hit \<in> set hits. valid_key (ph_key hit)" using scan_total [OF assms(1)] by blast
  from this(2) obtain m' where
    a: "abort_hits L h Unmatched (gen_flip_event rec h (cs_incarnation st)) hits m = Some m'"
    using abort_hits_total by blast
  have "worked_off hits m m'" by (rule abort_hits_worked_off [OF _ assms(1) a]) simp
  then have "conn_at h m' = Some st" using assms(2) by (simp add: worked_off_def conn_at_def)
  then show ?thesis
    using s a assms(2) by (simp add: flip_epoch_def Let_def conn_at_def persist_state_def update_conv')
qed

lemma load_conn_total: "\<exists>m' b. load_conn L h m = Some (m', b) \<and> (b \<longrightarrow> conn_at h m' \<noteq> None)"
  by (auto simp: load_conn_def get_Some conn_at_def persist_state_def update_conv'
      split: option.split)

lemma locate_total: "\<exists>m' h dir. locate L C rec dev m = Some (m', h, dir) \<and> conn_at h m' \<noteq> None"
proof -
  define h_f where "h_f = conn_hash dev (of_be32 (wr_src_ip rec)) (wr_src_port rec)
    (of_be32 (wr_dst_ip rec)) (wr_dst_port rec) (ucast (wr_proto rec))"
  define h_b where "h_b = conn_hash dev (of_be32 (wr_dst_ip rec)) (wr_dst_port rec)
    (of_be32 (wr_src_ip rec)) (wr_src_port rec) (ucast (wr_proto rec))"
  obtain m1 b1 where 1: "load_conn L h_f m = Some (m1, b1)" "b1 \<longrightarrow> conn_at h_f m1 \<noteq> None"
    using load_conn_total by blast
  obtain m2 b2 where 2: "load_conn L h_b m1 = Some (m2, b2)" "b2 \<longrightarrow> conn_at h_b m2 \<noteq> None"
    using load_conn_total by blast
  show ?thesis
    using 1 2 unfolding locate_def Let_def h_f_def [symmetric] h_b_def [symmetric]
    by (cases b1; cases b2) (simp_all add: conn_at_def persist_state_def update_conv')
qed

lemma open_rows_total: "\<exists>m'. open_rows L h inc q pair m = Some m'"
proof -
  have p: "put_no_overwrite L d k v \<noteq> None" if "valid_key k" for d k v
    using put_no_overwrite_total [OF that] .
  show ?thesis
    unfolding open_rows_def Let_def
    by (auto simp: p split: Option.bind_splits prod.splits)
qed

lemma open_q_total:
  assumes "qm_meta m = None"
  shows "\<exists>m' st'. open_q L h st r a b m = Some (m', st')"
proof -
  have "request_key h r st m = Some ((req_key_of (ir_rec r), 0), st, m)"
    using assms by (simp add: request_key_def Let_def)
  moreover obtain m' where "open_rows L h (cs_incarnation st) (ir_idx r)
      (pending_pair h r a b (req_key_of (ir_rec r)) 0) m = Some m'" using open_rows_total by blast
  ultimately show ?thesis by (simp add: open_q_def)
qed

lemma request_response_total:
  assumes "qm_inv view m" "qm_meta m = None"
  shows "\<exists>m' st'. request_response L h r dir a n s st m = Some (m', st')"
  using open_q_total [OF assms(2)] consume_r_total [OF assms(1)]
  by (auto simp: request_response_def Let_def split: dir.split)

end

text \<open>The registry is fixed for the batch.\<close>

lemma qm_meta_frame:
  "migrate_terminal L q flip m = Some (m', b) \<Longrightarrow> qm_meta m' = qm_meta m"
  "clear_hit L h hit m = Some m'' \<Longrightarrow> qm_meta m'' = qm_meta m"
  "load_conn L h m = Some (m', b) \<Longrightarrow> qm_meta m' = qm_meta m"
  "index_record L C r m = Some m'' \<Longrightarrow> qm_meta m'' = qm_meta m"
  "open_rows L h inc q' pair m = Some m'' \<Longrightarrow> qm_meta m'' = qm_meta m"
  by (auto simp: migrate_terminal_def clear_hit_def load_conn_def index_record_def open_rows_def
      persist_state_def Let_def elim!: bind_SomeE split: option.splits if_splits)

lemma qm_meta_abort: "abort_hits L h s ev hits m = Some m' \<Longrightarrow> qm_meta m' = qm_meta m"
proof (induction hits arbitrary: m)
  case (Cons hit hits)
  then show ?case by (auto simp: Let_def elim!: bind_SomeE dest!: qm_meta_frame Cons.IH)
qed simp

lemma qm_meta_consume:
  "consume_hits L h r p others hits (m, st) = Some (m', st') \<Longrightarrow> qm_meta m' = qm_meta m"
proof (induction hits arbitrary: p m st)
  case (Cons hit hits)
  then show ?case by (auto simp: Let_def elim!: bind_SomeE dest!: qm_meta_frame Cons.IH)
qed simp

lemma qm_meta_locate: "locate L C rec dev m = Some (m', hdir) \<Longrightarrow> qm_meta m' = qm_meta m"
  by (auto simp: locate_def Let_def persist_state_def elim!: bind_SomeE split: if_splits
      dest!: qm_meta_frame(3))

lemma qm_meta_enter: "enter_generation L C r h dir st m = Some (m', st') \<Longrightarrow> qm_meta m' = qm_meta m"
  by (auto simp: enter_generation_def flip_epoch_def Let_def persist_state_def elim!: bind_SomeE
      split: if_splits dest!: qm_meta_abort)

lemma qm_meta_rst: "ingest_rst L rec h st m = Some m' \<Longrightarrow> qm_meta m' = qm_meta m"
  by (auto simp: ingest_rst_def rst_cascade_def Let_def persist_state_def elim!: bind_SomeE
      dest!: qm_meta_abort)

lemma qm_meta_consume_r: "consume_r L h st r ack m = Some (m', st') \<Longrightarrow> qm_meta m' = qm_meta m"
  by (auto simp: consume_r_def Let_def elim!: bind_SomeE dest!: qm_meta_consume)

lemma qm_meta_open_q:
  "open_q L h st r a b m = Some (m', st') \<Longrightarrow> qm_meta m = None \<Longrightarrow> qm_meta m' = None"
  by (auto simp: open_q_def request_key_def Let_def elim!: bind_SomeE dest!: qm_meta_frame(5))

lemma qm_meta_data:
  "qm_meta m = None \<Longrightarrow> ingest_data L C r h dir st m = Some m' \<Longrightarrow> qm_meta m' = None"
  by (auto simp: ingest_data_def request_response_def Let_def persist_state_def elim!: bind_SomeE
      split: if_splits prod.splits dir.splits dest!: qm_meta_consume_r qm_meta_open_q)

context lmdb_total
begin

lemma enter_generation_total:
  assumes "qm_inv view m" "conn_at h m = Some st"
  shows "\<exists>m' st'. enter_generation L C r h dir st m = Some (m', st')"
  using flip_epoch_total [OF assms, of C "ir_rec r" dir "ir_idx r"]
  by (auto simp: enter_generation_def)

lemma ingest_tcp_total:
  assumes inv: "qm_inv view m" and meta: "qm_meta m = None"
  shows "\<exists>m'. ingest_tcp L C r m = Some m' \<and> qm_meta m' = None"
proof -
  obtain m1 h dir st where
    1: "locate L C (ir_rec r) (ir_dev_id r) m = Some (m1, h, dir)" "conn_at h m1 = Some st"
    using locate_total by blast
  have inv1: "qm_inv view m1"
    using same_rows_keeps [OF locate_keeps [OF 1(1)]] inv by (simp add: keeps_def)
  obtain m2 st2 where 2: "enter_generation L C r h dir st m1 = Some (m2, st2)"
    using enter_generation_total [OF inv1 1(2)] by blast
  have inv2: "qm_inv view m2" using enter_generation_keeps [OF 2] inv1 by (simp add: keeps_def)
  have meta2: "qm_meta m2 = None"
    using qm_meta_enter [OF 2] qm_meta_locate [OF 1(1)] meta by simp
  show ?thesis
  proof (cases "wr_tcp_flags (ir_rec r) AND wc_rst C = 0")
    case False
    obtain m3 st3 where "rst_cascade L h st2 (ir_rec r) m2 = Some (m3, st3)"
      using rst_cascade_total [OF inv2] by blast
    then have "\<exists>m'. ingest_rst L (ir_rec r) h st2 m2 = Some m'" by (simp add: ingest_rst_def Let_def)
    then show ?thesis
      using False 1 2 meta2 qm_meta_rst [of L "ir_rec r" h st2 m2]
      by (auto simp: ingest_tcp_def Let_def)
  next
    case True
    obtain a n c s where f: "feed_dir dir (ir_rec r) st2 = ((a, n), c, s)" by (metis surj_pair)
    from request_response_total [OF inv2 meta2] have "\<exists>m'. ingest_data L C r h dir st2 m2 = Some m'"
      by (auto simp: ingest_data_def f Let_def) (metis bind.bind_lunit case_prod_conv)
    then show ?thesis
      using True 1 2 qm_meta_data [OF meta2]
      by (auto simp: ingest_tcp_def Let_def)
  qed
qed

lemma ingest_total:
  assumes "qm_inv view m" "qm_meta m = None"
  shows "\<exists>m'. ingest L C r m = Some m' \<and> qm_meta m' = None \<and> qm_inv view m'"
proof -
  obtain d b where "put_no_overwrite L (qm_record_ts m)
      (k_record_ts (wr_timestamp_ns (ir_rec r)) (ir_idx r))
      (v_record_summary_encode (record_summary_of C (ir_rec r))) = Some (d, b)"
    using put_new_Some by fastforce
  then have 1: "index_record L C r m = Some (m\<lparr>qm_record_ts := d\<rparr>)" by (simp add: index_record_def)
  have inv: "qm_inv view (m\<lparr>qm_record_ts := d\<rparr>)"
    using index_record_keeps [OF 1] assms(1) by (simp add: keeps_def)
  have "qm_meta (m\<lparr>qm_record_ts := d\<rparr>) = None" using assms(2) by simp
  from ingest_tcp_total [OF inv this, of C r] 1 assms(2)
  have "\<exists>m'. ingest L C r m = Some m' \<and> qm_meta m' = None" by (auto simp: ingest_def)
  then show ?thesis using ingest_keeps assms(1) by (fastforce simp: keeps_def)
qed

lemma ingest_all_total:
  "qm_inv view m \<Longrightarrow> qm_meta m = None \<Longrightarrow> \<exists>m'. ingest_all L C rs m = Some m'"
proof (induction rs arbitrary: m)
  case (Cons r rs)
  from ingest_total [OF Cons.prems, of C r] obtain m1 where
    "ingest L C r m = Some m1" "qm_meta m1 = None" "qm_inv view m1" by blast
  with Cons.IH [of m1] show ?case by auto
qed simp

end

end
