(* ===== verification/Qr_Replay.thy ===== *)
theory Qr_Replay
  imports Qr_Total
begin

text \<open>
  Recovery after a crash between the two commits.  The epoch store then has the batch, the live
  store does not, and the batch is ingested again.  The proof is a forward simulation: \<open>m\<close> runs
  through the first, uninterrupted ingest, \<open>n\<close> through the replay, whose epoch databases already
  have all rows of the end state \<open>F\<close>.  The two runs agree on everything but \<open>cs_qr_open\<close>, the
  counter that the commit recomputes.
\<close>

section \<open>Connection states up to the counter of open requests\<close>

definition forget :: "conn_state \<Rightarrow> conn_state" where
  "forget st = st\<lparr>cs_qr_open := 0\<rparr>"

definition eqo :: "conn_state \<Rightarrow> conn_state \<Rightarrow> bool" where
  "eqo st st' \<longleftrightarrow> (\<exists>x. st' = st\<lparr>cs_qr_open := x\<rparr>)"

lemma eqo_refl [simp, intro]: "eqo st st"
  unfolding eqo_def by (rule exI [of _ "cs_qr_open st"]) simp

lemma eqo_iff_forget: "eqo st st' \<longleftrightarrow> forget st = forget st'"
proof
  assume "forget st = forget st'"
  then have "(forget st)\<lparr>cs_qr_open := cs_qr_open st'\<rparr> = (forget st')\<lparr>cs_qr_open := cs_qr_open st'\<rparr>"
    by simp
  then show "eqo st st'" unfolding eqo_def forget_def by (intro exI [of _ "cs_qr_open st'"]) simp
qed (auto simp: eqo_def forget_def)

text \<open>To show that two updates agree: field by field.\<close>

lemma eqoI: "forget st = forget st' \<Longrightarrow> eqo st st'"
  by (simp add: eqo_iff_forget)

lemma eqo_update:
  "(\<And>x. forget (f (st\<lparr>cs_qr_open := x\<rparr>)) = forget (f st)) \<Longrightarrow> eqo st st' \<Longrightarrow> eqo (f st) (f st')"
  by (auto simp: eqo_def [of st st'] intro!: eqoI)

lemma eqo_set [intro]: "eqo st st' \<Longrightarrow> eqo (st\<lparr>cs_qr_open := x\<rparr>) (st'\<lparr>cs_qr_open := y\<rparr>)"
  by (auto simp: eqo_def)

abbreviation conns_eq :: "(u64 \<times> conn_state) list \<Rightarrow> (u64 \<times> conn_state) list \<Rightarrow> bool" where
  "conns_eq cs cs' \<equiv> map (apsnd forget) cs = map (apsnd forget) cs'"

lemma map_update_apsnd:
  "map (apsnd f) (AList.update k v al) = AList.update k (f v) (map (apsnd f) al)"
  by (induction al) auto

lemma conns_eq_update: "conns_eq cs cs' \<Longrightarrow> eqo st st' \<Longrightarrow>
   conns_eq (AList.update h st cs) (AList.update h st' cs')"
  by (simp add: map_update_apsnd eqo_iff_forget)

lemma map_of_apsnd: "map_of (map (apsnd f) al) k = map_option f (map_of al k)"
  by (induction al) auto

lemma conns_eq_at: "conns_eq cs cs' \<Longrightarrow> map_option forget (map_of cs h) = map_option forget (map_of cs' h)"
  by (metis map_of_apsnd)

lemma conns_eq_keys: "conns_eq cs cs' \<Longrightarrow> map fst cs = map fst cs'"
  by (metis (no_types, lifting) map_map fst_comp_apsnd)

section \<open>The simulation\<close>

definition live_eq :: "('d \<Rightarrow> contents) \<Rightarrow> ('d, 'z) dual_db_scheme \<Rightarrow> ('d, 'y) dual_db_scheme \<Rightarrow> bool" where
  "live_eq view m n \<longleftrightarrow> view (qm_conn_state n) = view (qm_conn_state m)
     \<and> view (qm_live_pair n) = view (qm_live_pair m)
     \<and> view (qm_pending n) = view (qm_pending m) \<and> view (qm_ttl n) = view (qm_ttl m)"

definition epoch_eq :: "('d \<Rightarrow> contents) \<Rightarrow> ('d, 'z) dual_db_scheme \<Rightarrow> ('d, 'y) dual_db_scheme \<Rightarrow> bool" where
  "epoch_eq view m n \<longleftrightarrow> view (qm_ep_pair n) = view (qm_ep_pair m)
     \<and> view (qm_conn_qr n) = view (qm_conn_qr m) \<and> view (qm_qr_key n) = view (qm_qr_key m)
     \<and> view (qm_qr_time n) = view (qm_qr_time m) \<and> view (qm_packet_qr n) = view (qm_packet_qr m)
     \<and> view (qm_record_ts n) = view (qm_record_ts m)"

definition sim :: "('d \<Rightarrow> contents) \<Rightarrow> ('d, 'z) dual_db_scheme \<Rightarrow> 'd qr_matcher \<Rightarrow> 'd qr_matcher \<Rightarrow> bool" where
  "sim view F m n \<longleftrightarrow> live_eq view m n \<and> epoch_eq view F n
     \<and> qm_ack_tol n = qm_ack_tol m \<and> conns_eq (qm_conns m) (qm_conns n)
     \<and> qm_anomalies n = qm_anomalies m \<and> qm_meta n = qm_meta m \<and> qm_ext_meta n = qm_ext_meta m
     \<and> qm_conn_archives n = qm_conn_archives m"

lemmas sim_defs = sim_def live_eq_def epoch_eq_def

lemma sim_persist:
  "sim view F m n \<Longrightarrow> eqo st st' \<Longrightarrow> sim view F (persist_state h st m) (persist_state h st' n)"
  using conns_eq_update [of "qm_conns m" "qm_conns n" st st' h]
  by (simp add: sim_defs persist_state_def)

lemma sim_conn_at:
  assumes "sim view F m n" "conn_at h m = Some st"
  obtains st' where "conn_at h n = Some st'" "eqo st st'"
  using assms conns_eq_at [of "qm_conns m" "qm_conns n" h] that
  by (cases "map_of (qm_conns n) h") (auto simp: sim_def conn_at_def eqo_iff_forget)

lemma sim_conn_none: "sim view F m n \<Longrightarrow> conn_at h m = None \<Longrightarrow> conn_at h n = None"
  using conns_eq_at [of "qm_conns m" "qm_conns n" h] by (simp add: sim_def conn_at_def)

lemma sim_anomaly:
  "sim view F m n \<Longrightarrow> sim view F (m\<lparr>qm_anomalies := qm_anomalies m @ a\<rparr>)
     (n\<lparr>qm_anomalies := qm_anomalies n @ a\<rparr>)"
  by (simp add: sim_defs)

text \<open>A sorted list is determined by its entries, hence a scan by the contents.\<close>

lemma bt_sorted_unique: "bt_sorted xs \<Longrightarrow> bt_sorted ys \<Longrightarrow> set xs = set ys \<Longrightarrow> xs = ys"
proof -
  assume a: "bt_sorted xs" "bt_sorted ys" "set xs = set ys"
  then have "inj_on fst (set xs \<union> set ys)"
    using bt_sorted_distinct [of xs] by (simp add: distinct_map)
  moreover have "sorted (map fst zs) \<and> distinct (map fst zs)" if "bt_sorted zs" for zs
    using that bt_sorted_distinct [of zs] by (simp add: strict_sorted_iff)
  ultimately show "xs = ys" using a map_sorted_distinct_set_unique [of fst xs ys] by blast
qed

text \<open>The form of the handlers' simulations; \<open>keeps\<close> gives that the epoch rows of a handler are
  in the end state.\<close>

definition in_final :: "('d \<Rightarrow> contents) \<Rightarrow> ('d, 'z) dual_db_scheme \<Rightarrow> 'd qr_matcher \<Rightarrow> bool" where
  "in_final view F m \<longleftrightarrow> epoch_grows view m F"

lemma in_final_pairs: "in_final view F m \<Longrightarrow> view (qm_ep_pair m) \<subseteq>\<^sub>m view (qm_ep_pair F)"
  by (simp add: in_final_def epoch_grows_def)

lemma in_final_before: "keeps view m m' \<Longrightarrow> in_final view F m' \<Longrightarrow> in_final view F m"
  unfolding in_final_def keeps_def epoch_grows_def using map_le_trans by blast

lemma in_final_same: "same_rows m m' \<Longrightarrow> in_final view F m' \<Longrightarrow> in_final view F m"
  by (rule in_final_before [OF same_rows_keeps])

text \<open>What a crash between the two commits of a batch leaves.\<close>

definition epoch_only ::
  "'d lmdb \<Rightarrow> wal_consts \<Rightarrow> 'd dual_db \<Rightarrow> indexed_record list \<Rightarrow> u32 \<Rightarrow> meta_registry option \<Rightarrow>
     'd dual_db option" where
  "epoch_only L C db records ack_tol meta =
     do {
       m \<leftarrow> ingest_all L C records (begin_with_meta db ack_tol meta);
       m \<leftarrow> writeback_conns L m;
       Some (commit_epoch m db)
     }"

section \<open>Store operations\<close>

context lmdb_total
begin

lemma get_same: "view d = view d' \<Longrightarrow> valid_key k \<Longrightarrow> lm_get L d k = Some r \<Longrightarrow> lm_get L d' k = Some r"
  by (simp add: get_Some)

lemma range_same:
  assumes "view d = view d'" "lm_range L d lo hi = Some kvs"
  shows "lm_range L d' lo hi = Some kvs"
proof -
  obtain kvs' where 1: "lm_range L d' lo hi = Some kvs'" using range_total by fastforce
  note s = range_view [OF assms(2)] and s' = range_view [OF 1]
  have "(k, v) \<in> set kvs' \<longleftrightarrow> (k, v) \<in> set kvs" for k v
    using s s' assms(1) by (simp add: scan_of_def)
  then have "set kvs' = set kvs" by auto
  then have "kvs' = kvs" using s s' bt_sorted_unique [of kvs' kvs] by (simp add: scan_of_def)
  with 1 show ?thesis by simp
qed

lemma put_new_same:
  assumes "view d = view e" "valid_key k" "put_no_overwrite L d k v = Some (d', b)"
  obtains e' where "put_no_overwrite L e k v = Some (e', b)" "view e' = view d'"
proof -
  obtain e' b' where 1: "put_no_overwrite L e k v = Some (e', b')" using put_new_Some [OF assms(2)] by blast
  with put_no_overwrite_view [OF 1] put_no_overwrite_view [OF assms(3)] assms(1) show thesis
    by (intro that [of e']) auto
qed

lemma put_new_present:
  assumes "valid_key k" "view e k \<noteq> None"
  obtains e' where "put_no_overwrite L e k v = Some (e', False)" "view e' = view e"
proof -
  obtain e' b' where 1: "put_no_overwrite L e k v = Some (e', b')" using put_new_Some [OF assms(1)] by blast
  with put_no_overwrite_view [OF 1] assms(2) show thesis
    by (intro that [of e']) (auto simp: upd_new_def split: option.splits)
qed

lemma delete_same:
  assumes "view d = view e" "valid_key k" "lm_delete L d k = Some (d', b)"
  obtains e' b' where "lm_delete L e k = Some (e', b')" "view e' = view d'"
proof -
  obtain e' b' where 1: "lm_delete L e k = Some (e', b')" using delete_Some [OF assms(2)] by blast
  with delete_view [OF 1] delete_view [OF assms(3)] assms(1) show thesis
    by (intro that [of e' b']) auto
qed

lemma scan_same:
  assumes "sim view F m n" "scan_pending_upto L h inc limit m = Some hits"
  shows "scan_pending_upto L h inc limit n = Some hits"
  using assms range_same [of "qm_pending m" "qm_pending n"]
  by (auto simp: scan_pending_upto_def sim_defs elim!: bind_SomeE)

lemma count_same:
  assumes "sim view F m n" "count_live_pending L h m = Some c"
  shows "count_live_pending L h n = Some c"
  using assms range_same [of "qm_pending m" "qm_pending n"]
  by (auto simp: count_live_pending_def sim_defs elim!: bind_SomeE)

section \<open>Migrations\<close>

text \<open>In the replay the pair is final already: it only leaves the live store.\<close>

lemma migrate_sim:
  assumes s: "sim view F m n" and inv: "qm_inv view m"
    and 1: "migrate_terminal L q flip m = Some (m', b)" "pair_known view m q"
    and F: "view (qm_ep_pair m') \<subseteq>\<^sub>m view (qm_ep_pair F)"
  obtains n' b' where "migrate_terminal L q flip n = Some (n', b')" "sim view F m' n'"
proof -
  let ?k = "k_qr_pair q"
  from 1(1) obtain d e where m': "m' = m\<lparr>qm_live_pair := d, qm_ep_pair := e\<rparr>"
    "migrated view q flip m d e b" by (rule migrate_terminal_Some)
  note mi = migrated_inv [OF m'(2) inv]
  have "view e ?k \<noteq> None" using mi(2) 1(2) by (simp add: pair_known_def)
  then have "view (qm_ep_pair n) ?k \<noteq> None"
    using map_le_present [OF F, of ?k] m'(1) s by (simp add: sim_defs)
  moreover obtain dn bn where dn: "lm_delete L (qm_live_pair n) ?k = Some (dn, bn)"
    using delete_Some by fastforce
  ultimately have "migrate_terminal L q flip n = Some (n\<lparr>qm_live_pair := dn\<rparr>, False)"
    by (auto simp: migrate_terminal_def Let_def get_Some)
  moreover have "sim view F m' (n\<lparr>qm_live_pair := dn\<rparr>)"
    using delete_view [OF dn] mi(1) s m'(1) by (simp add: sim_defs)
  ultimately show thesis by (rule that)
qed

lemma clear_hit_sim:
  assumes s: "sim view F m n" and 1: "clear_hit L h hit m = Some m'" "valid_key (ph_key hit)"
  obtains n' where "clear_hit L h hit n = Some n'" "sim view F m' n'"
proof -
  from 1(1) obtain d b e c where
    d: "lm_delete L (qm_pending m) (ph_key hit) = Some (d, b)" and
    e: "lm_delete L (qm_ttl m) (k_pending_ttl (ph_q_ts hit) h) = Some (e, c)" and
    m': "m' = m\<lparr>qm_pending := d, qm_ttl := e\<rparr>"
    by (auto simp: clear_hit_def Let_def elim!: bind_SomeE)
  have v: "view (qm_pending m) = view (qm_pending n)" "view (qm_ttl m) = view (qm_ttl n)"
    using s by (simp_all add: sim_defs)
  obtain d' b' where d': "lm_delete L (qm_pending n) (ph_key hit) = Some (d', b')" "view d' = view d"
    by (rule delete_same [OF v(1) 1(2) d])
  obtain e' c' where e': "lm_delete L (qm_ttl n) (k_pending_ttl (ph_q_ts hit) h) = Some (e', c')"
    "view e' = view e"
    by (rule delete_same [OF v(2) valid_keys(7) e])
  have "clear_hit L h hit n = Some (n\<lparr>qm_pending := d', qm_ttl := e'\<rparr>)"
    using d'(1) e'(1) by (simp add: clear_hit_def)
  then show thesis
    using s m' d'(2) e'(2) by (intro that) (auto simp: sim_defs)
qed

lemma consume_hits_sim:
  assumes "sim view F m n" "qm_inv view m" "eqo st st'"
    "\<forall>hit \<in> set hits. valid_key (ph_key hit) \<and> pair_known view m (ph_q_first_idx hit)"
    "consume_hits L h r primary others hits (m, st) = Some (m1, st1)"
    "view (qm_ep_pair m1) \<subseteq>\<^sub>m view (qm_ep_pair F)"
  shows "\<exists>n1 st1'. consume_hits L h r primary others hits (n, st') = Some (n1, st1') \<and>
    sim view F m1 n1 \<and> eqo st1 st1'"
  using assms
proof (induction hits arbitrary: primary m n st st')
  case (Cons hit hits)
  let ?f = "match_flip r primary others"
  from Cons.prems(5) obtain ma b mb sta where
    1: "migrate_terminal L (ph_q_first_idx hit) ?f m = Some (ma, b)" and
    2: "clear_hit L h hit ma = Some mb" and
    3: "consume_hits L h r False others hits (mb, sta) = Some (m1, st1)" and
    sta: "sta = (if b then st\<lparr>cs_qr_open := sat_sub64 (cs_qr_open st) 1\<rparr> else st)"
    by (auto simp: Let_def elim!: bind_SomeE)
  have k: "keeps view m mb" "keeps view ma m1"
    using migrate_terminal_keeps [OF 1] clear_hit_keeps [OF 2] consume_hits_keeps [OF 3] keeps_trans
    by (fastforce, blast)
  then have le: "view (qm_ep_pair ma) \<subseteq>\<^sub>m view (qm_ep_pair F)"
    using map_le_trans [OF _ Cons.prems(6)] by (simp add: keeps_def epoch_grows_def)
  have hit: "valid_key (ph_key hit)" "pair_known view m (ph_q_first_idx hit)"
    using Cons.prems(4) by simp_all
  obtain na bn where n1: "migrate_terminal L (ph_q_first_idx hit) ?f n = Some (na, bn)"
    "sim view F ma na" by (rule migrate_sim [OF Cons.prems(1,2) 1 hit(2) le])
  obtain nb where n2: "clear_hit L h hit na = Some nb" "sim view F mb nb"
    by (rule clear_hit_sim [OF n1(2) 2 hit(1)])
  define stn where "stn = (if bn then st'\<lparr>cs_qr_open := sat_sub64 (cs_qr_open st') 1\<rparr> else st')"
  have "eqo sta stn" using Cons.prems(3) by (auto simp: sta stn_def eqo_iff_forget forget_def)
  moreover have "qm_inv view mb" using k Cons.prems(2) by (simp add: keeps_def)
  ultimately show ?case
    using Cons.IH [OF n2(2) _ _ _ 3 Cons.prems(6)] Cons.prems(4) keeps_known [OF k(1)] n1(1) n2(1)
    by (simp add: stn_def)
qed auto

lemma abort_hits_sim:
  assumes "sim view F m n" "qm_inv view m" "s \<noteq> Pending"
    "\<forall>hit \<in> set hits. valid_key (ph_key hit) \<and> pair_known view m (ph_q_first_idx hit)"
    "abort_hits L h s ev hits m = Some m1"
    "view (qm_ep_pair m1) \<subseteq>\<^sub>m view (qm_ep_pair F)"
  shows "\<exists>n1. abort_hits L h s ev hits n = Some n1 \<and> sim view F m1 n1"
  using assms
proof (induction hits arbitrary: m n)
  case (Cons hit hits)
  let ?f = "\<lambda>pair. pair\<lparr>qp_status := status_u8 s\<rparr>"
  let ?a = "\<lambda>m. m\<lparr>qm_anomalies := qm_anomalies m @ [ev (ph_q_first_idx hit)]\<rparr>"
  from Cons.prems(5) obtain ma b mb where
    1: "migrate_terminal L (ph_q_first_idx hit) ?f m = Some (ma, b)" and
    2: "clear_hit L h hit (?a ma) = Some mb" and
    3: "abort_hits L h s ev hits mb = Some m1"
    by (auto simp: Let_def elim!: bind_SomeE)
  have k: "keeps view m ma" by (rule migrate_terminal_keeps [OF 1]) (simp add: Cons.prems(3))
  have k2: "keeps view ma mb"
    by (rule keeps_trans [OF same_rows_keeps clear_hit_keeps [OF 2]]) simp
  note k3 = abort_hits_keeps [OF Cons.prems(3) 3]
  have le: "view (qm_ep_pair ma) \<subseteq>\<^sub>m view (qm_ep_pair F)"
    using map_le_trans [OF _ Cons.prems(6)] keeps_trans [OF k2 k3]
    by (simp add: keeps_def epoch_grows_def)
  have hit: "valid_key (ph_key hit)" "pair_known view m (ph_q_first_idx hit)"
    using Cons.prems(4) by simp_all
  obtain na bn where n1: "migrate_terminal L (ph_q_first_idx hit) ?f n = Some (na, bn)"
    "sim view F ma na" by (rule migrate_sim [OF Cons.prems(1,2) 1 hit(2) le])
  obtain nb where n2: "clear_hit L h hit (?a na) = Some nb" "sim view F mb nb"
    by (rule clear_hit_sim [OF sim_anomaly [OF n1(2)] 2 hit(1)])
  have "qm_inv view mb" using keeps_trans [OF k k2] Cons.prems(2) by (simp add: keeps_def)
  then show ?case
    using Cons.IH [OF n2(2) _ Cons.prems(3) _ 3 Cons.prems(6)] Cons.prems(4)
      keeps_known [OF keeps_trans [OF k k2]] n1(1) n2(1)
    by (simp add: Let_def)
qed auto

lemma scan_valid:
  assumes "scan_pending_upto L h inc limit m = Some hits" "qm_inv view m"
  shows "\<forall>hit \<in> set hits. valid_key (ph_key hit) \<and> pair_known view m (ph_q_first_idx hit)"
proof -
  have "valid_key (ph_key hit)" if "hit \<in> set hits" for hit
    using scan_total [OF assms(2), of h inc limit] assms(1) that by fastforce
  then show ?thesis using scan_pending_hits(3) [OF assms] by blast
qed

lemma consume_r_sim:
  assumes s: "sim view F m n" "qm_inv view m" "eqo st st'"
    and 1: "consume_r L h st r ack m = Some (m1, st1)" "in_final view F m1"
  shows "\<exists>n1 st1'. consume_r L h st' r ack n = Some (n1, st1') \<and> sim view F m1 n1 \<and> eqo st1 st1'"
proof -
  have inc: "cs_incarnation st' = cs_incarnation st" "qm_ack_tol n = qm_ack_tol m"
    using s by (auto simp: eqo_def sim_def)
  from 1(1) obtain hits sta where
    h: "scan_pending_upto L h (cs_incarnation st) (sat_add64 ack (ucast (qm_ack_tol m))) m = Some hits"
      "consume_hits L h r True (map ph_q_first_idx (tl hits)) hits (m, st) = Some (m1, sta)"
      "st1 = sta\<lparr>cs_consumed_ack_s := max ack (cs_consumed_ack_s sta)\<rparr>"
    by (rule consume_r_Some)
  obtain n1 stn where n1: "consume_hits L h r True (map ph_q_first_idx (tl hits)) hits (n, st') =
      Some (n1, stn)" "sim view F m1 n1" "eqo sta stn"
    using consume_hits_sim [OF s scan_valid [OF h(1) s(2)] h(2) in_final_pairs [OF 1(2)]] by blast
  have "consume_r L h st' r ack n =
      Some (n1, stn\<lparr>cs_consumed_ack_s := max ack (cs_consumed_ack_s stn)\<rparr>)"
    using n1(1) scan_same [OF s(1) h(1)] by (simp add: consume_r_def inc)
  moreover have "eqo st1 (stn\<lparr>cs_consumed_ack_s := max ack (cs_consumed_ack_s stn)\<rparr>)"
    unfolding h(3) by (rule eqo_update [OF _ n1(3)]) (simp add: forget_def conn_state.equality)
  ultimately show ?thesis using n1(2) by blast
qed

lemma rst_cascade_sim:
  assumes s: "sim view F m n" "qm_inv view m" "eqo st st'"
    and 1: "rst_cascade L h st rec m = Some (m1, st1)" "in_final view F m1"
  shows "\<exists>n1 st1'. rst_cascade L h st' rec n = Some (n1, st1') \<and> sim view F m1 n1 \<and> eqo st1 st1'"
proof -
  have inc: "cs_incarnation st' = cs_incarnation st" using s by (auto simp: eqo_def)
  from 1(1) obtain hits ma where
    h: "scan_pending_upto L h (cs_incarnation st) U48_MAX m = Some hits" and
    a: "abort_hits L h RstAbort (rst_abort_event rec h (cs_incarnation st)) hits m = Some ma" and
    m1: "m1 = ma\<lparr>qm_anomalies := qm_anomalies ma @ [rst_event rec h (length hits)]\<rparr>"
      "st1 = st\<lparr>cs_qr_open := sat_sub64 (cs_qr_open st) (of_nat (length hits))\<rparr>"
    by (auto simp: rst_cascade_def Let_def elim!: bind_SomeE)
  have "view (qm_ep_pair ma) \<subseteq>\<^sub>m view (qm_ep_pair F)"
    using in_final_pairs [OF 1(2)] m1 by simp
  from abort_hits_sim [OF s(1,2) _ scan_valid [OF h s(2)] a this] obtain na where
    na: "abort_hits L h RstAbort (rst_abort_event rec h (cs_incarnation st)) hits n = Some na"
      "sim view F ma na" by auto
  show ?thesis
    using na scan_same [OF s(1) h] sim_anomaly [OF na(2)] s(3)
    by (auto simp: rst_cascade_def inc m1)
qed

lemma flip_epoch_sim:
  assumes s: "sim view F m n" "qm_inv view m"
    and 1: "flip_epoch L C h rec dir idx m = Some m1" "in_final view F m1"
  shows "\<exists>n1. flip_epoch L C h rec dir idx n = Some n1 \<and> sim view F m1 n1"
proof -
  from 1(1) obtain st hits ma sta where
    a: "conn_at h m = Some st"
      "scan_pending_upto L h (cs_incarnation st) U48_MAX m = Some hits"
      "abort_hits L h Unmatched (gen_flip_event rec h (cs_incarnation st)) hits m = Some ma"
      "conn_at h ma = Some sta"
      "m1 = (persist_state h (reborn C rec dir idx sta) ma)
        \<lparr>qm_anomalies := qm_anomalies ma @ [rebirth_event C rec h (length hits)]\<rparr>"
    by (rule flip_epoch_Some)
  obtain st' where st': "conn_at h n = Some st'" "eqo st st'" using sim_conn_at [OF s(1) a(1)] .
  then have inc: "cs_incarnation st' = cs_incarnation st" by (auto simp: eqo_def)
  have "view (qm_ep_pair ma) \<subseteq>\<^sub>m view (qm_ep_pair F)"
    using in_final_pairs [OF 1(2)] a(5) by (simp add: persist_state_def)
  from abort_hits_sim [OF s _ scan_valid [OF a(2) s(2)] a(3) this] obtain na where
    na: "abort_hits L h Unmatched (gen_flip_event rec h (cs_incarnation st)) hits n = Some na"
      "sim view F ma na" by auto
  obtain stn where stn: "conn_at h na = Some stn" "eqo sta stn" using sim_conn_at [OF na(2) a(4)] .
  have "eqo (reborn C rec dir idx sta) (reborn C rec dir idx stn)"
    by (rule eqo_update [OF _ stn(2)])
      (simp add: reborn_def forget_def Let_def set_active_c_def set_active_s_def conn_state.equality
        split: dir.split)
  note s2 = sim_anomaly [OF sim_persist [OF na(2) this]]
  show ?thesis
    using st' stn(1) na(1) scan_same [OF s(1) a(2)] s2
    by (simp add: flip_epoch_def Let_def inc a(5) persist_state_def)
qed

section \<open>Opening a request\<close>

text \<open>Fields other than the counter agree; these are the ones the handlers read.\<close>

lemma request_key_sim:
  assumes "sim view F m n" "eqo st st'" "request_key h r st m = Some (kp, st1, m1)"
  shows "\<exists>n1 st1'. request_key h r st' n = Some (kp, st1', n1) \<and> sim view F m1 n1 \<and> eqo st1 st1'"
proof -
  from assms(2) obtain x where st': "st' = st\<lparr>cs_qr_open := x\<rparr>" by (auto simp: eqo_def)
  have q: "qm_meta n = qm_meta m" using assms(1) by (simp add: sim_def)
  show ?thesis
  proof (cases "qm_meta m")
    case None
    with assms q show ?thesis by (auto simp: request_key_def Let_def)
  next
    case (Some mr)
    show ?thesis
    proof (cases "sint (cs_meta_bind_id st) < 0")
      case False
      then show ?thesis
        using assms q Some by (auto simp: request_key_def Let_def st' elim!: bind_SomeE)
    next
      case True
      let ?set = "\<lambda>i p (st :: conn_state). st\<lparr>cs_meta_bind_id := i, cs_protocol_hint := p\<rparr>"
      have "eqo (?set i p st) (?set i p st')" for i p
        by (rule eqo_update [OF _ assms(2)]) (simp add: forget_def conn_state.equality)
      with True assms q Some show ?thesis
        by (auto simp: request_key_def Let_def sim_defs st' elim!: bind_SomeE split: if_splits)
    qed
  qed
qed

lemma open_rows_sim:
  assumes s: "sim view F m n" and 1: "open_rows L h inc q pair m = Some m1" "in_final view F m1"
  shows "\<exists>n1. open_rows L h inc q pair n = Some n1 \<and> sim view F m1 n1"
proof -
  obtain d1 b1 d2 b2 d3 b3 d4 b4 d5 b5 d6 b6 d7 b7 where
    1: "put_no_overwrite L (qm_live_pair m) (k_qr_pair q) (qr_pair_encode pair) = Some (d1, b1)" and
    2: "put_no_overwrite L (qm_pending m) (k_qr_pending h inc (qp_abs_q_end pair))
      (v_qr_pending_encode q (qp_q_ts pair) (qp_q_len pair)) = Some (d2, b2)" and
    3: "put_no_overwrite L (qm_ttl m) (k_pending_ttl (qp_q_ts pair) h)
      (v_pending_ttl_encode q (qp_abs_q_end pair)) = Some (d3, b3)" and
    4: "put_no_overwrite L (qm_packet_qr m) (k_packet_qr q) (be64 q) = Some (d4, b4)" and
    5: "put_no_overwrite L (qm_conn_qr m) (k_conn_qr h (qp_q_ts pair) q) (be64 q) = Some (d5, b5)" and
    6: "put_no_overwrite L (qm_qr_key m) (k_qr_key (fnv1a64 (qp_req_key pair)) (qp_q_ts pair) q)
      (be64 q) = Some (d6, b6)" and
    7: "put_no_overwrite L (qm_qr_time m) (k_qr_time (qp_q_ts pair) q) (be64 q) = Some (d7, b7)" and
    m1: "m1 = m\<lparr>qm_live_pair := d1, qm_pending := d2, qm_ttl := d3, qm_packet_qr := d4,
      qm_conn_qr := d5, qm_qr_key := d6, qm_qr_time := d7\<rparr>"
    using 1(1) by (auto simp: open_rows_def Let_def v_secondary_encode_def elim!: bind_SomeE)
  have v: "view (qm_live_pair m) = view (qm_live_pair n)" "view (qm_pending m) = view (qm_pending n)"
    "view (qm_ttl m) = view (qm_ttl n)" using s by (simp_all add: sim_defs)
  have le: "view d4 \<subseteq>\<^sub>m view (qm_packet_qr n)" "view d5 \<subseteq>\<^sub>m view (qm_conn_qr n)"
    "view d6 \<subseteq>\<^sub>m view (qm_qr_key n)" "view d7 \<subseteq>\<^sub>m view (qm_qr_time n)"
    using assms(3) s by (simp_all add: in_final_def epoch_grows_def sim_defs m1)
  have p: "view e k \<noteq> None" if "view d' \<subseteq>\<^sub>m view e" "put_no_overwrite L d k v = Some (d', b)"
    for d d' e k v b
    using that(1) put_no_overwrite_present [OF that(2)] by (rule map_le_present)
  obtain e1 where e1: "put_no_overwrite L (qm_live_pair n) (k_qr_pair q) (qr_pair_encode pair) =
    Some (e1, b1)" "view e1 = view d1" by (rule put_new_same [OF v(1) valid_keys(2) 1])
  obtain e2 where e2: "put_no_overwrite L (qm_pending n) (k_qr_pending h inc (qp_abs_q_end pair))
      (v_qr_pending_encode q (qp_q_ts pair) (qp_q_len pair)) = Some (e2, b2)" "view e2 = view d2"
    by (rule put_new_same [OF v(2) valid_keys(3) 2])
  obtain e3 where e3: "put_no_overwrite L (qm_ttl n) (k_pending_ttl (qp_q_ts pair) h)
      (v_pending_ttl_encode q (qp_abs_q_end pair)) = Some (e3, b3)" "view e3 = view d3"
    by (rule put_new_same [OF v(3) valid_keys(7) 3])
  obtain e4 where e4: "put_no_overwrite L (qm_packet_qr n) (k_packet_qr q) (be64 q) = Some (e4, False)"
    "view e4 = view (qm_packet_qr n)" by (rule put_new_present [OF valid_keys(6) p [OF le(1) 4]])
  obtain e5 where e5: "put_no_overwrite L (qm_conn_qr n) (k_conn_qr h (qp_q_ts pair) q) (be64 q) =
    Some (e5, False)" "view e5 = view (qm_conn_qr n)"
    by (rule put_new_present [OF valid_keys(4) p [OF le(2) 5]])
  obtain e6 where e6: "put_no_overwrite L (qm_qr_key n)
      (k_qr_key (fnv1a64 (qp_req_key pair)) (qp_q_ts pair) q) (be64 q) = Some (e6, False)"
    "view e6 = view (qm_qr_key n)" by (rule put_new_present [OF valid_keys(9) p [OF le(3) 6]])
  obtain e7 where e7: "put_no_overwrite L (qm_qr_time n) (k_qr_time (qp_q_ts pair) q) (be64 q) =
    Some (e7, False)" "view e7 = view (qm_qr_time n)"
    by (rule put_new_present [OF valid_keys(5) p [OF le(4) 7]])
  show ?thesis
    using s e1 e2 e3 e4 e5 e6 e7
    by (simp add: open_rows_def Let_def v_secondary_encode_def sim_defs m1)
qed

lemma open_q_sim:
  assumes s: "sim view F m n" "eqo st st'"
    and 1: "open_q L h st r a b m = Some (m1, st1)" "in_final view F m1"
  shows "\<exists>n1 st1'. open_q L h st' r a b n = Some (n1, st1') \<and> sim view F m1 n1 \<and> eqo st1 st1'"
proof -
  from 1(1) obtain key pseudo sta ma where
    k: "request_key h r st m = Some ((key, pseudo), sta, ma)" and
    rows: "open_rows L h (cs_incarnation sta) (ir_idx r) (pending_pair h r a b key pseudo) ma = Some m1" and
    st1: "st1 = sta\<lparr>cs_req_cnt := cs_req_cnt sta + 1, cs_qr_open := cs_qr_open sta + 1\<rparr>"
    by (auto simp: open_q_def elim!: bind_SomeE)
  obtain na stn where n: "request_key h r st' n = Some ((key, pseudo), stn, na)"
    "sim view F ma na" "eqo sta stn" using request_key_sim [OF s k] by blast
  obtain n1 where n1: "open_rows L h (cs_incarnation sta) (ir_idx r)
      (pending_pair h r a b key pseudo) na = Some n1" "sim view F m1 n1"
    using open_rows_sim [OF n(2) rows 1(2)] by blast
  let ?f = "\<lambda>st :: conn_state. st\<lparr>cs_req_cnt := cs_req_cnt st + 1, cs_qr_open := cs_qr_open st + 1\<rparr>"
  have "eqo (?f sta) (?f stn)"
    by (rule eqo_update [OF _ n(3)]) (simp add: forget_def conn_state.equality)
  moreover have "cs_incarnation stn = cs_incarnation sta" using n(3) by (auto simp: eqo_def)
  ultimately show ?thesis using n n1 st1 by (simp add: open_q_def)
qed

section \<open>One packet\<close>

lemma load_conn_sim:
  assumes s: "sim view F m n" and 1: "load_conn L h m = Some (m1, b)"
  shows "\<exists>n1. load_conn L h n = Some (n1, b) \<and> sim view F m1 n1"
proof (cases "conn_at h m")
  case None
  then have "conn_at h n = None" by (rule sim_conn_none [OF s])
  moreover have "view (qm_conn_state n) = view (qm_conn_state m)" using s by (simp add: sim_defs)
  ultimately show ?thesis
    using 1 None s sim_persist [OF s eqo_refl]
    by (auto simp: load_conn_def get_Some split: option.splits)
next
  case (Some st)
  then obtain st' where "conn_at h n = Some st'" using sim_conn_at [OF s] by blast
  with Some 1 s show ?thesis by (simp add: load_conn_def)
qed

lemma locate_sim:
  assumes s: "sim view F m n" and 1: "locate L C rec dev m = Some (m1, h, dir)"
  shows "\<exists>n1. locate L C rec dev n = Some (n1, h, dir) \<and> sim view F m1 n1"
proof -
  define h_f where "h_f = conn_hash dev (of_be32 (wr_src_ip rec)) (wr_src_port rec)
    (of_be32 (wr_dst_ip rec)) (wr_dst_port rec) (ucast (wr_proto rec))"
  define h_b where "h_b = conn_hash dev (of_be32 (wr_dst_ip rec)) (wr_dst_port rec)
    (of_be32 (wr_src_ip rec)) (wr_src_port rec) (ucast (wr_proto rec))"
  note defs = locate_def Let_def h_f_def [symmetric] h_b_def [symmetric]
  from 1 obtain ma b where a: "load_conn L h_f m = Some (ma, b)"
    unfolding defs by (auto elim!: bind_SomeE)
  obtain na where na: "load_conn L h_f n = Some (na, b)" "sim view F ma na"
    using load_conn_sim [OF s a] by blast
  show ?thesis
  proof (cases b)
    case True
    then show ?thesis using 1 a na unfolding defs by simp
  next
    case False
    from 1 a False obtain mb b' where b: "load_conn L h_b ma = Some (mb, b')"
      unfolding defs by (auto elim!: bind_SomeE)
    obtain nb where nb: "load_conn L h_b na = Some (nb, b')" "sim view F mb nb"
      using load_conn_sim [OF na(2) b] by blast
    show ?thesis
      using 1 a na b nb False sim_persist [OF nb(2) eqo_refl] unfolding defs by (cases b') auto
  qed
qed

lemma index_record_sim:
  assumes s: "sim view F m n" and 1: "index_record L C r m = Some m1" "in_final view F m1"
  shows "\<exists>n1. index_record L C r n = Some n1 \<and> sim view F m1 n1"
proof -
  let ?k = "k_record_ts (wr_timestamp_ns (ir_rec r)) (ir_idx r)"
  have "view (qm_record_ts m1) ?k \<noteq> None" using index_record_keeps [OF 1(1)] by blast
  then have "view (qm_record_ts n) ?k \<noteq> None"
    using map_le_present [of "view (qm_record_ts m1)" "view (qm_record_ts F)" ?k] 1(2) s
    by (simp add: in_final_def epoch_grows_def sim_defs)
  from put_new_present [OF valid_keys(8) this] obtain e where
    "put_no_overwrite L (qm_record_ts n) ?k
      (v_record_summary_encode (record_summary_of C (ir_rec r))) = Some (e, False)"
    "view e = view (qm_record_ts n)" .
  moreover from 1(1) obtain d where "m1 = m\<lparr>qm_record_ts := d\<rparr>"
    by (auto simp: index_record_def elim!: bind_SomeE)
  ultimately show ?thesis using s by (simp add: index_record_def sim_defs)
qed

lemma enter_generation_sim:
  assumes s: "sim view F m n" "qm_inv view m" "eqo st st'"
    and 1: "enter_generation L C r h dir st m = Some (m1, st1)" "in_final view F m1"
  shows "\<exists>n1 st1'. enter_generation L C r h dir st' n = Some (n1, st1') \<and> sim view F m1 n1 \<and> eqo st1 st1'"
proof -
  from s(3) obtain x where st': "st' = st\<lparr>cs_qr_open := x\<rparr>" by (auto simp: eqo_def)
  have e: "epoch_triggered C r dir st' = epoch_triggered C r dir st"
    by (simp add: epoch_triggered_def seq_from_state_def active_c_def active_s_def Let_def st')
  show ?thesis
  proof (cases "epoch_triggered C r dir st")
    case False
    have "eqo (note_jump C (ir_rec r) dir st) (note_jump C (ir_rec r) dir st')"
      by (rule eqo_update [OF _ s(3)])
        (auto simp: note_jump_def forget_def seq_from_state_def active_c_def active_s_def Let_def
          intro!: conn_state.equality)
    with False 1 s(1) e show ?thesis by (auto simp: enter_generation_def)
  next
    case True
    with 1(1) have f: "flip_epoch L C h (ir_rec r) dir (ir_idx r) m = Some m1" "conn_at h m1 = Some st1"
      by (auto simp: enter_generation_def elim!: bind_SomeE)
    obtain n1 where n1: "flip_epoch L C h (ir_rec r) dir (ir_idx r) n = Some n1" "sim view F m1 n1"
      using flip_epoch_sim [OF s(1,2) f(1) 1(2)] by blast
    obtain stn where "conn_at h n1 = Some stn" "eqo st1 stn" using sim_conn_at [OF n1(2) f(2)] .
    with n1 True e show ?thesis by (auto simp: enter_generation_def)
  qed
qed

lemma ingest_rst_sim:
  assumes s: "sim view F m n" "qm_inv view m" "eqo st st'"
    and 1: "ingest_rst L rec h st m = Some m1" "in_final view F m1"
  shows "\<exists>n1. ingest_rst L rec h st' n = Some n1 \<and> sim view F m1 n1"
proof -
  let ?f = "\<lambda>st. st\<lparr>cs_state := kind_u8 Reset, cs_rst_seen := wr_timestamp_ns rec,
    cs_anomaly_flags := cs_anomaly_flags st OR ANOM_RESET\<rparr>"
  from 1(1) obtain ma sta where
    a: "rst_cascade L h st rec m = Some (ma, sta)" and m1: "m1 = persist_state h (?f sta) ma"
    by (auto simp: ingest_rst_def Let_def elim!: bind_SomeE)
  have "in_final view F ma" using in_final_same [OF same_rows_persist] 1(2) m1 by simp
  from rst_cascade_sim [OF s a this] obtain na stn where
    na: "rst_cascade L h st' rec n = Some (na, stn)" "sim view F ma na" "eqo sta stn" by blast
  have "eqo (?f sta) (?f stn)"
    by (rule eqo_update [OF _ na(3)]) (simp add: forget_def conn_state.equality)
  then show ?thesis using na sim_persist [OF na(2)] m1 by (simp add: ingest_rst_def Let_def)
qed

text \<open>The handlers of a data packet, as functions of the state, do not touch the counter.\<close>

lemma forget_save_streams:
  "forget (save_streams c s (st\<lparr>cs_qr_open := x\<rparr>)) = forget (save_streams c s st)"
  by (simp add: save_streams_def set_active_c_def set_active_s_def forget_def conn_state.equality)

lemma forget_retrans: "forget (retrans (st\<lparr>cs_qr_open := x\<rparr>)) = forget (retrans st)"
  by (simp add: retrans_def forget_def conn_state.equality)

lemma forget_count_packet:
  "forget (count_packet rec dir (st\<lparr>cs_qr_open := x\<rparr>)) = forget (count_packet rec dir st)"
  by (cases dir) (simp_all add: count_packet_def forget_def Let_def conn_state.equality)

lemma forget_advance_state:
  "forget (advance_state C r dir (st\<lparr>cs_qr_open := x\<rparr>)) = forget (advance_state C r dir st)"
  by (cases dir; cases "wr_tcp_flags (ir_rec r) AND wc_syn C = 0";
      cases "wr_tcp_flags (ir_rec r) AND wc_fin C = 0";
      simp add: advance_state_def forget_def Let_def conn_state.equality)

lemma eqo_counted:
  "eqo st st' \<Longrightarrow> eqo (count_packet rec dir (advance_state C r dir st))
     (count_packet rec dir (advance_state C r dir st'))"
  by (rule eqo_update [OF forget_count_packet eqo_update [OF forget_advance_state]])

lemma feed_dir_forget: "feed_dir dir rec (st\<lparr>cs_qr_open := x\<rparr>) = feed_dir dir rec st"
  by (simp add: feed_dir_def seq_from_state_def active_c_def active_s_def)

lemma request_response_sim:
  assumes s: "sim view F m n" "qm_inv view m" "eqo st st'"
    and 1: "request_response L h r dir a k sc st m = Some (m1, st1)" "in_final view F m1"
  shows "\<exists>n1 st1'. request_response L h r dir a k sc st' n = Some (n1, st1') \<and>
    sim view F m1 n1 \<and> eqo st1 st1'"
proof (cases dir)
  case C2S
  have c: "cs_consumed_ack_s st' = cs_consumed_ack_s st" using s(3) by (auto simp: eqo_def)
  have r: "eqo (retrans st) (retrans st')" by (rule eqo_update [OF forget_retrans s(3)])
  show ?thesis
  proof (cases "0 < wr_orig_payload_len (ir_rec r) \<and> 0 < k \<and>
      cs_consumed_ack_s st < sat_add64 a (ucast k)")
    case True
    then show ?thesis
      using 1 C2S c open_q_sim [OF s(1,3)] by (auto simp: request_response_def Let_def)
  next
    case False
    then have "m1 = m \<and> (st1 = retrans st \<and> request_response L h r dir a k sc st' n =
        Some (n, retrans st') \<or> st1 = st \<and> request_response L h r dir a k sc st' n = Some (n, st'))"
      using 1(1) C2S c by (auto simp: request_response_def Let_def split: if_splits)
    then show ?thesis using s r by blast
  qed
next
  case S2C
  let ?f = "\<lambda>st :: conn_state. if 0 < k then st\<lparr>cs_resp_cnt := cs_resp_cnt st + 1\<rparr> else st"
  have f: "eqo (?f st) (?f st')"
    by (rule eqo_update [OF _ s(3)]) (simp add: forget_def conn_state.equality)
  have c: "cs_consumed_ack_s (?f st') = cs_consumed_ack_s (?f st)"
    using s(3) by (auto simp: eqo_def)
  let ?ack = "abs_of sc (wr_tcp_ack (ir_rec r))"
  show ?thesis
  proof (cases "cs_consumed_ack_s (?f st) < ?ack \<and>
      ?ack \<le> sat_add64 (ss_last_abs sc) ACK_LEAD_CAP")
    case True
    with 1(1) S2C have "consume_r L h (?f st) r ?ack m = Some (m1, st1)"
      by (simp add: request_response_def Let_def)
    from consume_r_sim [OF s(1,2) f this 1(2)] True c S2C show ?thesis
      unfolding request_response_def Let_def by simp
  next
    case False
    with 1(1) S2C have "m1 = m" "st1 = ?f st"
      unfolding request_response_def Let_def by (simp_all split: if_splits)
    moreover have "request_response L h r dir a k sc st' n = Some (n, ?f st')"
      using False c S2C unfolding request_response_def Let_def by (auto split: if_splits)
    ultimately show ?thesis using s(1) f by blast
  qed
qed

lemma ingest_data_sim:
  assumes s: "sim view F m n" "qm_inv view m" "eqo st st'"
    and 1: "ingest_data L C r h dir st m = Some m1" "in_final view F m1"
  shows "\<exists>n1. ingest_data L C r h dir st' n = Some n1 \<and> sim view F m1 n1"
proof -
  obtain a k sc ss where f: "feed_dir dir (ir_rec r) st = ((a, k), sc, ss)" by (metis surj_pair)
  have f': "feed_dir dir (ir_rec r) st' = ((a, k), sc, ss)"
    using s(3) f by (auto simp: eqo_def feed_dir_forget)
  let ?g = "\<lambda>st. count_packet (ir_rec r) dir (advance_state C r dir st)"
  from 1(1) obtain ma sta where
    a: "request_response L h r dir a k sc (?g st) m = Some (ma, sta)" and
    m1: "m1 = persist_state h (save_streams sc ss sta) ma"
    by (auto simp: ingest_data_def f Let_def elim!: bind_SomeE)
  have "in_final view F ma" using in_final_same [OF same_rows_persist] 1(2) m1 by simp
  from request_response_sim [OF s(1,2) eqo_counted [OF s(3)] a this] obtain na stn where
    na: "request_response L h r dir a k sc (?g st') n = Some (na, stn)" "sim view F ma na"
      "eqo sta stn" by blast
  have saved: "eqo (save_streams sc ss sta) (save_streams sc ss stn)"
    by (rule eqo_update [OF forget_save_streams na(3)])
  show ?thesis
    using na sim_persist [OF na(2) saved] m1
    by (simp add: ingest_data_def f' Let_def)
qed

lemma ingest_tcp_sim:
  assumes s: "sim view F m n" "qm_inv view m"
    and 1: "ingest_tcp L C r m = Some m1" "in_final view F m1"
  shows "\<exists>n1. ingest_tcp L C r n = Some n1 \<and> sim view F m1 n1"
proof -
  let ?rst = "wr_tcp_flags (ir_rec r) AND wc_rst C \<noteq> 0"
  from 1(1) obtain ma h dir sta mb stb where
    a: "locate L C (ir_rec r) (ir_dev_id r) m = Some (ma, h, dir)" "conn_at h ma = Some sta" and
    b: "enter_generation L C r h dir sta ma = Some (mb, stb)" and
    c: "if ?rst then ingest_rst L (ir_rec r) h stb mb = Some m1
        else ingest_data L C r h dir stb mb = Some m1"
    by (auto simp: ingest_tcp_def Let_def elim!: bind_SomeE split: if_splits)
  have k: "keeps view mb m1"
    using c ingest_rst_keeps ingest_data_keeps by (simp split: if_splits)
  have inv: "qm_inv view ma" "qm_inv view mb"
    using s(2) same_rows_keeps [OF locate_keeps [OF a(1)]] enter_generation_keeps [OF b]
    by (simp_all add: keeps_def)
  note fb = in_final_before [OF k 1(2)]
  obtain na where na: "locate L C (ir_rec r) (ir_dev_id r) n = Some (na, h, dir)" "sim view F ma na"
    using locate_sim [OF s(1) a(1)] by blast
  obtain stn where stn: "conn_at h na = Some stn" "eqo sta stn" using sim_conn_at [OF na(2) a(2)] .
  obtain nb stm where nb: "enter_generation L C r h dir stn na = Some (nb, stm)" "sim view F mb nb"
    "eqo stb stm" using enter_generation_sim [OF na(2) inv(1) stn(2) b fb] by blast
  show ?thesis
  proof (cases ?rst)
    case True
    with c have "ingest_rst L (ir_rec r) h stb mb = Some m1" by simp
    from ingest_rst_sim [OF nb(2) inv(2) nb(3) this 1(2)] True na stn nb show ?thesis
      by (auto simp: ingest_tcp_def)
  next
    case False
    with c have "ingest_data L C r h dir stb mb = Some m1" by simp
    from ingest_data_sim [OF nb(2) inv(2) nb(3) this 1(2)] False na stn nb show ?thesis
      by (auto simp: ingest_tcp_def)
  qed
qed

lemma ingest_sim:
  assumes s: "sim view F m n" "qm_inv view m"
    and 1: "ingest L C r m = Some m1" "in_final view F m1"
  shows "\<exists>n1. ingest L C r n = Some n1 \<and> sim view F m1 n1"
proof -
  from 1(1) obtain ma where a: "index_record L C r m = Some ma" and
    b: "if wr_proto (ir_rec r) \<noteq> 6 then m1 = ma else ingest_tcp L C r ma = Some m1"
    by (auto simp: ingest_def elim!: bind_SomeE split: if_splits)
  have "keeps view ma m1" using b ingest_tcp_keeps by (auto split: if_splits)
  note fa = in_final_before [OF this 1(2)]
  have inv: "qm_inv view ma" using index_record_keeps [OF a] s(2) by (simp add: keeps_def)
  obtain na where na: "index_record L C r n = Some na" "sim view F ma na"
    using index_record_sim [OF s(1) a fa] by blast
  show ?thesis
  proof (cases "wr_proto (ir_rec r) = 6")
    case True
    with b have "ingest_tcp L C r ma = Some m1" by simp
    from ingest_tcp_sim [OF na(2) inv this 1(2)] na True show ?thesis by (auto simp: ingest_def)
  next
    case False
    with b na show ?thesis by (auto simp: ingest_def)
  qed
qed

lemma ingest_all_sim:
  "sim view F m n \<Longrightarrow> qm_inv view m \<Longrightarrow> ingest_all L C rs m = Some m1 \<Longrightarrow> in_final view F m1 \<Longrightarrow>
   \<exists>n1. ingest_all L C rs n = Some n1 \<and> sim view F m1 n1"
proof (induction rs arbitrary: m n)
  case (Cons r rs)
  from Cons.prems(3) obtain ma where a: "ingest L C r m = Some ma" "ingest_all L C rs ma = Some m1"
    by (auto elim!: bind_SomeE)
  note fa = in_final_before [OF ingest_all_keeps [OF a(2)] Cons.prems(4)]
  obtain na where na: "ingest L C r n = Some na" "sim view F ma na"
    using ingest_sim [OF Cons.prems(1,2) a(1) fa] by blast
  have "qm_inv view ma" using ingest_keeps [OF a(1)] Cons.prems(2) by (simp add: keeps_def)
  from Cons.IH [OF na(2) this a(2) Cons.prems(4)] na show ?case by auto
qed auto

section \<open>Commit\<close>

lemma put_same:
  assumes "view d = view e" "valid_key k" "lm_put L d k v = Some d'"
  obtains e' where "lm_put L e k v = Some e'" "view e' = view d'"
proof -
  obtain e' where 1: "lm_put L e k v = Some e'" using put_total [OF assms(2)] by blast
  with put_view [OF 1] put_view [OF assms(3)] assms(1) show thesis by (intro that [of e']) auto
qed

lemma writeback_one_sim:
  assumes s: "sim view F m n" and 1: "writeback_one L h m = Some m1"
  shows "\<exists>n1. writeback_one L h n = Some n1 \<and> sim view F m1 n1"
proof -
  from 1 obtain st c d where a: "conn_at h m = Some st" "count_live_pending L h m = Some c"
    "lm_put L (qm_conn_state m) (k_conn_state h) (conn_state_to_bytes (st\<lparr>cs_qr_open := c\<rparr>)) = Some d"
    "m1 = archive_conn h (st\<lparr>cs_qr_open := c\<rparr>) (m\<lparr>qm_conn_state := d\<rparr>)"
    by (auto simp: writeback_one_def Let_def elim!: bind_SomeE)
  obtain st' where st': "conn_at h n = Some st'" "eqo st st'" using sim_conn_at [OF s a(1)] .
  have same: "st'\<lparr>cs_qr_open := c\<rparr> = st\<lparr>cs_qr_open := c\<rparr>" using st'(2) by (auto simp: eqo_def)
  have f: "cs_state st' = cs_state st" "cs_first_ts st' = cs_first_ts st" "cs_last_ts st' = cs_last_ts st"
    using st'(2) by (auto simp: eqo_def)
  have v: "view (qm_conn_state m) = view (qm_conn_state n)" using s by (simp add: sim_defs)
  obtain e where e: "lm_put L (qm_conn_state n) (k_conn_state h)
      (conn_state_to_bytes (st\<lparr>cs_qr_open := c\<rparr>)) = Some e" "view e = view d"
    by (rule put_same [OF v valid_keys(1) a(3)])
  show ?thesis
    using s e st'(1) count_same [OF s a(2)]
    by (simp add: writeback_one_def Let_def same f a(4) archive_conn_def sim_defs)
qed

lemma writeback_sim:
  "sim view F m n \<Longrightarrow> writeback L hs m = Some m1 \<Longrightarrow>
   \<exists>n1. writeback L hs n = Some n1 \<and> sim view F m1 n1"
proof (induction hs arbitrary: m n)
  case (Cons h hs)
  from Cons.prems(2) obtain ma where a: "writeback_one L h m = Some ma" "writeback L hs ma = Some m1"
    by (auto elim!: bind_SomeE)
  from writeback_one_sim [OF Cons.prems(1) a(1)] obtain na where
    "writeback_one L h n = Some na" "sim view F ma na" by blast
  with Cons.IH [OF _ a(2)] show ?case by auto
qed auto

text \<open>The replay from the state that a crash after the epoch commit leaves.\<close>

lemma replay_converges:
  assumes inv: "qm_inv view db" and run: "stage_lmdb_with_meta L C db records tol meta = Some (db', out)"
    and crash: "epoch_only L C db records tol meta = Some db_c"
  shows "\<exists>db''. stage_lmdb_with_meta L C db_c records tol meta = Some (db'', out) \<and>
    live_eq view db' db'' \<and> epoch_eq view db' db''"
proof -
  let ?m0 = "begin_with_meta db tol meta" and ?n0 = "begin_with_meta db_c tol meta"
  from crash obtain m1 m2 where
    m1: "ingest_all L C records ?m0 = Some m1" and m2: "writeback_conns L m1 = Some m2" and
    db_c: "db_c = commit_epoch m2 db"
    by (auto simp: epoch_only_def elim!: bind_SomeE)
  have run': "db' = commit_live m2 (commit_epoch m2 db)"
    "out = (qm_anomalies m2, qm_ext_meta m1, qm_conn_archives m2)"
    using run m1 m2 by (auto simp: stage_lmdb_with_meta_def qr_commit_def Let_def)
  have same: "same_rows m1 m2" using m2 by (simp add: writeback_conns_def writeback_same_rows)
  have "sim view m2 ?m0 ?n0"
    by (simp add: sim_defs begin_with_meta_def dual_db.extend_def db_c commit_epoch_def
        qr_matcher.fields_def)
  moreover have "qm_inv view ?m0"
    using inv by (simp add: qm_inv_def begin_with_meta_def dual_db.extend_def)
  moreover have "in_final view m2 m1"
    using same_rows_keeps [OF same, of view] by (simp add: in_final_def keeps_def)
  ultimately obtain n1 where n1: "ingest_all L C records ?n0 = Some n1" "sim view m2 m1 n1"
    using ingest_all_sim [OF _ _ m1] by blast
  have "map fst (qm_conns n1) = map fst (qm_conns m1)"
    using n1(2) conns_eq_keys by (metis sim_def)
  with writeback_sim [OF n1(2)] m2 obtain n2 where
    n2: "writeback_conns L n1 = Some n2" "sim view m2 m2 n2"
    unfolding writeback_conns_def by metis
  have "qm_ext_meta n1 = qm_ext_meta m1" using n1(2) by (simp add: sim_def)
  with n1 n2 show ?thesis
    by (simp add: stage_lmdb_with_meta_def qr_commit_def Let_def run' sim_defs commit_live_def
        commit_epoch_def)
qed

end

end
