(* ===== verification/Qr_Claims.thy ===== *)
theory Qr_Claims
  imports Qr_Replay
begin

text \<open>
  The properties of the request/response matcher.  Each is stated over any key-value store that
  meets the contract (\<open>lmdb_store\<close>, \<open>lmdb_total\<close>), and its witness runs it on the reference store
  \<open>ref_lmdb\<close>, from an empty pair of stores.
\<close>

section \<open>What becomes of the pairs\<close>

text \<open>A final row of the epoch store comes from the live row and one of the given status changes.\<close>

definition finalised ::
  "('d \<Rightarrow> contents) \<Rightarrow> (qr_pair_value \<Rightarrow> qr_pair_value) set \<Rightarrow>
     ('d, 'z) dual_db_scheme \<Rightarrow> ('d, 'z) dual_db_scheme \<Rightarrow> u64 \<Rightarrow> bool"
  where
  "finalised view fs m m' q \<longleftrightarrow>
     (view (qm_ep_pair m) (k_qr_pair q) = None \<longrightarrow>
       (\<exists>v p f. view (qm_live_pair m) (k_qr_pair q) = Some v \<and> qr_pair_decode v = Some p \<and> f \<in> fs
          \<and> view (qm_ep_pair m') (k_qr_pair q) = Some (qr_pair_encode (f p))))"

lemma pending_value_inj: "v_qr_pending_encode q ts n = v_qr_pending_encode q' ts' n' \<Longrightarrow> q = q'"
  by (metis Pair_inject option.inject pending_value_decode)

lemma k_qr_pair_inj [simp]: "k_qr_pair q = k_qr_pair q' \<longleftrightarrow> q = q'"
  by (simp add: k_qr_pair_def)

context lmdb_store
begin

text \<open>The first hit of a list is migrated, the others follow from the intermediate state \<open>m2\<close>, whose
  rows differ from those of \<open>m\<close> by the first migration only.\<close>

lemma finalised_cons:
  assumes inv: "qm_inv view m" and known: "\<forall>x \<in> set (hit # hits). pair_known view m (ph_q_first_idx x)"
    and 1: "migrate_terminal L (ph_q_first_idx hit) flip m = Some (m1, b)" "flip \<in> fs"
    and 2: "qm_live_pair m2 = qm_live_pair m1" "qm_ep_pair m2 = qm_ep_pair m1"
    and 3: "\<forall>x \<in> set hits. finalised view fs m2 m' (ph_q_first_idx x)"
      "view (qm_ep_pair m2) \<subseteq>\<^sub>m view (qm_ep_pair m')"
  shows "\<forall>x \<in> set (hit # hits). finalised view fs m m' (ph_q_first_idx x)"
proof -
  let ?q = "ph_q_first_idx hit"
  from 1(1) obtain d e where
    m1: "m1 = m\<lparr>qm_live_pair := d, qm_ep_pair := e\<rparr>" "migrated view ?q flip m d e b"
    by (rule migrate_terminal_Some)
  note mi = migrated_inv [OF m1(2) inv]
  have le: "view e \<subseteq>\<^sub>m view (qm_ep_pair m')" using 3(2) 2 m1(1) by simp
  have first: "finalised view fs m m' ?q"
  proof (unfold finalised_def, intro impI)
    assume n: "view (qm_ep_pair m) (k_qr_pair ?q) = None"
    moreover have "b" using n known mi(3) by (simp add: pair_known_def known_def)
    ultimately obtain v p where p: "view (qm_live_pair m) (k_qr_pair ?q) = Some v"
      "qr_pair_decode v = Some p" "view e (k_qr_pair ?q) = Some (qr_pair_encode (flip p))"
      using m1(2) by (auto simp: migrated_def Let_def)
    moreover have "view (qm_ep_pair m') (k_qr_pair ?q) = Some (qr_pair_encode (flip p))"
      using le p(3) by (metis domI map_le_def)
    ultimately show "\<exists>v p f. view (qm_live_pair m) (k_qr_pair ?q) = Some v \<and>
        qr_pair_decode v = Some p \<and> f \<in> fs \<and>
        view (qm_ep_pair m') (k_qr_pair ?q) = Some (qr_pair_encode (f p))"
      using 1(2) by blast
  qed
  have rest: "finalised view fs m m' (ph_q_first_idx x)" if "x \<in> set hits" "ph_q_first_idx x \<noteq> ?q" for x
  proof -
    have "view (qm_live_pair m2) (k_qr_pair (ph_q_first_idx x)) =
        view (qm_live_pair m) (k_qr_pair (ph_q_first_idx x))"
      using mi(1) 2(1) m1(1) that(2) by simp
    moreover have "view (qm_ep_pair m2) (k_qr_pair (ph_q_first_idx x)) =
        view (qm_ep_pair m) (k_qr_pair (ph_q_first_idx x))"
      using m1 2(2) that(2) by (auto simp: migrated_def Let_def)
    moreover have "finalised view fs m2 m' (ph_q_first_idx x)" using 3(1) that(1) by blast
    ultimately show ?thesis by (simp add: finalised_def)
  qed
  then show ?thesis using first by (metis set_ConsD)
qed

lemma consume_hits_finalised:
  "qm_inv view m \<Longrightarrow> \<forall>x \<in> set hits. pair_known view m (ph_q_first_idx x) \<Longrightarrow>
   consume_hits L h r primary others hits (m, st) = Some (m', st') \<Longrightarrow>
   \<forall>x \<in> set hits. finalised view {match_flip r pr others | pr. True} m m' (ph_q_first_idx x)"
proof (induction hits arbitrary: primary m st)
  case (Cons hit hits)
  from Cons.prems(3) obtain m1 b m2 st2 where
    1: "migrate_terminal L (ph_q_first_idx hit) (match_flip r primary others) m = Some (m1, b)" and
    2: "clear_hit L h hit m1 = Some m2" and
    3: "consume_hits L h r False others hits (m2, st2) = Some (m', st')"
    by (auto simp: Let_def elim!: bind_SomeE)
  have k: "keeps view m m2"
    using migrate_terminal_keeps [OF 1] clear_hit_keeps [OF 2] keeps_trans by fastforce
  then have "qm_inv view m2" using Cons.prems(1) by (simp add: keeps_def)
  moreover have "\<forall>x \<in> set hits. pair_known view m2 (ph_q_first_idx x)"
    using Cons.prems(2) keeps_known [OF k] by simp
  ultimately have "\<forall>x \<in> set hits. finalised view {match_flip r pr others | pr. True} m2 m' (ph_q_first_idx x)"
    using Cons.IH 3 by blast
  moreover have "qm_live_pair m2 = qm_live_pair m1" "qm_ep_pair m2 = qm_ep_pair m1"
    using 2 by (auto simp: clear_hit_def Let_def elim!: bind_SomeE)
  moreover have "view (qm_ep_pair m2) \<subseteq>\<^sub>m view (qm_ep_pair m')"
    using consume_hits_keeps [OF 3] by (simp add: keeps_def epoch_grows_def)
  ultimately show ?case
    using finalised_cons [OF Cons.prems(1,2) 1, of "{match_flip r pr others | pr. True}" m2 m'] by blast
qed simp

lemma abort_hits_finalised:
  assumes "s \<noteq> Pending"
  shows "qm_inv view m \<Longrightarrow> \<forall>x \<in> set hits. pair_known view m (ph_q_first_idx x) \<Longrightarrow>
   abort_hits L h s ev hits m = Some m' \<Longrightarrow>
   \<forall>x \<in> set hits. finalised view {\<lambda>p. p\<lparr>qp_status := status_u8 s\<rparr>} m m' (ph_q_first_idx x)"
proof (induction hits arbitrary: m)
  case (Cons hit hits)
  let ?a = "\<lambda>m. m\<lparr>qm_anomalies := qm_anomalies m @ [ev (ph_q_first_idx hit)]\<rparr>"
  from Cons.prems(3) obtain m1 b m2 where
    1: "migrate_terminal L (ph_q_first_idx hit) (\<lambda>p. p\<lparr>qp_status := status_u8 s\<rparr>) m = Some (m1, b)" and
    2: "clear_hit L h hit (?a m1) = Some m2" and
    3: "abort_hits L h s ev hits m2 = Some m'"
    by (auto simp: Let_def elim!: bind_SomeE)
  have "keeps view m m1" by (rule migrate_terminal_keeps [OF 1]) (simp add: assms)
  also have "keeps view m1 (?a m1)" by (rule same_rows_keeps) simp
  also have "keeps view \<dots> m2" by (rule clear_hit_keeps [OF 2])
  finally have k: "keeps view m m2" .
  then have "qm_inv view m2" using Cons.prems(1) by (simp add: keeps_def)
  moreover have "\<forall>x \<in> set hits. pair_known view m2 (ph_q_first_idx x)"
    using Cons.prems(2) keeps_known [OF k] by simp
  ultimately have "\<forall>x \<in> set hits.
      finalised view {\<lambda>p. p\<lparr>qp_status := status_u8 s\<rparr>} m2 m' (ph_q_first_idx x)"
    using Cons.IH 3 by blast
  moreover have "qm_live_pair m2 = qm_live_pair m1" "qm_ep_pair m2 = qm_ep_pair m1"
    using 2 by (auto simp: clear_hit_def Let_def elim!: bind_SomeE)
  moreover have "view (qm_ep_pair m2) \<subseteq>\<^sub>m view (qm_ep_pair m')"
    using abort_hits_keeps [OF assms 3] by (simp add: keeps_def epoch_grows_def)
  ultimately show ?case
    using finalised_cons [OF Cons.prems(1,2) 1, of "{\<lambda>p. p\<lparr>qp_status := status_u8 s\<rparr>}" m2 m'] by blast
qed simp

text \<open>The hit of a pending row, and what happens to it.\<close>

lemma hit_of_row:
  assumes "scan_pending_upto L h inc limit m = Some hits" "qm_inv view m"
    and "view (qm_pending m) (k_qr_pending h inc a) = Some (v_qr_pending_encode q ts n)"
    and "a \<le> limit" "a \<le> U48_MAX"
  shows "q \<in> ph_q_first_idx ` set hits"
proof -
  note hits = scan_pending_hits [OF assms(1,2)]
  have "k_qr_pending h inc a \<in> ph_key ` set hits"
    using hits(1) in_scan_key [OF assms(5), of h inc limit h inc] assms(3,4) by auto
  then obtain hit where hit: "hit \<in> set hits" "ph_key hit = k_qr_pending h inc a" by auto
  with hits(2) assms(3) obtain n' where
    "v_qr_pending_encode q ts n = v_qr_pending_encode (ph_q_first_idx hit) (ph_q_ts hit) n'" by fastforce
  then have "q = ph_q_first_idx hit" by (rule pending_value_inj)
  then show ?thesis using hit(1) by blast
qed

lemma consume_r_finalised:
  assumes "qm_inv view m" "consume_r L h st r ack m = Some (m', st')"
    and "view (qm_pending m) (k_qr_pending h (cs_incarnation st) a) = Some (v_qr_pending_encode q ts n)"
    and "a \<le> sat_add64 ack (ucast (qm_ack_tol m))" "a \<le> U48_MAX"
  shows "\<exists>fs. finalised view {match_flip r pr fs | pr. True} m m' q"
proof -
  from assms(2) obtain hits st1 where
    h: "scan_pending_upto L h (cs_incarnation st) (sat_add64 ack (ucast (qm_ack_tol m))) m = Some hits"
      "consume_hits L h r True (map ph_q_first_idx (tl hits)) hits (m, st) = Some (m', st1)"
    by (rule consume_r_Some)
  from hit_of_row [OF h(1) assms(1,3-5)] show ?thesis
    using consume_hits_finalised [OF assms(1) _ h(2)] scan_pending_hits(3) [OF h(1) assms(1)] by auto
qed

lemma abort_hits_anomalies:
  "abort_hits L h s ev hits m = Some m' \<Longrightarrow>
   qm_anomalies m' = qm_anomalies m @ map (ev \<circ> ph_q_first_idx) hits"
proof (induction hits arbitrary: m)
  case (Cons hit hits)
  then obtain m1 b m2 where
    1: "migrate_terminal L (ph_q_first_idx hit) (\<lambda>p. p\<lparr>qp_status := status_u8 s\<rparr>) m = Some (m1, b)" and
    2: "clear_hit L h hit (m1\<lparr>qm_anomalies := qm_anomalies m1 @ [ev (ph_q_first_idx hit)]\<rparr>) = Some m2" and
    3: "abort_hits L h s ev hits m2 = Some m'"
    by (auto simp: Let_def elim!: bind_SomeE)
  from 1 have "qm_anomalies m1 = qm_anomalies m" by (rule migrate_terminal_Some) simp
  moreover have "qm_anomalies m2 = qm_anomalies m1 @ [ev (ph_q_first_idx hit)]"
    using 2 by (rule clear_hit_Some) simp
  ultimately show ?case using Cons.IH [OF 3] by simp
qed simp

text \<open>A reset and a generation flip work off every pending request of the generation.\<close>

lemma abort_all_effect:
  assumes "qm_inv view m" "s \<noteq> Pending"
    and h: "scan_pending_upto L h inc U48_MAX m = Some hits"
    and a: "abort_hits L h s ev hits m = Some m'"
  shows "\<forall>h' inc' a. a \<le> U48_MAX \<longrightarrow> view (qm_pending m') (k_qr_pending h' inc' a) =
      (if h' = h \<and> inc' = inc then None else view (qm_pending m) (k_qr_pending h' inc' a))"
    and "\<forall>a q ts n. a \<le> U48_MAX \<longrightarrow>
      view (qm_pending m) (k_qr_pending h inc a) = Some (v_qr_pending_encode q ts n) \<longrightarrow>
      view (qm_live_pair m') (k_qr_pair q) = None \<and>
      finalised view {\<lambda>p. p\<lparr>qp_status := status_u8 s\<rparr>} m m' q \<and> q \<in> ph_q_first_idx ` set hits"
proof -
  note w = worked_off_scan [OF h assms(1) abort_hits_worked_off [OF assms(2,1) a]]
  show "\<forall>h' inc' a. a \<le> U48_MAX \<longrightarrow> view (qm_pending m') (k_qr_pending h' inc' a) =
      (if h' = h \<and> inc' = inc then None else view (qm_pending m) (k_qr_pending h' inc' a))"
    using w(1) by auto
  show "\<forall>a q ts n. a \<le> U48_MAX \<longrightarrow>
      view (qm_pending m) (k_qr_pending h inc a) = Some (v_qr_pending_encode q ts n) \<longrightarrow>
      view (qm_live_pair m') (k_qr_pair q) = None \<and>
      finalised view {\<lambda>p. p\<lparr>qp_status := status_u8 s\<rparr>} m m' q \<and> q \<in> ph_q_first_idx ` set hits"
  proof (intro allI impI)
    fix a q ts n
    assume u: "a \<le> U48_MAX"
      and row: "view (qm_pending m) (k_qr_pending h inc a) = Some (v_qr_pending_encode q ts n)"
    have q: "q \<in> ph_q_first_idx ` set hits" by (rule hit_of_row [OF h assms(1) row u u])
    then show "view (qm_live_pair m') (k_qr_pair q) = None \<and>
        finalised view {\<lambda>p. p\<lparr>qp_status := status_u8 s\<rparr>} m m' q \<and> q \<in> ph_q_first_idx ` set hits"
      using w(2) [OF row u u] abort_hits_finalised [OF assms(2,1) _ a]
        scan_pending_hits(3) [OF h assms(1)] by auto
  qed
qed

text \<open>The rows that a request adds.\<close>

lemma open_rows_views:
  assumes "open_rows L h inc q pair m = Some m'"
  shows "view (qm_live_pair m') = upd_new (view (qm_live_pair m)) (k_qr_pair q) (qr_pair_encode pair)"
    and "view (qm_pending m') = upd_new (view (qm_pending m))
      (k_qr_pending h inc (qp_abs_q_end pair)) (v_qr_pending_encode q (qp_q_ts pair) (qp_q_len pair))"
    and "view (qm_ttl m') = upd_new (view (qm_ttl m)) (k_pending_ttl (qp_q_ts pair) h)
      (v_pending_ttl_encode q (qp_abs_q_end pair))"
    and "qm_ep_pair m' = qm_ep_pair m" "qm_conns m' = qm_conns m" "qm_ack_tol m' = qm_ack_tol m"
  using assms
  by (auto simp: open_rows_def Let_def elim!: bind_SomeE dest!: put_no_overwrite_view)

end

context lmdb_total
begin

lemma writeback_total: "(\<forall>h \<in> set hs. conn_at h m \<noteq> None) \<Longrightarrow> \<exists>m'. writeback L hs m = Some m'"
proof (induction hs arbitrary: m)
  case (Cons h hs)
  then obtain st where st: "conn_at h m = Some st" by auto
  obtain kvs where r: "lm_range L (qm_pending m) (be64 h @ replicate 8 0) (be64 h @ replicate 8 0xFF) =
      Some kvs" using range_total by fastforce
  obtain d where "lm_put L (qm_conn_state m) (k_conn_state h)
      (conn_state_to_bytes (st\<lparr>cs_qr_open := of_nat (length kvs)\<rparr>)) = Some d"
    using put_total [OF valid_keys(1)] by blast
  then obtain m1 where m1: "writeback_one L h m = Some m1"
    using st r by (simp add: writeback_one_def count_live_pending_def Let_def)
  then have "qm_conns m1 = qm_conns m"
    by (auto simp: writeback_one_def archive_conn_def Let_def elim!: bind_SomeE)
  with Cons have "\<exists>m'. writeback L hs m1 = Some m'" by (simp add: conn_at_def)
  with m1 show ?case by auto
qed simp

lemma stage_total:
  assumes "qm_inv view db"
  shows "\<exists>db' out. stage_lmdb_with_meta L C db records tol None = Some (db', out)"
proof -
  have "qm_inv view (begin_with_meta db tol None)" "qm_meta (begin_with_meta db tol None) = None"
    using assms by (simp_all add: qm_inv_def begin_with_meta_def dual_db.extend_def
        qr_matcher.fields_def)
  then obtain m where m: "ingest_all L C records (begin_with_meta db tol None) = Some m"
    using ingest_all_total by blast
  obtain m' where "writeback_conns L m = Some m'"
    using writeback_total [of "sort (map fst (qm_conns m))" m]
    by (auto simp: writeback_conns_def conn_at_def map_of_eq_None_iff)
  with m show ?thesis by (simp add: stage_lmdb_with_meta_def qr_commit_def)
qed

end

section \<open>Batches\<close>

text \<open>What a step does to a store in order: it stays in order, history only grows, and no pair is
  lost.\<close>

definition stores_advance ::
  "('d \<Rightarrow> contents) \<Rightarrow> 'd dual_db \<Rightarrow> 'd dual_db \<Rightarrow> bool" where
  "stores_advance view db db' \<longleftrightarrow> qm_inv view db' \<and> epoch_grows view db db' \<and>
     pairs_step (view (qm_live_pair db)) (view (qm_ep_pair db))
       (view (qm_live_pair db')) (view (qm_ep_pair db'))"

lemma stores_advance_refl: "qm_inv view db \<Longrightarrow> stores_advance view db db"
  by (simp add: stores_advance_def)

lemma stores_advance_trans:
  "stores_advance view db db1 \<Longrightarrow> stores_advance view db1 db2 \<Longrightarrow> stores_advance view db db2"
  unfolding stores_advance_def using epoch_grows_trans pairs_step_trans by blast

lemma stores_advance_view:
  "stores_advance view db db1 \<Longrightarrow> live_eq view db1 db2 \<Longrightarrow> epoch_eq view db1 db2 \<Longrightarrow>
   stores_advance view db db2"
  by (simp add: stores_advance_def live_eq_def epoch_eq_def qm_inv_def epoch_grows_def)

context lmdb_store
begin

lemma batch_steps:
  assumes "stage_lmdb_with_meta L C db records tol meta = Some (db', out)"
  shows "epoch_grows view db db' \<and>
    pairs_step (view (qm_live_pair db)) (view (qm_ep_pair db)) (view (qm_live_pair db')) (view (qm_ep_pair db')) \<and>
    (qm_inv view db \<longrightarrow> qm_inv view db')"
proof -
  let ?m0 = "begin_with_meta db tol meta"
  from assms obtain m1 m2 where
    m: "ingest_all L C records ?m0 = Some m1" "writeback_conns L m1 = Some m2" and
    db': "db' = commit_live m2 (commit_epoch m2 db)"
    by (auto simp: stage_lmdb_with_meta_def qr_commit_def Let_def elim!: bind_SomeE)
  have "same_rows m1 m2" using m(2) writeback_same_rows by (simp add: writeback_conns_def)
  then have k: "keeps view ?m0 m2"
    using ingest_all_keeps [OF m(1)] same_rows_keeps keeps_trans by blast
  have "keeps view ?m0 m2 \<longleftrightarrow> epoch_grows view db db' \<and>
      pairs_step (view (qm_live_pair db)) (view (qm_ep_pair db))
        (view (qm_live_pair db')) (view (qm_ep_pair db')) \<and> (qm_inv view db \<longrightarrow> qm_inv view db')"
    by (simp add: keeps_def epoch_grows_def qm_inv_def begin_with_meta_def dual_db.extend_def db'
        commit_live_def commit_epoch_def)
  then show ?thesis using k by simp
qed

lemma batch_advances:
  assumes "stage_lmdb_with_meta L C db records tol meta = Some (db', out)" "qm_inv view db"
  shows "stores_advance view db db'"
  using batch_steps [OF assms(1)] assms(2) by (simp add: stores_advance_def)

lemma crash_returns:
  "epoch_only L C db records tol meta = Some crashed \<Longrightarrow>
   \<exists>db' out. stage_lmdb_with_meta L C db records tol meta = Some (db', out)"
  by (auto simp: epoch_only_def stage_lmdb_with_meta_def qr_commit_def Let_def elim!: bind_SomeE)

lemma batch_indexed:
  assumes "stage_lmdb_with_meta L C db records tol meta = Some (db', out)" "r \<in> set records"
  shows "view (qm_record_ts db') (k_record_ts (wr_timestamp_ns (ir_rec r)) (ir_idx r)) \<noteq> None"
proof -
  from assms(1) obtain m1 m2 where
    m: "ingest_all L C records (begin_with_meta db tol meta) = Some m1" "writeback_conns L m1 = Some m2"
      "db' = commit_live m2 (commit_epoch m2 db)"
    by (auto simp: stage_lmdb_with_meta_def qr_commit_def Let_def elim!: bind_SomeE)
  have "same_rows m1 m2" using m(2) writeback_same_rows by (simp add: writeback_conns_def)
  then have "qm_record_ts db' = qm_record_ts m1"
    by (simp add: m(3) same_rows_def commit_live_def commit_epoch_def)
  then show ?thesis using ingest_all_indexes [OF m(1) assms(2)] by simp
qed

end

section \<open>A sample run\<close>

text \<open>Empty stores, the TCP flag bits, and a request of five bytes on connection 7.\<close>

definition no_rows :: "(bytes \<times> bytes) list dual_db" where
  "no_rows = \<lparr>qm_conn_state = [], qm_live_pair = [], qm_pending = [], qm_ttl = [], qm_ep_pair = [],
     qm_conn_qr = [], qm_qr_key = [], qm_qr_time = [], qm_packet_qr = [], qm_record_ts = []\<rparr>"

definition sample_consts :: wal_consts where
  "sample_consts = \<lparr>wc_fin = 1, wc_syn = 2, wc_rst = 4, wc_psh = 8, wc_ack = 16, wc_urg = 32,
     wc_degraded = 1\<rparr>"

definition sample_wal :: wal_record where
  "sample_wal = \<lparr>wr_timestamp_ns = 1000, wr_flags = 0, wr_tcp_flags = 16, wr_tcp_seq = 100,
     wr_tcp_ack = 1, wr_window_size = 512, wr_src_ip = [10, 0, 0, 1], wr_dst_ip = [10, 0, 0, 2],
     wr_src_port = 4000, wr_dst_port = 80, wr_proto = 6, wr_orig_payload_len = 5,
     wr_payload = [71, 69, 84, 32, 47]\<rparr>"

definition sample_record :: indexed_record where
  "sample_record = \<lparr>ir_dev_id = 1, ir_file_id = 1, ir_offset = 64, ir_rec = sample_wal\<rparr>"

abbreviation sample_start :: "(bytes \<times> bytes) list qr_matcher" where
  "sample_start \<equiv> begin_with_meta no_rows 0 None"

lemma no_rows_inv: "qm_inv map_of no_rows"
  by (simp add: qm_inv_def no_rows_def pairs_ok_def pending_ok_def ttl_ok_def index_ok_def)

lemma sample_start_inv: "qm_inv map_of sample_start" "qm_meta sample_start = None"
  using no_rows_inv
  by (simp_all add: qm_inv_def begin_with_meta_def dual_db.extend_def qr_matcher.fields_def)

lemma sample_start_rows:
  "qm_live_pair sample_start = []" "qm_pending sample_start = []" "qm_ep_pair sample_start = []"
  "qm_ttl sample_start = []" "qm_conns sample_start = []" "qm_ack_tol sample_start = 0"
  by (simp_all add: begin_with_meta_def no_rows_def dual_db.extend_def qr_matcher.fields_def)

lemma sample_opened:
  obtains m st where
    "open_q ref_lmdb 7 default_conn_state sample_record 100 105 sample_start = Some (m, st)"
    "qm_inv map_of m" "qm_ack_tol m = 0"
    "map_of (qm_pending m) (k_qr_pending 7 0 105) =
       Some (v_qr_pending_encode (ir_idx sample_record) 1000 5)"
    "map_of (qm_ttl m) (k_pending_ttl 1000 7) = Some (v_pending_ttl_encode (ir_idx sample_record) 105)"
proof -
  obtain m st where
    o1: "open_q ref_lmdb 7 default_conn_state sample_record 100 105 sample_start = Some (m, st)"
    using ref.open_q_total [OF sample_start_inv(2)] by blast
  have "qm_inv map_of m"
    using ref.open_q_keeps [OF o1] sample_start_inv(1) by (simp add: keeps_def)
  moreover from o1 obtain key pseudo where
    "open_rows ref_lmdb 7 0 (ir_idx sample_record)
      (pending_pair 7 sample_record 100 105 key pseudo) sample_start = Some m"
    using sample_start_inv(2)
    by (auto simp: open_q_def request_key_def Let_def default_conn_state_def elim!: bind_SomeE)
  note ref.open_rows_views [OF this]
  then have "qm_ack_tol m = 0" "map_of (qm_pending m) (k_qr_pending 7 0 105) =
       Some (v_qr_pending_encode (ir_idx sample_record) 1000 5)"
    "map_of (qm_ttl m) (k_pending_ttl 1000 7) = Some (v_pending_ttl_encode (ir_idx sample_record) 105)"
    by (simp_all add: pending_pair_def sample_start_rows upd_new_def sample_record_def sample_wal_def)
  ultimately show thesis using that o1 by blast
qed

section \<open>Properties\<close>

text \<open>C13: A cumulative ACK consumes exactly the requests it covers.  Of all pending rows with
  stream positions up to 2^48, those of this connection and generation that end at or below the ACK
  plus the tolerance go, and no other; every consumed request leaves the live store and, unless its
  pair was final already, is stored in the epoch store with status \<open>Matched\<close>, the responder's time
  and the latency (\<open>match_flip\<close>).\<close>

theorem ack_consumes_exactly:
  assumes "lmdb_store L view" "qm_inv view m" "consume_r L h st r ack m = Some (m', st')"
    and "limit = sat_add64 ack (ucast (qm_ack_tol m))"
  shows "(\<forall>h' inc a. a \<le> U48_MAX \<longrightarrow> view (qm_pending m') (k_qr_pending h' inc a) =
      (if h' = h \<and> inc = cs_incarnation st \<and> a \<le> limit then None
       else view (qm_pending m) (k_qr_pending h' inc a))) \<and>
    (\<forall>a q ts n. a \<le> U48_MAX \<longrightarrow> a \<le> limit \<longrightarrow>
      view (qm_pending m) (k_qr_pending h (cs_incarnation st) a) = Some (v_qr_pending_encode q ts n) \<longrightarrow>
      view (qm_live_pair m') (k_qr_pair q) = None \<and>
      (\<exists>later. finalised view {match_flip r primary later | primary. True} m m' q))"
  using lmdb_store.consume_r_exact [OF assms(1-3)] lmdb_store.consume_r_finalised [OF assms(1-3)]
  unfolding assms(4) by blast

theorem ack_consumes_exactly_witness:
  "\<exists>m m' st'. map_of (qm_pending m) (k_qr_pending 7 0 105) \<noteq> None \<and>
     consume_r ref_lmdb 7 default_conn_state sample_record 105 m = Some (m', st') \<and>
     map_of (qm_pending m') (k_qr_pending 7 0 105) = None"
proof (rule sample_opened)
  fix m :: "(bytes \<times> bytes) list qr_matcher" and st
  assume m: "qm_inv map_of m" "map_of (qm_pending m) (k_qr_pending 7 0 105) =
       Some (v_qr_pending_encode (ir_idx sample_record) 1000 5)"
  obtain m' st' where c: "consume_r ref_lmdb 7 default_conn_state sample_record 105 m = Some (m', st')"
    using ref.consume_r_total [OF m(1)] by blast
  have l: "(105 :: u64) \<le> U48_MAX" "(105 :: u64) \<le> sat_add64 105 (ucast (qm_ack_tol m))"
    by (simp_all add: U48_MAX_def word_le_nat_alt unat_sat_add64)
  have "map_of (qm_pending m') (k_qr_pending 7 0 105) = None"
    using ack_consumes_exactly [OF ref.lmdb_store_axioms m(1) c refl] l
    by (simp add: default_conn_state_def)
  with m c show ?thesis by fastforce
qed



text \<open>C14: A new generation of a connection starts clean: no pending row of the old generation is
  left, its requests are final (\<open>UNMATCHED\<close>), the pending rows of every other connection and
  generation stay, and the connection has the next generation number, no open requests and the
  baselines of the packet that opened it.\<close>

theorem rebirth_isolates:
  assumes "lmdb_store L view" "qm_inv view m" "conn_at h m = Some st"
    and "flip_epoch L C h rec dir idx m = Some m'"
  shows "conn_at h m' = Some (reborn C rec dir idx st) \<and>
    cs_incarnation (reborn C rec dir idx st) = cs_incarnation st + 1 \<and>
    (\<forall>h' inc a. a \<le> U48_MAX \<longrightarrow> view (qm_pending m') (k_qr_pending h' inc a) =
      (if h' = h \<and> inc = cs_incarnation st then None
       else view (qm_pending m) (k_qr_pending h' inc a))) \<and>
    (\<forall>a q ts n. a \<le> U48_MAX \<longrightarrow>
      view (qm_pending m) (k_qr_pending h (cs_incarnation st) a) = Some (v_qr_pending_encode q ts n) \<longrightarrow>
      view (qm_live_pair m') (k_qr_pair q) = None \<and>
      finalised view {\<lambda>p. p\<lparr>qp_status := status_u8 Unmatched\<rparr>} m m' q)"
proof -
  from assms(4) obtain st0 hits m1 st1 where
    1: "conn_at h m = Some st0"
      "scan_pending_upto L h (cs_incarnation st0) U48_MAX m = Some hits"
      "abort_hits L h Unmatched (gen_flip_event rec h (cs_incarnation st0)) hits m = Some m1"
      "m' = (persist_state h (reborn C rec dir idx st1) m1)
        \<lparr>qm_anomalies := qm_anomalies m1 @ [rebirth_event C rec h (length hits)]\<rparr>"
    by (rule lmdb_store.flip_epoch_Some [OF assms(1)])
  have st0: "st0 = st" using 1(1) assms(3) by simp
  note e = lmdb_store.abort_all_effect [OF assms(1,2) _ 1(2,3)]
  have f: "finalised view fs m m1 q = finalised view fs m m' q" for fs q
    by (simp add: finalised_def 1(4) persist_state_def)
  have rows: "qm_pending m' = qm_pending m1" "qm_live_pair m' = qm_live_pair m1"
    by (simp_all add: 1(4) persist_state_def)
  have "cs_incarnation (reborn C rec dir idx st) = cs_incarnation st + 1"
    by (cases dir) (simp_all add: reborn_def Let_def set_active_c_def set_active_s_def)
  moreover have "conn_at h m' = Some (reborn C rec dir idx st)"
    by (rule lmdb_store.flip_epoch_clears(2) [OF assms(1,2,3,4), of 0]) simp
  ultimately show ?thesis
    using e rows unfolding st0 by (auto simp: f)
qed

theorem rebirth_isolates_witness:
  "\<exists>m m'. map_of (qm_pending m) (k_qr_pending 7 0 105) \<noteq> None \<and>
     flip_epoch ref_lmdb sample_consts 7 sample_wal C2S 9 m = Some m' \<and>
     map_of (qm_pending m') (k_qr_pending 7 0 105) = None"
proof (rule sample_opened)
  fix m :: "(bytes \<times> bytes) list qr_matcher" and st
  assume m: "qm_inv map_of m" "map_of (qm_pending m) (k_qr_pending 7 0 105) =
       Some (v_qr_pending_encode (ir_idx sample_record) 1000 5)"
  let ?m = "persist_state 7 default_conn_state m"
  have inv: "qm_inv map_of ?m" using m(1) by (simp add: persist_state_def qm_inv_def)
  have at: "conn_at 7 ?m = Some default_conn_state" by (simp add: conn_at_def persist_state_def update_conv')
  obtain m' where c: "flip_epoch ref_lmdb sample_consts 7 sample_wal C2S 9 ?m = Some m'"
    using ref.flip_epoch_total [OF inv at] by blast
  have "(105 :: u64) \<le> U48_MAX" by (simp add: U48_MAX_def)
  with rebirth_isolates [OF ref.lmdb_store_axioms inv at c] have
    "map_of (qm_pending m') (k_qr_pending 7 0 105) = None" by (simp add: default_conn_state_def)
  moreover have "qm_pending ?m = qm_pending m" by (simp add: persist_state_def)
  ultimately show ?thesis using m c by (metis option.distinct(1))
qed

text \<open>C12: A batch keeps both stores in order.  Live pairs are pending and epoch pairs final, index
  and pending rows name pairs that a store has, the epoch databases only grow, row by row, and no
  pair is lost from both stores.\<close>

theorem batch_keeps_stores:
  assumes "lmdb_store L view" "qm_inv view db"
    and "stage_lmdb_with_meta L C db records tol meta = Some (db', out)"
  shows "qm_inv view db' \<and> epoch_grows view db db' \<and>
    (\<forall>q. known (view (qm_live_pair db)) (view (qm_ep_pair db)) q \<longrightarrow>
      known (view (qm_live_pair db')) (view (qm_ep_pair db')) q)"
  using lmdb_store.batch_advances [OF assms(1,3,2)] pairs_step_known
  by (auto simp: stores_advance_def)

theorem batch_keeps_stores_witness:
  "\<exists>db' out. stage_lmdb_with_meta ref_lmdb sample_consts no_rows [sample_record] 0 None =
     Some (db', out) \<and> qm_inv map_of db'"
proof -
  obtain db' out where s: "stage_lmdb_with_meta ref_lmdb sample_consts no_rows [sample_record] 0 None =
      Some (db', out)" using ref.stage_total [OF no_rows_inv] by blast
  with batch_keeps_stores [OF ref.lmdb_store_axioms no_rows_inv s] show ?thesis by blast
qed

text \<open>C19: Every record of a batch, TCP or not, is in the record index after the batch.\<close>

theorem batch_indexes_every_record:
  assumes "lmdb_store L view" "stage_lmdb_with_meta L C db records tol meta = Some (db', out)"
    and "r \<in> set records"
  shows "view (qm_record_ts db') (k_record_ts (wr_timestamp_ns (ir_rec r)) (ir_idx r)) \<noteq> None"
  by (rule lmdb_store.batch_indexed [OF assms])

theorem batch_indexes_every_record_witness:
  "\<exists>db' out. stage_lmdb_with_meta ref_lmdb sample_consts no_rows [sample_record] 0 None =
     Some (db', out) \<and> map_of (qm_record_ts db') (k_record_ts 1000 (ir_idx sample_record)) \<noteq> None"
proof -
  obtain db' out where s: "stage_lmdb_with_meta ref_lmdb sample_consts no_rows [sample_record] 0 None =
      Some (db', out)" using ref.stage_total [OF no_rows_inv] by blast
  have "wr_timestamp_ns (ir_rec sample_record) = 1000" by (simp add: sample_record_def sample_wal_def)
  with batch_indexes_every_record [OF ref.lmdb_store_axioms s, of sample_record] s show ?thesis
    by (cases out) auto
qed

text \<open>C9: A batch that is replayed after a crash between the two commits, on the old live store
  and the new epoch store, gives the same audit events and exactly the stores of the uninterrupted
  run, row by row in all ten databases.\<close>

theorem replay_after_crash:
  assumes "lmdb_total L view" "qm_inv view db"
    and "stage_lmdb_with_meta L C db records tol meta = Some (db', out)"
    and "epoch_only L C db records tol meta = Some crashed"
  shows "\<exists>db''. stage_lmdb_with_meta L C crashed records tol meta = Some (db'', out) \<and>
    live_eq view db' db'' \<and> epoch_eq view db' db''"
  by (rule lmdb_total.replay_converges [OF assms])

theorem replay_after_crash_witness:
  "\<exists>db' crashed db'' out.
     stage_lmdb_with_meta ref_lmdb sample_consts no_rows [sample_record] 0 None = Some (db', out) \<and>
     epoch_only ref_lmdb sample_consts no_rows [sample_record] 0 None = Some crashed \<and>
     stage_lmdb_with_meta ref_lmdb sample_consts crashed [sample_record] 0 None = Some (db'', out) \<and>
     live_eq map_of db' db''"
proof -
  obtain db' out where s: "stage_lmdb_with_meta ref_lmdb sample_consts no_rows [sample_record] 0 None =
      Some (db', out)" using ref.stage_total [OF no_rows_inv] by blast
  then obtain crashed where c: "epoch_only ref_lmdb sample_consts no_rows [sample_record] 0 None =
      Some crashed"
    by (auto simp: stage_lmdb_with_meta_def qr_commit_def epoch_only_def Let_def elim!: bind_SomeE)
  from replay_after_crash [OF ref.lmdb_total_axioms no_rows_inv s c] s c show ?thesis by blast
qed

text \<open>C16: With a store that answers, a batch without a metadata registry always commits: no
  packet, however malformed, makes it fail.\<close>

theorem batch_returns:
  assumes "lmdb_total L view" "qm_inv view db"
  shows "\<exists>db' out. stage_lmdb_with_meta L C db records tol None = Some (db', out)"
  by (rule lmdb_total.stage_total [OF assms])

theorem batch_returns_witness:
  "\<exists>db' out. stage_lmdb_with_meta ref_lmdb sample_consts no_rows
     [sample_record, sample_record\<lparr>ir_offset := 200, ir_rec := sample_wal\<lparr>wr_tcp_flags := 255\<rparr>\<rparr>] 0 None =
     Some (db', out)"
  by (rule batch_returns [OF ref.lmdb_total_axioms no_rows_inv])

lemma be64_prefix_range:
  assumes "length k = 16"
  shows "be64 h @ replicate 8 0 \<le> k \<and> k \<le> be64 h @ replicate 8 0xFF \<longleftrightarrow> take 8 k = be64 h"
proof -
  note z = bytes_bounds
  have k: "k = take 8 k @ drop 8 k" "length (take 8 k) = 8" "length (drop 8 k) = 8"
    using assms by simp_all
  show ?thesis
    using bytes_append_le_iff [of "be64 h" "take 8 k" "replicate 8 0" "drop 8 k"]
      bytes_append_le_iff [of "take 8 k" "be64 h" "drop 8 k" "replicate 8 0xFF"] z [OF k(3)] k
    by (auto simp: not_less_iff_gr_or_eq)
qed

text \<open>C17: The row of a connection that a commit writes counts the pending requests of the
  connection, whatever its generation: it does not drift with the increments of the batch.\<close>

theorem writeback_counts_open:
  assumes "lmdb_store L view" "qm_inv view m" "writeback_one L h m = Some m'"
  shows "\<exists>st. conn_at h m = Some st \<and> view (qm_conn_state m') (k_conn_state h) =
    Some (conn_state_to_bytes (st\<lparr>cs_qr_open :=
      of_nat (card {k \<in> dom (view (qm_pending m)). take 8 k = be64 h})\<rparr>))"
proof -
  from assms(3) obtain st kvs d where 1: "conn_at h m = Some st"
    "lm_range L (qm_pending m) (be64 h @ replicate 8 0) (be64 h @ replicate 8 0xFF) = Some kvs"
    "lm_put L (qm_conn_state m) (k_conn_state h)
      (conn_state_to_bytes (st\<lparr>cs_qr_open := of_nat (length kvs)\<rparr>)) = Some d"
    "m' = archive_conn h (st\<lparr>cs_qr_open := of_nat (length kvs)\<rparr>) (m\<lparr>qm_conn_state := d\<rparr>)"
    by (auto simp: writeback_one_def count_live_pending_def Let_def elim!: bind_SomeE)
  note s = lmdb_store.range_view [OF assms(1) 1(2)]
  have len: "length k = 16" if "k \<in> dom (view (qm_pending m))" for k
    using assms(2) that by (auto simp: qm_inv_def Let_def pending_ok_def)
  have "fst ` set kvs = {k \<in> dom (view (qm_pending m)).
      be64 h @ replicate 8 0 \<le> k \<and> k \<le> be64 h @ replicate 8 0xFF}"
    using s by (force simp: scan_of_def image_iff)
  also have "\<dots> = {k \<in> dom (view (qm_pending m)). take 8 k = be64 h}"
    using be64_prefix_range len by blast
  finally have "card {k \<in> dom (view (qm_pending m)). take 8 k = be64 h} = card (set (map fst kvs))"
    by simp
  also have "\<dots> = length kvs"
    using s distinct_card [OF bt_sorted_distinct, of kvs] by (simp add: scan_of_def)
  finally show ?thesis
    using 1 lmdb_store.put_view [OF assms(1) 1(3)] by (simp add: archive_conn_def)
qed

theorem writeback_counts_open_witness:
  "\<exists>m m'. conn_at 7 m \<noteq> None \<and> writeback_one ref_lmdb 7 m = Some m' \<and>
     map_of (qm_conn_state m') (k_conn_state 7) \<noteq> None"
proof (rule sample_opened)
  fix m :: "(bytes \<times> bytes) list qr_matcher" and st
  assume m: "qm_inv map_of m"
  let ?m = "persist_state 7 default_conn_state m"
  have inv: "qm_inv map_of ?m" using m(1) by (simp add: persist_state_def qm_inv_def)
  have at: "conn_at 7 ?m = Some default_conn_state" by (simp add: conn_at_def persist_state_def update_conv')
  with ref.writeback_total [of "[7]" ?m] obtain m' where w: "writeback_one ref_lmdb 7 ?m = Some m'"
    by (auto elim!: bind_SomeE)
  from writeback_counts_open [OF ref.lmdb_store_axioms inv w] at w show ?thesis by fastforce
qed

text \<open>The keys of a request are those of its packet and of the end of its data in the stream.\<close>

lemma open_q_rows:
  assumes "lmdb_store L view" "open_q L h st r a b m = Some (m', st')"
  obtains key pseudo where "length key < 2 ^ 16"
    "view (qm_live_pair m') = upd_new (view (qm_live_pair m)) (k_qr_pair (ir_idx r))
       (qr_pair_encode (pending_pair h r a b key pseudo))"
    "view (qm_pending m') = upd_new (view (qm_pending m)) (k_qr_pending h (cs_incarnation st) b)
       (v_qr_pending_encode (ir_idx r) (wr_timestamp_ns (ir_rec r)) (wr_orig_payload_len (ir_rec r)))"
    "view (qm_ttl m') = upd_new (view (qm_ttl m)) (k_pending_ttl (wr_timestamp_ns (ir_rec r)) h)
       (v_pending_ttl_encode (ir_idx r) b)"
    "cs_req_cnt st' = cs_req_cnt st + 1"
proof -
  from assms(2) obtain key pseudo st1 m1 where
    1: "request_key h r st m = Some ((key, pseudo), st1, m1)" and
    2: "open_rows L h (cs_incarnation st1) (ir_idx r) (pending_pair h r a b key pseudo) m1 = Some m'" and
    3: "st' = st1\<lparr>cs_req_cnt := cs_req_cnt st1 + 1, cs_qr_open := cs_qr_open st1 + 1\<rparr>"
    by (auto simp: open_q_def elim!: bind_SomeE)
  note k = request_key_Some [OF 1] and v = lmdb_store.open_rows_views [OF assms(1) 2]
  have "cs_req_cnt st1 = cs_req_cnt st"
    using 1 by (auto simp: request_key_def Let_def elim!: bind_SomeE split: option.splits if_splits)
  then show thesis
    using k v 3 by (intro that [of key pseudo]) (simp_all add: same_rows_def pending_pair_def)
qed

text \<open>C18: Opening a request whose keys are free stores it completely: the live row decodes to the
  pending pair of this packet, and its pending and TTL rows name it.\<close>

theorem request_is_stored:
  assumes "lmdb_store L view" "open_q L h st r a b m = Some (m', st')"
    and "view (qm_live_pair m) (k_qr_pair (ir_idx r)) = None"
    and "view (qm_pending m) (k_qr_pending h (cs_incarnation st) b) = None"
    and "view (qm_ttl m) (k_pending_ttl (wr_timestamp_ns (ir_rec r)) h) = None"
  shows "(\<exists>v key pseudo. view (qm_live_pair m') (k_qr_pair (ir_idx r)) = Some v \<and>
      qr_pair_decode v = Some (pending_pair h r a b key pseudo)) \<and>
    view (qm_pending m') (k_qr_pending h (cs_incarnation st) b) = Some (v_qr_pending_encode
      (ir_idx r) (wr_timestamp_ns (ir_rec r)) (wr_orig_payload_len (ir_rec r))) \<and>
    view (qm_ttl m') (k_pending_ttl (wr_timestamp_ns (ir_rec r)) h) =
      Some (v_pending_ttl_encode (ir_idx r) b)"
proof -
  from assms(1,2) obtain key pseudo where
    o1: "length key < 2 ^ 16"
    "view (qm_live_pair m') = upd_new (view (qm_live_pair m)) (k_qr_pair (ir_idx r))
       (qr_pair_encode (pending_pair h r a b key pseudo))"
    "view (qm_pending m') = upd_new (view (qm_pending m)) (k_qr_pending h (cs_incarnation st) b)
       (v_qr_pending_encode (ir_idx r) (wr_timestamp_ns (ir_rec r)) (wr_orig_payload_len (ir_rec r)))"
    "view (qm_ttl m') = upd_new (view (qm_ttl m)) (k_pending_ttl (wr_timestamp_ns (ir_rec r)) h)
       (v_pending_ttl_encode (ir_idx r) b)"
    by (rule open_q_rows)
  have "qr_pair_wf (pending_pair h r a b key pseudo)"
    using o1(1) by (simp add: pending_pair_def qr_pair_wf_def)
  then have "qr_pair_decode (qr_pair_encode (pending_pair h r a b key pseudo)) =
      Some (pending_pair h r a b key pseudo)" by (rule qr_pair_decode_encode)
  then show ?thesis using assms(3-5) o1(2-4) by (auto simp: upd_new_def)
qed

theorem request_is_stored_witness:
  "\<exists>m st v p. open_q ref_lmdb 7 default_conn_state sample_record 100 105 sample_start = Some (m, st) \<and>
     map_of (qm_live_pair m) (k_qr_pair (ir_idx sample_record)) = Some v \<and>
     qr_pair_decode v = Some p \<and> qp_status p = status_u8 Pending"
proof -
  obtain m st where
    o1: "open_q ref_lmdb 7 default_conn_state sample_record 100 105 sample_start = Some (m, st)"
    using ref.open_q_total [OF sample_start_inv(2)] by blast
  from request_is_stored [OF ref.lmdb_store_axioms o1] obtain v key pseudo where
    "map_of (qm_live_pair m) (k_qr_pair (ir_idx sample_record)) = Some v"
    "qr_pair_decode v = Some (pending_pair 7 sample_record 100 105 key pseudo)"
    by (auto simp: sample_start_rows)
  moreover have "qp_status (pending_pair 7 sample_record 100 105 key pseudo) = status_u8 Pending"
    by (simp add: pending_pair_def)
  ultimately show ?thesis using o1 by blast
qed

text \<open>C24: A request whose pending key is taken (a second request that ends at the same stream
  position, as the retransmitted first packet of a connection does) gets a live pair but no pending
  row: no ACK, reset or generation flip can find it.  If the connection already has a TTL row with
  the same timestamp, it gets no TTL row either and the time-out cannot find it.\<close>

theorem request_stranded:
  assumes "lmdb_store L view" "open_q L h st r a b m = Some (m', st')"
    and "view (qm_pending m) (k_qr_pending h (cs_incarnation st) b) \<noteq> None"
    and "\<forall>k ts n. view (qm_pending m) k \<noteq> Some (v_qr_pending_encode (ir_idx r) ts n)"
  shows "view (qm_live_pair m') (k_qr_pair (ir_idx r)) \<noteq> None \<and>
    (\<forall>k ts n. view (qm_pending m') k \<noteq> Some (v_qr_pending_encode (ir_idx r) ts n)) \<and>
    (view (qm_ttl m) (k_pending_ttl (wr_timestamp_ns (ir_rec r)) h) \<noteq> None \<longrightarrow>
      view (qm_ttl m') = view (qm_ttl m))"
proof -
  from assms(1,2) obtain v where
    "view (qm_live_pair m') = upd_new (view (qm_live_pair m)) (k_qr_pair (ir_idx r)) v"
    "view (qm_pending m') = upd_new (view (qm_pending m)) (k_qr_pending h (cs_incarnation st) b)
       (v_qr_pending_encode (ir_idx r) (wr_timestamp_ns (ir_rec r)) (wr_orig_payload_len (ir_rec r)))"
    "view (qm_ttl m') = upd_new (view (qm_ttl m)) (k_pending_ttl (wr_timestamp_ns (ir_rec r)) h)
       (v_pending_ttl_encode (ir_idx r) b)"
    by (rule open_q_rows)
  then show ?thesis
    using assms(3,4) by (auto simp: upd_new_def split: option.splits)
qed

theorem request_stranded_witness:
  "\<exists>m st m' st'. open_q ref_lmdb 7 default_conn_state sample_record 100 105 sample_start = Some (m, st) \<and>
     open_q ref_lmdb 7 default_conn_state (sample_record\<lparr>ir_offset := 200\<rparr>) 100 105 m = Some (m', st') \<and>
     map_of (qm_live_pair m') (k_qr_pair (ir_idx (sample_record\<lparr>ir_offset := 200\<rparr>))) \<noteq> None \<and>
     (\<forall>k ts n. map_of (qm_pending m') k \<noteq>
       Some (v_qr_pending_encode (ir_idx (sample_record\<lparr>ir_offset := 200\<rparr>)) ts n))"
proof -
  let ?r = "sample_record\<lparr>ir_offset := 200\<rparr>"
  obtain m st where
    o1: "open_q ref_lmdb 7 default_conn_state sample_record 100 105 sample_start = Some (m, st)"
    using ref.open_q_total [OF sample_start_inv(2)] by blast
  then have "qm_meta m = None"
    using qm_meta_open_q sample_start_inv(2) by blast
  then obtain m' st' where o2: "open_q ref_lmdb 7 default_conn_state ?r 100 105 m = Some (m', st')"
    using ref.open_q_total by blast
  have p: "map_of (qm_pending m) = upd_new Map.empty (k_qr_pending 7 0 105)
      (v_qr_pending_encode (ir_idx sample_record) 1000 5)"
    using ref.lmdb_store_axioms o1
    by (rule open_q_rows) (simp add: sample_start_rows default_conn_state_def sample_record_def sample_wal_def)
  have ne: "ir_idx ?r \<noteq> ir_idx sample_record"
    by (simp add: ir_idx_def sample_record_def encode_idx_def)
  have "map_of (qm_pending m) (k_qr_pending 7 (cs_incarnation default_conn_state) 105) \<noteq> None"
    by (simp add: p upd_new_def default_conn_state_def)
  moreover have "\<forall>k ts n. map_of (qm_pending m) k \<noteq> Some (v_qr_pending_encode (ir_idx ?r) ts n)"
  proof (intro allI notI)
    fix k ts n
    assume "map_of (qm_pending m) k = Some (v_qr_pending_encode (ir_idx ?r) ts n)"
    then have "v_qr_pending_encode (ir_idx sample_record) 1000 5 =
        v_qr_pending_encode (ir_idx ?r) ts n" by (simp only: p upd_new_def) (simp split: if_splits)
    from pending_value_inj [OF this] ne show False by simp
  qed
  ultimately show ?thesis
    using request_stranded [OF ref.lmdb_store_axioms o2] o1 o2 by blast
qed

end
