(* ===== verification/Anomaly.thy ===== *)
theory Anomaly
  imports Qr_Claims
begin

text \<open>
  The time-out scan of \<open>src/src/anomaly.rs\<close>: pending requests whose deadline has passed are moved
  to the epoch store with status \<open>TIMEOUT\<close>, in one pair of transactions.  The deadline is the
  request's time plus the request time-out, or the FIN of its connection plus the short time-out
  when the FIN came later than the request.

  \<open>None\<close> is an error of the store or a panic (a TTL key shorter than 16 bytes).
\<close>

record ttl_stats =
  tt_scanned :: u64
  tt_timed_out :: u64
  tt_stale :: u64
  tt_conns_touched :: u64

definition ttl_stats_default :: ttl_stats where
  "ttl_stats_default = \<lparr>tt_scanned = 0, tt_timed_out = 0, tt_stale = 0, tt_conns_touched = 0\<rparr>"

text \<open>Both transactions and the locals of a scan.\<close>

record 'd ttl_run = "'d dual_db" +
  tr_conns :: "(u64 \<times> conn_state) list"
  tr_events :: "anomaly_event list"
  tr_stats :: ttl_stats

record ttl_hit =
  th_key :: bytes
  th_q_ts :: u64
  th_conn :: u64
  th_q :: u64
  th_abs_q_end :: u64

section \<open>Deadlines\<close>

definition sat_mul64 :: "u64 \<Rightarrow> u64 \<Rightarrow> u64" where
  "sat_mul64 a b = (if unat a * unat b < 2 ^ 64 then a * b else - 1)"

definition ttl_short_ns :: "u64 \<Rightarrow> u64 \<Rightarrow> u64" where
  "ttl_short_ns qr_timeout_secs fin_short_secs =
     (if 0 < fin_short_secs \<and> fin_short_secs < qr_timeout_secs
      then sat_mul64 fin_short_secs 1000000000
      else sat_mul64 qr_timeout_secs 1000000000)"

definition ttl_due :: "u64 \<Rightarrow> u64 \<Rightarrow> u64 \<Rightarrow> u64 \<Rightarrow> conn_state \<Rightarrow> bool" where
  "ttl_due now qr_timeout_ns short_ns q_ts st =
     (let base_deadline = sat_add64 q_ts qr_timeout_ns;
          fin_deadline = (if 0 < cs_fin_seen st \<and> q_ts \<le> cs_fin_seen st
                          then sat_add64 (cs_fin_seen st) short_ns else - 1)
      in \<not> now < min base_deadline fin_deadline)"

section \<open>Residues\<close>

text \<open>\<open>cleanup_pending\<close>: the first pending row of the connection, of any generation, that names
  the request.\<close>

definition names_request :: "u64 \<Rightarrow> bytes \<times> bytes \<Rightarrow> bool" where
  "names_request q e = (case v_qr_pending_decode (snd e) of None \<Rightarrow> False | Some (fid, _, _) \<Rightarrow> fid = q)"

definition cleanup_pending ::
  "'d lmdb \<Rightarrow> u64 \<Rightarrow> u64 \<Rightarrow> 'd ttl_run \<Rightarrow> 'd ttl_run option" where
  "cleanup_pending L h q m =
     do {
       kvs \<leftarrow> lm_range L (qm_pending m) (be64 h @ replicate 8 0) (be64 h @ replicate 8 0xFF);
       case find (names_request q) kvs of
         None \<Rightarrow> Some m
       | Some (k, _) \<Rightarrow>
           do { (d, _) \<leftarrow> lm_delete L (qm_pending m) k; Some (m\<lparr>qm_pending := d\<rparr>) }
     }"

definition cleanup_residual ::
  "'d lmdb \<Rightarrow> u64 \<Rightarrow> u64 \<Rightarrow> bytes \<Rightarrow> 'd ttl_run \<Rightarrow> 'd ttl_run option" where
  "cleanup_residual L h q ttl_key m =
     do {
       m \<leftarrow> cleanup_pending L h q m;
       (d, _) \<leftarrow> lm_delete L (qm_ttl m) ttl_key;
       Some (m\<lparr>qm_ttl := d\<rparr>)
     }"

section \<open>One expired row\<close>

definition count_stale :: "'d ttl_run \<Rightarrow> 'd ttl_run" where
  "count_stale m = m\<lparr>tr_stats := (tr_stats m)\<lparr>tt_stale := tt_stale (tr_stats m) + 1\<rparr>\<rparr>"

definition timeout_event :: "u64 \<Rightarrow> ttl_hit \<Rightarrow> anomaly_event" where
  "timeout_event now hit = conn_event now ANOM_QR_TIMEOUT (th_conn hit) (Some (th_q hit))
     (''qr_timeout_ms='' @ show_nat (unat (sat_sub64 now (th_q_ts hit) div 1000000)))"

text \<open>The connection of a timed-out request, and the event.\<close>

definition note_timeout :: "u64 \<Rightarrow> ttl_hit \<Rightarrow> conn_state \<Rightarrow> 'd ttl_run \<Rightarrow> 'd ttl_run" where
  "note_timeout now hit st m =
     (let st = st\<lparr>cs_qr_open := sat_sub64 (cs_qr_open st) 1,
                 cs_anomaly_flags := cs_anomaly_flags st OR ANOM_QR_UNMATCHED_BIT\<rparr>
      in m\<lparr>tr_conns := AList.update (th_conn hit) st (tr_conns m),
           tr_events := tr_events m @ [timeout_event now hit],
           tr_stats := (tr_stats m)\<lparr>tt_timed_out := tt_timed_out (tr_stats m) + 1\<rparr>\<rparr>)"

definition ttl_expire ::
  "'d lmdb \<Rightarrow> u64 \<Rightarrow> ttl_hit \<Rightarrow> conn_state \<Rightarrow> 'd ttl_run \<Rightarrow> 'd ttl_run option" where
  "ttl_expire L now hit st m =
     do {
       let kp = k_qr_pair (th_q hit);
       e \<leftarrow> lm_get L (qm_ep_pair m) kp;
       if e \<noteq> None then
         do {
           (d, _) \<leftarrow> lm_delete L (qm_live_pair m) kp;
           m \<leftarrow> cleanup_pending L (th_conn hit) (th_q hit) (m\<lparr>qm_live_pair := d\<rparr>);
           (d, _) \<leftarrow> lm_delete L (qm_ttl m) (th_key hit);
           Some (count_stale (m\<lparr>qm_ttl := d\<rparr>))
         }
       else
         do {
           v \<leftarrow> lm_get L (qm_live_pair m) kp;
           case Option.bind v qr_pair_decode of
             None \<Rightarrow>
               do {
                 m \<leftarrow> cleanup_residual L (th_conn hit) (th_q hit) (th_key hit) m;
                 Some (count_stale m)
               }
           | Some pair \<Rightarrow>
               if qp_status pair \<noteq> status_u8 Pending then
                 do {
                   m \<leftarrow> cleanup_residual L (th_conn hit) (th_q hit) (th_key hit) m;
                   Some (count_stale m)
                 }
               else
                 do {
                   (d, _) \<leftarrow> put_no_overwrite L (qm_ep_pair m) kp
                     (qr_pair_encode (pair\<lparr>qp_status := status_u8 Timeout\<rparr>));
                   let m = m\<lparr>qm_ep_pair := d\<rparr>;
                   (d, _) \<leftarrow> lm_delete L (qm_live_pair m) kp;
                   m \<leftarrow> cleanup_pending L (th_conn hit) (th_q hit) (m\<lparr>qm_live_pair := d\<rparr>);
                   (d, _) \<leftarrow> lm_delete L (qm_ttl m) (th_key hit);
                   Some (note_timeout now hit st (m\<lparr>qm_ttl := d\<rparr>))
                 }
         }
     }"

section \<open>The scan\<close>

text \<open>The rows of the window; a value that does not decode is skipped.\<close>

fun ttl_hits :: "(bytes \<times> bytes) list \<Rightarrow> ttl_hit list option" where
  "ttl_hits [] = Some []"
| "ttl_hits ((k, v) # kvs) =
     (case v_pending_ttl_decode v of
        None \<Rightarrow> ttl_hits kvs
      | Some (q, abs_q_end) \<Rightarrow>
          if length k < 16 then None
          else do {
            hits \<leftarrow> ttl_hits kvs;
            Some (\<lparr>th_key = k, th_q_ts = of_be64 (take 8 k), th_conn = of_be64 (take 8 (drop 8 k)),
              th_q = q, th_abs_q_end = abs_q_end\<rparr> # hits)
          })"

text \<open>The connection row that a scan works with: the cache, then the store, then the default
  (a read error counts as a missing row).\<close>

definition ttl_load_conn :: "'d lmdb \<Rightarrow> u64 \<Rightarrow> 'd ttl_run \<Rightarrow> conn_state \<times> 'd ttl_run" where
  "ttl_load_conn L h m =
     (case map_of (tr_conns m) h of
        Some st \<Rightarrow> (st, m)
      | None \<Rightarrow>
          let st = (case lm_get L (qm_conn_state m) (k_conn_state h) of
                      Some (Some v) \<Rightarrow> (case conn_state_from_bytes v of
                        Some st \<Rightarrow> st | None \<Rightarrow> default_conn_state)
                    | _ \<Rightarrow> default_conn_state)
          in (st, m\<lparr>tr_conns := AList.update h st (tr_conns m)\<rparr>))"

fun ttl_loop ::
  "'d lmdb \<Rightarrow> u64 \<Rightarrow> u64 \<Rightarrow> u64 \<Rightarrow> ttl_hit list \<Rightarrow> 'd ttl_run \<Rightarrow> 'd ttl_run option" where
  "ttl_loop L now qr_timeout_ns short_ns [] m = Some m"
| "ttl_loop L now qr_timeout_ns short_ns (hit # hits) m =
     (let (st, m) = ttl_load_conn L (th_conn hit) m
      in if \<not> ttl_due now qr_timeout_ns short_ns (th_q_ts hit) st
         then ttl_loop L now qr_timeout_ns short_ns hits m
         else do {
           m \<leftarrow> ttl_expire L now hit st m;
           ttl_loop L now qr_timeout_ns short_ns hits m
         })"

fun ttl_writeback :: "'d lmdb \<Rightarrow> (u64 \<times> conn_state) list \<Rightarrow> 'd ttl_run \<Rightarrow> 'd ttl_run option" where
  "ttl_writeback L [] m = Some m"
| "ttl_writeback L ((h, st) # cs) m =
     do {
       d \<leftarrow> lm_put L (qm_conn_state m) (k_conn_state h) (conn_state_to_bytes st);
       ttl_writeback L cs (m\<lparr>qm_conn_state := d,
         tr_stats := (tr_stats m)\<lparr>tt_conns_touched := tt_conns_touched (tr_stats m) + 1\<rparr>\<rparr>)
     }"

definition ttl_begin :: "'d dual_db \<Rightarrow> 'd ttl_run" where
  "ttl_begin db = dual_db.extend db (ttl_run.fields [] [] ttl_stats_default)"

text \<open>The state when both transactions are about to commit; the commit drops the locals.\<close>

definition ttl_scan_txn ::
  "'d lmdb \<Rightarrow> u64 \<Rightarrow> u64 \<Rightarrow> u64 \<Rightarrow> 'd dual_db \<Rightarrow> 'd ttl_run option" where
  "ttl_scan_txn L now qr_timeout_secs fin_short_secs db =
     do {
       let qr_timeout_ns = sat_mul64 qr_timeout_secs 1000000000;
       let short_ns = ttl_short_ns qr_timeout_secs fin_short_secs;
       kvs \<leftarrow> lm_range L (qm_ttl db) (replicate 16 0) (be64 (sat_sub64 now short_ns) @ replicate 8 0xFF);
       hits \<leftarrow> ttl_hits kvs;
       let m = ttl_begin db;
       m \<leftarrow> ttl_loop L now qr_timeout_ns short_ns hits
         (m\<lparr>tr_stats := (tr_stats m)\<lparr>tt_scanned := of_nat (length kvs)\<rparr>\<rparr>);
       ttl_writeback L (tr_conns m) m
     }"

definition scan_pending_ttl ::
  "'d lmdb \<Rightarrow> u64 \<Rightarrow> u64 \<Rightarrow> u64 \<Rightarrow> 'd dual_db \<Rightarrow>
     ('d dual_db \<times> anomaly_event list \<times> ttl_stats) option" where
  "scan_pending_ttl L now qr_timeout_secs fin_short_secs db =
     (if qr_timeout_secs = 0 then Some (db, [], ttl_stats_default)
      else do {
        m \<leftarrow> ttl_scan_txn L now qr_timeout_secs fin_short_secs db;
        Some (dual_db.truncate m, tr_events m, tr_stats m)
      })"

end
