(* ===== verification/Anomaly_Facts.thy ===== *)
theory Anomaly_Facts
  imports Anomaly
begin

text \<open>
  The time-out scan: it expires exactly the rows whose deadline has passed, although it reads only
  a window of them, and it keeps both stores in order.  \<open>expired D m m'\<close> says what a run that
  expires the rows \<open>D\<close> does to the stores; runs compose.
\<close>

section \<open>Expired rows\<close>

abbreviation timed_out :: "qr_pair_value \<Rightarrow> qr_pair_value" where
  "timed_out p \<equiv> p\<lparr>qp_status := status_u8 Timeout\<rparr>"

abbreviation hit_pair :: "ttl_hit \<Rightarrow> bytes" where
  "hit_pair hit \<equiv> k_qr_pair (th_q hit)"

definition pending_less ::
  "('d \<Rightarrow> contents) \<Rightarrow> u64 set \<Rightarrow> ('d, 'z) dual_db_scheme \<Rightarrow> ('d, 'z) dual_db_scheme \<Rightarrow> bool" where
  "pending_less view Q m m' \<longleftrightarrow>
     (\<forall>k. view (qm_pending m') k = view (qm_pending m) k \<or>
       view (qm_pending m') k = None \<and>
       (\<exists>q \<in> Q. \<exists>ts n. view (qm_pending m) k = Some (v_qr_pending_encode q ts n)))"

definition expired ::
  "('d \<Rightarrow> contents) \<Rightarrow> ttl_hit set \<Rightarrow> 'd ttl_run \<Rightarrow> 'd ttl_run \<Rightarrow> bool" where
  "expired view D m m' \<longleftrightarrow>
     view (qm_ttl m') = view (qm_ttl m) |` (- th_key ` D)
     \<and> view (qm_live_pair m') = view (qm_live_pair m) |` (- hit_pair ` D)
     \<and> (\<forall>k. k \<notin> hit_pair ` D \<longrightarrow> view (qm_ep_pair m') k = view (qm_ep_pair m) k)
     \<and> (\<forall>hit \<in> D. finalised view {timed_out} m m' (th_q hit))
     \<and> pending_less view (th_q ` D) m m'
     \<and> qm_conn_state m' = qm_conn_state m"

lemma expired_empty: "expired view {} m m"
  by (simp add: expired_def pending_less_def)

text \<open>What a run reads of a connection is its FIN time, which no run changes.\<close>

definition conn_on_disk :: "('d \<Rightarrow> contents) \<Rightarrow> ('d, 'z) dual_db_scheme \<Rightarrow> u64 \<Rightarrow> conn_state" where
  "conn_on_disk view m h =
     (case view (qm_conn_state m) (k_conn_state h) of
        None \<Rightarrow> default_conn_state
      | Some v \<Rightarrow> (case conn_state_from_bytes v of None \<Rightarrow> default_conn_state | Some st \<Rightarrow> st))"

definition cache_ok :: "('d \<Rightarrow> contents) \<Rightarrow> 'd ttl_run \<Rightarrow> bool" where
  "cache_ok view m \<longleftrightarrow>
     (\<forall>h st. map_of (tr_conns m) h = Some st \<longrightarrow> cs_fin_seen st = cs_fin_seen (conn_on_disk view m h))"

lemma ttl_due_cong:
  "cs_fin_seen st = cs_fin_seen st' \<Longrightarrow> ttl_due now t s q_ts st = ttl_due now t s q_ts st'"
  by (simp add: ttl_due_def)

context lmdb_store
begin

lemma keeps_delete:
  "view d = (view (qm_pending m))(k := None) \<Longrightarrow> keeps view m (m\<lparr>qm_pending := d\<rparr>)"
  "view d = (view (qm_ttl m))(k := None) \<Longrightarrow> keeps view m (m\<lparr>qm_ttl := d\<rparr>)"
  by (simp_all add: keeps_def epoch_grows_def qm_inv_def Let_def ok_delete)

lemma cleanup_pending_Some:
  assumes "cleanup_pending L h q m = Some m'" "qm_inv view m"
  obtains d where "m' = m\<lparr>qm_pending := d\<rparr>" "keeps view m m'" "pending_less view {q} m m'"
proof -
  have ok: "pending_ok (view (qm_live_pair m)) (view (qm_ep_pair m)) (view (qm_pending m))"
    using assms(2) by (simp add: qm_inv_def Let_def)
  from assms(1) obtain kvs where
    r: "lm_range L (qm_pending m) (be64 h @ replicate 8 0) (be64 h @ replicate 8 0xFF) = Some kvs"
    by (auto simp: cleanup_pending_def elim!: bind_SomeE)
  show thesis
  proof (cases "find (names_request q) kvs")
    case None
    with assms(1) r have "m' = m\<lparr>qm_pending := qm_pending m\<rparr>" by (simp add: cleanup_pending_def)
    then show thesis by (rule that) (simp_all add: pending_less_def \<open>m' = _\<close>)
  next
    case (Some e)
    then obtain k v where e: "e = (k, v)" "(k, v) \<in> set kvs" "names_request q (k, v)"
      by (cases e) (metis find_Some_iff nth_mem)
    with assms(1) r Some obtain d b where
      d: "lm_delete L (qm_pending m) k = Some (d, b)" "m' = m\<lparr>qm_pending := d\<rparr>"
      by (auto simp: cleanup_pending_def elim!: bind_SomeE)
    have "view (qm_pending m) k = Some v" using range_view [OF r] e(2) by (simp add: scan_of_def)
    moreover from this ok obtain q' ts n where "v = v_qr_pending_encode q' ts n"
      unfolding pending_ok_def by blast
    moreover from this e(3) have "q' = q" by (simp add: names_request_def pending_value_decode)
    ultimately have "pending_less view {q} m m'"
      using delete_view [OF d(1)] d(2) by (auto simp: pending_less_def)
    with d show thesis by (intro that) (simp_all add: keeps_delete(1) [OF delete_view [OF d(1)]])
  qed
qed

text \<open>Every outcome of an expired row is a migration, a clean-up and the removal of its TTL row.\<close>

lemma ttl_expire_Some:
  assumes "ttl_expire L now hit st m = Some m'"
  obtains d e b m1 t c where "migrated view (th_q hit) timed_out m d e b"
    "cleanup_pending L (th_conn hit) (th_q hit) (m\<lparr>qm_live_pair := d, qm_ep_pair := e\<rparr>) = Some m1"
    "lm_delete L (qm_ttl m1) (th_key hit) = Some (t, c)"
    "m' = (if b then note_timeout now hit st else count_stale) (m1\<lparr>qm_ttl := t\<rparr>)"
proof -
  let ?kp = "hit_pair hit"
  from assms obtain r where g: "lm_get L (qm_ep_pair m) ?kp = Some r"
    by (auto simp: ttl_expire_def Let_def elim!: bind_SomeE)
  note gv = get_view [OF g]
  show thesis
  proof (cases r)
    case (Some w)
    with assms g obtain d b' m1 t c where
      d: "lm_delete L (qm_live_pair m) ?kp = Some (d, b')" and
      2: "cleanup_pending L (th_conn hit) (th_q hit) (m\<lparr>qm_live_pair := d\<rparr>) = Some m1"
        "lm_delete L (qm_ttl m1) (th_key hit) = Some (t, c)" "m' = count_stale (m1\<lparr>qm_ttl := t\<rparr>)"
      by (auto simp: ttl_expire_def Let_def elim!: bind_SomeE)
    have "migrated view (th_q hit) timed_out m d (qm_ep_pair m) False"
      using delete_view [OF d] gv Some by (auto simp: migrated_def Let_def)
    then show thesis by (rule that) (use 2 in simp_all)
  next
    case None
    with assms g obtain v where v: "lm_get L (qm_live_pair m) ?kp = Some v"
      by (auto simp: ttl_expire_def Let_def elim!: bind_SomeE)
    note vv = get_view [OF v]
    show thesis
    proof (cases "\<exists>p. Option.bind v qr_pair_decode = Some p \<and> qp_status p = status_u8 Pending")
      case False
      have "migrated view (th_q hit) timed_out m (qm_live_pair m) (qm_ep_pair m) False"
        using False vv gv None by (auto simp: migrated_def Let_def)
      moreover from False assms g v None obtain m1 t c where
        "cleanup_pending L (th_conn hit) (th_q hit) m = Some m1"
        "lm_delete L (qm_ttl m1) (th_key hit) = Some (t, c)" "m' = count_stale (m1\<lparr>qm_ttl := t\<rparr>)"
        by (auto simp: ttl_expire_def Let_def cleanup_residual_def elim!: bind_SomeE
            split: option.splits if_splits)
      ultimately show thesis using that by simp
    next
      case True
      then obtain p where p: "Option.bind v qr_pair_decode = Some p" "qp_status p = status_u8 Pending"
        by blast
      with assms g v None obtain e be d bd m1 t c where
        e: "put_no_overwrite L (qm_ep_pair m) ?kp (qr_pair_encode (timed_out p)) = Some (e, be)" and
        d: "lm_delete L (qm_live_pair m) ?kp = Some (d, bd)" and
        2: "cleanup_pending L (th_conn hit) (th_q hit) (m\<lparr>qm_ep_pair := e, qm_live_pair := d\<rparr>) = Some m1"
          "lm_delete L (qm_ttl m1) (th_key hit) = Some (t, c)"
          "m' = note_timeout now hit st (m1\<lparr>qm_ttl := t\<rparr>)"
        by (auto simp: ttl_expire_def Let_def elim!: bind_SomeE)
      have mig: "migrated view (th_q hit) timed_out m d e True"
        using delete_view [OF d] put_no_overwrite_view [OF e] p vv gv None
        by (auto simp: migrated_def Let_def upd_new_def bind_eq_Some_conv)
      have eq: "m\<lparr>qm_ep_pair := e, qm_live_pair := d\<rparr> = m\<lparr>qm_live_pair := d, qm_ep_pair := e\<rparr>"
        by simp
      have m': "m' = (if True then note_timeout now hit st else count_stale) (m1\<lparr>qm_ttl := t\<rparr>)"
        using 2(3) by simp
      show thesis by (rule that [OF mig 2(1) [unfolded eq] 2(2) m'])
    qed
  qed
qed

text \<open>The pair of an expired row leaves the live store and is final afterwards.\<close>

lemma ttl_expire_effect:
  assumes 1: "ttl_expire L now hit st m = Some m'" and inv: "qm_inv view m"
    and known: "pair_known view m (th_q hit)"
  shows "expired view {hit} m m'" and "keeps view m m'"
    and "tr_conns m' = tr_conns m \<or> (\<exists>st'. cs_fin_seen st' = cs_fin_seen st \<and>
      tr_conns m' = AList.update (th_conn hit) st' (tr_conns m))"
proof -
  from 1 obtain d e b m1 t c where
    mi: "migrated view (th_q hit) timed_out m d e b" and
    cp: "cleanup_pending L (th_conn hit) (th_q hit) (m\<lparr>qm_live_pair := d, qm_ep_pair := e\<rparr>) = Some m1" and
    t: "lm_delete L (qm_ttl m1) (th_key hit) = Some (t, c)" and
    m': "m' = (if b then note_timeout now hit st else count_stale) (m1\<lparr>qm_ttl := t\<rparr>)"
    by (rule ttl_expire_Some)
  let ?m0 = "m\<lparr>qm_live_pair := d, qm_ep_pair := e\<rparr>"
  have k0: "keeps view m ?m0"
    by (rule keeps_pairs [OF refl migrated_pairs_step [OF mi]]) simp
  then have "qm_inv view ?m0" using inv by (simp add: keeps_def)
  from cp this obtain d1 where m1: "m1 = ?m0\<lparr>qm_pending := d1\<rparr>" "keeps view ?m0 m1"
    "pending_less view {th_q hit} ?m0 m1" by (rule cleanup_pending_Some)
  have k1: "keeps view m1 (m1\<lparr>qm_ttl := t\<rparr>)" by (rule keeps_delete(2) [OF delete_view [OF t]])
  have "same_rows (m1\<lparr>qm_ttl := t\<rparr>) m'"
    by (simp add: m' same_rows_def note_timeout_def count_stale_def Let_def)
  with k0 k1 m1(2) show "keeps view m m'" by (blast intro: keeps_trans same_rows_keeps)
  note mv = migrated_inv [OF mi inv]
  have rows: "qm_live_pair m' = d" "qm_ep_pair m' = e" "qm_ttl m' = t" "qm_pending m' = d1"
    "qm_conn_state m' = qm_conn_state m"
    by (simp_all add: m' m1(1) note_timeout_def count_stale_def Let_def)
  have "finalised view {timed_out} m m' (th_q hit)"
    using mi mv(3) known
    by (auto simp: finalised_def rows migrated_def Let_def pair_known_def known_def)
  moreover have "\<forall>k. k \<noteq> hit_pair hit \<longrightarrow> view e k = view (qm_ep_pair m) k"
    using mi by (auto simp: migrated_def Let_def)
  moreover have "view t = view (qm_ttl m) |` (- {th_key hit})"
    using delete_view [OF t] m1(1) by (auto simp: restrict_map_def fun_upd_def)
  moreover have "view d = view (qm_live_pair m) |` (- {hit_pair hit})"
    using mv(1) by (auto simp: restrict_map_def fun_upd_def)
  moreover have "pending_less view {th_q hit} m m'"
    using m1(1,3) by (simp add: pending_less_def rows)
  ultimately show "expired view {hit} m m'" by (simp add: expired_def rows)
  show "tr_conns m' = tr_conns m \<or> (\<exists>st'. cs_fin_seen st' = cs_fin_seen st \<and>
      tr_conns m' = AList.update (th_conn hit) st' (tr_conns m))"
  proof (cases b)
    case True
    let ?st = "st\<lparr>cs_qr_open := sat_sub64 (cs_qr_open st) 1,
      cs_anomaly_flags := cs_anomaly_flags st OR ANOM_QR_UNMATCHED_BIT\<rparr>"
    have "tr_conns m' = AList.update (th_conn hit) ?st (tr_conns m)"
      using True by (simp add: m' m1(1) note_timeout_def Let_def)
    moreover have "cs_fin_seen ?st = cs_fin_seen st" by simp
    ultimately show ?thesis by blast
  qed (simp add: m' m1(1) count_stale_def)
qed

lemma expired_trans:
  assumes 1: "expired view D m m1" and 2: "expired view D' m1 m2"
    and k: "view (qm_ep_pair m1) \<subseteq>\<^sub>m view (qm_ep_pair m2)"
  shows "expired view (D \<union> D') m m2"
proof -
  have r: "(f |` (- A)) |` (- B) = f |` (- (A \<union> B))" for f :: contents and A B
    by (auto simp: restrict_map_def)
  have "finalised view {timed_out} m m2 (th_q hit)" if h: "hit \<in> D \<union> D'" for hit
  proof (cases "hit_pair hit \<in> hit_pair ` D")
    case True
    then obtain hit' where h': "hit' \<in> D" "th_q hit' = th_q hit" by auto
    with 1 have "finalised view {timed_out} m m1 (th_q hit)" by (auto simp: expired_def)
    then show ?thesis using k by (auto simp: finalised_def map_le_def dom_def)
  next
    case False
    with h 2 have "finalised view {timed_out} m1 m2 (th_q hit)" by (auto simp: expired_def)
    moreover have "view (qm_live_pair m1) (hit_pair hit) = view (qm_live_pair m) (hit_pair hit)"
      "view (qm_ep_pair m1) (hit_pair hit) = view (qm_ep_pair m) (hit_pair hit)"
      using 1 False by (auto simp: expired_def restrict_map_def)
    ultimately show ?thesis by (simp add: finalised_def)
  qed
  moreover have "pending_less view (th_q ` (D \<union> D')) m m2"
  proof (unfold pending_less_def, intro allI)
    fix k
    have "pending_less view (th_q ` D) m m1" "pending_less view (th_q ` D') m1 m2"
      using 1 2 by (simp_all add: expired_def)
    then show "view (qm_pending m2) k = view (qm_pending m) k \<or> view (qm_pending m2) k = None \<and>
        (\<exists>q \<in> th_q ` (D \<union> D'). \<exists>ts n. view (qm_pending m) k = Some (v_qr_pending_encode q ts n))"
      unfolding pending_less_def by (metis UnI1 UnI2 image_Un)
  qed
  ultimately show ?thesis
    using 1 2 by (auto simp: expired_def r image_Un)
qed

section \<open>The loop\<close>

lemma fin_seen_update:
  "cache_ok view m \<Longrightarrow> qm_conn_state m' = qm_conn_state m \<Longrightarrow>
   cs_fin_seen st = cs_fin_seen (conn_on_disk view m h) \<Longrightarrow>
   tr_conns m' = AList.update h st (tr_conns m) \<Longrightarrow> cache_ok view m'"
  by (auto simp: cache_ok_def conn_on_disk_def update_conv' split: if_splits)

lemma ttl_expire_cache:
  assumes "ttl_expire L now hit st m = Some m'" "qm_inv view m" "pair_known view m (th_q hit)"
    and "cache_ok view m" "cs_fin_seen st = cs_fin_seen (conn_on_disk view m (th_conn hit))"
  shows "cache_ok view m'"
proof -
  note e = ttl_expire_effect [OF assms(1-3)]
  have cs: "qm_conn_state m' = qm_conn_state m" using e(1) by (simp add: expired_def)
  from e(3) show ?thesis
  proof (elim disjE exE conjE)
    assume "tr_conns m' = tr_conns m"
    then show ?thesis using assms(4) cs by (simp add: cache_ok_def conn_on_disk_def)
  qed (use fin_seen_update [OF assms(4) cs] assms(5) in simp)
qed

end

context lmdb_total
begin

lemma ttl_load_conn_effect:
  assumes "ttl_load_conn L h m = (st, m')" "cache_ok view m"
  shows "cs_fin_seen st = cs_fin_seen (conn_on_disk view m h)" and "cache_ok view m'"
    and "\<exists>c. m' = m\<lparr>tr_conns := c\<rparr>"
proof -
  have disk: "(case lm_get L (qm_conn_state m) (k_conn_state h) of
      Some (Some v) \<Rightarrow> (case conn_state_from_bytes v of Some st \<Rightarrow> st | None \<Rightarrow> default_conn_state)
    | _ \<Rightarrow> default_conn_state) = conn_on_disk view m h"
    by (simp add: get_Some conn_on_disk_def split: option.split)
  show fin: "cs_fin_seen st = cs_fin_seen (conn_on_disk view m h)"
    using assms disk
    by (auto simp: ttl_load_conn_def cache_ok_def Let_def split: option.splits)
  show "\<exists>c. m' = m\<lparr>tr_conns := c\<rparr>"
  proof (cases "map_of (tr_conns m) h")
    case (Some a)
    then have "m' = m\<lparr>tr_conns := tr_conns m\<rparr>" using assms(1) by (simp add: ttl_load_conn_def)
    then show ?thesis by blast
  qed (use assms(1) in \<open>auto simp: ttl_load_conn_def Let_def\<close>)
  show "cache_ok view m'"
  proof (cases "map_of (tr_conns m) h")
    case (Some a)
    then show ?thesis using assms by (simp add: ttl_load_conn_def)
  next
    case None
    then have "m' = m\<lparr>tr_conns := AList.update h st (tr_conns m)\<rparr>"
      using assms(1) by (auto simp: ttl_load_conn_def Let_def)
    then show ?thesis using fin_seen_update [OF assms(2) _ fin, of m'] by simp
  qed
qed

text \<open>The rows of a list of hits that are due.\<close>

definition due_hits :: "u64 \<Rightarrow> u64 \<Rightarrow> u64 \<Rightarrow> 'a ttl_run \<Rightarrow> ttl_hit set \<Rightarrow> ttl_hit set" where
  "due_hits now t s m H = {hit \<in> H. ttl_due now t s (th_q_ts hit) (conn_on_disk view m (th_conn hit))}"

lemma ttl_loop_effect:
  "ttl_loop L now t s hits m = Some m' \<Longrightarrow> qm_inv view m \<Longrightarrow> cache_ok view m \<Longrightarrow>
   \<forall>hit \<in> set hits. pair_known view m (th_q hit) \<Longrightarrow>
   expired view (due_hits now t s m (set hits)) m m' \<and> keeps view m m'"
proof (induction hits arbitrary: m)
  case Nil
  then show ?case by (simp add: due_hits_def expired_empty)
next
  case (Cons hit hits)
  obtain st ma where l: "ttl_load_conn L (th_conn hit) m = (st, ma)" by force
  note le = ttl_load_conn_effect [OF l Cons.prems(3)]
  obtain c where ma: "ma = m\<lparr>tr_conns := c\<rparr>" using le(3) by blast
  have disk: "conn_on_disk view ma h = conn_on_disk view m h" for h by (simp add: ma conn_on_disk_def)
  have due: "ttl_due now t s (th_q_ts hit) st \<longleftrightarrow>
      ttl_due now t s (th_q_ts hit) (conn_on_disk view m (th_conn hit))"
    by (rule ttl_due_cong [OF le(1)])
  have inv: "qm_inv view ma" using Cons.prems(2) by (simp add: ma qm_inv_def)
  have known: "\<forall>x \<in> set (hit # hits). pair_known view ma (th_q x)"
    using Cons.prems(4) by (simp add: ma pair_known_def)
  have km: "keeps view m ma" using same_rows_keeps [of m ma view] by (simp add: ma same_rows_def)
  have em: "expired view D m x \<longleftrightarrow> expired view D ma x" for D x
    by (simp add: ma expired_def pending_less_def finalised_def)
  show ?case
  proof (cases "ttl_due now t s (th_q_ts hit) st")
    case False
    with Cons.prems(1) l have "ttl_loop L now t s hits ma = Some m'" by (simp add: Let_def)
    from Cons.IH [OF this inv le(2)] known have
      "expired view (due_hits now t s ma (set hits)) ma m' \<and> keeps view ma m'" by simp
    moreover have "due_hits now t s m (set (hit # hits)) = due_hits now t s ma (set hits)"
      using False due by (auto simp: due_hits_def disk)
    ultimately show ?thesis using km keeps_trans by (auto simp: em)
  next
    case True
    with Cons.prems(1) l obtain mb where
      b: "ttl_expire L now hit st ma = Some mb" "ttl_loop L now t s hits mb = Some m'"
      by (auto simp: Let_def elim!: bind_SomeE)
    have known': "pair_known view ma (th_q hit)" using known by simp
    note be = ttl_expire_effect [OF b(1) inv known']
    have cs: "qm_conn_state mb = qm_conn_state ma" using be(1) by (simp add: expired_def)
    then have diskb: "conn_on_disk view mb h = conn_on_disk view m h" for h
      by (simp add: ma conn_on_disk_def)
    have "cache_ok view mb"
      using ttl_expire_cache [OF b(1) inv known' le(2)] le(1) by (simp add: ma conn_on_disk_def)
    moreover have "qm_inv view mb" using be(2) inv by (simp add: keeps_def)
    moreover have "\<forall>x \<in> set hits. pair_known view mb (th_q x)"
      using known keeps_known [OF be(2)] by simp
    ultimately have IH: "expired view (due_hits now t s mb (set hits)) mb m'" "keeps view mb m'"
      using Cons.IH [OF b(2)] by simp_all
    have "due_hits now t s m (set (hit # hits)) = {hit} \<union> due_hits now t s mb (set hits)"
      using True due by (auto simp: due_hits_def diskb)
    moreover have "view (qm_ep_pair mb) \<subseteq>\<^sub>m view (qm_ep_pair m')"
      using IH(2) by (simp add: keeps_def epoch_grows_def)
    ultimately show ?thesis
      using expired_trans [OF be(1) IH(1)] keeps_trans [OF km keeps_trans [OF be(2) IH(2)]]
      by (simp add: em)
  qed
qed

end

section \<open>The window\<close>

lemma ttl_value_decode: "\<exists>e'. v_pending_ttl_decode (v_pending_ttl_encode q e) = Some (q, e')"
proof -
  let ?b = "v_pending_ttl_encode q e"
  have b: "?b = be64 q @ drop 2 (be64 e)"
    by (simp add: v_pending_ttl_encode_def put_u64_def put_u48_def)
  have t: "take_u64 ?b 0 = Some (q, 8)" "rest ?b 8 (drop 2 (be64 e) @ [])"
    using take_u64_rest [of ?b 0 q "drop 2 (be64 e)"] rest_start [of ?b] by (simp_all add: b)
  have "take_u48 ?b 8 = Some (of_be64 ([0, 0] @ drop 2 (be64 e)), 14)"
    using rest_slice [OF t(2)] by (simp add: take_u48_def)
  then show ?thesis using t(1) by (simp add: v_pending_ttl_decode_def b)
qed

definition ttl_row :: "bytes \<Rightarrow> u64 \<Rightarrow> u64 \<Rightarrow> ttl_hit" where
  "ttl_row k q e = \<lparr>th_key = k, th_q_ts = of_be64 (take 8 k), th_conn = of_be64 (take 8 (drop 8 k)),
     th_q = q, th_abs_q_end = e\<rparr>"

text \<open>All TTL rows of a store.\<close>

definition ttl_rows :: "('d \<Rightarrow> contents) \<Rightarrow> ('d, 'z) dual_db_scheme \<Rightarrow> ttl_hit set" where
  "ttl_rows view m = {ttl_row k q e | k q e v.
     view (qm_ttl m) k = Some v \<and> v_pending_ttl_decode v = Some (q, e)}"

lemma ttl_hits_rows:
  "\<forall>(k, v) \<in> set kvs. length k = 16 \<Longrightarrow>
   \<exists>hits. ttl_hits kvs = Some hits \<and>
     set hits = {ttl_row k q e | k q e v. (k, v) \<in> set kvs \<and> v_pending_ttl_decode v = Some (q, e)}"
proof (induction kvs)
  case (Cons kv kvs)
  obtain k v where kv: "kv = (k, v)" by force
  from Cons obtain hits where h: "ttl_hits kvs = Some hits"
    "set hits = {ttl_row k q e | k q e v. (k, v) \<in> set kvs \<and> v_pending_ttl_decode v = Some (q, e)}"
    by auto
  show ?case
  proof (cases "v_pending_ttl_decode v")
    case None
    then show ?thesis using h by (auto simp: kv)
  next
    case (Some qe)
    obtain q e where qe: "qe = (q, e)" by force
    have "ttl_hits (kv # kvs) = Some (ttl_row k q e # hits)"
      using h(1) Some Cons.prems by (simp add: kv qe ttl_row_def)
    moreover have "set (ttl_row k q e # hits) =
        {ttl_row k q e | k q e v. (k, v) \<in> set (kv # kvs) \<and> v_pending_ttl_decode v = Some (q, e)}"
      using h(2) Some by (auto simp: kv qe)
    ultimately show ?thesis by blast
  qed
qed simp

lemma unat_sat_mul64: "unat (sat_mul64 a b) = min (unat a * unat b) (2 ^ 64 - 1)"
proof -
  have "unat (- 1 :: u64) = 2 ^ 64 - 1" by (simp add: unsigned_minus_1_eq_mask mask_eq_exp_minus_1)
  then show ?thesis unfolding sat_mul64_def by (auto simp: unat_word_ariths)
qed

lemma short_le_timeout: "unat (ttl_short_ns t s) \<le> unat (sat_mul64 t 1000000000)"
  by (auto simp: ttl_short_ns_def unat_sat_mul64 word_less_nat_alt)

text \<open>No row that is due is outside the window.\<close>

lemma due_in_window:
  assumes "ttl_due now (sat_mul64 t 1000000000) (ttl_short_ns t s) q_ts st" "now < - 1"
  shows "q_ts \<le> sat_sub64 now (ttl_short_ns t s)"
proof -
  let ?t = "unat (sat_mul64 t 1000000000)" and ?s = "unat (ttl_short_ns t s)"
  have m: "unat now < 2 ^ 64 - 1"
    using assms(2) by (simp add: word_less_nat_alt unsigned_minus_1_eq_mask mask_eq_exp_minus_1)
  from assms(1) consider
    (base) "sat_add64 q_ts (sat_mul64 t 1000000000) \<le> now" |
    (fin) "0 < cs_fin_seen st \<and> q_ts \<le> cs_fin_seen st" "sat_add64 (cs_fin_seen st) (ttl_short_ns t s) \<le> now" |
    (none) "(- 1 :: u64) \<le> now"
    by (auto simp: ttl_due_def Let_def min_def not_less split: if_splits)
  then show ?thesis
  proof cases
    case base
    then have "unat q_ts + ?t \<le> unat now" using m by (simp add: word_le_nat_alt unat_sat_add64 min_def split: if_splits)
    then show ?thesis using short_le_timeout [of t s] by (simp add: word_le_nat_alt unat_sat_sub64)
  next
    case fin
    then have "unat (cs_fin_seen st) + ?s \<le> unat now" "unat q_ts \<le> unat (cs_fin_seen st)"
      using m by (simp_all add: word_le_nat_alt unat_sat_add64 min_def split: if_splits)
    then show ?thesis by (simp add: word_le_nat_alt unat_sat_sub64)
  next
    case none
    then show ?thesis using assms(2) by simp
  qed
qed

lemma in_window:
  assumes "length k = 16"
  shows "replicate 16 0 \<le> k \<and> k \<le> be64 x @ replicate 8 0xFF \<longleftrightarrow> of_be64 (take 8 k) \<le> x"
proof -
  have k: "k = be64 (of_be64 (take 8 k)) @ drop 8 k" using assms be_of_be64 [of "take 8 k"] by simp
  have "replicate 16 0 \<le> k" using assms bytes_bounds(1) [of k 16] by simp
  moreover have "drop 8 k \<le> replicate 8 0xFF" using assms bytes_bounds(2) [of "drop 8 k" 8] by simp
  moreover have "k \<le> be64 x @ replicate 8 0xFF \<longleftrightarrow>
      be64 (of_be64 (take 8 k)) < be64 x \<or> of_be64 (take 8 k) = x \<and> drop 8 k \<le> replicate 8 0xFF"
    by (subst k) (simp add: bytes_append_le_iff)
  ultimately show ?thesis by (auto simp: less_le)
qed

section \<open>The scan as a whole\<close>

lemma ttl_writeback_rows:
  "ttl_writeback L cs m = Some m' \<Longrightarrow> same_rows m m' \<and> tr_events m' = tr_events m"
proof (induction cs arbitrary: m)
  case (Cons c cs)
  obtain h st where c: "c = (h, st)" by force
  from Cons.prems obtain d where "lm_put L (qm_conn_state m) (k_conn_state h) (conn_state_to_bytes st) = Some d"
    "ttl_writeback L cs (m\<lparr>qm_conn_state := d,
       tr_stats := (tr_stats m)\<lparr>tt_conns_touched := tt_conns_touched (tr_stats m) + 1\<rparr>\<rparr>) = Some m'"
    by (auto simp: c elim!: bind_SomeE)
  from Cons.IH [OF this(2)] show ?case by (simp add: same_rows_def)
qed (simp add: same_rows_def)

context lmdb_total
begin

text \<open>The rows of the window that are due are the rows of the store that are due.\<close>

lemma scan_window:
  assumes inv: "qm_inv view db" and now: "now < - 1"
    and r: "lm_range L (qm_ttl db) (replicate 16 0)
      (be64 (sat_sub64 now (ttl_short_ns t s)) @ replicate 8 0xFF) = Some kvs"
  obtains hits where "ttl_hits kvs = Some hits"
    "\<forall>hit \<in> set hits. pair_known view db (th_q hit) \<and> length (th_key hit) = 16"
    "due_hits now (sat_mul64 t 1000000000) (ttl_short_ns t s) (ttl_begin db) (set hits) =
     due_hits now (sat_mul64 t 1000000000) (ttl_short_ns t s) (ttl_begin db) (ttl_rows view db)"
proof -
  have ok: "length k = 16 \<and> (\<exists>q e. v = v_pending_ttl_encode q e \<and> pair_known view db q)"
    if "view (qm_ttl db) k = Some v" for k v
    using inv that by (auto simp: qm_inv_def Let_def ttl_ok_def pair_known_def)
  have mem: "(k, v) \<in> set kvs \<longleftrightarrow> view (qm_ttl db) k = Some v \<and>
      of_be64 (take 8 k) \<le> sat_sub64 now (ttl_short_ns t s)" for k v
    using range_view [OF r] in_window [of k] ok by (auto simp: scan_of_def)
  then have "\<forall>(k, v) \<in> set kvs. length k = 16" using ok by blast
  then obtain hits where h: "ttl_hits kvs = Some hits"
    "set hits = {ttl_row k q e | k q e v. (k, v) \<in> set kvs \<and> v_pending_ttl_decode v = Some (q, e)}"
    using ttl_hits_rows by blast
  have known: "pair_known view db (th_q hit) \<and> length (th_key hit) = 16" if hit: "hit \<in> set hits" for hit
  proof -
    from hit h(2) obtain k q e v where kv: "(k, v) \<in> set kvs" "v_pending_ttl_decode v = Some (q, e)"
      "hit = ttl_row k q e" by blast
    with mem ok obtain q' e' where "v = v_pending_ttl_encode q' e'" "pair_known view db q'"
      "length k = 16" by blast
    with kv show ?thesis using ttl_value_decode [of q' e'] by (auto simp: ttl_row_def)
  qed
  have "due_hits now (sat_mul64 t 1000000000) (ttl_short_ns t s) (ttl_begin db) (set hits) =
     due_hits now (sat_mul64 t 1000000000) (ttl_short_ns t s) (ttl_begin db) (ttl_rows view db)"
    using due_in_window [OF _ now]
    by (fastforce simp: due_hits_def h(2) mem ttl_rows_def ttl_row_def)
  then show thesis using that h(1) known by blast
qed

lemma ttl_scan_txn_effect:
  assumes inv: "qm_inv view db" and now: "now < - 1" and 1: "ttl_scan_txn L now t s db = Some m'"
  shows "\<exists>m. expired view (due_hits now (sat_mul64 t 1000000000) (ttl_short_ns t s) (ttl_begin db)
      (ttl_rows view db)) (ttl_begin db) m \<and> keeps view (ttl_begin db) m \<and> same_rows m m'"
proof -
  let ?stat = "\<lambda>m n. m\<lparr>tr_stats := (tr_stats m)\<lparr>tt_scanned := n\<rparr>\<rparr>"
  from 1 obtain kvs hits m where
    r: "lm_range L (qm_ttl db) (replicate 16 0)
      (be64 (sat_sub64 now (ttl_short_ns t s)) @ replicate 8 0xFF) = Some kvs" and
    h: "ttl_hits kvs = Some hits" and
    l: "ttl_loop L now (sat_mul64 t 1000000000) (ttl_short_ns t s) hits
      (?stat (ttl_begin db) (of_nat (length kvs))) = Some m" and
    w: "ttl_writeback L (tr_conns m) m = Some m'"
    by (auto simp: ttl_scan_txn_def Let_def elim!: bind_SomeE)
  let ?m0 = "?stat (ttl_begin db) (of_nat (length kvs))"
  have b: "qm_inv view ?m0" "cache_ok view ?m0" "pair_known view ?m0 q = pair_known view db q" for q
    using inv by (simp_all add: ttl_begin_def dual_db.extend_def ttl_run.fields_def qm_inv_def
        cache_ok_def pair_known_def)
  obtain hits' where h': "ttl_hits kvs = Some hits'"
    "\<forall>hit \<in> set hits'. pair_known view db (th_q hit) \<and> length (th_key hit) = 16"
    "due_hits now (sat_mul64 t 1000000000) (ttl_short_ns t s) (ttl_begin db) (set hits') =
     due_hits now (sat_mul64 t 1000000000) (ttl_short_ns t s) (ttl_begin db) (ttl_rows view db)"
    using scan_window [OF inv now r] .
  with h have "\<forall>hit \<in> set hits. pair_known view ?m0 (th_q hit)" "hits' = hits" by (auto simp: b)
  with ttl_loop_effect [OF l b(1,2)] have
    "expired view (due_hits now (sat_mul64 t 1000000000) (ttl_short_ns t s) ?m0 (set hits)) ?m0 m"
    "keeps view ?m0 m" by blast+
  moreover have "due_hits now x y ?m0 H = due_hits now x y (ttl_begin db) H" for x y H
    by (simp add: due_hits_def conn_on_disk_def)
  moreover have "expired view D ?m0 m = expired view D (ttl_begin db) m" for D
    by (simp add: expired_def pending_less_def finalised_def)
  moreover have "keeps view ?m0 m = keeps view (ttl_begin db) m"
    by (simp add: keeps_def epoch_grows_def qm_inv_def)
  ultimately show ?thesis using ttl_writeback_rows [OF w] h'(3) \<open>hits' = hits\<close> by auto
qed

lemma begin_rows:
  "expired view D (ttl_begin db) m \<Longrightarrow>
     view (qm_ttl m) = view (qm_ttl db) |` (- th_key ` D) \<and>
     view (qm_live_pair m) = view (qm_live_pair db) |` (- hit_pair ` D) \<and>
     (\<forall>k. k \<notin> hit_pair ` D \<longrightarrow> view (qm_ep_pair m) k = view (qm_ep_pair db) k)"
  "keeps view (ttl_begin db) m \<Longrightarrow> qm_inv view db \<Longrightarrow> qm_inv view m \<and> epoch_grows view db m \<and>
     pairs_step (view (qm_live_pair db)) (view (qm_ep_pair db))
       (view (qm_live_pair m)) (view (qm_ep_pair m))"
  "conn_on_disk view (ttl_begin db) h = conn_on_disk view db h"
  by (simp_all add: expired_def ttl_begin_def dual_db.extend_def keeps_def epoch_grows_def
      qm_inv_def conn_on_disk_def)

lemma ttl_expire_total:
  assumes "qm_inv view m" "pair_known view m (th_q hit)" "length (th_key hit) = 16"
  shows "\<exists>m'. ttl_expire L now hit st m = Some m'"
proof -
  have valid: "valid_key (th_key hit)" using assms(3) by (simp add: valid_key_def)
  have clean: "\<exists>x. cleanup_pending L h q y = Some x" if "qm_inv view y" for h q and y :: "'a ttl_run"
  proof -
    obtain kvs where r: "lm_range L (qm_pending y) (be64 h @ replicate 8 0) (be64 h @ replicate 8 0xFF) =
        Some kvs" using range_total by fastforce
    have "valid_key k" if "find (names_request q) kvs = Some (k, v)" for k v
    proof -
      have "(k, v) \<in> set kvs" using that by (metis find_Some_iff nth_mem)
      then show ?thesis
        using range_view [OF r] \<open>qm_inv view y\<close>
        by (auto simp: scan_of_def qm_inv_def Let_def pending_ok_def valid_key_def)
    qed
    then have "lm_delete L (qm_pending y) k \<noteq> None" if "find (names_request q) kvs = Some (k, v)" for k v
      using delete_total that by blast
    then show ?thesis using r by (cases "find (names_request q) kvs") (auto simp: cleanup_pending_def)
  qed
  have del: "\<exists>d b. lm_delete L x (th_key hit) = Some (d, b)" for x using delete_Some [OF valid] .
  let ?kp = "hit_pair hit"
  obtain d b where d: "lm_delete L (qm_live_pair m) ?kp = Some (d, b)"
    using delete_Some [OF valid_keys(2)] by blast
  have p: "\<exists>e c. put_no_overwrite L (qm_ep_pair m) ?kp v = Some (e, c)" for v
    using put_new_Some [OF valid_keys(2)] .
  have k0: "qm_inv view (m\<lparr>qm_live_pair := x, qm_ep_pair := y\<rparr>)"
    if "migrated view (th_q hit) timed_out m x y b" for x y b
    using keeps_pairs [OF refl migrated_pairs_step [OF that]] assms(1) by (simp add: keeps_def)
  show ?thesis
  proof (cases "view (qm_ep_pair m) ?kp")
    case (Some w)
    then have "migrated view (th_q hit) timed_out m d (qm_ep_pair m) False"
      using delete_view [OF d] by (simp add: migrated_def Let_def)
    from clean [OF k0 [OF this]] obtain m1 where
      "cleanup_pending L (th_conn hit) (th_q hit) (m\<lparr>qm_live_pair := d\<rparr>) = Some m1" by auto
    moreover obtain t c where "lm_delete L (qm_ttl m1) (th_key hit) = Some (t, c)" using del by blast
    ultimately show ?thesis using Some d by (simp add: ttl_expire_def Let_def get_Some)
  next
    case None
    then obtain v where v: "view (qm_live_pair m) ?kp = Some v"
      using assms(2) by (auto simp: pair_known_def known_def)
    then obtain pair where pair: "qr_pair_decode v = Some pair" "qp_status pair = 0"
      using assms(1) pending_row_decode [of v] by (auto simp: qm_inv_def Let_def pairs_ok_def)
    obtain e c where e: "put_no_overwrite L (qm_ep_pair m) ?kp (qr_pair_encode (timed_out pair)) =
        Some (e, c)" using p by blast
    have "migrated view (th_q hit) timed_out m d e True"
      using delete_view [OF d] put_no_overwrite_view [OF e] None v pair
      by (auto simp: migrated_def Let_def upd_new_def)
    from clean [OF k0 [OF this]] obtain m1 where
      m1: "cleanup_pending L (th_conn hit) (th_q hit) (m\<lparr>qm_live_pair := d, qm_ep_pair := e\<rparr>) = Some m1"
      by auto
    have eq: "m\<lparr>qm_ep_pair := e, qm_live_pair := d\<rparr> = m\<lparr>qm_live_pair := d, qm_ep_pair := e\<rparr>" by simp
    obtain t c where "lm_delete L (qm_ttl m1) (th_key hit) = Some (t, c)" using del by blast
    then show ?thesis
      using None v pair d e m1 by (simp add: ttl_expire_def Let_def get_Some eq [symmetric] del: eq)
  qed
qed

lemma ttl_loop_total:
  "qm_inv view m \<Longrightarrow> cache_ok view m \<Longrightarrow>
   \<forall>hit \<in> set hits. pair_known view m (th_q hit) \<and> length (th_key hit) = 16 \<Longrightarrow>
   \<exists>m'. ttl_loop L now t s hits m = Some m'"
proof (induction hits arbitrary: m)
  case (Cons hit hits)
  obtain st ma where l: "ttl_load_conn L (th_conn hit) m = (st, ma)" by force
  note le = ttl_load_conn_effect [OF l Cons.prems(2)]
  obtain c where ma: "ma = m\<lparr>tr_conns := c\<rparr>" using le(3) by blast
  have inv: "qm_inv view ma" using Cons.prems(1) by (simp add: ma qm_inv_def)
  have known: "\<forall>x \<in> set (hit # hits). pair_known view ma (th_q x) \<and> length (th_key x) = 16"
    using Cons.prems(3) by (simp add: ma pair_known_def)
  show ?case
  proof (cases "ttl_due now t s (th_q_ts hit) st")
    case False
    with Cons.IH [OF inv le(2)] known l show ?thesis by simp
  next
    case True
    obtain mb where b: "ttl_expire L now hit st ma = Some mb"
      using ttl_expire_total [OF inv] known by fastforce
    have l1: "ttl_loop L now t s [hit] m = Some mb" using True l b by simp
    have known': "pair_known view ma (th_q hit)" using known by simp
    note be = ttl_expire_effect [OF b inv known']
    have "cache_ok view mb"
      using ttl_expire_cache [OF b inv known' le(2)] le(1) by (simp add: ma conn_on_disk_def)
    moreover have "qm_inv view mb" using be(2) inv by (simp add: keeps_def)
    moreover have "\<forall>x \<in> set hits. pair_known view mb (th_q x) \<and> length (th_key x) = 16"
      using known keeps_known [OF be(2)] by simp
    ultimately show ?thesis using Cons.IH [of mb] True l b by simp
  qed
qed simp

lemma ttl_writeback_total: "\<exists>m'. ttl_writeback L cs m = Some m'"
proof (induction cs arbitrary: m)
  case (Cons c cs)
  obtain h st where c: "c = (h, st)" by force
  obtain d where "lm_put L (qm_conn_state m) (k_conn_state h) (conn_state_to_bytes st) = Some d"
    using put_total [OF valid_keys(1)] by blast
  then show ?case using Cons.IH by (simp add: c)
qed simp

lemma ttl_scan_txn_total:
  assumes inv: "qm_inv view db" and now: "now < - 1"
  shows "\<exists>m. ttl_scan_txn L now t s db = Some m"
proof -
  obtain kvs where r: "lm_range L (qm_ttl db) (replicate 16 0)
      (be64 (sat_sub64 now (ttl_short_ns t s)) @ replicate 8 0xFF) = Some kvs"
    using range_total by fastforce
  obtain hits where h: "ttl_hits kvs = Some hits"
    "\<forall>hit \<in> set hits. pair_known view db (th_q hit) \<and> length (th_key hit) = 16"
    by (rule scan_window [OF inv now r])
  let ?m0 = "(ttl_begin db)\<lparr>tr_stats := (tr_stats (ttl_begin db))\<lparr>tt_scanned := of_nat (length kvs)\<rparr>\<rparr>"
  have "qm_inv view ?m0" "cache_ok view ?m0" "pair_known view ?m0 q = pair_known view db q" for q
    using inv by (simp_all add: ttl_begin_def dual_db.extend_def ttl_run.fields_def qm_inv_def
        cache_ok_def pair_known_def)
  with h obtain m where "ttl_loop L now (sat_mul64 t 1000000000) (ttl_short_ns t s) hits ?m0 = Some m"
    using ttl_loop_total [of ?m0 hits] by simp blast
  then show ?thesis using r h(1) ttl_writeback_total by (simp add: ttl_scan_txn_def Let_def)
qed

lemma scan_keeps:
  assumes inv: "qm_inv view db" and now: "now < - 1"
  shows "\<exists>db' events stats. scan_pending_ttl L now t s db = Some (db', events, stats) \<and>
    qm_inv view db' \<and> epoch_grows view db db' \<and>
    pairs_step (view (qm_live_pair db)) (view (qm_ep_pair db))
      (view (qm_live_pair db')) (view (qm_ep_pair db'))"
proof (cases "t = 0")
  case False
  obtain m' where m': "ttl_scan_txn L now t s db = Some m'" using ttl_scan_txn_total [OF inv now] by blast
  obtain m where m: "keeps view (ttl_begin db) m" "same_rows m m'"
    using ttl_scan_txn_effect [OF inv now m'] by blast
  have "keeps view (ttl_begin db) m'" by (rule keeps_trans [OF m(1) same_rows_keeps [OF m(2)]])
  from begin_rows(2) [OF this inv] show ?thesis
    using m' False
    by (simp add: scan_pending_ttl_def dual_db.truncate_def qm_inv_def epoch_grows_def)
qed (simp add: scan_pending_ttl_def inv)

end

section \<open>Properties\<close>

lemma scan_pending_ttl_Some:
  assumes "scan_pending_ttl L now t s db = Some (db', events, stats)" "0 < t"
  obtains m where "ttl_scan_txn L now t s db = Some m" "db' = dual_db.truncate m"
proof -
  have "t \<noteq> 0" using assms(2) by auto
  then show thesis using assms(1) that by (auto simp: scan_pending_ttl_def elim!: bind_SomeE)
qed

lemma truncate_rows:
  "qm_ttl (dual_db.truncate m) = qm_ttl m" "qm_live_pair (dual_db.truncate m) = qm_live_pair m"
  "qm_ep_pair (dual_db.truncate m) = qm_ep_pair m"
  "qm_inv view (dual_db.truncate m) = qm_inv view m"
  "epoch_grows view db (dual_db.truncate m) = epoch_grows view db m"
  by (simp_all add: dual_db.truncate_def qm_inv_def epoch_grows_def)

text \<open>C11: The time-out scan expires exactly the requests that are due, over all TTL rows of the
  store, although it only reads the window up to now minus the shorter time-out: their TTL rows and
  live pairs go, all other TTL rows and pairs stay, and each expired pair that was not final yet is
  in the epoch store with status \<open>TIMEOUT\<close>.\<close>

theorem ttl_scan_exact:
  assumes "lmdb_total L view" "qm_inv view db" "0 < t" "now < - 1"
    and "scan_pending_ttl L now t s db = Some (db', events, stats)"
    and "D = {hit \<in> ttl_rows view db. ttl_due now (sat_mul64 t 1000000000) (ttl_short_ns t s)
      (th_q_ts hit) (conn_on_disk view db (th_conn hit))}"
  shows "view (qm_ttl db') = view (qm_ttl db) |` (- th_key ` D) \<and>
    view (qm_live_pair db') = view (qm_live_pair db) |` (- hit_pair ` D) \<and>
    (\<forall>k. k \<notin> hit_pair ` D \<longrightarrow> view (qm_ep_pair db') k = view (qm_ep_pair db) k) \<and>
    (\<forall>hit \<in> D. finalised view {timed_out} db db' (th_q hit))"
proof -
  from assms(5,3) obtain m' where 1: "ttl_scan_txn L now t s db = Some m'" "db' = dual_db.truncate m'"
    by (rule scan_pending_ttl_Some)
  from lmdb_total.ttl_scan_txn_effect [OF assms(1,2,4) 1(1)] obtain m where
    m: "expired view (lmdb_total.due_hits view now (sat_mul64 t 1000000000) (ttl_short_ns t s)
      (ttl_begin db) (ttl_rows view db)) (ttl_begin db) m" and same: "same_rows m m'" by blast
  have "lmdb_total.due_hits view now (sat_mul64 t 1000000000) (ttl_short_ns t s)
      (ttl_begin db) (ttl_rows view db) = D"
    by (simp add: lmdb_total.due_hits_def [OF assms(1)] assms(6) lmdb_total.begin_rows(3) [OF assms(1)])
  with m have m: "expired view D (ttl_begin db) m" by simp
  then have f: "\<forall>hit \<in> D. finalised view {timed_out} (ttl_begin db) m (th_q hit)" by (simp add: expired_def)
  have "\<forall>hit \<in> D. finalised view {timed_out} db db' (th_q hit)"
    using f same by (simp add: finalised_def 1(2) truncate_rows same_rows_def ttl_begin_def dual_db.extend_def)
  then show ?thesis
    using lmdb_total.begin_rows(1) [OF assms(1) m] same by (simp add: 1(2) truncate_rows same_rows_def)
qed

theorem ttl_scan_exact_witness:
  "\<exists>db db' events stats. map_of (qm_ttl db) (k_pending_ttl 1000 7) \<noteq> None \<and>
     scan_pending_ttl ref_lmdb 1000000000000 1 0 db = Some (db', events, stats) \<and>
     map_of (qm_ttl db') (k_pending_ttl 1000 7) = None"
proof (rule sample_opened)
  fix m :: "(bytes \<times> bytes) list qr_matcher"
  let ?k = "k_pending_ttl 1000 7" and ?v = "v_pending_ttl_encode (ir_idx sample_record) 105"
  let ?db = "dual_db.truncate m"
  assume m: "qm_inv map_of m" "map_of (qm_ttl m) ?k = Some ?v"
  have inv: "qm_inv map_of ?db" using m(1) by (simp add: truncate_rows)
  have now: "(1000000000000 :: u64) < - 1"
    by (simp add: word_less_nat_alt unsigned_minus_1_eq_mask mask_eq_exp_minus_1)
  obtain db' events stats where s: "scan_pending_ttl ref_lmdb 1000000000000 1 0 ?db = Some (db', events, stats)"
    using ref.scan_keeps [OF inv now] by blast
  obtain e where e: "v_pending_ttl_decode ?v = Some (ir_idx sample_record, e)" using ttl_value_decode by blast
  let ?hit = "ttl_row ?k (ir_idx sample_record) e"
  let ?D = "{hit \<in> ttl_rows map_of ?db. ttl_due 1000000000000 (sat_mul64 1 1000000000)
    (ttl_short_ns 1 0) (th_q_ts hit) (conn_on_disk map_of ?db (th_conn hit))}"
  have "th_q_ts ?hit = 1000" by (simp add: ttl_row_def k_pending_ttl_def put_u64_def)
  moreover have "ttl_due 1000000000000 (sat_mul64 1 1000000000) (ttl_short_ns 1 0) 1000 st" for st
  proof -
    have "sat_add64 1000 (sat_mul64 1 1000000000) \<le> (1000000000000 :: u64)"
      by (simp add: sat_mul64_def sat_add64_def)
    then show ?thesis by (simp add: ttl_due_def Let_def not_less min.coboundedI1)
  qed
  moreover have "?hit \<in> ttl_rows map_of ?db" using m(2) e by (auto simp: ttl_rows_def truncate_rows)
  ultimately have "?hit \<in> ?D" by simp
  then have "?k \<in> th_key ` ?D" by (force simp: ttl_row_def)
  moreover have "map_of (qm_ttl db') = map_of (qm_ttl ?db) |` (- th_key ` ?D)"
    using ttl_scan_exact [OF ref.lmdb_total_axioms inv _ now s refl] by simp
  ultimately have "map_of (qm_ttl db') ?k = None" by (simp only: restrict_map_def) simp
  with m(2) s show ?thesis by (metis option.distinct(1) truncate_rows(1))
qed

text \<open>C28: The time-out scan always returns, keeps both stores in order and only adds to the epoch
  store.\<close>

theorem ttl_scan_keeps_stores:
  assumes "lmdb_total L view" "qm_inv view db" "now < - 1"
  shows "\<exists>db' events stats. scan_pending_ttl L now t s db = Some (db', events, stats) \<and>
    qm_inv view db' \<and> epoch_grows view db db'"
  using lmdb_total.scan_keeps [OF assms] by blast

theorem ttl_scan_keeps_stores_witness:
  "\<exists>db' events stats. scan_pending_ttl ref_lmdb 1000000000000 1 0 no_rows = Some (db', events, stats) \<and>
     qm_inv map_of db'"
proof -
  have "(1000000000000 :: u64) < - 1"
    by (simp add: word_less_nat_alt unsigned_minus_1_eq_mask mask_eq_exp_minus_1)
  from ttl_scan_keeps_stores [OF ref.lmdb_total_axioms no_rows_inv this] show ?thesis by blast
qed

end
