(* ===== verification/System.thy ===== *)
theory System
  imports Anomaly_Facts
begin

text \<open>
  The index plane as a state machine: the two stores, and the operations that commit to them.  A
  step is a committed batch, a batch whose process died between the two commits and was replayed on
  restart, or a time-out scan.  (A crash before the first commit changes nothing.)
\<close>

section \<open>Steps\<close>

inductive index_step ::
  "'d lmdb \<Rightarrow> wal_consts \<Rightarrow> 'd dual_db \<Rightarrow> 'd dual_db \<Rightarrow> bool" for L C where
  batch: "stage_lmdb_with_meta L C db records tol meta = Some (db', out) \<Longrightarrow> index_step L C db db'"
| recovery: "epoch_only L C db records tol meta = Some crashed \<Longrightarrow>
    stage_lmdb_with_meta L C crashed records tol meta = Some (db', out) \<Longrightarrow> index_step L C db db'"
| ttl_scan: "now < - 1 \<Longrightarrow> scan_pending_ttl L now qr_timeout fin_short db = Some (db', events, stats) \<Longrightarrow>
    index_step L C db db'"

inductive index_reach ::
  "'d lmdb \<Rightarrow> wal_consts \<Rightarrow> 'd dual_db \<Rightarrow> 'd dual_db \<Rightarrow> bool" for L C db where
  start: "index_reach L C db db"
| step: "index_reach L C db db1 \<Longrightarrow> index_step L C db1 db2 \<Longrightarrow> index_reach L C db db2"

inductive_cases index_stepE: "index_step L C db db'"

context lmdb_total
begin

lemma recovery_advances:
  assumes "epoch_only L C db records tol meta = Some crashed"
    and "stage_lmdb_with_meta L C crashed records tol meta = Some (db'', out)" "qm_inv view db"
  shows "stores_advance view db db''"
proof -
  obtain db' out' where run: "stage_lmdb_with_meta L C db records tol meta = Some (db', out')"
    using crash_returns [OF assms(1)] by blast
  have "live_eq view db' db''" "epoch_eq view db' db''"
    using replay_converges [OF assms(3) run assms(1)] assms(2) by auto
  then show ?thesis using stores_advance_view [OF batch_advances [OF run assms(3)]] by blast
qed

lemma ttl_scan_advances:
  assumes "now < - 1" "scan_pending_ttl L now t s db = Some (db', events, stats)" "qm_inv view db"
  shows "stores_advance view db db'"
  using scan_keeps [OF assms(3,1), of t s] assms(2) by (auto simp: stores_advance_def)

lemma step_advances: "index_step L C db db' \<Longrightarrow> qm_inv view db \<Longrightarrow> stores_advance view db db'"
  by (erule index_stepE) (blast intro: batch_advances recovery_advances ttl_scan_advances)+

lemma reach_advances: "index_reach L C db db' \<Longrightarrow> qm_inv view db \<Longrightarrow> stores_advance view db db'"
proof (induction rule: index_reach.induct)
  case start
  then show ?case by (rule stores_advance_refl)
next
  case (step db1 db2)
  then show ?case
    using stores_advance_trans step_advances by (metis stores_advance_def)
qed

end

section \<open>Properties\<close>

lemma known_after: "stores_advance view db db' \<Longrightarrow> known (view (qm_live_pair db)) (view (qm_ep_pair db)) q \<Longrightarrow>
   known (view (qm_live_pair db')) (view (qm_ep_pair db')) q"
  using pairs_step_known [of "view (qm_live_pair db)" "view (qm_ep_pair db)"]
  by (simp add: stores_advance_def)

text \<open>C8: Whatever batches, crashes between two commits with their replays, and time-out scans
  follow each other, both stores stay in order: live pairs are pending, epoch pairs final, and every
  index, pending and TTL row names a pair that one of the stores has.\<close>

theorem reachable_stores_in_order:
  assumes "lmdb_total L view" "qm_inv view db" "index_reach L C db db'"
  shows "qm_inv view db'"
  using lmdb_total.reach_advances [OF assms(1,3,2)] by (simp add: stores_advance_def)

text \<open>C10: History is never rewritten and no request is lost.  A row of the epoch store keeps its
  value in every later state, and a request that one of the stores has is in one of the stores in
  every later state.\<close>

theorem history_is_kept:
  assumes "lmdb_total L view" "qm_inv view db" "index_reach L C db db'"
  shows "epoch_grows view db db' \<and>
    (\<forall>q. known (view (qm_live_pair db)) (view (qm_ep_pair db)) q \<longrightarrow>
      known (view (qm_live_pair db')) (view (qm_ep_pair db')) q)"
  using lmdb_total.reach_advances [OF assms(1,3,2)] known_after
  by (auto simp: stores_advance_def)

text \<open>A run: a batch, the same batch again after a crash between its commits, and a scan.\<close>

lemma sample_history_run:
  obtains db1 where "index_step ref_lmdb sample_consts no_rows db1"
    "map_of (qm_record_ts db1) (k_record_ts 1000 (ir_idx sample_record)) \<noteq> None"
    "\<exists>db2. index_step ref_lmdb sample_consts db1 db2"
proof -
  obtain db1 out where s: "stage_lmdb_with_meta ref_lmdb sample_consts no_rows [sample_record] 0 None =
      Some (db1, out)" using ref.stage_total [OF no_rows_inv] by blast
  have inv: "qm_inv map_of db1"
    using ref.batch_advances [OF s no_rows_inv] by (simp add: stores_advance_def)
  have now: "(1000000000000 :: u64) < - 1"
    by (simp add: word_less_nat_alt unsigned_minus_1_eq_mask mask_eq_exp_minus_1)
  obtain db2 events stats where t: "scan_pending_ttl ref_lmdb 1000000000000 1 0 db1 = Some (db2, events, stats)"
    using ref.scan_keeps [OF inv now] by blast
  have "wr_timestamp_ns (ir_rec sample_record) = 1000" by (simp add: sample_record_def sample_wal_def)
  then have "map_of (qm_record_ts db1) (k_record_ts 1000 (ir_idx sample_record)) \<noteq> None"
    using ref.batch_indexed [OF s, of sample_record] by simp
  then show thesis using that index_step.batch [OF s] index_step.ttl_scan [OF now t] by blast
qed

theorem reachable_stores_in_order_witness:
  "\<exists>db1 db2. index_step ref_lmdb sample_consts no_rows db1 \<and>
     index_reach ref_lmdb sample_consts no_rows db2 \<and> db2 \<noteq> no_rows \<and> qm_inv map_of db2"
proof (rule sample_history_run)
  fix db1 :: "(bytes \<times> bytes) list dual_db"
  assume s: "index_step ref_lmdb sample_consts no_rows db1"
    "map_of (qm_record_ts db1) (k_record_ts 1000 (ir_idx sample_record)) \<noteq> None"
  then have r: "index_reach ref_lmdb sample_consts no_rows db1"
    by (blast intro: index_reach.intros)
  moreover have "db1 \<noteq> no_rows" using s(2) by (auto simp: no_rows_def)
  ultimately show ?thesis
    using s(1) reachable_stores_in_order [OF ref.lmdb_total_axioms no_rows_inv r] by blast
qed

theorem history_is_kept_witness:
  "\<exists>db1 db2. index_reach ref_lmdb sample_consts db1 db2 \<and>
     map_of (qm_record_ts db1) (k_record_ts 1000 (ir_idx sample_record)) \<noteq> None \<and>
     map_of (qm_record_ts db2) (k_record_ts 1000 (ir_idx sample_record)) =
     map_of (qm_record_ts db1) (k_record_ts 1000 (ir_idx sample_record))"
proof (rule sample_history_run)
  fix db1 :: "(bytes \<times> bytes) list dual_db"
  assume s: "index_step ref_lmdb sample_consts no_rows db1"
    "map_of (qm_record_ts db1) (k_record_ts 1000 (ir_idx sample_record)) \<noteq> None"
    "\<exists>db2. index_step ref_lmdb sample_consts db1 db2"
  then obtain db2 where r: "index_reach ref_lmdb sample_consts db1 db2"
    by (blast intro: index_reach.intros)
  have inv: "qm_inv map_of db1"
    using ref.step_advances [OF s(1) no_rows_inv] by (simp add: stores_advance_def)
  have "map_of (qm_record_ts db1) \<subseteq>\<^sub>m map_of (qm_record_ts db2)"
    using history_is_kept [OF ref.lmdb_total_axioms inv r] by (simp add: epoch_grows_def)
  then have "map_of (qm_record_ts db2) (k_record_ts 1000 (ir_idx sample_record)) =
     map_of (qm_record_ts db1) (k_record_ts 1000 (ir_idx sample_record))"
    using s(2) unfolding map_le_def by (metis domIff)
  then show ?thesis using r s(2) by (intro exI conjI)
qed

end
