(* ===== verification/Batch.thy ===== *)
theory Batch
  imports Ledger System
begin

text \<open>
  The batch pipeline of \<open>src/src/batch.rs\<close>: records are appended to the open data file, collected,
  and committed as one batch, the index plane first and the SQLite watermark last.  A call returns
  the state it leaves and whether it succeeded, since a failed call keeps its partial effects.

  The file system is a map from paths to contents.  The encoding of a record belongs to the crate
  \<open>sov_probe\<close> and is the parameter \<open>enc\<close>; the clock is the parameter \<open>now\<close>.
\<close>

section \<open>Files\<close>

type_synonym files = "string \<Rightarrow> bytes option"

record file_handle =
  fh_path :: string
  fh_pos :: nat

text \<open>\<open>write_all\<close> at the cursor, \<open>set_len\<close> (which may extend with zeros), \<open>seek\<close> from the start.\<close>

definition fs_write :: "bytes \<Rightarrow> file_handle \<Rightarrow> files \<Rightarrow> file_handle \<times> files" where
  "fs_write buf f fs =
     (let old = (case fs (fh_path f) of None \<Rightarrow> [] | Some b \<Rightarrow> b);
          head_part = take (fh_pos f) old @ replicate (fh_pos f - length old) 0
      in (f\<lparr>fh_pos := fh_pos f + length buf\<rparr>,
          fs(fh_path f \<mapsto> head_part @ buf @ drop (fh_pos f + length buf) old)))"

definition fs_set_len :: "nat \<Rightarrow> string \<Rightarrow> files \<Rightarrow> files" where
  "fs_set_len n path fs =
     (case fs path of None \<Rightarrow> fs | Some b \<Rightarrow> fs(path \<mapsto> take n b @ replicate (n - length b) 0))"

section \<open>The hot file writer\<close>

record hot_writer =
  hw_dir :: string
  hw_dev_id :: int
  hw_segment_seq :: u32
  hw_segment_size :: u64
  hw_file :: "file_handle option"
  hw_path :: string
  hw_file_id :: u32
  hw_offset :: u64

record world =
  w_ledger :: ledger
  w_fs :: files

definition pad4 :: "string \<Rightarrow> string" where
  "pad4 s = replicate (4 - length s) (CHR ''0'') @ s"

definition segment_path :: "string \<Rightarrow> u32 \<Rightarrow> string" where
  "segment_path dir seq = dir @ ''/segment_'' @ pad4 (show_nat (unat seq)) @ ''.wal''"

text \<open>\<open>ensure_open\<close>: the file is created first, so it stays when the ledger refuses the row.\<close>

definition ensure_open :: "int \<Rightarrow> hot_writer \<Rightarrow> 'z world_scheme \<Rightarrow> (hot_writer \<times> 'z world_scheme) \<times> bool" where
  "ensure_open now hw w =
     (if hw_file hw \<noteq> None then ((hw, w), True)
      else
        let path = segment_path (hw_dir hw) (hw_segment_seq hw)
        in if w_fs w path \<noteq> None then ((hw, w), False)
           else
             let w = w\<lparr>w_fs := (w_fs w)(path \<mapsto> [])\<rparr>
             in case insert_file path WalFile (hw_dev_id hw) (Some (uint (hw_segment_seq hw))) now (w_ledger w) of
                  None \<Rightarrow> ((hw, w), False)
                | Some (g, fid) \<Rightarrow>
                    ((hw\<lparr>hw_file := Some \<lparr>fh_path = path, fh_pos = 0\<rparr>, hw_path := path,
                         hw_file_id := word_of_int fid, hw_offset := 0\<rparr>, w\<lparr>w_ledger := g\<rparr>), True))"

definition hot_open ::
  "int \<Rightarrow> string \<Rightarrow> int \<Rightarrow> u32 \<Rightarrow> u64 \<Rightarrow> 'z world_scheme \<Rightarrow> (hot_writer \<times> 'z world_scheme) \<times> bool" where
  "hot_open now dir dev_id seq seg_size w =
     ensure_open now \<lparr>hw_dir = dir, hw_dev_id = dev_id, hw_segment_seq = seq, hw_segment_size = seg_size,
       hw_file = None, hw_path = [], hw_file_id = 0, hw_offset = 0\<rparr> w"

text \<open>\<open>rotate\<close>: seal the file and open the next segment.\<close>

definition hot_rotate :: "int \<Rightarrow> hot_writer \<Rightarrow> 'z world_scheme \<Rightarrow> (hot_writer \<times> 'z world_scheme) \<times> bool" where
  "hot_rotate now hw w =
     (let hw = hw\<lparr>hw_file := None\<rparr>;
          w = (if hw_file_id hw \<noteq> 0
               then w\<lparr>w_ledger := set_file_state (uint (hw_file_id hw)) FileSealed (w_ledger w)\<rparr> else w)
      in ensure_open now (hw\<lparr>hw_segment_seq := hw_segment_seq hw + 1\<rparr>) w)"

definition rec_len64 :: "wal_record \<Rightarrow> u64" where
  "rec_len64 r = of_nat (64 + length (wr_payload r))"

text \<open>\<open>append\<close>; a write without an open file (after a failed rotation) panics.\<close>

definition hot_append ::
  "(wal_record \<Rightarrow> bytes) \<Rightarrow> int \<Rightarrow> wal_record \<Rightarrow> hot_writer \<Rightarrow> 'z world_scheme \<Rightarrow>
     (hot_writer \<times> 'z world_scheme) \<times> (u32 \<times> u32) option" where
  "hot_append enc now r hw w =
     (let ((hw, w), ok) = (if hw_segment_size hw < hw_offset hw + rec_len64 r
                           then hot_rotate now hw w else ((hw, w), True))
      in if \<not> ok then ((hw, w), None)
         else case hw_file hw of
             None \<Rightarrow> ((hw, w), None)
           | Some f \<Rightarrow>
               let off = ucast (hw_offset hw);
                   (f, fs) = fs_write (enc r) f (w_fs w)
               in ((hw\<lparr>hw_file := Some f, hw_offset := hw_offset hw + rec_len64 r\<rparr>, w\<lparr>w_fs := fs\<rparr>),
                   Some (hw_file_id hw, off)))"

text \<open>\<open>recover\<close>: back to the watermark.\<close>

definition hot_recover :: "hot_writer \<Rightarrow> 'z world_scheme \<Rightarrow> (hot_writer \<times> 'z world_scheme) option" where
  "hot_recover hw w =
     (if hw_file_id hw = 0 then Some (hw, w)
      else do {
        wm \<leftarrow> watermark (uint (hw_file_id hw)) (w_ledger w);
        let (hw, w) = (case hw_file hw of
            None \<Rightarrow> (hw, w)
          | Some f \<Rightarrow> (hw\<lparr>hw_file := Some (f\<lparr>fh_pos := unat wm\<rparr>)\<rparr>,
                       w\<lparr>w_fs := fs_set_len (unat wm) (fh_path f) (w_fs w)\<rparr>));
        Some (hw\<lparr>hw_offset := wm\<rparr>, w)
      })"

text \<open>\<open>open_or_recover\<close>: reuse the open file of the device, cut to its watermark.\<close>

definition hot_open_or_recover ::
  "int \<Rightarrow> string \<Rightarrow> int \<Rightarrow> u32 \<Rightarrow> u64 \<Rightarrow> 'z world_scheme \<Rightarrow> (hot_writer \<times> 'z world_scheme) \<times> bool" where
  "hot_open_or_recover now dir dev_id seq seg_size w =
     (case open_file_for_dev dev_id (w_ledger w) of
        None \<Rightarrow> hot_open now dir dev_id seq seg_size w
      | Some fr \<Rightarrow>
          let hw = \<lparr>hw_dir = dir, hw_dev_id = dev_id,
                hw_segment_seq = word_of_int (case of_segment_seq fr of None \<Rightarrow> uint seq | Some s \<Rightarrow> s),
                hw_segment_size = seg_size,
                hw_file = Some \<lparr>fh_path = of_path fr, fh_pos = unat (of_watermark fr)\<rparr>,
                hw_path = of_path fr, hw_file_id = word_of_int (of_file_id fr),
                hw_offset = of_watermark fr\<rparr>
          in if w_fs w (of_path fr) = None then ((hw, w), False)
             else ((hw, w\<lparr>w_fs := fs_set_len (unat (of_watermark fr)) (of_path fr) (w_fs w)\<rparr>), True))"

section \<open>The SQLite stage\<close>

text \<open>The largest committed end per file.\<close>

definition batch_ends :: "indexed_record list \<Rightarrow> (u32 \<times> u64) list" where
  "batch_ends records =
     foldl (\<lambda>ends r.
       let e = (case map_of ends (ir_file_id r) of None \<Rightarrow> 0 | Some e \<Rightarrow> e);
           rec_end = ucast (ir_offset r) + of_nat (ir_rec_len r)
       in AList.update (ir_file_id r) (if e < rec_end then rec_end else e) ends) [] records"

fun advance_all :: "(u32 \<times> u64) list \<Rightarrow> ledger \<Rightarrow> ledger \<times> bool" where
  "advance_all [] g = (g, True)"
| "advance_all ((fid, off) # ends) g =
     (case advance_watermark (uint fid) off g of
        None \<Rightarrow> (g, False)
      | Some g \<Rightarrow> advance_all ends g)"

definition stage_sqlite :: "indexed_record list \<Rightarrow> ledger \<Rightarrow> ledger \<times> bool" where
  "stage_sqlite records g = advance_all (batch_ends records) g"

text \<open>The rows that are written as far as possible after the watermark.\<close>

definition write_ext_meta :: "int \<Rightarrow> ext_meta_event list \<Rightarrow> ledger \<Rightarrow> ledger" where
  "write_ext_meta now evs g =
     foldl (\<lambda>g ev. fst (ext_meta_upsert (uint (em_protocol_hint ev)) (em_magic_prefix ev)
       (em_entropy ev) (em_has_fixed_header ev) (uint (em_dst_port ev)) now g)) g evs"

definition write_conn_archives :: "int \<Rightarrow> conn_archive_event list \<Rightarrow> ledger \<Rightarrow> ledger" where
  "write_conn_archives now archives g =
     foldl (\<lambda>g a. upsert_conn_archive \<lparr>cr_conn_hash = sint (ca_conn_hash a),
       cr_first_ts = Some (sint (ca_first_ts a)), cr_last_ts = Some (sint (ca_last_ts a)),
       cr_state = uint (ca_state a), cr_updated_at = now\<rparr> g) g archives"

text \<open>The planes that all pipelines share: index stores, ledger and files.\<close>

record 'd planes = world +
  w_db :: "'d dual_db"

definition commit_batch_with_meta ::
  "'d lmdb \<Rightarrow> wal_consts \<Rightarrow> int \<Rightarrow> indexed_record list \<Rightarrow> u32 \<Rightarrow> meta_registry option \<Rightarrow>
     'd planes \<Rightarrow> 'd planes \<times> bool" where
  "commit_batch_with_meta L C now records ack_tol meta w =
     (case stage_lmdb_with_meta L C (w_db w) records ack_tol meta of
        None \<Rightarrow> (w, False)
      | Some (db, anomalies, ext_meta, archives) \<Rightarrow>
          let (g, ok) = stage_sqlite records (w_ledger w)
          in if \<not> ok then (w\<lparr>w_db := db, w_ledger := g\<rparr>, False)
             else (w\<lparr>w_db := db, w_ledger := write_conn_archives now archives
               (write_ext_meta now ext_meta (insert_anomalies anomalies g))\<rparr>, True))"

section \<open>The pipeline\<close>

record pipeline =
  pl_hot :: hot_writer
  pl_pending :: "indexed_record list"
  pl_batch_size :: u32
  pl_ack_tol :: u32
  pl_meta :: "meta_registry option"

definition pipeline_of :: "u32 \<Rightarrow> u32 \<Rightarrow> hot_writer \<Rightarrow> pipeline" where
  "pipeline_of batch_size ack_tol hw =
     \<lparr>pl_hot = hw, pl_pending = [], pl_batch_size = batch_size, pl_ack_tol = ack_tol, pl_meta = None\<rparr>"

text \<open>A failing constructor returns no pipeline.\<close>

definition pipeline_new ::
  "int \<Rightarrow> string \<Rightarrow> int \<Rightarrow> u32 \<Rightarrow> u64 \<Rightarrow> u32 \<Rightarrow> u32 \<Rightarrow> 'd planes \<Rightarrow> 'd planes \<times> pipeline option" where
  "pipeline_new now dir dev_id seq seg_size batch_size ack_tol w =
     (let ((hw, w), ok) = hot_open now dir dev_id seq seg_size w
      in (w, if ok then Some (pipeline_of batch_size ack_tol hw) else None))"

definition pipeline_open_or_recover ::
  "int \<Rightarrow> string \<Rightarrow> int \<Rightarrow> u32 \<Rightarrow> u64 \<Rightarrow> u32 \<Rightarrow> u32 \<Rightarrow> 'd planes \<Rightarrow> 'd planes \<times> pipeline option" where
  "pipeline_open_or_recover now dir dev_id seq seg_size batch_size ack_tol w =
     (let ((hw, w), ok) = hot_open_or_recover now dir dev_id seq seg_size w
      in (w, if ok then Some (pipeline_of batch_size ack_tol hw) else None))"

definition set_meta :: "meta_registry \<Rightarrow> pipeline \<Rightarrow> pipeline" where
  "set_meta meta p = p\<lparr>pl_meta := Some meta\<rparr>"

text \<open>\<open>flush\<close> takes the batch before it commits it.\<close>

definition flush_batch ::
  "'d lmdb \<Rightarrow> wal_consts \<Rightarrow> int \<Rightarrow> pipeline \<Rightarrow> 'd planes \<Rightarrow> (pipeline \<times> 'd planes) \<times> bool" where
  "flush_batch L C now p w =
     (if pl_pending p = [] then ((p, w), True)
      else
        let records = pl_pending p;
            p = p\<lparr>pl_pending := []\<rparr>;
            (w, ok) = commit_batch_with_meta L C now records (pl_ack_tol p) (pl_meta p) w
        in ((p, w), ok))"

definition rotate_hot :: "int \<Rightarrow> pipeline \<Rightarrow> 'd planes \<Rightarrow> (pipeline \<times> 'd planes) \<times> bool" where
  "rotate_hot now p w =
     (let ((hw, w), ok) = hot_rotate now (pl_hot p) w in ((p\<lparr>pl_hot := hw\<rparr>, w), ok))"

text \<open>The file barrier of \<open>push_record\<close>: commit and rotate before a record that does not fit.\<close>

definition file_barrier ::
  "'d lmdb \<Rightarrow> wal_consts \<Rightarrow> int \<Rightarrow> wal_record \<Rightarrow> pipeline \<Rightarrow> 'd planes \<Rightarrow>
     (pipeline \<times> 'd planes) \<times> bool" where
  "file_barrier L C now r p w =
     (if hw_segment_size (pl_hot p) < hw_offset (pl_hot p) + rec_len64 r \<and> 0 < hw_offset (pl_hot p)
      then
        let ((p, w), ok) = flush_batch L C now p w
        in if ok then rotate_hot now p w else ((p, w), False)
      else ((p, w), True))"

text \<open>The append of \<open>push_record\<close>: the record joins the batch with its anchor.\<close>

definition append_pending ::
  "(wal_record \<Rightarrow> bytes) \<Rightarrow> int \<Rightarrow> wal_record \<Rightarrow> pipeline \<Rightarrow> 'd planes \<Rightarrow>
     (pipeline \<times> 'd planes) \<times> bool" where
  "append_pending enc now r p w =
     (let ((hw, w), res) = hot_append enc now r (pl_hot p) w;
          p = p\<lparr>pl_hot := hw\<rparr>
      in case res of
           None \<Rightarrow> ((p, w), False)
         | Some (fid, off) \<Rightarrow>
             ((p\<lparr>pl_pending := pl_pending p @ [\<lparr>ir_dev_id = word_of_int (hw_dev_id hw),
                 ir_file_id = fid, ir_offset = off, ir_rec = r\<rparr>]\<rparr>, w), True))"

definition push_record ::
  "'d lmdb \<Rightarrow> wal_consts \<Rightarrow> (wal_record \<Rightarrow> bytes) \<Rightarrow> int \<Rightarrow> wal_record \<Rightarrow> pipeline \<Rightarrow> 'd planes \<Rightarrow>
     (pipeline \<times> 'd planes) \<times> bool" where
  "push_record L C enc now r p w =
     (let ((p, w), ok) = file_barrier L C now r p w
      in if \<not> ok then ((p, w), False)
         else
           let ((p, w), ok) = append_pending enc now r p w
           in if \<not> ok then ((p, w), False)
              else if pl_batch_size p \<le> of_nat (length (pl_pending p)) then flush_batch L C now p w
              else ((p, w), True))"

definition finish :: "'d lmdb \<Rightarrow> wal_consts \<Rightarrow> int \<Rightarrow> pipeline \<Rightarrow> 'd planes \<Rightarrow>
    (pipeline \<times> 'd planes) \<times> bool" where
  "finish L C now p w =
     (let ((p, w), ok) = flush_batch L C now p w
      in if ok then rotate_hot now p w else ((p, w), False))"

definition recover_hot :: "pipeline \<Rightarrow> 'd planes \<Rightarrow> (pipeline \<times> 'd planes) option" where
  "recover_hot p w =
     do {
       (hw, w) \<leftarrow> hot_recover (pl_hot p) w;
       Some (p\<lparr>pl_hot := hw\<rparr>, w)
     }"

end
