(* ===== verification/Ingest.thy ===== *)
theory Ingest
  imports Reassembly Transport Registry Batch
begin

text \<open>
  The live ingest of \<open>src/src/ingest/zenoh.rs\<close>: chunk, batch and seal frames go through decryption,
  reassembly and the streaming decoder of their segment into the pipeline of their device; ticks
  retry incomplete seals, run the time-out scan and rotate the epochs.

  The frame decoders of \<open>slim_common\<close>, the cipher, the decoder of \<open>sov_probe\<close>, LMDB, the size of a
  store on disk and an empty store are the fields of the parameter \<open>env\<close>.  A handler returns
  \<open>None\<close> when it panics; errors that it logs leave their partial effects.  The clock is read once per
  handler.  Gap queries are sent to the network: \<open>on_tick\<close> returns them.
\<close>

section \<open>Frames\<close>

record chunk_entry =
  ce_start_offset :: nat
  ce_chunk_len :: u32
  ce_payload :: bytes

record chunk_batch =
  cb_dev_id :: u32
  cb_segment_seq :: u32
  cb_entries :: "chunk_entry list"

record chunk_frame =
  cf_dev_id :: u32
  cf_segment_seq :: u32
  cf_start_offset :: nat
  cf_chunk_len :: u32
  cf_ref_only :: bool

record seal_frame =
  sf_dev_id :: u32
  sf_segment_seq :: u32
  sf_sealed_size :: nat

record gap_query =
  gq_dev_id :: u32
  gq_segment_seq :: u32
  gq_start_offset :: nat

record 'd ingest_env =
  ie_lmdb :: "'d lmdb"
  ie_consts :: wal_consts
  ie_enc :: "wal_record \<Rightarrow> bytes"
  ie_decode_stream :: "bytes \<Rightarrow> wal_record list \<times> nat"
  ie_open_box :: "bytes \<Rightarrow> bytes \<Rightarrow> bytes \<Rightarrow> bytes option"
  ie_decode_batch :: "bytes \<Rightarrow> chunk_batch option"
  ie_decode_chunk :: "bytes \<Rightarrow> chunk_frame option"
  ie_decode_seal :: "bytes \<Rightarrow> seal_frame option"
  ie_chunk_header_len :: nat
  ie_disk_size :: "'d epoch_env \<Rightarrow> u64 option"
  ie_fresh :: "'d epoch_env"

record clock =
  ck_secs :: int
  ck_ns :: u64

section \<open>State\<close>

definition HOT_SEGMENT_SIZE :: u64 where "HOT_SEGMENT_SIZE = 2 * 1024 * 1024 * 1024"
definition GAP_MAX_ROUNDS :: u32 where "GAP_MAX_ROUNDS = 20"

record refill_state =
  rf_sealed_size :: nat
  rf_last_expected :: nat
  rf_rounds :: u32

record ingest_stats =
  st_batches :: u64
  st_chunks :: u64
  st_seals :: u64
  st_unframed_dropped :: u64
  st_decrypt_failed :: u64
  st_dups :: u64
  st_gaps :: u64
  st_seq_skips :: u64
  st_seg_errors :: u64
  st_evict_bytes :: u64
  st_quarantines :: u64
  st_q_drop_bytes :: u64
  st_dirty_tail_bytes :: u64
  st_resolved_gaps :: u64

definition ingest_stats_default :: ingest_stats where
  "ingest_stats_default =
     \<lparr>st_batches = 0, st_chunks = 0, st_seals = 0, st_unframed_dropped = 0, st_decrypt_failed = 0,
      st_dups = 0, st_gaps = 0, st_seq_skips = 0, st_seg_errors = 0, st_evict_bytes = 0,
      st_quarantines = 0, st_q_drop_bytes = 0, st_dirty_tail_bytes = 0, st_resolved_gaps = 0\<rparr>"

record 'd live_ingest =
  li_reg :: "'d registry"
  li_world :: world
  li_key :: bytes
  li_reassembler :: reassembler
  li_pipelines :: "(int \<times> pipeline) list"
  li_decoders :: "(segment_key \<times> bytes) list"
  li_meta :: "meta_registry option"
  li_batch_size :: u32
  li_ack_tol :: u32
  li_hot_root :: string
  li_refills :: "(segment_key \<times> refill_state) list"
  li_stats :: ingest_stats
  li_total_records :: u64
  li_ttl_secs :: u64
  li_qr_timeout_secs :: u64
  li_fin_short_secs :: u64
  li_ttl_ticks :: u64

text \<open>The configuration values that \<open>new\<close> reads.\<close>

record ingest_params =
  ip_batch_size :: u32
  ip_ack_tol :: u32
  ip_hot_dir :: string
  ip_ttl_scan_secs :: u64
  ip_qr_timeout_secs :: u64
  ip_fin_short_secs :: u64

definition live_ingest_new ::
  "'d registry \<Rightarrow> world \<Rightarrow> bytes \<Rightarrow> reassembler \<Rightarrow> meta_registry option \<Rightarrow> ingest_params \<Rightarrow> 'd live_ingest" where
  "live_ingest_new reg w key r meta cfg =
     \<lparr>li_reg = reg, li_world = w, li_key = key, li_reassembler = r, li_pipelines = [], li_decoders = [],
      li_meta = meta, li_batch_size = ip_batch_size cfg, li_ack_tol = ip_ack_tol cfg,
      li_hot_root = ip_hot_dir cfg, li_refills = [], li_stats = ingest_stats_default,
      li_total_records = 0, li_ttl_secs = ip_ttl_scan_secs cfg, li_qr_timeout_secs = ip_qr_timeout_secs cfg,
      li_fin_short_secs = ip_fin_short_secs cfg, li_ttl_ticks = 0\<rparr>"

text \<open>The planes that the pipelines work on: the ledger, the files and the stores of the registry.\<close>

definition li_planes :: "'d live_ingest \<Rightarrow> 'd planes" where
  "li_planes s = \<lparr>w_ledger = w_ledger (li_world s), w_fs = w_fs (li_world s), w_db = rg_db (li_reg s)\<rparr>"

definition put_planes :: "'d planes \<Rightarrow> 'd live_ingest \<Rightarrow> 'd live_ingest" where
  "put_planes w s =
     s\<lparr>li_world := \<lparr>w_ledger = w_ledger w, w_fs = w_fs w\<rparr>, li_reg := (li_reg s)\<lparr>rg_db := w_db w\<rparr>\<rparr>"

definition put_ledger :: "ledger \<Rightarrow> 'd live_ingest \<Rightarrow> 'd live_ingest" where
  "put_ledger g s = s\<lparr>li_world := (li_world s)\<lparr>w_ledger := g\<rparr>\<rparr>"

definition upd_stats :: "(ingest_stats \<Rightarrow> ingest_stats) \<Rightarrow> 'd live_ingest \<Rightarrow> 'd live_ingest" where
  "upd_stats f s = s\<lparr>li_stats := f (li_stats s)\<rparr>"

section \<open>Events\<close>

definition feed_decoder :: "'d ingest_env \<Rightarrow> segment_key \<Rightarrow> bytes \<Rightarrow> 'd live_ingest \<Rightarrow> wal_record list \<times> 'd live_ingest" where
  "feed_decoder env key data s =
     (let residual = (case map_of (li_decoders s) key of None \<Rightarrow> [] | Some r \<Rightarrow> r);
          (recs, residual) = decoder_feed (ie_decode_stream env) data residual
      in (recs, s\<lparr>li_decoders := AList.update key residual (li_decoders s)\<rparr>))"

text \<open>\<open>pipeline_for\<close>: an open pipeline of the device, or a new or recovered one; \<open>None\<close> when that fails.\<close>

definition dev_dir :: "string \<Rightarrow> u32 \<Rightarrow> string" where
  "dev_dir hot_root dev_id = hot_root @ ''/dev'' @ show_nat (unat dev_id)"

definition pipeline_for :: "clock \<Rightarrow> u32 \<Rightarrow> 'd live_ingest \<Rightarrow> 'd live_ingest \<times> pipeline option" where
  "pipeline_for now dev_id s =
     (case map_of (li_pipelines s) (uint dev_id) of
        Some p \<Rightarrow> (s, Some p)
      | None \<Rightarrow>
          let (w, p) = pipeline_open_or_recover (ck_secs now) (dev_dir (li_hot_root s) dev_id) (uint dev_id) 0
                HOT_SEGMENT_SIZE (li_batch_size s) (li_ack_tol s) (li_planes s);
              p = map_option (\<lambda>p. case li_meta s of None \<Rightarrow> p | Some m \<Rightarrow> set_meta m p) p;
              s = put_planes w s
          in (case p of None \<Rightarrow> s | Some p \<Rightarrow> s\<lparr>li_pipelines := AList.update (uint dev_id) p (li_pipelines s)\<rparr>, p))"

text \<open>\<open>append\<close> unwraps the open file, which a failed rotation has taken away.\<close>

definition append_panics ::
  "'d lmdb \<Rightarrow> wal_consts \<Rightarrow> int \<Rightarrow> wal_record \<Rightarrow> pipeline \<Rightarrow> 'd planes \<Rightarrow> bool" where
  "append_panics L C now r p w =
     (let ((p, w), ok) = file_barrier L C now r p w
      in ok \<and> \<not> hw_segment_size (pl_hot p) < hw_offset (pl_hot p) + rec_len64 r \<and> hw_file (pl_hot p) = None)"

text \<open>The loop over the decoded records: a failed push is logged, and the next one follows.\<close>

fun push_records ::
  "'d ingest_env \<Rightarrow> int \<Rightarrow> wal_record list \<Rightarrow> pipeline \<times> 'd planes \<Rightarrow> (pipeline \<times> 'd planes) option" where
  "push_records env now [] pw = Some pw"
| "push_records env now (r # rs) (p, w) =
     (if append_panics (ie_lmdb env) (ie_consts env) now r p w then None
      else push_records env now rs (fst (push_record (ie_lmdb env) (ie_consts env) (ie_enc env) now r p w)))"

definition on_append ::
  "'d ingest_env \<Rightarrow> clock \<Rightarrow> u32 \<Rightarrow> u32 \<Rightarrow> bytes \<Rightarrow> 'd live_ingest \<Rightarrow> 'd live_ingest option" where
  "on_append env now dev_id segment_seq data s =
     (let (recs, s) = feed_decoder env (dev_id, segment_seq) data s;
          s = s\<lparr>li_total_records := li_total_records s + of_nat (length recs)\<rparr>;
          (s, pipe) = pipeline_for now dev_id s
      in case pipe of
           None \<Rightarrow> Some s
         | Some p \<Rightarrow>
             do {
               (p, w) \<leftarrow> push_records env (ck_secs now) recs (p, li_planes s);
               Some (put_planes w (s\<lparr>li_pipelines := AList.update (uint dev_id) p (li_pipelines s)\<rparr>))
             })"

definition on_sealed :: "'d ingest_env \<Rightarrow> clock \<Rightarrow> u32 \<Rightarrow> u32 \<Rightarrow> 'd live_ingest \<Rightarrow> 'd live_ingest" where
  "on_sealed env now dev_id segment_seq s =
     (let s = (case map_of (li_pipelines s) (uint dev_id) of
            None \<Rightarrow> s
          | Some p \<Rightarrow>
              let ((p, w), _) = finish (ie_lmdb env) (ie_consts env) (ck_secs now) p (li_planes s)
              in put_planes w (s\<lparr>li_pipelines := AList.update (uint dev_id) p (li_pipelines s)\<rparr>))
      in case map_of (li_decoders s) (dev_id, segment_seq) of
           None \<Rightarrow> s
         | Some residual \<Rightarrow>
             upd_stats (\<lambda>t. t\<lparr>st_dirty_tail_bytes := st_dirty_tail_bytes t + of_nat (length residual)\<rparr>)
               (s\<lparr>li_decoders := AList.delete (dev_id, segment_seq) (li_decoders s)\<rparr>))"

definition audit :: "clock \<Rightarrow> u64 \<Rightarrow> u32 \<Rightarrow> u32 \<Rightarrow> string \<Rightarrow> 'd live_ingest \<Rightarrow> 'd live_ingest" where
  "audit now kind dev_id segment_seq detail s =
     put_ledger (insert_anomalies
       [\<lparr>ae_ts = of_int (ck_secs now), ae_kind = kind, ae_dev_id = Some (ucast dev_id),
         ae_segment_seq = Some (ucast segment_seq), ae_conn_hash = None, ae_qr_id = None,
         ae_detail = Some detail\<rparr>] (w_ledger (li_world s))) s"

fun drain_event :: "'d ingest_env \<Rightarrow> clock \<Rightarrow> event \<Rightarrow> 'd live_ingest \<Rightarrow> 'd live_ingest option" where
  "drain_event env now (Append dev_id segment_seq _ data) s = on_append env now dev_id segment_seq data s"
| "drain_event env now (Sealed dev_id segment_seq _) s = Some (on_sealed env now dev_id segment_seq s)"
| "drain_event env now (Dup _ _) s = Some (upd_stats (\<lambda>t. t\<lparr>st_dups := st_dups t + 1\<rparr>) s)"
| "drain_event env now (Gap _ _ _) s = Some (upd_stats (\<lambda>t. t\<lparr>st_gaps := st_gaps t + 1\<rparr>) s)"
| "drain_event env now (SeqSkipped dev_id segment_seq) s =
     Some (audit now ANOM_CONN_RST dev_id segment_seq ''segment skipped (Unlink-Oldest)''
       (upd_stats (\<lambda>t. t\<lparr>st_seq_skips := st_seq_skips t + 1\<rparr>) s))"
| "drain_event env now (SegmentError dev_id segment_seq reason) s =
     Some (audit now ANOM_QR_UNMATCHED dev_id segment_seq (''segment error: '' @ reason)
       (upd_stats (\<lambda>t. t\<lparr>st_seg_errors := st_seg_errors t + 1\<rparr>) s))"
| "drain_event env now (Evict _ _ _ n) s =
     Some (upd_stats (\<lambda>t. t\<lparr>st_evict_bytes := st_evict_bytes t + of_nat n\<rparr>) s)"
| "drain_event env now (Quarantine dev_id) s =
     Some (audit now ANOM_QR_TIMEOUT dev_id 0 ''connection quarantined (OOO flood)''
       (upd_stats (\<lambda>t. t\<lparr>st_quarantines := st_quarantines t + 1\<rparr>) s))"
| "drain_event env now (QuarantinedDrop _ n) s =
     Some (upd_stats (\<lambda>t. t\<lparr>st_q_drop_bytes := st_q_drop_bytes t + of_nat n\<rparr>) s)"
| "drain_event env now (SealGap dev_id segment_seq next_expected sealed_size) s =
     Some ((upd_stats (\<lambda>t. t\<lparr>st_gaps := st_gaps t + 1\<rparr>) s)
       \<lparr>li_refills := AList.update (dev_id, segment_seq)
          \<lparr>rf_sealed_size = sealed_size, rf_last_expected = next_expected, rf_rounds = 0\<rparr> (li_refills s)\<rparr>)"

fun drain_events :: "'d ingest_env \<Rightarrow> clock \<Rightarrow> event list \<Rightarrow> 'd live_ingest \<Rightarrow> 'd live_ingest option" where
  "drain_events env now [] s = Some s"
| "drain_events env now (e # es) s = do { s \<leftarrow> drain_event env now e s; drain_events env now es s }"

section \<open>Frames in\<close>

definition frame_dropped :: "'d live_ingest \<Rightarrow> 'd live_ingest" where
  "frame_dropped s = upd_stats (\<lambda>t. t\<lparr>st_unframed_dropped := st_unframed_dropped t + 1\<rparr>) s"

definition count_chunk :: "'d live_ingest \<Rightarrow> 'd live_ingest" where
  "count_chunk s = upd_stats (\<lambda>t. t\<lparr>st_chunks := st_chunks t + 1\<rparr>) s"

definition decrypt_dropped :: "'d live_ingest \<Rightarrow> 'd live_ingest" where
  "decrypt_dropped s = upd_stats (\<lambda>t. t\<lparr>st_decrypt_failed := st_decrypt_failed t + 1\<rparr>) s"

text \<open>One chunk: decrypted and placed, or counted as a failure.\<close>

definition place_payload ::
  "'d ingest_env \<Rightarrow> u32 \<Rightarrow> u32 \<Rightarrow> nat \<Rightarrow> u32 \<Rightarrow> bytes \<Rightarrow> 'd live_ingest \<Rightarrow> (event list \<times> 'd live_ingest) option" where
  "place_payload env dev_id segment_seq start_offset chunk_len payload s =
     (case decrypt_chunk_payload (ie_open_box env) (li_key s) payload chunk_len of
        None \<Rightarrow> Some ([], decrypt_dropped s)
      | Some plain \<Rightarrow>
          do {
            (events, r) \<leftarrow> place_chunk dev_id segment_seq start_offset plain (li_reassembler s);
            Some (events, s\<lparr>li_reassembler := r\<rparr>)
          })"

fun place_entries ::
  "'d ingest_env \<Rightarrow> u32 \<Rightarrow> u32 \<Rightarrow> chunk_entry list \<Rightarrow> event list \<times> 'd live_ingest \<Rightarrow>
     (event list \<times> 'd live_ingest) option" where
  "place_entries env dev_id segment_seq [] acc = Some acc"
| "place_entries env dev_id segment_seq (e # entries) (events, s) =
     do {
       (evs, s) \<leftarrow> place_payload env dev_id segment_seq (ce_start_offset e) (ce_chunk_len e) (ce_payload e) (count_chunk s);
       place_entries env dev_id segment_seq entries (events @ evs, s)
     }"

definition on_batch :: "'d ingest_env \<Rightarrow> clock \<Rightarrow> bytes \<Rightarrow> 'd live_ingest \<Rightarrow> 'd live_ingest option" where
  "on_batch env now payload s =
     (case ie_decode_batch env payload of
        None \<Rightarrow> Some (frame_dropped s)
      | Some b \<Rightarrow>
          do {
            let s = upd_stats (\<lambda>t. t\<lparr>st_batches := st_batches t + 1\<rparr>) s;
            (events, s) \<leftarrow> place_entries env (cb_dev_id b) (cb_segment_seq b) (cb_entries b) ([], s);
            drain_events env now events s
          })"

definition on_chunk :: "'d ingest_env \<Rightarrow> clock \<Rightarrow> bytes \<Rightarrow> 'd live_ingest \<Rightarrow> 'd live_ingest option" where
  "on_chunk env now payload s =
     (case ie_decode_chunk env payload of
        None \<Rightarrow> Some (frame_dropped s)
      | Some f \<Rightarrow>
          let s = count_chunk s
          in if cf_ref_only f then Some s
             else do {
               (events, s) \<leftarrow> place_payload env (cf_dev_id f) (cf_segment_seq f) (cf_start_offset f) (cf_chunk_len f)
                 (drop (ie_chunk_header_len env) payload) s;
               drain_events env now events s
             })"

definition on_seal :: "'d ingest_env \<Rightarrow> clock \<Rightarrow> bytes \<Rightarrow> 'd live_ingest \<Rightarrow> 'd live_ingest option" where
  "on_seal env now payload s =
     (case ie_decode_seal env payload of
        None \<Rightarrow> Some (frame_dropped s)
      | Some f \<Rightarrow>
          let s = upd_stats (\<lambda>t. t\<lparr>st_seals := st_seals t + 1\<rparr>) s;
              (events, r) = seal (sf_dev_id f) (sf_segment_seq f) (sf_sealed_size f) (li_reassembler s)
          in drain_events env now events (s\<lparr>li_reassembler := r\<rparr>))"

section \<open>Ticks\<close>

definition ttl_scan :: "'d ingest_env \<Rightarrow> clock \<Rightarrow> 'd live_ingest \<Rightarrow> 'd live_ingest" where
  "ttl_scan env now s =
     (if li_ttl_secs s = 0 then s
      else case scan_pending_ttl (ie_lmdb env) (ck_ns now) (li_qr_timeout_secs s) (li_fin_short_secs s) (rg_db (li_reg s)) of
          None \<Rightarrow> s
        | Some (db, events, stats) \<Rightarrow>
            let s = s\<lparr>li_reg := (li_reg s)\<lparr>rg_db := db\<rparr>\<rparr>
            in if events = [] then s else put_ledger (insert_anomalies events (w_ledger (li_world s))) s)"

text \<open>\<open>maybe_rotate_epoch\<close>: the bounds of the epoch are stored before it is frozen.\<close>

definition frozen_bounds :: "u32 \<Rightarrow> u64 option \<Rightarrow> u64 option \<Rightarrow> u64 \<Rightarrow> epoch_boundary" where
  "frozen_bounds old min_ts max_ts n =
     \<lparr>eb_epoch_id = uint old, eb_dir = epoch_name old, eb_min_ts = map_option sint min_ts,
      eb_max_ts = map_option sint max_ts, eb_record_count = sint n, eb_state = EpochFrozen\<rparr>"

definition maybe_rotate_epoch :: "'d ingest_env \<Rightarrow> 'd live_ingest \<Rightarrow> 'd live_ingest option" where
  "maybe_rotate_epoch env s =
     do {
       should \<leftarrow> epoch_should_rotate (ie_disk_size env) (li_reg s);
       if \<not> should then Some s
       else do {
         let old = rg_epoch_num (li_reg s);
         (min_ts, max_ts, n) \<leftarrow> current_epoch_bounds (ie_lmdb env) (li_reg s);
         g \<leftarrow> upsert_epoch_boundary (frozen_bounds old min_ts max_ts n) (w_ledger (li_world s));
         let (reg, new) = rotate_epoch (ie_fresh env) (li_reg s);
         Some ((put_ledger g s)\<lparr>li_reg := reg\<rparr>)
       }
     }"

text \<open>One refill: the seal is tried again; after \<open>GAP_MAX_ROUNDS\<close> failures it is given up.\<close>

fun seal_gap_of :: "event list \<Rightarrow> nat option" where
  "seal_gap_of [] = None"
| "seal_gap_of (SealGap _ _ next_expected _ # es) = Some next_expected"
| "seal_gap_of (e # es) = seal_gap_of es"

fun is_sealed :: "event \<Rightarrow> bool" where
  "is_sealed (Sealed _ _ _) = True"
| "is_sealed _ = False"

fun is_seal_gap :: "event \<Rightarrow> bool" where
  "is_seal_gap (SealGap _ _ _ _) = True"
| "is_seal_gap _ = False"

definition refill_step ::
  "'d ingest_env \<Rightarrow> clock \<Rightarrow> segment_key \<Rightarrow> 'd live_ingest \<Rightarrow> ('d live_ingest \<times> gap_query list) option" where
  "refill_step env now key s =
     do {
       st \<leftarrow> map_of (li_refills s) key;
       let (events, r) = seal (fst key) (snd key) (rf_sealed_size st) (li_reassembler s);
       let s = s\<lparr>li_reassembler := r\<rparr>;
       let st = (case seal_gap_of events of None \<Rightarrow> st | Some n \<Rightarrow> st\<lparr>rf_last_expected := n\<rparr>);
       let released = list_ex is_sealed events;
       let (s, st, queries) =
         (if released then (upd_stats (\<lambda>t. t\<lparr>st_resolved_gaps := st_resolved_gaps t + 1\<rparr>) s, st, [])
          else
            let st = st\<lparr>rf_rounds := rf_rounds st + 1\<rparr>
            in (s, st, if GAP_MAX_ROUNDS \<le> rf_rounds st then []
                       else [\<lparr>gq_dev_id = fst key, gq_segment_seq = snd key, gq_start_offset = rf_last_expected st\<rparr>]));
       let s = s\<lparr>li_refills := (if released \<or> GAP_MAX_ROUNDS \<le> rf_rounds st then AList.delete key (li_refills s)
                               else AList.update key st (li_refills s))\<rparr>;
       s \<leftarrow> drain_events env now (filter (\<lambda>e. \<not> is_seal_gap e) events) s;
       Some (s, queries)
     }"

fun refill_all ::
  "'d ingest_env \<Rightarrow> clock \<Rightarrow> segment_key list \<Rightarrow> 'd live_ingest \<Rightarrow> ('d live_ingest \<times> gap_query list) option" where
  "refill_all env now [] s = Some (s, [])"
| "refill_all env now (key # keys) s =
     do {
       (s, qs) \<leftarrow> refill_step env now key s;
       (s, more_qs) \<leftarrow> refill_all env now keys s;
       Some (s, qs @ more_qs)
     }"

definition tick_timers :: "'d ingest_env \<Rightarrow> clock \<Rightarrow> 'd live_ingest \<Rightarrow> 'd live_ingest" where
  "tick_timers env now s =
     (let s = s\<lparr>li_ttl_ticks := li_ttl_ticks s + 1\<rparr>
      in if max (li_ttl_secs s) 1 \<le> li_ttl_ticks s
         then
           let s = ttl_scan env now (s\<lparr>li_ttl_ticks := 0\<rparr>)
           in (case maybe_rotate_epoch env s of None \<Rightarrow> s | Some s \<Rightarrow> s)
         else s)"

text \<open>The queries go out when there is a session.\<close>

definition on_tick ::
  "'d ingest_env \<Rightarrow> clock \<Rightarrow> bool \<Rightarrow> 'd live_ingest \<Rightarrow> ('d live_ingest \<times> gap_query list) option" where
  "on_tick env now session s =
     do {
       let s = tick_timers env now s;
       (s, queries) \<leftarrow> refill_all env now (map fst (li_refills s)) s;
       Some (s, if session then queries else [])
     }"

section \<open>The main loop\<close>

fun finish_all :: "'d ingest_env \<Rightarrow> clock \<Rightarrow> int list \<Rightarrow> 'd live_ingest \<Rightarrow> 'd live_ingest" where
  "finish_all env now [] s = s"
| "finish_all env now (dev # devs) s =
     (case map_of (li_pipelines s) dev of
        None \<Rightarrow> finish_all env now devs s
      | Some p \<Rightarrow>
          let ((p, w), _) = finish (ie_lmdb env) (ie_consts env) (ck_secs now) p (li_planes s)
          in finish_all env now devs (put_planes w (s\<lparr>li_pipelines := AList.update dev p (li_pipelines s)\<rparr>)))"

definition finalize :: "'d ingest_env \<Rightarrow> clock \<Rightarrow> 'd live_ingest \<Rightarrow> 'd live_ingest" where
  "finalize env now s = finish_all env now (map fst (li_pipelines s)) s"

datatype msg = MsgBatch bytes | MsgChunk bytes | MsgSeal bytes | MsgTick

fun handle_msg :: "'d ingest_env \<Rightarrow> clock \<times> msg \<Rightarrow> 'd live_ingest \<Rightarrow> 'd live_ingest option" where
  "handle_msg env (now, MsgBatch p) s = on_batch env now p s"
| "handle_msg env (now, MsgChunk p) s = on_chunk env now p s"
| "handle_msg env (now, MsgSeal p) s = on_seal env now p s"
| "handle_msg env (now, MsgTick) s = map_option fst (on_tick env now True s)"

fun ingest_loop :: "'d ingest_env \<Rightarrow> (clock \<times> msg) list \<Rightarrow> 'd live_ingest \<Rightarrow> 'd live_ingest option" where
  "ingest_loop env [] s = Some s"
| "ingest_loop env (m # ms) s = do { s \<leftarrow> handle_msg env m s; ingest_loop env ms s }"

text \<open>\<open>run\<close> before its loop: the rules are registered in the ledger, and the registry gets their ids.\<close>

fun register_rules :: "nat \<Rightarrow> meta_bind list \<Rightarrow> ledger \<times> meta_registry \<Rightarrow> ledger \<times> meta_registry" where
  "register_rules i [] acc = acc"
| "register_rules i (b # binds) (g, meta) =
     (let (g, new_id) = upsert_meta_bind (mb_name b) (uint (mb_proto b)) (uint (mb_dst_port b)) (mb_fingerprint b)
            (mb_extractor b) g
      in register_rules (Suc i) binds (g, set_rule_id i (word_of_int new_id) meta))"

definition ingest_start ::
  "'d registry \<Rightarrow> world \<Rightarrow> bytes \<Rightarrow> budgets \<Rightarrow> meta_bind list \<Rightarrow> ingest_params \<Rightarrow> 'd live_ingest" where
  "ingest_start reg w key b binds cfg =
     (let (g, meta) = register_rules 0 binds (w_ledger w, registry_from_binds binds)
      in live_ingest_new reg (w\<lparr>w_ledger := g\<rparr>) key (reassembler_new b) (Some meta) cfg)"

end
