(* ===== verification/Reassembly_Inv.thy ===== *)
theory Reassembly_Inv
  imports Reassembly
begin

text \<open>
  Invariants of the reassembly engine.  \<open>acct\<close> is the byte accounting: the global counter is the sum
  of the segment counters, each device counter is the sum over the device's segments, and no
  segment holds more bytes than it counts.  Properties of single segments (the L2 cap, agreement
  of buffered chunks with the true stream) share the contract \<open>segment_property\<close>.
\<close>

section \<open>Byte accounting\<close>

definition chunk_bytes :: "(nat \<times> bytes) list \<Rightarrow> nat" where
  "chunk_bytes p = sum_list (map (length \<circ> snd) p)"

definition seg_ok :: "segment_buf \<Rightarrow> bool" where
  "seg_ok s \<longleftrightarrow> bt_sorted (sb_pending s) \<and> chunk_bytes (sb_pending s) \<le> sb_pending_bytes s"

definition weight :: "u32 \<Rightarrow> segment_key \<times> segment_buf \<Rightarrow> nat" where
  "weight d e = (if fst (fst e) = d then sb_pending_bytes (snd e) else 0)"

abbreviation dev_total :: "u32 \<Rightarrow> (segment_key \<times> segment_buf) list \<Rightarrow> nat" where
  "dev_total d segs \<equiv> sum_list (map (weight d) segs)"

abbreviation all_total :: "(segment_key \<times> segment_buf) list \<Rightarrow> nat" where
  "all_total segs \<equiv> sum_list (map (sb_pending_bytes \<circ> snd) segs)"

definition dev_idle :: "u32 \<Rightarrow> (segment_key \<times> segment_buf) list \<Rightarrow> bool" where
  "dev_idle d segs \<longleftrightarrow>
     (\<forall>k s. map_of segs k = Some s \<longrightarrow> fst k = d \<longrightarrow> sb_pending s = [] \<and> sb_pending_bytes s = 0)"

definition conn_ok :: "(segment_key \<times> segment_buf) list \<Rightarrow> (u32 \<times> nat) list \<Rightarrow> u32 \<Rightarrow> bool" where
  "conn_ok segs conn d \<longleftrightarrow>
     (case map_of conn d of Some c \<Rightarrow> c = dev_total d segs | None \<Rightarrow> dev_idle d segs)"

definition acct :: "reassembler \<Rightarrow> bool" where
  "acct r \<longleftrightarrow> distinct (map fst (ra_segs r)) \<and> (\<forall>k s. map_of (ra_segs r) k = Some s \<longrightarrow> seg_ok s)
     \<and> ra_global_pending r = all_total (ra_segs r)
     \<and> (\<forall>d. conn_ok (ra_segs r) (ra_conn_pending r) d)"

lemma acct_distinct: "acct r \<Longrightarrow> distinct (map fst (ra_segs r))"
  by (simp add: acct_def)

lemma dev_idleD:
  "dev_idle d segs \<Longrightarrow> map_of segs k = Some s \<Longrightarrow> fst k = d \<Longrightarrow>
   sb_pending s = [] \<and> sb_pending_bytes s = 0"
  unfolding dev_idle_def by blast

lemma acct_seg: "acct r \<Longrightarrow> map_of (ra_segs r) k = Some s \<Longrightarrow> seg_ok s"
  unfolding acct_def by blast

lemma acct_conn_pending: "acct r \<Longrightarrow> conn_pending r d = dev_total d (ra_segs r)"
proof -
  assume "acct r"
  then have ok: "conn_ok (ra_segs r) (ra_conn_pending r) d" by (simp add: acct_def)
  have "dev_idle d (ra_segs r) \<Longrightarrow> dev_total d (ra_segs r) = 0"
    using map_of_eq_Some_iff [OF acct_distinct [OF \<open>acct r\<close>]]
    by (auto simp: dev_idle_def weight_def)
  with ok show ?thesis by (auto simp: conn_ok_def conn_pending_def split: option.splits)
qed

lemma weight_other [simp]: "fst k \<noteq> d \<Longrightarrow> weight d (k, s) = 0"
  by (simp add: weight_def)

lemma weight_same [simp]: "fst k = d \<Longrightarrow> weight d (k, s) = sb_pending_bytes s"
  by (simp add: weight_def)

text \<open>One segment changes: its bytes fall by \<open>n\<close>, and so do both counters.\<close>

lemma acct_dec:
  assumes a: "acct r" and s: "map_of (ra_segs r) key = Some s" and ok: "seg_ok s'"
    and n: "sb_pending_bytes s = sb_pending_bytes s' + n"
    and p: "sb_pending s = [] \<Longrightarrow> sb_pending s' = []"
  shows "acct (conn_sub (fst key) n ((put_seg key s' r)\<lparr>ra_global_pending := ra_global_pending r - n\<rparr>))"
proof -
  let ?segs = "AList.update key s' (ra_segs r)"
  have tot: "all_total ?segs + n = all_total (ra_segs r)"
    using sum_update [OF s, of "sb_pending_bytes \<circ> snd" s'] n by simp
  have dt: "dev_total (fst key) ?segs + n = dev_total (fst key) (ra_segs r)"
    using sum_update [OF s, of "weight (fst key)" s'] n by simp
  have other: "dev_total d ?segs = dev_total d (ra_segs r)" if "d \<noteq> fst key" for d
    using sum_update [OF s, of "weight d" s'] that by simp
  have idle_other: "dev_idle d ?segs \<longleftrightarrow> dev_idle d (ra_segs r)" if "d \<noteq> fst key" for d
    using that by (force simp: dev_idle_def update_conv')
  have idle: "dev_idle (fst key) ?segs" if "dev_idle (fst key) (ra_segs r)"
    using that n p dev_idleD [OF that s refl]
    by (force simp: dev_idle_def update_conv' split: if_splits)
  have segs: "map_of ?segs k = Some t \<Longrightarrow> seg_ok t" for k t
    using acct_seg [OF a] ok by (auto simp: update_conv' split: if_splits)
  have g: "ra_global_pending r - n = all_total ?segs"
    using a tot by (simp add: acct_def)
  have c: "conn_ok (ra_segs r) (ra_conn_pending r) d" for d using a by (simp add: acct_def)
  have "conn_ok ?segs (ra_conn_pending (conn_sub (fst key) n
      ((put_seg key s' r)\<lparr>ra_global_pending := ra_global_pending r - n\<rparr>))) d" for d
    using c [of d] dt other [of d] idle idle_other [of d]
    by (cases "d = fst key")
      (auto simp: conn_ok_def conn_sub_def put_seg_def update_conv' split: option.splits)
  then show ?thesis
    using segs distinct_update [OF acct_distinct [OF a]] g
    by (auto simp: acct_def conn_sub_def put_seg_def split: option.splits)
qed

text \<open>The checked variants do not fail when something is buffered.\<close>

lemma acct_conn_Some:
  assumes "acct r" "map_of (ra_segs r) key = Some s" "sb_pending s \<noteq> []"
  shows "\<exists>c. map_of (ra_conn_pending r) (fst key) = Some c"
proof (rule ccontr)
  assume n: "\<not> ?thesis"
  have "conn_ok (ra_segs r) (ra_conn_pending r) (fst key)"
    using assms(1) by (simp add: acct_def)
  with n have "dev_idle (fst key) (ra_segs r)" by (simp add: conn_ok_def)
  with assms(2,3) show False using dev_idleD by blast
qed

lemma acct_global_ge:
  assumes "acct r" "map_of (ra_segs r) key = Some s"
  shows "sb_pending_bytes s \<le> ra_global_pending r"
  using assms member_le_sum [OF map_of_SomeD, of "ra_segs r" key s "sb_pending_bytes \<circ> snd"]
  by (simp add: acct_def)

lemma chunk_bytes_remove:
  "bt_sorted p \<Longrightarrow> map_of p off = Some c \<Longrightarrow>
   chunk_bytes (bt_remove off p) + length c = chunk_bytes p"
  using sum_bt_remove [of p off c "length \<circ> snd"] by (simp add: chunk_bytes_def)

lemma chunk_bytes_le:
  "map_of p off = Some c \<Longrightarrow> length c \<le> chunk_bytes p"
  using member_le_sum [OF map_of_SomeD, of p off c "length \<circ> snd"] by (simp add: chunk_bytes_def)

lemma seg_ok_remove:
  assumes "seg_ok s" "map_of (sb_pending s) off = Some c"
  shows "length c \<le> sb_pending_bytes s"
    and "sb_pending t = bt_remove off (sb_pending s) \<Longrightarrow>
      sb_pending_bytes t = sb_pending_bytes s - length c \<Longrightarrow> seg_ok t"
  using assms chunk_bytes_remove [of "sb_pending s" off c] chunk_bytes_le [OF assms(2)]
  by (auto simp: seg_ok_def bt_sorted_remove)

text \<open>Taking one chunk out of a segment: the common part of draining and evicting.\<close>

lemma take_chunk:
  assumes a: "acct r" and s: "map_of (ra_segs r) key = Some s"
    and c: "map_of (sb_pending s) off = Some chunk"
    and t: "sb_pending t = bt_remove off (sb_pending s)"
      "sb_pending_bytes t = sb_pending_bytes s - length chunk"
  shows "\<exists>r'. Option.bind (global_sub (length chunk) (put_seg key t r))
      (conn_sub_unwrap (fst key) (length chunk)) = Some r' \<and> acct r' \<and>
      r' = r\<lparr>ra_segs := AList.update key t (ra_segs r), ra_global_pending := ra_global_pending r',
        ra_conn_pending := ra_conn_pending r'\<rparr> \<and>
      ra_global_pending r' + length chunk = ra_global_pending r"
proof -
  have ne: "sb_pending s \<noteq> []" using c by auto
  note ok = acct_seg [OF a s]
  from acct_conn_Some [OF a s ne] obtain n where
    n: "map_of (ra_conn_pending r) (fst key) = Some n" by auto
  have len: "length chunk \<le> sb_pending_bytes s" by (rule seg_ok_remove(1) [OF ok c])
  with acct_global_ge [OF a s] have g: "length chunk \<le> ra_global_pending r" by simp
  have "acct (conn_sub (fst key) (length chunk)
      ((put_seg key t r)\<lparr>ra_global_pending := ra_global_pending r - length chunk\<rparr>))"
    using len t ne by (intro acct_dec [OF a s] seg_ok_remove(2) [OF ok c]) auto
  then show ?thesis
    using g n by (simp add: global_sub_def checked_sub_def conn_sub_unwrap_def conn_sub_def put_seg_def)
qed

section \<open>Operations that only discard\<close>

text \<open>
  \<open>thin s t\<close>: the buffer \<open>t\<close> is \<open>s\<close> with some chunks discarded.  Errors, evictions and quarantines
  relate the states before and after by \<open>shrinks\<close>, which a property of single segments that is
  kept by \<open>thin\<close> then survives.
\<close>

definition thin :: "segment_buf \<Rightarrow> segment_buf \<Rightarrow> bool" where
  "thin s t \<longleftrightarrow> sb_next_expected t = sb_next_expected s \<and> sb_pending_bytes t \<le> sb_pending_bytes s
     \<and> set (sb_pending t) \<subseteq> set (sb_pending s)"

definition shrinks :: "reassembler \<Rightarrow> reassembler \<Rightarrow> bool" where
  "shrinks r r' \<longleftrightarrow> acct r' \<and> ra_budgets r' = ra_budgets r
     \<and> ra_global_pending r' \<le> ra_global_pending r
     \<and> (\<forall>k. rel_option thin (map_of (ra_segs r) k) (map_of (ra_segs r') k))"

lemma thin_refl [simp, intro]: "thin s s"
  by (simp add: thin_def)

lemma thin_trans: "thin s t \<Longrightarrow> thin t u \<Longrightarrow> thin s u"
  by (auto simp: thin_def)

lemma rel_option_thin_refl [simp]: "rel_option thin x x"
  by (cases x) auto

lemma shrinks_refl: "acct r \<Longrightarrow> shrinks r r"
  by (simp add: shrinks_def)

lemma shrinks_acct: "shrinks r r' \<Longrightarrow> acct r'"
  by (simp add: shrinks_def)

lemma shrinks_rel:
  "shrinks r r' \<Longrightarrow> rel_option thin (map_of (ra_segs r) k) (map_of (ra_segs r') k)"
  unfolding shrinks_def by blast

lemma shrinks_trans: "shrinks r r' \<Longrightarrow> shrinks r' r'' \<Longrightarrow> shrinks r r''"
proof -
  have "rel_option thin x z" if "rel_option thin x y" "rel_option thin y z" for x y z
    using that by (auto simp: option.rel_sel intro: thin_trans)
  then show "shrinks r r' \<Longrightarrow> shrinks r' r'' \<Longrightarrow> shrinks r r''"
    unfolding shrinks_def by (metis le_trans)
qed

lemma shrinks_update:
  assumes "acct r'" "map_of (ra_segs r) key = Some s" "thin s t"
    "ra_segs r' = AList.update key t (ra_segs r)" "ra_budgets r' = ra_budgets r"
    "ra_global_pending r' \<le> ra_global_pending r"
  shows "shrinks r r'"
  using assms by (auto simp: shrinks_def update_conv')

text \<open>A change of the bookkeeping fields that the accounting does not read.\<close>

lemma acct_cong:
  assumes "acct r" "ra_segs r' = ra_segs r" "ra_conn_pending r' = ra_conn_pending r"
    "ra_global_pending r' = ra_global_pending r"
  shows "acct r'"
  using assms by (simp add: acct_def)

lemma shrinks_cong:
  assumes "shrinks r r'" "ra_segs r'' = ra_segs r'" "ra_conn_pending r'' = ra_conn_pending r'"
    "ra_global_pending r'' = ra_global_pending r'" "ra_budgets r'' = ra_budgets r'"
  shows "shrinks r r''"
  using assms acct_cong [of r' r''] by (simp add: shrinks_def)

lemma seg_ok_empty: "sb_pending s = [] \<Longrightarrow> seg_ok s"
  by (simp add: seg_ok_def chunk_bytes_def)

lemma conn_sub_frame [simp]:
  "ra_segs (conn_sub d n r) = ra_segs r" "ra_budgets (conn_sub d n r) = ra_budgets r"
  "ra_global_pending (conn_sub d n r) = ra_global_pending r"
  "ra_quarantined (conn_sub d n r) = ra_quarantined r" "ra_evict (conn_sub d n r) = ra_evict r"
  by (simp_all add: conn_sub_def split: option.splits)

lemma put_seg_frame [simp]:
  "ra_segs (put_seg k s r) = AList.update k s (ra_segs r)"
  "ra_budgets (put_seg k s r) = ra_budgets r"
  "ra_conn_pending (put_seg k s r) = ra_conn_pending r"
  "ra_global_pending (put_seg k s r) = ra_global_pending r"
  "ra_quarantined (put_seg k s r) = ra_quarantined r" "ra_evict (put_seg k s r) = ra_evict r"
  by (simp_all add: put_seg_def)

text \<open>Clearing a segment, whatever becomes of its state field.\<close>

lemma shrinks_clear:
  assumes a: "acct r" and s: "map_of (ra_segs r) key = Some s"
    and t: "sb_pending t = []" "sb_pending_bytes t = 0" "sb_next_expected t = sb_next_expected s"
  shows "shrinks r (conn_sub (fst key) (sb_pending_bytes s)
    ((put_seg key t r)\<lparr>ra_global_pending := ra_global_pending r - sb_pending_bytes s\<rparr>))"
  by (rule shrinks_update [OF acct_dec [OF a s] s, where t = t])
    (use t in \<open>auto simp: thin_def seg_ok_empty\<close>)

lemma shrinks_same:
  assumes a: "acct r" and s: "map_of (ra_segs r) key = Some s"
    and t: "sb_pending t = sb_pending s" "sb_pending_bytes t = sb_pending_bytes s"
      "sb_next_expected t = sb_next_expected s"
  shows "shrinks r (put_seg key t r)"
proof -
  have "seg_ok t" using acct_seg [OF a s] t by (simp add: seg_ok_def)
  from acct_dec [OF a s this, of 0] t
  have "acct (conn_sub (fst key) 0 ((put_seg key t r)\<lparr>ra_global_pending := ra_global_pending r\<rparr>))"
    by simp
  moreover have "conn_sub d 0 r' = r'" for d and r' :: reassembler
    by (simp add: conn_sub_def update_triv split: option.split)
  ultimately have "acct (put_seg key t r)" by (simp add: put_seg_def)
  then show ?thesis by (rule shrinks_update [OF _ s, where t = t]) (use t in \<open>auto simp: thin_def\<close>)
qed

lemma mark_segment_error_shrinks:
  assumes "acct r" "map_of (ra_segs r) key = Some s"
  shows "\<exists>r'. mark_segment_error key reason ev r =
      (ev @ [SegmentError (fst key) (snd key) reason, Gap (fst key) (snd key) (sb_next_expected s)], r') \<and>
    shrinks r r'"
  using shrinks_clear [OF assms, of "s\<lparr>sb_state := SegError, sb_pending := [], sb_pending_bytes := 0\<rparr>"]
  by (simp add: mark_segment_error_def assms(2) Let_def update_conv')

lemma mark_segment_error_absent:
  assumes "acct r" "map_of (ra_segs r) key = None"
  shows "mark_segment_error key reason ev r =
      (ev @ [SegmentError (fst key) (snd key) reason, Gap (fst key) (snd key) 0], r)"
  using assms
  by (simp add: mark_segment_error_def Let_def conn_sub_def update_triv split: option.splits)

lemma drop_segment_pending_shrinks:
  assumes "acct r"
  shows "shrinks r (drop_segment_pending key r)"
  using shrinks_clear [OF assms, of key _ "_\<lparr>sb_pending := [], sb_pending_bytes := 0\<rparr>"]
  by (auto simp: drop_segment_pending_def Let_def shrinks_refl assms split: option.splits)

section \<open>Quarantine and eviction\<close>

definition idle_seg :: "segment_buf \<Rightarrow> bool" where
  "idle_seg s \<longleftrightarrow> sb_pending s = [] \<and> sb_pending_bytes s = 0"

lemma shrinks_idle:
  assumes "shrinks r r'" "\<And>s. map_of (ra_segs r) k = Some s \<Longrightarrow> idle_seg s"
    "map_of (ra_segs r') k = Some t"
  shows "idle_seg t"
proof -
  have "rel_option thin (map_of (ra_segs r) k) (Some t)"
    using shrinks_rel [OF assms(1), of k] assms(3) by simp
  then obtain s where "map_of (ra_segs r) k = Some s" "thin s t"
    by (auto simp: option_rel_Some2)
  with assms(2) show ?thesis by (auto simp: thin_def idle_seg_def)
qed

lemma quarantine_key_shrinks:
  fixes key :: segment_key
  assumes "acct r"
  defines "r1 \<equiv> drop_segment_pending key r"
  defines "r2 \<equiv> (case map_of (ra_segs r1) key of None \<Rightarrow> r1
    | Some seg \<Rightarrow> put_seg key (seg\<lparr>sb_state := SegSkipped\<rparr>) r1)"
  shows "shrinks r r2 \<and> (\<forall>t. map_of (ra_segs r2) key = Some t \<longrightarrow> idle_seg t)"
proof -
  have s1: "shrinks r r1" unfolding r1_def by (rule drop_segment_pending_shrinks [OF assms(1)])
  have i1: "map_of (ra_segs r1) key = Some t \<Longrightarrow> idle_seg t" for t
    by (auto simp: r1_def drop_segment_pending_def Let_def idle_seg_def update_conv'
        split: option.splits)
  show ?thesis
  proof (cases "map_of (ra_segs r1) key")
    case None
    then show ?thesis using s1 i1 by (simp add: r2_def)
  next
    case (Some seg)
    then have "shrinks r1 r2"
      using shrinks_same [OF shrinks_acct [OF s1] Some, of "seg\<lparr>sb_state := SegSkipped\<rparr>"]
      by (simp add: r2_def)
    then show ?thesis
      using shrinks_trans [OF s1] i1 [OF Some] Some
      by (auto simp: r2_def update_conv' idle_seg_def)
  qed
qed

lemma quarantine_keys_shrinks:
  "acct r \<Longrightarrow> shrinks r (quarantine_keys keys r) \<and>
   (\<forall>k\<in>set keys. \<forall>t. map_of (ra_segs (quarantine_keys keys r)) k = Some t \<longrightarrow> idle_seg t)"
proof (induction keys arbitrary: r)
  case (Cons key keys)
  define r1 where "r1 = drop_segment_pending key r"
  define r2 where "r2 = (case map_of (ra_segs r1) key of None \<Rightarrow> r1
    | Some seg \<Rightarrow> put_seg key (seg\<lparr>sb_state := SegSkipped\<rparr>) r1)"
  have q: "quarantine_keys (key # keys) r = quarantine_keys keys r2"
    unfolding r2_def r1_def by (simp add: Let_def)
  have h: "shrinks r r2" "\<And>t. map_of (ra_segs r2) key = Some t \<Longrightarrow> idle_seg t"
    using quarantine_key_shrinks [OF Cons.prems, of key] unfolding r1_def r2_def by blast+
  note IH = Cons.IH [OF shrinks_acct [OF h(1)]]
  show ?case
    unfolding q using IH shrinks_trans [OF h(1)] shrinks_idle [OF conjunct1 [OF IH] h(2)] by auto
qed (simp add: shrinks_refl)

lemma acct_delete_conn:
  assumes "acct r" "dev_idle d (ra_segs r)" "ra_segs r' = ra_segs r"
    "ra_conn_pending r' = AList.delete d (ra_conn_pending r)"
    "ra_global_pending r' = ra_global_pending r"
  shows "acct r'"
proof -
  have "conn_ok (ra_segs r') (ra_conn_pending r') e" for e
  proof (cases "e = d")
    case False
    have "conn_ok (ra_segs r) (ra_conn_pending r) e" using assms(1) by (simp add: acct_def)
    with False assms(3,4) show ?thesis by (simp add: conn_ok_def)
  qed (use assms in \<open>simp add: conn_ok_def delete_conv'\<close>)
  with assms show ?thesis by (simp add: acct_def)
qed

lemma quarantine_shrinks:
  assumes "acct r"
  shows "\<exists>ev' r'. quarantine d ev r = (ev @ ev', r') \<and> shrinks r r' \<and> set ev' \<subseteq> {Quarantine d}
    \<and> is_quarantined r' d"
proof (cases "is_quarantined r d")
  case True
  then show ?thesis using shrinks_refl [OF assms] by (simp add: quarantine_def)
next
  case False
  define r1 where "r1 = r\<lparr>ra_quarantined := d # ra_quarantined r\<rparr>"
  define ks where "ks = filter (\<lambda>k. fst k = d) (map fst (ra_segs r1))"
  define r2 where "r2 = quarantine_keys ks r1"
  define r3 where "r3 = r2\<lparr>ra_conn_pending := AList.delete d (ra_conn_pending r2),
      ra_evict := AList.delete d (ra_evict r2)\<rparr>"
  have a1: "acct r1" by (rule acct_cong [OF assms]) (simp_all add: r1_def)
  have s1: "shrinks r r1" by (rule shrinks_cong [OF shrinks_refl [OF assms]]) (simp_all add: r1_def)
  have s2: "shrinks r1 r2" and i2: "\<And>k t. k \<in> set ks \<Longrightarrow> map_of (ra_segs r2) k = Some t \<Longrightarrow> idle_seg t"
    using quarantine_keys_shrinks [OF a1, of ks] by (auto simp: r2_def)
  have mem: "k \<in> set ks" if "map_of (ra_segs r2) k = Some t" "fst k = d" for k t
  proof -
    have "rel_option thin (map_of (ra_segs r1) k) (Some t)"
      using shrinks_rel [OF s2, of k] that(1) by simp
    then obtain s where "map_of (ra_segs r1) k = Some s" by (auto simp: option_rel_Some2)
    then have "k \<in> fst ` set (ra_segs r1)" by (force dest: map_of_SomeD)
    with that(2) show ?thesis by (simp add: ks_def)
  qed
  have idle: "dev_idle d (ra_segs r2)"
    unfolding dev_idle_def using mem i2 unfolding idle_seg_def by blast
  have "acct r3"
    by (rule acct_delete_conn [OF shrinks_acct [OF s2] idle]) (simp_all add: r3_def)
  then have "shrinks r r3"
    using shrinks_trans [OF s1 s2] by (simp add: shrinks_def r3_def)
  moreover have "quarantine_keys keys r' = r'' \<Longrightarrow> ra_quarantined r'' = ra_quarantined r'"
    for keys r' r''
    by (induction keys arbitrary: r')
      (auto simp: Let_def drop_segment_pending_def split: option.splits)
  then have "is_quarantined r3 d" by (simp add: r3_def r2_def r1_def is_quarantined_def)
  moreover have "quarantine d ev r = (ev @ [Quarantine d], r3)"
    using False by (simp add: quarantine_def Let_def r3_def r2_def ks_def r1_def)
  ultimately show ?thesis by auto
qed

lemma older_in_dev_mem:
  "older_in_dev d e t = Some (k, off) \<Longrightarrow>
   t = Some (k, off) \<or> (\<exists>c p. k = fst e \<and> fst k = d \<and> sb_pending (snd e) = (off, c) # p)"
  by (auto simp: older_in_dev_def split: if_splits list.splits option.splits)

lemma oldest_in_dev_mem:
  "fold (older_in_dev d) segs t = Some (k, off) \<Longrightarrow>
   t = Some (k, off) \<or> (\<exists>s c p. (k, s) \<in> set segs \<and> fst k = d \<and> sb_pending s = (off, c) # p)"
proof (induction segs arbitrary: t)
  case (Cons e segs)
  from Cons.IH [of "older_in_dev d e t"] Cons.prems older_in_dev_mem [of d e t k off]
  show ?case by (cases e) auto
qed simp

lemma older_global_mem:
  "older_global q e t = Some (k, off) \<Longrightarrow>
   t = Some (k, off) \<or> (\<exists>c p. k = fst e \<and> sb_pending (snd e) = (off, c) # p)"
  by (auto simp: older_global_def Let_def split: if_splits list.splits option.splits)

lemma oldest_global_mem:
  "fold (older_global q) segs t = Some (k, off) \<Longrightarrow>
   t = Some (k, off) \<or> (\<exists>s c p. (k, s) \<in> set segs \<and> sb_pending s = (off, c) # p)"
proof (induction segs arbitrary: t)
  case (Cons e segs)
  from Cons.IH [of "older_global q e t"] Cons.prems older_global_mem [of q e t k off]
  show ?case by (cases e) auto
qed simp

lemma evict_chunk_shrinks:
  assumes a: "acct r" and s: "map_of (ra_segs r) key = Some s"
    and c: "map_of (sb_pending s) off = Some chunk"
  shows "\<exists>r'. evict_chunk key off ev r =
      Some (ev @ [Evict (fst key) (snd key) off (length chunk)], r') \<and> shrinks r r' \<and>
      ra_global_pending r' + length chunk = ra_global_pending r"
proof -
  let ?t = "s\<lparr>sb_pending := bt_remove off (sb_pending s),
    sb_pending_bytes := sb_pending_bytes s - length chunk\<rparr>"
  from take_chunk [OF a s c, of ?t] obtain r' where
    b: "Option.bind (global_sub (length chunk) (put_seg key ?t r))
      (conn_sub_unwrap (fst key) (length chunk)) = Some r'" and a': "acct r'" and
    e: "r' = r\<lparr>ra_segs := AList.update key ?t (ra_segs r),
        ra_global_pending := ra_global_pending r', ra_conn_pending := ra_conn_pending r'\<rparr>" and
    g: "ra_global_pending r' + length chunk = ra_global_pending r"
    by auto
  have e': "ra_segs r' = AList.update key ?t (ra_segs r)" "ra_budgets r' = ra_budgets r"
    by (subst e, simp)+
  have "shrinks r r'"
    by (rule shrinks_update [OF a' s, where t = ?t])
      (use e' g in \<open>auto simp: thin_def set_bt_remove\<close>)
  then show ?thesis
    using b g seg_ok_remove(1) [OF acct_seg [OF a s] c] s c
    by (auto simp: evict_chunk_def checked_sub_def Let_def split: Option.bind_splits)
qed

text \<open>Events that neither deliver data nor close a segment.\<close>

fun quiet :: "event \<Rightarrow> bool" where
  "quiet (Append _ _ _ _) \<longleftrightarrow> False"
| "quiet (Sealed _ _ _) \<longleftrightarrow> False"
| "quiet _ \<longleftrightarrow> True"

definition quiet_step ::
  "reassembler \<Rightarrow> event list \<Rightarrow> (event list \<times> reassembler) option \<Rightarrow> bool" where
  "quiet_step r ev res \<longleftrightarrow>
     (\<exists>ev' r'. res = Some (ev @ ev', r') \<and> shrinks r r' \<and> list_all quiet ev')"

lemma quiet_step_refl: "acct r \<Longrightarrow> quiet_step r ev (Some (ev, r))"
  by (simp add: quiet_step_def shrinks_refl)

lemma oldest_in_dev_Some:
  assumes "oldest_in_dev d (ra_segs r) = Some (key, off)" "acct r"
  obtains s chunk where "map_of (ra_segs r) key = Some s" "fst key = d"
    "map_of (sb_pending s) off = Some chunk"
  using assms oldest_in_dev_mem [of d "ra_segs r" None key off]
    map_of_eq_Some_iff [OF acct_distinct [OF assms(2)]]
  by (auto simp: oldest_in_dev_def)

lemma oldest_global_Some:
  assumes "oldest_global q (ra_segs r) = Some (key, off)" "acct r"
  obtains s chunk where "map_of (ra_segs r) key = Some s"
    "map_of (sb_pending s) off = Some chunk"
  using assms oldest_global_mem [of q "ra_segs r" None key off]
    map_of_eq_Some_iff [OF acct_distinct [OF assms(2)]]
  by (auto simp: oldest_global_def)

lemma evict_oldest_global_step:
  assumes "acct r"
  shows "quiet_step r ev (evict_oldest_global ev r)"
proof (cases "oldest_global (ra_quarantined r) (ra_segs r)")
  case None
  then show ?thesis by (simp add: evict_oldest_global_def quiet_step_refl assms)
next
  case (Some p)
  obtain key off where p: "p = (key, off)" by (cases p)
  with Some obtain s chunk where "map_of (ra_segs r) key = Some s"
    "map_of (sb_pending s) off = Some chunk" using oldest_global_Some assms by metis
  from evict_chunk_shrinks [OF assms this, of ev] Some p show ?thesis
    by (auto simp: evict_oldest_global_def quiet_step_def)
qed

lemma evict_oldest_in_dev_step:
  assumes "acct r"
  shows "quiet_step r ev (evict_oldest_in_dev d ev r)"
proof (cases "oldest_in_dev d (ra_segs r)")
  case None
  then show ?thesis by (simp add: evict_oldest_in_dev_def quiet_step_refl assms)
next
  case (Some p)
  obtain key off where p: "p = (key, off)" by (cases p)
  with Some obtain s chunk where "map_of (ra_segs r) key = Some s"
    "map_of (sb_pending s) off = Some chunk" using oldest_in_dev_Some assms by metis
  from evict_chunk_shrinks [OF assms this, of ev] obtain r1 where
    c: "evict_chunk key off ev r = Some (ev @ [Evict (fst key) (snd key) off (length chunk)], r1)"
      "shrinks r r1" by blast
  show ?thesis
  proof -
    let ?st = "\<lambda>st. if evict_window_secs (ra_budgets r1) < ra_now r1 - es_window_start st
      then \<lparr>es_streak = 1, es_window_start = ra_now r1\<rparr> else st\<lparr>es_streak := es_streak st + 1\<rparr>"
    define st where "st = ?st (case map_of (ra_evict r1) d of
      None \<Rightarrow> \<lparr>es_streak = 0, es_window_start = ra_now r1\<rparr> | Some st \<Rightarrow> st)"
    define r2 where "r2 = r1\<lparr>ra_evict := AList.update d st (ra_evict r1)\<rparr>"
    have s2: "shrinks r r2" by (rule shrinks_cong [OF c(2)]) (simp_all add: r2_def)
    have e: "evict_oldest_in_dev d ev r =
      Some (if evict_threshold (ra_budgets r2) \<le> es_streak st
        then quarantine d (ev @ [Evict (fst key) (snd key) off (length chunk)]) r2
        else (ev @ [Evict (fst key) (snd key) off (length chunk)], r2))"
      unfolding evict_oldest_in_dev_def using Some p c(1)
      by (simp add: Let_def r2_def st_def)
    from quarantine_shrinks [OF shrinks_acct [OF s2], of d
        "ev @ [Evict (fst key) (snd key) off (length chunk)]"]
    show ?thesis
      using s2 shrinks_trans [OF s2] unfolding e quiet_step_def
      by (force simp: list_all_iff)
  qed
qed

end
