(* ===== verification/Reassembly_Run.thy ===== *)
theory Reassembly_Run
  imports Reassembly_Inv
begin

text \<open>
  Runs of the reassembly engine.  A downstream writer that appends the data of \<open>Append\<close> events to one
  file per segment receives exactly the bytes of the segment, in order and without gaps; the L2 cap
  is never exceeded; and no sequence of calls panics.
\<close>

declare split_paired_All [simp del]

section \<open>Properties of single segments\<close>

locale segment_property =
  fixes Q :: "segment_key \<Rightarrow> segment_buf \<Rightarrow> bool"
  assumes thin_closed: "Q k s \<Longrightarrow> thin s t \<Longrightarrow> Q k t"
begin

definition all_segs :: "reassembler \<Rightarrow> bool" where
  "all_segs r \<longleftrightarrow> (\<forall>k s. map_of (ra_segs r) k = Some s \<longrightarrow> Q k s)"

lemma shrinks_all: "all_segs r \<Longrightarrow> shrinks r r' \<Longrightarrow> all_segs r'"
proof -
  assume r: "all_segs r" "shrinks r r'"
  have "Q k t" if "map_of (ra_segs r') k = Some t" for k t
  proof -
    have "rel_option thin (map_of (ra_segs r) k) (Some t)"
      using shrinks_rel [OF r(2), of k] that by simp
    then obtain s where "map_of (ra_segs r) k = Some s" "thin s t"
      by (auto simp: option_rel_Some2)
    then show ?thesis using r(1) thin_closed unfolding all_segs_def by blast
  qed
  then show ?thesis by (simp add: all_segs_def)
qed

lemma quiet_all: "all_segs r \<Longrightarrow> quiet_step r ev res \<Longrightarrow> \<exists>ev' r'. res = Some (ev', r') \<and> all_segs r'"
  by (auto simp: quiet_step_def intro: shrinks_all)

end

text \<open>The true contents of the segments: the byte at each offset.\<close>

type_synonym streams = "segment_key \<Rightarrow> nat \<Rightarrow> u8"

definition agrees :: "streams \<Rightarrow> segment_key \<Rightarrow> nat \<Rightarrow> bytes \<Rightarrow> bool" where
  "agrees T k off c \<longleftrightarrow> c = map (T k) [off..<off + length c]"

definition faithful :: "streams \<Rightarrow> segment_key \<Rightarrow> segment_buf \<Rightarrow> bool" where
  "faithful T k s \<longleftrightarrow> (\<forall>(off, c) \<in> set (sb_pending s). agrees T k off c)"

definition settled :: "segment_key \<Rightarrow> segment_buf \<Rightarrow> bool" where
  "settled k s \<longleftrightarrow> sb_next_expected s \<notin> fst ` set (sb_pending s)"

definition within_l2 :: "nat \<Rightarrow> segment_key \<Rightarrow> segment_buf \<Rightarrow> bool" where
  "within_l2 cap k s \<longleftrightarrow> sb_pending_bytes s \<le> cap"

interpretation faithful_seg: segment_property "faithful T"
  by unfold_locales (auto simp: faithful_def thin_def)

interpretation settled_seg: segment_property settled
  by unfold_locales (auto simp: settled_def thin_def)

interpretation l2_seg: segment_property "within_l2 cap"
  by unfold_locales (auto simp: within_l2_def thin_def)

lemma agrees_drop:
  assumes "agrees T k off c" "n \<le> length c"
  shows "agrees T k (off + n) (drop n c)"
proof -
  have "drop n c = drop n (map (T k) [off..<off + length c])"
    using assms(1) unfolding agrees_def by (rule arg_cong)
  then show ?thesis using assms(2) by (simp add: agrees_def drop_map)
qed

section \<open>Draining\<close>

lemma upt_concat: "i \<le> j \<Longrightarrow> j \<le> k \<Longrightarrow> [i..<j] @ [j..<k] = [i..<k]"
  using upt_add_eq_append [of i j "k - j"] by simp

fun delivered :: "event list \<Rightarrow> bytes" where
  "delivered [] = []"
| "delivered (Append _ _ _ data # es) = data @ delivered es"
| "delivered (_ # es) = delivered es"

fun appends_from :: "segment_key \<Rightarrow> nat \<Rightarrow> event list \<Rightarrow> bool" where
  "appends_from k a [] \<longleftrightarrow> True"
| "appends_from k a (Append d q off data # es) \<longleftrightarrow>
     (d, q) = k \<and> off = a \<and> appends_from k (a + length data) es"
| "appends_from k a (_ # es) \<longleftrightarrow> False"

definition drained ::
  "segment_key \<Rightarrow> segment_buf \<Rightarrow> event list \<Rightarrow> segment_buf \<Rightarrow> bool" where
  "drained k s ev t \<longleftrightarrow>
     appends_from k (sb_next_expected s) ev
     \<and> sb_next_expected t = sb_next_expected s + length (delivered ev)
     \<and> sb_pending_bytes t + length (delivered ev) = sb_pending_bytes s
     \<and> set (sb_pending t) \<subseteq> set (sb_pending s) \<and> settled k t
     \<and> (\<forall>c. map_of (sb_pending s) (sb_next_expected s) = Some c \<longrightarrow>
          length c \<le> length (delivered ev))
     \<and> (\<forall>T. faithful T k s \<longrightarrow>
          delivered ev = map (T k) [sb_next_expected s..<sb_next_expected t])"

lemma drained_delivered:
  "drained k s ev t \<Longrightarrow> faithful T k s \<Longrightarrow>
   delivered ev = map (T k) [sb_next_expected s..<sb_next_expected t]"
  unfolding drained_def by blast

lemma settled_iff: "settled k s \<longleftrightarrow> map_of (sb_pending s) (sb_next_expected s) = None"
  by (simp add: settled_def map_of_eq_None_iff)

lemma drained_refl: "settled k s \<Longrightarrow> drained k s [] s"
  by (auto simp: drained_def settled_iff)

lemma drained_step:
  assumes ok: "length c \<le> sb_pending_bytes s"
    and c: "map_of (sb_pending s) (sb_next_expected s) = Some c"
    and t: "sb_pending t = bt_remove (sb_next_expected s) (sb_pending s)"
      "sb_next_expected t = sb_next_expected s + length c"
      "sb_pending_bytes t = sb_pending_bytes s - length c"
    and d: "drained k t ev u"
  shows "drained k s (Append (fst k) (snd k) (sb_next_expected s) c # ev) u"
proof -
  have del: "delivered (Append (fst k) (snd k) (sb_next_expected s) c # ev) =
      map (T k) [sb_next_expected s..<sb_next_expected u]" if f: "faithful T k s" for T
  proof -
    let ?n = "sb_next_expected s"
    have "agrees T k ?n c" using f map_of_SomeD [OF c] by (auto simp: faithful_def)
    then have c1: "c = map (T k) [?n..<?n + length c]" unfolding agrees_def .
    have "faithful T k t" using f t(1) by (auto simp: faithful_def set_bt_remove)
    then have c2: "delivered ev = map (T k) [?n + length c..<sb_next_expected u]"
      using drained_delivered [OF d] by (simp only: t(2))
    have le: "?n + length c \<le> sb_next_expected u" using d t(2) by (simp add: drained_def)
    have "c @ delivered ev = map (T k) ([?n..<?n + length c] @ [?n + length c..<sb_next_expected u])"
      unfolding map_append by (rule arg_cong2 [OF c1 c2])
    also have "[?n..<?n + length c] @ [?n + length c..<sb_next_expected u] = [?n..<sb_next_expected u]"
      using le by (intro upt_concat) simp
    finally show ?thesis by simp
  qed
  have "appends_from k (sb_next_expected s)
      (Append (fst k) (snd k) (sb_next_expected s) c # ev)"
    using d t(2) by (simp add: drained_def)
  moreover have "set (sb_pending u) \<subseteq> set (sb_pending s)"
    using d t(1) by (auto simp: drained_def set_bt_remove)
  moreover have "sb_next_expected u = sb_next_expected s + (length c + length (delivered ev))"
    "sb_pending_bytes u + (length c + length (delivered ev)) = sb_pending_bytes s" "settled k u"
    using d t(2,3) ok unfolding drained_def by (simp, linarith, blast)
  ultimately show ?thesis
    unfolding drained_def using c del by (intro conjI allI impI) auto
qed

definition drain_post ::
  "segment_key \<Rightarrow> reassembler \<Rightarrow> event list \<Rightarrow> reassembler \<Rightarrow> bool" where
  "drain_post key r ev r' \<longleftrightarrow> acct r' \<and> ra_budgets r' = ra_budgets r
     \<and> (\<forall>k. k \<noteq> key \<longrightarrow> map_of (ra_segs r') k = map_of (ra_segs r) k)
     \<and> (\<forall>s. map_of (ra_segs r) key = Some s \<longrightarrow>
          (\<exists>t. map_of (ra_segs r') key = Some t \<and> drained key s ev t))"

lemma drain_contiguous_post:
  "acct r \<Longrightarrow> map_of (ra_segs r) key = Some s \<Longrightarrow>
   \<exists>ev' r'. drain_contiguous key ev r = Some (ev @ ev', r') \<and> drain_post key r ev' r'"
proof (induction "length (sb_pending s)" arbitrary: r s ev rule: less_induct)
  case less
  note a = less.prems(1) and s = less.prems(2)
  let ?n = "sb_next_expected s"
  show ?case
  proof (cases "map_of (sb_pending s) ?n")
    case None
    then have "drained key s [] s" by (intro drained_refl) (simp add: settled_iff)
    with None s a show ?thesis
      by (subst drain_contiguous.simps) (simp add: drain_post_def)
  next
    case (Some c)
    let ?t = "s\<lparr>sb_pending := bt_remove ?n (sb_pending s), sb_next_expected := ?n + length c,
      sb_pending_bytes := sb_pending_bytes s - length c, sb_state := SegUnfinished\<rparr>"
    from take_chunk [OF a s Some, of ?t] obtain r1 where
      b: "Option.bind (global_sub (length c) (put_seg key ?t r))
        (conn_sub_unwrap (fst key) (length c)) = Some r1" and a1: "acct r1" and
      e: "r1 = r\<lparr>ra_segs := AList.update key ?t (ra_segs r),
          ra_global_pending := ra_global_pending r1, ra_conn_pending := ra_conn_pending r1\<rparr>"
      by auto
    have e': "ra_segs r1 = AList.update key ?t (ra_segs r)" "ra_budgets r1 = ra_budgets r"
      by (subst e, simp)+
    have len: "length c \<le> sb_pending_bytes s"
      by (rule seg_ok_remove(1) [OF acct_seg [OF a s] Some])
    have m1: "map_of (ra_segs r1) key = Some ?t" by (simp add: e' update_conv')
    have "length (sb_pending ?t) < length (sb_pending s)"
      using length_bt_remove_less [OF Some] by simp
    from less.hyps [OF this a1 m1, of "ev @ [Append (fst key) (snd key) ?n c]"] obtain ev2 r2 where
      d: "drain_contiguous key (ev @ [Append (fst key) (snd key) ?n c]) r1 =
          Some ((ev @ [Append (fst key) (snd key) ?n c]) @ ev2, r2)"
        "drain_post key r1 ev2 r2" by blast
    have "drain_contiguous key ev r =
        Some (ev @ (Append (fst key) (snd key) ?n c # ev2), r2)"
      using s Some len b d(1)
      by (subst drain_contiguous.simps)
        (auto simp: Let_def checked_sub_def split: Option.bind_splits)
    moreover obtain u where u: "map_of (ra_segs r2) key = Some u" "drained key ?t ev2 u"
      using d(2) m1 by (auto simp: drain_post_def)
    have "drained key s (Append (fst key) (snd key) ?n c # ev2) u"
      by (rule drained_step [OF len Some _ _ _ u(2)]) simp_all
    ultimately show ?thesis
      using d(2) u(1) s e' by (auto simp: drain_post_def update_conv')
  qed
qed

section \<open>Inserting a chunk\<close>

definition seg_or_new :: "segment_key \<Rightarrow> reassembler \<Rightarrow> segment_buf" where
  "seg_or_new k r = (case map_of (ra_segs r) k of None \<Rightarrow> segment_buf_new k | Some s \<Rightarrow> s)"

definition grown :: "nat \<Rightarrow> bytes \<Rightarrow> segment_buf \<Rightarrow> segment_buf" where
  "grown offset data s = s\<lparr>sb_pending_bytes := sb_pending_bytes s + length data,
     sb_pending := bt_insert offset data (sb_pending s)\<rparr>"

lemma insert_chunk_frame [simp]:
  "ra_segs (insert_chunk key offset data r) =
     AList.update key (grown offset data (seg_or_new key r)) (ra_segs r)"
  "ra_budgets (insert_chunk key offset data r) = ra_budgets r"
  by (simp_all add: insert_chunk_def Let_def grown_def seg_or_new_def conn_pending_def)

lemma seg_ok_grown: "seg_ok s \<Longrightarrow> seg_ok (grown offset data s)"
proof -
  assume "seg_ok s"
  moreover have "chunk_bytes (bt_insert offset data (sb_pending s)) \<le>
      chunk_bytes (sb_pending s) + length data"
    unfolding chunk_bytes_def using sum_bt_insert_le [of "length \<circ> snd" offset data "sb_pending s"]
    by simp
  ultimately show ?thesis by (simp add: seg_ok_def grown_def bt_sorted_insert)
qed

lemma seg_ok_seg_or_new: "acct r \<Longrightarrow> seg_ok (seg_or_new k r)"
  using acct_seg [of r k]
  by (auto simp: seg_or_new_def segment_buf_new_def seg_ok_empty split: option.splits)

lemma acct_insert:
  assumes a: "acct r"
  shows "acct (insert_chunk key offset data r)"
proof -
  let ?r = "insert_chunk key offset data r" and ?n = "length data"
  let ?g = "grown offset data (seg_or_new key r)"
  let ?segs = "AList.update key ?g (ra_segs r)"
  have upd: "sum_list (map f ?segs) = sum_list (map f (ra_segs r)) + n"
    if "f (key, ?g) = f (key, seg_or_new key r) + n"
      "map_of (ra_segs r) key = None \<Longrightarrow> f (key, seg_or_new key r) = 0"
    for f :: "segment_key \<times> segment_buf \<Rightarrow> nat" and n
  proof (cases "map_of (ra_segs r) key")
    case None
    then show ?thesis using that sum_update_new [OF None, of f ?g] by simp
  next
    case (Some s)
    then show ?thesis using that sum_update [OF Some, of f ?g] by (simp add: seg_or_new_def)
  qed
  have new: "map_of (ra_segs r) key = None \<Longrightarrow> sb_pending_bytes (seg_or_new key r) = 0"
    by (simp add: seg_or_new_def segment_buf_new_def)
  have g: "sb_pending_bytes ?g = sb_pending_bytes (seg_or_new key r) + ?n"
    by (simp add: grown_def)
  have tot: "all_total ?segs = all_total (ra_segs r) + ?n"
    using upd [of "sb_pending_bytes \<circ> snd" ?n] g new by simp
  have dev: "dev_total d ?segs = dev_total d (ra_segs r) + (if d = fst key then ?n else 0)" for d
    using upd [of "weight d" "if d = fst key then ?n else 0"] g new by (simp add: weight_def)
  have "map_of ?segs k = Some s \<Longrightarrow> seg_ok s" for k s
    using acct_seg [OF a, of k s] seg_ok_grown [OF seg_ok_seg_or_new [OF a, of key], of offset data]
    by (cases "k = key") (simp_all add: update_conv')
  moreover have "conn_ok ?segs (ra_conn_pending ?r) d" for d
  proof (cases "d = fst key")
    case True
    then show ?thesis
      using acct_conn_pending [OF a, of d] dev [of d]
      by (simp add: conn_ok_def insert_chunk_def Let_def update_conv' conn_pending_def)
  next
    case False
    have "conn_ok (ra_segs r) (ra_conn_pending r) d" using a by (simp add: acct_def)
    moreover have "dev_idle d ?segs = dev_idle d (ra_segs r)"
      using False by (force simp: dev_idle_def update_conv')
    ultimately show ?thesis
      using False dev [of d]
      by (auto simp: conn_ok_def insert_chunk_def Let_def update_conv' split: option.splits)
  qed
  moreover have "ra_global_pending ?r = ra_global_pending r + ?n"
    by (simp add: insert_chunk_def Let_def)
  ultimately show ?thesis
    using a tot distinct_update [OF acct_distinct [OF a]] by (simp add: acct_def)
qed

section \<open>The downstream writer\<close>

text \<open>
  The writer of segment \<open>k\<close> accepts an \<open>Append\<close> only at the end of what it holds and a \<open>Sealed\<close> only
  with the size it holds, after which the segment starts afresh.
\<close>

fun wal_step :: "segment_key \<Rightarrow> event \<Rightarrow> bytes \<Rightarrow> bytes option" where
  "wal_step k (Append d q off data) out =
     (if (d, q) \<noteq> k then Some out else if off = length out then Some (out @ data) else None)"
| "wal_step k (Sealed d q n) out =
     (if (d, q) \<noteq> k then Some out else if n = length out then Some [] else None)"
| "wal_step k _ out = Some out"

fun wal_run :: "segment_key \<Rightarrow> event list \<Rightarrow> bytes \<Rightarrow> bytes option" where
  "wal_run k [] out = Some out"
| "wal_run k (e # es) out = do { out \<leftarrow> wal_step k e out; wal_run k es out }"

lemma wal_run_append: "wal_run k (es @ fs) out = do { out \<leftarrow> wal_run k es out; wal_run k fs out }"
  by (induction es arbitrary: out) (auto split: Option.bind_splits)

lemma wal_run_quiet: "list_all quiet es \<Longrightarrow> wal_run k es out = Some out"
proof (induction es)
  case (Cons e es)
  then show ?case by (cases e) auto
qed simp

lemma wal_run_appends:
  "appends_from key a ev \<Longrightarrow> (k = key \<Longrightarrow> a = length out) \<Longrightarrow>
   wal_run k ev out = Some (if k = key then out @ delivered ev else out)"
proof (induction key a ev arbitrary: out rule: appends_from.induct)
  case (2 key a d q off data es)
  then show ?case by (cases "k = key") auto
qed auto

definition next_of :: "reassembler \<Rightarrow> segment_key \<Rightarrow> nat" where
  "next_of r k = sb_next_expected (seg_or_new k r)"

text \<open>\<open>delivers T r ev r'\<close>: the events take every writer from the first \<open>next_of r k\<close> bytes of its
  segment to the first \<open>next_of r' k\<close>, and the chunks still buffered agree with the segment.\<close>

definition delivers :: "streams \<Rightarrow> reassembler \<Rightarrow> event list \<Rightarrow> reassembler \<Rightarrow> bool" where
  "delivers T r ev r' \<longleftrightarrow> faithful_seg.all_segs T r' \<and>
     (\<forall>k. wal_run k ev (map (T k) [0..<next_of r k]) = Some (map (T k) [0..<next_of r' k]))"

lemma shrinks_next_of: "shrinks r r' \<Longrightarrow> next_of r' k = next_of r k"
proof -
  assume "shrinks r r'"
  then have "rel_option thin (map_of (ra_segs r) k) (map_of (ra_segs r') k)"
    by (rule shrinks_rel)
  then show ?thesis
    by (cases "map_of (ra_segs r) k"; cases "map_of (ra_segs r') k")
      (auto simp: next_of_def seg_or_new_def thin_def)
qed

lemma shrinks_delivers:
  "shrinks r r' \<Longrightarrow> list_all quiet ev \<Longrightarrow> faithful_seg.all_segs T r \<Longrightarrow> delivers T r ev r'"
  by (simp add: delivers_def shrinks_next_of wal_run_quiet faithful_seg.shrinks_all)

lemma delivers_trans:
  "delivers T r ev r' \<Longrightarrow> delivers T r' ev' r'' \<Longrightarrow> delivers T r (ev @ ev') r''"
  by (auto simp: delivers_def wal_run_append)

definition base_ok :: "reassembler \<Rightarrow> bool" where
  "base_ok r \<longleftrightarrow> acct r \<and> settled_seg.all_segs r
     \<and> l2_seg.all_segs (l2_segment_cap (ra_budgets r)) r"

lemma shrinks_base_ok: "base_ok r \<Longrightarrow> shrinks r r' \<Longrightarrow> base_ok r'"
  using settled_seg.shrinks_all l2_seg.shrinks_all
  by (auto simp: base_ok_def shrinks_def)

section \<open>One call\<close>

text \<open>What every call guarantees: it returns, keeps \<open>base_ok\<close> and the budgets, and delivers.\<close>

definition call_ok ::
  "bool \<Rightarrow> streams \<Rightarrow> reassembler \<Rightarrow> (event list \<times> reassembler) option \<Rightarrow> bool" where
  "call_ok true_data T r res \<longleftrightarrow> (\<exists>ev r'. res = Some (ev, r') \<and> base_ok r'
     \<and> ra_budgets r' = ra_budgets r
     \<and> (true_data \<longrightarrow> faithful_seg.all_segs T r \<longrightarrow> delivers T r ev r'))"

lemma call_ok_shrinks:
  "base_ok r \<Longrightarrow> shrinks r r' \<Longrightarrow> list_all quiet ev \<Longrightarrow> call_ok td T r (Some (ev, r'))"
  using shrinks_base_ok [of r r'] shrinks_delivers [of r r' ev T]
  by (auto simp: call_ok_def shrinks_def)

lemma call_ok_quiet: "base_ok r \<Longrightarrow> quiet_step r [] res \<Longrightarrow> call_ok td T r res"
  by (auto simp: quiet_step_def intro: call_ok_shrinks)

lemma bump_dup_shrinks: "acct r \<Longrightarrow> shrinks r (bump_dup key r)"
  by (auto simp: bump_dup_def shrinks_refl intro: shrinks_same split: option.splits)

lemma seg_or_new_Some: "map_of (ra_segs r) k = Some s \<Longrightarrow> seg_or_new k r = s"
  by (simp add: seg_or_new_def)

lemma grown_fields [simp]:
  "sb_next_expected (grown offset data s) = sb_next_expected s"
  "sb_pending_bytes (grown offset data s) = sb_pending_bytes s + length data"
  "sb_pending (grown offset data s) = bt_insert offset data (sb_pending s)"
  by (simp_all add: grown_def)

lemma faithful_grown:
  "faithful T k s \<Longrightarrow> agrees T k offset data \<Longrightarrow> faithful T k (grown offset data s)"
  using set_bt_insert_subset [of offset data "sb_pending s"] by (auto simp: faithful_def)

lemma faithful_seg_or_new: "faithful_seg.all_segs T r \<Longrightarrow> faithful T k (seg_or_new k r)"
  by (auto simp: faithful_seg.all_segs_def seg_or_new_def segment_buf_new_def faithful_def
      split: option.splits)

lemma insert_drain_call_ok:
  assumes ok: "base_ok r"
    and n: "offset = next_of r key \<or>
      sb_pending_bytes (seg_or_new key r) + length data \<le> l2_segment_cap (ra_budgets r)"
    and d: "td \<Longrightarrow> agrees T key offset data"
  shows "\<exists>ev' r'. drain_contiguous key ev (insert_chunk key offset data r) = Some (ev @ ev', r') \<and>
    call_ok td T r (Some (ev', r')) \<and>
    (offset = next_of r key \<longrightarrow> offset + length data \<le> next_of r' key)"
proof -
  let ?r = "insert_chunk key offset data r" and ?s = "seg_or_new key r"
  let ?g = "grown offset data ?s" and ?cap = "l2_segment_cap (ra_budgets r)"
  have a: "acct ?r" using ok by (simp add: base_ok_def acct_insert)
  have g: "map_of (ra_segs ?r) key = Some ?g" by (simp add: update_conv')
  from drain_contiguous_post [OF a g, of ev] obtain ev' r' where
    r': "drain_contiguous key ev ?r = Some (ev @ ev', r')" "drain_post key ?r ev' r'" by blast
  from r'(2) g obtain t where t: "map_of (ra_segs r') key = Some t" "drained key ?g ev' t"
    by (auto simp: drain_post_def)
  have other: "map_of (ra_segs r') k = map_of (ra_segs r) k" if "k \<noteq> key" for k
    using r'(2) that by (simp add: drain_post_def update_conv')
  have s_le: "sb_pending_bytes ?s \<le> ?cap"
    using ok by (auto simp: base_ok_def l2_seg.all_segs_def within_l2_def seg_or_new_def
        segment_buf_new_def split: option.splits)
  have ne_le: "sb_next_expected ?s \<le> sb_next_expected t"
    using t(2) unfolding drained_def by (metis grown_fields(1) le_add1)
  have t_ne: "sb_next_expected t = sb_next_expected ?s + length (delivered ev')"
    and t_pb: "sb_pending_bytes t + length (delivered ev') = sb_pending_bytes ?s + length data"
    and t_set: "settled key t" and t_app: "appends_from key (sb_next_expected ?s) ev'"
    and t_sub: "set (sb_pending t) \<subseteq> set (sb_pending ?g)"
    using t(2) unfolding drained_def by simp_all
  have len: "offset = next_of r key \<Longrightarrow> length data \<le> length (delivered ev')"
    using t(2) unfolding drained_def by (simp add: next_of_def)
  then have "offset = next_of r key \<Longrightarrow> offset + length data \<le> next_of r' key"
    using t_ne t(1) by (simp add: next_of_def seg_or_new_Some)
  moreover from len n s_le t_pb have t_le: "sb_pending_bytes t \<le> ?cap" by linarith
  have all: "Q key t \<Longrightarrow> (\<And>k s. map_of (ra_segs r) k = Some s \<Longrightarrow> Q k s) \<Longrightarrow>
      map_of (ra_segs r') k = Some u \<Longrightarrow> Q k u" for Q k u
    using t(1) other [of k] by (cases "k = key") auto
  have b: "ra_budgets r' = ra_budgets r" using r'(2) by (simp add: drain_post_def)
  have "base_ok r'"
    unfolding base_ok_def settled_seg.all_segs_def l2_seg.all_segs_def b
    using ok t_set t_le r'(2) all [of settled] all [of "within_l2 ?cap"]
    by (auto simp: drain_post_def base_ok_def settled_seg.all_segs_def l2_seg.all_segs_def
        within_l2_def)
  moreover have "delivers T r ev' r'" if f: "td" "faithful_seg.all_segs T r"
  proof -
    have fg: "faithful T key ?g" by (rule faithful_grown [OF faithful_seg_or_new [OF f(2)] d [OF f(1)]])
    then have ft: "faithful T key t" using t_sub unfolding faithful_def by blast
    have data: "delivered ev' = map (T key) [sb_next_expected ?s..<sb_next_expected t]"
      using drained_delivered [OF t(2) fg] by simp
    have "wal_run k ev' (map (T k) [0..<next_of r k]) = Some (map (T k) [0..<next_of r' k])" for k
    proof (cases "k = key")
      case False
      then show ?thesis
        using wal_run_appends [OF t_app, of k] other [OF False] by (simp add: next_of_def seg_or_new_def)
    next
      case True
      have "map (T key) [0..<sb_next_expected ?s] @ delivered ev' = map (T key) [0..<sb_next_expected t]"
        unfolding data map_append [symmetric]
        by (rule arg_cong [OF upt_concat]) (simp_all add: ne_le)
      then show ?thesis
        using wal_run_appends [OF t_app, of k] True t(1) by (simp add: next_of_def seg_or_new_Some)
    qed
    moreover have "faithful_seg.all_segs T r'"
      unfolding faithful_seg.all_segs_def using f(2) ft all [of "faithful T"]
      by (auto simp: faithful_seg.all_segs_def)
    ultimately show ?thesis by (simp add: delivers_def)
  qed
  ultimately show ?thesis using r'(1) b unfolding call_ok_def by blast
qed

lemma call_ok_cong_trans:
  assumes s: "shrinks r r2" "list_all quiet ev" and c: "call_ok td T r2 (Some (ev', r'))"
  shows "call_ok td T r (Some (ev @ ev', r'))"
proof -
  have "ra_budgets r2 = ra_budgets r" using s(1) by (simp add: shrinks_def)
  then show ?thesis
    using c shrinks_delivers [OF s, of T] faithful_seg.shrinks_all [OF _ s(1), of T]
      delivers_trans [of T r ev r2 ev' r']
    by (auto simp: call_ok_def)
qed

lemma shrinks_pending_bytes:
  "shrinks r r' \<Longrightarrow> sb_pending_bytes (seg_or_new k r') \<le> sb_pending_bytes (seg_or_new k r)"
  using shrinks_rel [of r r' k]
  by (cases "map_of (ra_segs r) k"; cases "map_of (ra_segs r') k")
    (auto simp: seg_or_new_def thin_def)

lemma stage_chunk_call_ok:
  assumes ok: "base_ok r"
    and ne: "ne = next_of r (d, q)" and le: "ne \<le> offset"
    and l2: "ne < offset \<Longrightarrow>
      sb_pending_bytes (seg_or_new (d, q) r) + length data \<le> l2_segment_cap (ra_budgets r)"
    and t: "td \<Longrightarrow> agrees T (d, q) offset data"
  shows "call_ok td T r (stage_chunk d q offset ne data r) \<and>
    (ne = offset \<longrightarrow> (\<exists>ev r'. stage_chunk d q offset ne data r = Some (ev, r') \<and>
       offset + length data \<le> next_of r' (d, q)))"
proof -
  define e1 where "e1 = (if ne < offset \<and> l25_conn_cap (ra_budgets r) < conn_pending r d + length data
    then evict_oldest_in_dev d [] r else Some ([], r))"
  have a: "acct r" using ok by (simp add: base_ok_def)
  have "quiet_step r [] e1"
    unfolding e1_def using evict_oldest_in_dev_step [OF a] quiet_step_refl [OF a] by simp
  then obtain ev1 r1 where
    r1: "e1 = Some (ev1, r1)" "shrinks r r1" "list_all quiet ev1" by (auto simp: quiet_step_def)
  define e2 where "e2 = (if l3_global_cap (ra_budgets r1) < ra_global_pending r1 + length data
    then evict_oldest_global ev1 r1 else Some (ev1, r1))"
  have a1: "acct r1" by (rule shrinks_acct [OF r1(2)])
  have "quiet_step r1 ev1 e2"
    unfolding e2_def using evict_oldest_global_step [OF a1] quiet_step_refl [OF a1] by simp
  then obtain ev2 r2 where
    r2: "e2 = Some (ev1 @ ev2, r2)" "shrinks r1 r2" "list_all quiet ev2"
    by (auto simp: quiet_step_def)
  have s: "shrinks r r2" by (rule shrinks_trans [OF r1(2) r2(2)])
  have "offset = next_of r2 (d, q) \<or>
      sb_pending_bytes (seg_or_new (d, q) r2) + length data \<le> l2_segment_cap (ra_budgets r2)"
    using le l2 ne shrinks_next_of [OF s, of "(d, q)"] shrinks_pending_bytes [OF s, of "(d, q)"] s
    by (fastforce simp: shrinks_def)
  from insert_drain_call_ok [OF shrinks_base_ok [OF ok s] this, of td T "ev1 @ ev2"] t
  obtain ev3 r3 where r3: "drain_contiguous (d, q) (ev1 @ ev2) (insert_chunk (d, q) offset data r2) =
      Some ((ev1 @ ev2) @ ev3, r3)" "call_ok td T r2 (Some (ev3, r3))"
      "offset = next_of r2 (d, q) \<longrightarrow> offset + length data \<le> next_of r3 (d, q)" by blast
  have "stage_chunk d q offset ne data r = Some ((ev1 @ ev2) @ ev3, r3)"
    using r1(1) r2(1) r3(1) unfolding stage_chunk_def e1_def e2_def by (simp add: Let_def)
  then show ?thesis
    using call_ok_cong_trans [OF s _ r3(2), of "ev1 @ ev2"] r1(3) r2(3) r3(3) ne
      shrinks_next_of [OF s, of "(d, q)"] by auto
qed

lemma place_chunk_call_ok:
  assumes ok: "base_ok r" and t: "td \<Longrightarrow> agrees T (d, q) offset data"
  shows "call_ok td T r (place_chunk d q offset data r)"
proof -
  have a: "acct r" using ok by (simp add: base_ok_def)
  define s where "s = seg_or_new (d, q) r"
  have nepb: "(case map_of (ra_segs r) (d, q) of None \<Rightarrow> (0, 0)
      | Some s \<Rightarrow> (sb_next_expected s, sb_pending_bytes s)) = (sb_next_expected s, sb_pending_bytes s)"
    by (simp add: s_def seg_or_new_def segment_buf_new_def split: option.split)
  let ?ne = "sb_next_expected s"
  define data' where "data' = (if offset < ?ne then drop (?ne - offset) data else data)"
  have dup: "call_ok td T r (Some ([Dup d q], bump_dup (d, q) r))"
    by (rule call_ok_shrinks [OF ok bump_dup_shrinks [OF a]]) simp
  have err: "call_ok td T r (Some (mark_segment_error (d, q) reason [] r))" for reason
  proof (cases "map_of (ra_segs r) (d, q)")
    case None
    then show ?thesis
      using call_ok_shrinks [OF ok shrinks_refl [OF a]] mark_segment_error_absent [OF a None]
      by simp
  next
    case (Some s)
    then show ?thesis
      using mark_segment_error_shrinks [OF a Some, of reason "[]"]
      by (auto intro!: call_ok_shrinks [OF ok])
  qed
  have drop: "call_ok td T r (Some ([QuarantinedDrop d (length data)], r))"
    by (rule call_ok_shrinks [OF ok shrinks_refl [OF a]]) simp
  have stage: "call_ok td T r (stage_chunk d q (max offset ?ne) ?ne data' r)"
    if "\<not> (offset < ?ne \<and> length data \<le> ?ne - offset)"
      "\<not> (?ne < max offset ?ne \<and> l2_segment_cap (ra_budgets r) < sb_pending_bytes s + length data')"
  proof (rule stage_chunk_call_ok [OF ok, THEN conjunct1])
    show "agrees T (d, q) (max offset ?ne) data'" if td
      using t [OF that] agrees_drop [of T "(d, q)" offset data "?ne - offset"]
        \<open>\<not> (offset < ?ne \<and> length data \<le> ?ne - offset)\<close>
      by (auto simp: data'_def max_def)
  qed (use that in \<open>auto simp: next_of_def s_def\<close>)
  show ?thesis
    unfolding place_chunk_def Let_def nepb prod.case data'_def [symmetric]
    using drop dup err stage by (auto simp del: max_less_iff_conj less_max_iff_disj)
qed

lemma release_segment_acct:
  assumes a: "acct r" and s: "map_of (ra_segs r) key = Some s"
  shows "acct (release_segment key r)"
proof -
  let ?segs = "AList.delete key (ra_segs r)"
  have t: "all_total ?segs + sb_pending_bytes s = all_total (ra_segs r)"
    using sum_delete [OF acct_distinct [OF a] s, of "sb_pending_bytes \<circ> snd"] by simp
  have dt: "dev_total d ?segs + weight d (key, s) = dev_total d (ra_segs r)" for d
    by (rule sum_delete [OF acct_distinct [OF a] s])
  have idle: "dev_idle d (ra_segs r) \<Longrightarrow> dev_idle d ?segs" for d
    by (auto simp: dev_idle_def delete_conv' split: if_splits)
  have c: "conn_ok (ra_segs r) (ra_conn_pending r) d" for d using a by (simp add: acct_def)
  have "conn_ok ?segs (ra_conn_pending (release_segment key r)) d" for d
    using c [of d] dt [of d] idle [of d] s
    by (cases "d = fst key")
      (auto simp: conn_ok_def release_segment_def conn_sub_def update_conv' split: option.splits)
  moreover have "map_of ?segs k = Some u \<Longrightarrow> seg_ok u" for k u
    using acct_seg [OF a, of k u] by (auto simp: delete_conv' split: if_splits)
  ultimately show ?thesis
    using a s t distinct_delete [OF acct_distinct [OF a], of key]
    by (auto simp: acct_def release_segment_def)
qed

lemma call_ok_frame:
  assumes "call_ok td T r1 res" "ra_segs r1 = ra_segs r" "ra_budgets r1 = ra_budgets r"
  shows "call_ok td T r res"
  using assms
  by (auto simp: call_ok_def delivers_def next_of_def seg_or_new_def faithful_seg.all_segs_def)

lemma base_ok_frame:
  assumes "base_ok r" "ra_segs r1 = ra_segs r" "ra_budgets r1 = ra_budgets r"
    "ra_conn_pending r1 = ra_conn_pending r" "ra_global_pending r1 = ra_global_pending r"
  shows "base_ok r1"
  using assms acct_cong [of r r1]
  by (simp add: base_ok_def settled_seg.all_segs_def l2_seg.all_segs_def)

lemma list_all_map_quiet: "list_all quiet (map (SeqSkipped d) qs)"
  by (induction qs) auto

lemma release_call_ok:
  assumes ok: "base_ok r" and s: "map_of (ra_segs r) (d, q) = Some s" and ev: "list_all quiet ev"
  shows "call_ok td T r
    (Some (ev @ [Sealed d q (sb_next_expected s)], release_segment (d, q) r))"
proof -
  let ?r = "release_segment (d, q) r"
  have segs: "map_of (ra_segs ?r) k = (if k = (d, q) then None else map_of (ra_segs r) k)" for k
    using s by (simp add: release_segment_def delete_conv')
  have b: "ra_budgets ?r = ra_budgets r" using s by (simp add: release_segment_def)
  have "base_ok ?r"
    using ok release_segment_acct [OF _ s]
    unfolding base_ok_def settled_seg.all_segs_def l2_seg.all_segs_def b segs by simp
  moreover have "delivers T r (ev @ [Sealed d q (sb_next_expected s)]) ?r"
    if "faithful_seg.all_segs T r"
    using that wal_run_quiet [OF ev] s
    unfolding delivers_def faithful_seg.all_segs_def segs wal_run_append
    by (auto simp: next_of_def seg_or_new_def segs segment_buf_new_def)
  ultimately show ?thesis using b by (simp add: call_ok_def)
qed

lemma seal_call_ok:
  assumes ok: "base_ok r"
  shows "call_ok td T r (Some (seal d q n r))"
proof -
  define last where "last = (case map_of (ra_last_seq r) d of None \<Rightarrow> 0 | Some l \<Rightarrow> l)"
  define ev where "ev = (if 0 < q \<and> 0 < last \<and> last + 1 < q
    then map (SeqSkipped d) (u32_range (last + 1) q) else [])"
  define r1 where "r1 = (if last < q
    then r\<lparr>ra_last_seq := AList.update d q (ra_last_seq r)\<rparr> else r)"
  have f: "ra_segs r1 = ra_segs r" "ra_budgets r1 = ra_budgets r"
      "ra_conn_pending r1 = ra_conn_pending r" "ra_global_pending r1 = ra_global_pending r"
    by (simp_all add: r1_def)
  have ok1: "base_ok r1" by (rule base_ok_frame [OF ok f])
  then have a1: "acct r1" by (simp add: base_ok_def)
  have ev: "list_all quiet ev" by (simp add: ev_def list_all_map_quiet)
  have "call_ok td T r1 (Some (seal d q n r))"
  proof (cases "map_of (ra_segs r1) (d, q)")
    case None
    then have "seal d q n r = (ev, r1)"
      by (simp add: seal_def Let_def last_def ev_def r1_def split: if_splits)
    then show ?thesis using call_ok_shrinks [OF ok1 shrinks_refl [OF a1] ev] by simp
  next
    case (Some s)
    show ?thesis
    proof (cases "sb_next_expected s = n")
      case True
      then have "seal d q n r = (ev @ [Sealed d q (sb_next_expected s)], release_segment (d, q) r1)"
        using Some by (simp add: seal_def Let_def last_def ev_def r1_def split: if_splits)
      then show ?thesis using release_call_ok [OF ok1 Some ev] by simp
    next
      case False
      then have "seal d q n r = (ev @ [SealGap d q (sb_next_expected s) n],
          put_seg (d, q) (s\<lparr>sb_sealed_size := Some n\<rparr>) r1)"
        using Some by (simp add: seal_def Let_def last_def ev_def r1_def split: if_splits)
      then show ?thesis
        using call_ok_shrinks [OF ok1 shrinks_same [OF a1 Some]] ev by simp
    qed
  qed
  then show ?thesis by (rule call_ok_frame [OF _ f(1,2)])
qed

section \<open>Runs\<close>

datatype ra_call = Place u32 u32 nat bytes | Seal u32 u32 nat | Tick nat

fun ra_exec :: "ra_call \<Rightarrow> reassembler \<Rightarrow> (event list \<times> reassembler) option" where
  "ra_exec (Place d q offset data) r = place_chunk d q offset data r"
| "ra_exec (Seal d q n) r = Some (seal d q n r)"
| "ra_exec (Tick now) r = Some ([], set_now now r)"

fun ra_run :: "ra_call list \<Rightarrow> reassembler \<Rightarrow> (event list \<times> reassembler) option" where
  "ra_run [] r = Some ([], r)"
| "ra_run (c # cs) r =
     do { (ev, r) \<leftarrow> ra_exec c r; (evs, r) \<leftarrow> ra_run cs r; Some (ev @ evs, r) }"

fun true_call :: "streams \<Rightarrow> ra_call \<Rightarrow> bool" where
  "true_call T (Place d q offset data) \<longleftrightarrow> agrees T (d, q) offset data"
| "true_call T _ \<longleftrightarrow> True"

lemma ra_exec_call_ok:
  assumes "base_ok r"
  shows "call_ok (true_call T c) T r (ra_exec c r)"
proof (cases c)
  case (Tick now)
  have f: "ra_segs (set_now now r) = ra_segs r" "ra_budgets (set_now now r) = ra_budgets r"
    "ra_conn_pending (set_now now r) = ra_conn_pending r"
    "ra_global_pending (set_now now r) = ra_global_pending r"
    by (simp_all add: set_now_def)
  have ok: "base_ok (set_now now r)" by (rule base_ok_frame [OF assms f])
  then have "acct (set_now now r)" by (simp add: base_ok_def)
  then have "call_ok True T (set_now now r) (Some ([], set_now now r))"
    by (intro call_ok_shrinks [OF ok] shrinks_refl) simp_all
  then show ?thesis using Tick f by (auto intro: call_ok_frame)
qed (auto intro: place_chunk_call_ok seal_call_ok assms)

lemma ra_run_ok:
  "base_ok r \<Longrightarrow> \<exists>evs r'. ra_run cs r = Some (evs, r') \<and> base_ok r' \<and>
     ra_budgets r' = ra_budgets r \<and>
     (faithful_seg.all_segs T r \<longrightarrow> list_all (true_call T) cs \<longrightarrow> delivers T r evs r')"
proof (induction cs arbitrary: r)
  case Nil
  then show ?case by (auto simp: delivers_def)
next
  case (Cons c cs)
  from ra_exec_call_ok [OF Cons.prems, of T c] obtain ev r1 where
    1: "ra_exec c r = Some (ev, r1)" "base_ok r1" "ra_budgets r1 = ra_budgets r"
      "true_call T c \<Longrightarrow> faithful_seg.all_segs T r \<Longrightarrow> delivers T r ev r1"
    by (auto simp: call_ok_def)
  from Cons.IH [OF 1(2)] obtain evs r2 where
    2: "ra_run cs r1 = Some (evs, r2)" "base_ok r2" "ra_budgets r2 = ra_budgets r1"
      "faithful_seg.all_segs T r1 \<longrightarrow> list_all (true_call T) cs \<longrightarrow> delivers T r1 evs r2" by blast
  have "delivers T r (ev @ evs) r2" if "faithful_seg.all_segs T r" "list_all (true_call T) (c # cs)"
  proof -
    have "delivers T r ev r1" using that 1(4) by simp
    moreover from this have "faithful_seg.all_segs T r1" by (simp add: delivers_def)
    ultimately show ?thesis using that(2) 2(4) by (auto intro: delivers_trans)
  qed
  then show ?case using 1 2 by auto
qed

lemma base_ok_new: "base_ok (reassembler_new b)"
  by (simp add: base_ok_def acct_def reassembler_new_def conn_ok_def dev_idle_def
      settled_seg.all_segs_def l2_seg.all_segs_def)

lemma next_of_new [simp]: "next_of (reassembler_new b) k = 0"
  by (simp add: next_of_def seg_or_new_def reassembler_new_def segment_buf_new_def)

section \<open>Properties\<close>

text \<open>C6: no sequence of calls panics: no subtraction underflows and no \<open>unwrap\<close> meets \<open>None\<close>,
  for arbitrary chunks, offsets, seals and clock values; the byte counters agree afterwards.\<close>

theorem reassembler_no_panic:
  "\<exists>evs r. ra_run calls (reassembler_new b) = Some (evs, r) \<and>
     ra_global_pending r = all_total (ra_segs r) \<and>
     (\<forall>d. conn_pending r d = dev_total d (ra_segs r))"
proof -
  from ra_run_ok [OF base_ok_new] obtain evs r where
    r: "ra_run calls (reassembler_new b) = Some (evs, r)" "base_ok r" by blast
  then have a: "acct r" by (simp add: base_ok_def)
  then have "ra_global_pending r = all_total (ra_segs r)" by (simp add: acct_def)
  then show ?thesis using r(1) acct_conn_pending [OF a] by blast
qed

text \<open>C7: whatever the peer sends, no segment ever buffers more than the L2 cap of out-of-order
  bytes.\<close>

theorem l2_cap_respected:
  assumes "ra_run calls (reassembler_new b) = Some (evs, r)" "map_of (ra_segs r) k = Some s"
  shows "chunk_bytes (sb_pending s) \<le> l2_segment_cap b \<and> sb_pending_bytes s \<le> l2_segment_cap b"
proof -
  from ra_run_ok [OF base_ok_new, of calls b] assms(1) have
    r: "base_ok r" "ra_budgets r = b" by (auto simp: reassembler_new_def)
  then have "sb_pending_bytes s \<le> l2_segment_cap b"
    using assms(2) by (simp add: base_ok_def l2_seg.all_segs_def within_l2_def)
  moreover have "seg_ok s" using acct_seg [OF _ assms(2)] r(1) by (simp add: base_ok_def)
  ultimately show ?thesis by (simp add: seg_ok_def)
qed

text \<open>C3: if every chunk that arrives agrees with the true contents of its segment, in whatever
  order and however often, then a writer that appends the delivered data never sees a gap, an
  overlap or a wrong size at a seal, and what it holds of a segment is exactly its prefix up to
  the engine's cursor.\<close>

theorem reassembly_is_faithful:
  assumes "list_all (true_call T) calls" "ra_run calls (reassembler_new b) = Some (evs, r)"
  shows "wal_run k evs [] = Some (map (T k) [0..<next_of r k])"
proof -
  have "faithful_seg.all_segs T (reassembler_new b)"
    by (simp add: faithful_seg.all_segs_def reassembler_new_def)
  with ra_run_ok [OF base_ok_new, of calls b T] assms have "delivers T (reassembler_new b) evs r"
    by auto
  then have "wal_run k evs (map (T k) [0..<next_of (reassembler_new b) k]) =
      Some (map (T k) [0..<next_of r k])" unfolding delivers_def by blast
  then show ?thesis by simp
qed

text \<open>The chunk that continues a segment is delivered by the very call that brings it.\<close>

lemma place_next_progress:
  assumes ok: "base_ok r" and q: "\<not> is_quarantined r d" and ne: "data \<noteq> []"
    and n: "next_of r (d, q) + length data < 2 ^ 64"
  shows "\<exists>ev r'. place_chunk d q (next_of r (d, q)) data r = Some (ev, r') \<and>
    next_of r (d, q) + length data \<le> next_of r' (d, q)"
proof -
  let ?n = "next_of r (d, q)"
  have nepb: "(case map_of (ra_segs r) (d, q) of None \<Rightarrow> (0, 0)
      | Some s \<Rightarrow> (sb_next_expected s, sb_pending_bytes s)) =
      (?n, sb_pending_bytes (seg_or_new (d, q) r))"
    by (simp add: next_of_def seg_or_new_def segment_buf_new_def split: option.split)
  have "\<not> add64 ?n (length data) \<le> ?n" using n ne by (simp add: add64_def)
  then have "place_chunk d q ?n data r = stage_chunk d q ?n ?n data r"
    using q unfolding place_chunk_def Let_def nepb prod.case by simp
  then show ?thesis
    using stage_chunk_call_ok [OF ok refl order_refl, of d q data False undefined] by simp
qed

text \<open>In every reachable state, a chunk that starts at the cursor of a device that is not
  quarantined is accepted whatever the budgets are: the cursor moves past all of it.\<close>

lemma next_chunk_accepted:
  assumes "ra_run calls (reassembler_new b) = Some (evs, r)" "\<not> is_quarantined r d" "data \<noteq> []"
    "next_of r (d, q) + length data < 2 ^ 64"
  shows "\<exists>ev r'. place_chunk d q (next_of r (d, q)) data r = Some (ev, r') \<and>
    next_of r (d, q) + length data \<le> next_of r' (d, q)"
proof -
  have "base_ok r" using ra_run_ok [OF base_ok_new, of calls b] assms(1) by auto
  then show ?thesis using assms(2-) by (rule place_next_progress)
qed

section \<open>Concrete runs\<close>

definition sample_budgets :: budgets where
  "sample_budgets = \<lparr>l2_segment_cap = 8, l25_conn_cap = 8, l3_global_cap = 6,
     evict_window_secs = 30, evict_threshold = 3\<rparr>"

lemmas reassembly_eval =
  sample_budgets_def reassembler_new_def place_chunk_def stage_chunk_def insert_chunk_def seal_def
  release_segment_def conn_sub_def conn_sub_unwrap_def global_sub_def checked_sub_def put_seg_def
  segment_buf_new_def is_quarantined_def add64_def conn_pending_def drain_contiguous.simps
  bt_remove_def Let_def evict_oldest_global_def oldest_global_def older_global_def evict_chunk_def
  next_of_def seg_or_new_def u32_range_def

lemma sample_run:
  "ra_run [Place 1 0 2 [7, 8], Place 1 0 3 [8, 9]] (reassembler_new sample_budgets) =
     Some ([], (reassembler_new sample_budgets)\<lparr>ra_global_pending := 4, ra_conn_pending := [(1, 4)],
       ra_segs := [((1, 0), (segment_buf_new (1, 0))\<lparr>sb_pending := [(2, [7, 8]), (3, [8, 9])],
         sb_pending_bytes := 4\<rparr>)]\<rparr>)"
  by (simp add: reassembly_eval)

theorem l2_cap_respected_witness:
  "\<exists>evs r s. ra_run [Place 1 0 2 [7, 8], Place 1 0 3 [8, 9]] (reassembler_new sample_budgets) =
       Some (evs, r) \<and> map_of (ra_segs r) (1, 0) = Some s \<and>
     chunk_bytes (sb_pending s) \<le> 8 \<and> sb_pending_bytes s \<le> 8"
  using l2_cap_respected [OF sample_run, of "(1, 0)"] sample_run
  by (auto simp: sample_budgets_def)

theorem reassembly_is_faithful_witness:
  "\<exists>evs r. ra_run [Place 1 0 2 [7, 8], Place 1 0 0 [5, 6], Place 1 0 1 [6, 7]]
       (reassembler_new sample_budgets) = Some (evs, r) \<and> evs = [Append 1 0 0 [5, 6], Append 1 0 2 [7, 8], Dup 1 0] \<and>
     wal_run (1, 0) evs [] = Some [5, 6, 7, 8]"
proof -
  let ?T = "\<lambda>k n. [5, 6, 7, 8] ! n :: u8"
  let ?cs = "[Place 1 0 2 [7, 8], Place 1 0 0 [5, 6], Place 1 0 1 [6, 7]]"
  have t: "list_all (true_call ?T) ?cs" by (simp add: agrees_def upt_rec)
  obtain evs r where r: "ra_run ?cs (reassembler_new sample_budgets) = Some (evs, r)"
    "evs = [Append 1 0 0 [5, 6], Append 1 0 2 [7, 8], Dup 1 0]" "next_of r (1, 0) = 4"
    by (simp add: reassembly_eval bump_dup_def)
  from reassembly_is_faithful [OF t r(1), of "(1, 0)"] r show ?thesis by (simp add: upt_rec)
qed

theorem next_chunk_accepted_witness:
  "\<exists>ev r'. place_chunk 2 5 0 [1, 2, 3] (reassembler_new sample_budgets) = Some (ev, r') \<and>
     3 \<le> next_of r' (2, 5)"
  using next_chunk_accepted [of "[]" sample_budgets "[]" "reassembler_new sample_budgets" 2 "[1, 2, 3]" 5]
  by (simp add: is_quarantined_def reassembler_new_def next_of_def seg_or_new_def segment_buf_new_def
      numeral_3_eq_3)

section \<open>Where the budgets are weaker than their comments\<close>

text \<open>The L3 cap is not a hard cap: one eviction makes room for one buffered chunk, so a larger
  chunk that arrives afterwards leaves more than the cap buffered.\<close>

lemma l3_cap_exceeded:
  "\<exists>evs r. ra_run [Place 1 0 10 [1, 2, 3], Place 2 0 11 [1, 2, 3], Place 3 0 12 [1, 2, 3, 4, 5]]
       (reassembler_new sample_budgets) = Some (evs, r) \<and>
     l3_global_cap (ra_budgets r) < ra_global_pending r"
  by (simp add: reassembly_eval)

text \<open>A retransmitted out-of-order chunk is counted again although it replaces the first copy, so
  five buffered bytes put the segment over its cap of eight and into the error state.\<close>

lemma ooo_retransmission_counted_twice:
  "\<exists>evs r. ra_run [Place 1 0 10 [1, 2, 3, 4, 5], Place 1 0 10 [1, 2, 3, 4, 5]]
       (reassembler_new sample_budgets) = Some (evs, r) \<and>
     evs = [SegmentError 1 0 ''L2 segment cap exceeded'', Gap 1 0 0]"
  by (simp add: reassembly_eval mark_segment_error_def)

end
