(* ===== verification/Reassembly_Complete.thy ===== *)
theory Reassembly_Complete
  imports Reassembly_Run
begin

text \<open>
  Completeness of the reassembly engine.  When the chunks of a segment are the pieces of one
  partition of it and the budgets hold all of them, every arrival order delivers the whole segment,
  with nothing evicted.  Chunks that are cut at other places may be left behind.
\<close>

section \<open>Segments cut into pieces\<close>

text \<open>The offset of piece \<open>i\<close>, and the pieces that have arrived.\<close>

definition border :: "bytes list \<Rightarrow> nat \<Rightarrow> nat" where
  "border ps i = length (concat (take i ps))"

lemma border_0 [simp]: "border ps 0 = 0"
  by (simp add: border_def)

lemma border_Suc: "i < length ps \<Longrightarrow> border ps (Suc i) = border ps i + length (ps ! i)"
  by (simp add: border_def take_Suc_conv_app_nth)

lemma border_all [simp]: "border ps (length ps) = length (concat ps)"
  by (simp add: border_def)

lemma border_add: "i \<le> j \<Longrightarrow> j \<le> length ps \<Longrightarrow> border ps i \<le> border ps j"
proof (induction j)
  case (Suc j)
  then show ?case by (cases "i = Suc j") (auto simp: border_Suc intro: le_trans)
qed simp

lemma border_less:
  assumes "\<forall>p \<in> set ps. p \<noteq> []" "i < j" "j \<le> length ps"
  shows "border ps i + length (ps ! i) \<le> border ps j \<and> border ps i < border ps j"
proof -
  have "border ps (Suc i) \<le> border ps j" by (rule border_add) (use assms in simp_all)
  moreover have "0 < length (ps ! i)" using assms by auto
  ultimately show ?thesis using assms border_Suc [of i ps] by linarith
qed

lemma border_inj:
  assumes "\<forall>p \<in> set ps. p \<noteq> []" "border ps i = border ps j" "i \<le> length ps" "j \<le> length ps"
  shows "i = j"
  using border_less [OF assms(1), of i j] border_less [OF assms(1), of j i] assms(2-) by (metis less_irrefl nat_neq_iff)

definition on_grid :: "bytes list \<Rightarrow> nat set \<Rightarrow> segment_buf \<Rightarrow> bool" where
  "on_grid ps seen s \<longleftrightarrow>
     (\<exists>m \<le> length ps. sb_next_expected s = border ps m) \<and>
     (\<forall>(off, c) \<in> set (sb_pending s). \<exists>i < length ps. off = border ps i \<and> c = ps ! i) \<and>
     (\<forall>i \<in> seen. i < length ps \<longrightarrow> border ps i + length (ps ! i) \<le> sb_next_expected s \<or>
        map_of (sb_pending s) (border ps i) = Some (ps ! i))"

lemma on_grid_step:
  assumes grid: "on_grid ps seen s" and ps: "\<forall>p \<in> set ps. p \<noteq> []"
    and c: "map_of (sb_pending s) (sb_next_expected s) = Some c"
    and t: "sb_pending t = bt_remove (sb_next_expected s) (sb_pending s)" "sb_next_expected t = sb_next_expected s + length c"
  shows "on_grid ps seen t"
proof -
  obtain i where i: "i < length ps" "sb_next_expected s = border ps i" "c = ps ! i"
    using grid map_of_SomeD [OF c] by (fastforce simp: on_grid_def)
  then have next_t: "sb_next_expected t = border ps (Suc i)" by (simp add: t border_Suc)
  have "border ps j + length (ps ! j) \<le> sb_next_expected t \<or> map_of (sb_pending t) (border ps j) = Some (ps ! j)"
    if j: "j \<in> seen" "j < length ps" for j
  proof (cases "border ps j = sb_next_expected s")
    case True
    then have "j = i" using border_inj [OF ps, of j i] i j by simp
    then show ?thesis using i t(2) by simp
  next
    case False
    then show ?thesis using grid j t by (force simp: on_grid_def)
  qed
  moreover have "\<exists>m \<le> length ps. sb_next_expected t = border ps m" using next_t i(1) by (intro exI [of _ "Suc i"]) simp
  ultimately show ?thesis
    using grid unfolding on_grid_def t(1) by (auto simp: set_bt_remove t(2))
qed

lemma on_grid_complete:
  assumes "on_grid ps {..<length ps} s" "\<forall>p \<in> set ps. p \<noteq> []" "settled k s"
  shows "sb_next_expected s = length (concat ps)"
proof -
  obtain m where m: "m \<le> length ps" "sb_next_expected s = border ps m" using assms(1) by (auto simp: on_grid_def)
  have "m = length ps"
  proof (rule ccontr)
    assume "m \<noteq> length ps"
    then have "m < length ps" "0 < length (ps ! m)" using m assms(2) by auto
    moreover from this have "border ps m + length (ps ! m) \<le> sb_next_expected s \<or>
        map_of (sb_pending s) (border ps m) = Some (ps ! m)"
      using assms(1) unfolding on_grid_def by blast
    ultimately have "map_of (sb_pending s) (border ps m) = Some (ps ! m)" using m(2) by simp
    then show False using assms(3) m(2) by (simp add: settled_iff)
  qed
  then show ?thesis using m(2) by simp
qed

text \<open>The events of a run without losses: pieces are appended, and duplicates reported.\<close>

fun smooth :: "(segment_key \<Rightarrow> bytes list) \<Rightarrow> event \<Rightarrow> bool" where
  "smooth P (Append d q _ c) \<longleftrightarrow> c \<in> set (P (d, q))"
| "smooth P (Dup _ _) \<longleftrightarrow> True"
| "smooth P _ \<longleftrightarrow> False"

lemma on_grid_drain:
  "drain_contiguous key ev r = Some (ev', r') \<Longrightarrow> \<forall>p \<in> set (P key). p \<noteq> [] \<Longrightarrow> acct r \<Longrightarrow>
   map_of (ra_segs r) key = Some s \<Longrightarrow> on_grid (P key) seen s \<Longrightarrow>
   (\<exists>t. map_of (ra_segs r') key = Some t \<and> on_grid (P key) seen t) \<and> (list_all (smooth P) ev \<longrightarrow> list_all (smooth P) ev')"
proof (induction "length (sb_pending s)" arbitrary: r s ev rule: less_induct)
  case less
  note a = less.prems(3) and s = less.prems(4)
  let ?n = "sb_next_expected s"
  show ?case
  proof (cases "map_of (sb_pending s) ?n")
    case None
    then show ?thesis using less.prems by (subst (asm) drain_contiguous.simps) simp
  next
    case (Some c)
    let ?t = "s\<lparr>sb_pending := bt_remove ?n (sb_pending s), sb_next_expected := ?n + length c,
      sb_pending_bytes := sb_pending_bytes s - length c, sb_state := SegUnfinished\<rparr>"
    from take_chunk [OF a s Some, of ?t] obtain r1 where
      b: "Option.bind (global_sub (length c) (put_seg key ?t r))
        (conn_sub_unwrap (fst key) (length c)) = Some r1" and a1: "acct r1" and
      e: "r1 = r\<lparr>ra_segs := AList.update key ?t (ra_segs r),
          ra_global_pending := ra_global_pending r1, ra_conn_pending := ra_conn_pending r1\<rparr>"
      by auto
    have m1: "map_of (ra_segs r1) key = Some ?t" by (subst e) (simp add: update_conv')
    have "length c \<le> sb_pending_bytes s"
      by (rule seg_ok_remove(1) [OF acct_seg [OF a s] Some])
    then have d: "drain_contiguous key (ev @ [Append (fst key) (snd key) ?n c]) r1 = Some (ev', r')"
      using less.prems(1) s Some b
      by (subst (asm) drain_contiguous.simps) (auto simp: Let_def checked_sub_def split: Option.bind_splits)
    have "on_grid (P key) seen ?t"
      by (intro on_grid_step [OF less.prems(5,2) Some]) simp_all
    moreover have "c \<in> set (P key)"
      using less.prems(5) map_of_SomeD [OF Some] by (fastforce simp: on_grid_def)
    ultimately show ?thesis
      using less.hyps [OF _ d less.prems(2) a1 m1] length_bt_remove_less [OF Some] by simp
  qed
qed

section \<open>One chunk\<close>

lemma drain_frame:
  "drain_contiguous key ev r = Some (ev', r') \<Longrightarrow>
   ra_global_pending r' \<le> ra_global_pending r \<and> ra_quarantined r' = ra_quarantined r \<and> ra_last_seq r' = ra_last_seq r \<and>
   (\<forall>k. k \<noteq> key \<longrightarrow> map_of (ra_segs r') k = map_of (ra_segs r) k)"
proof (induction key ev r rule: drain_contiguous.induct)
  case (1 key ev r)
  show ?case
  proof (cases "\<exists>seg c. map_of (ra_segs r) key = Some seg \<and> map_of (sb_pending seg) (sb_next_expected seg) = Some c")
    case False
    then show ?thesis using 1(2) by (subst (asm) drain_contiguous.simps) (auto split: option.splits)
  next
    case True
    then obtain seg c where seg: "map_of (ra_segs r) key = Some seg"
      "map_of (sb_pending seg) (sb_next_expected seg) = Some c" by blast
    then obtain pb r1 r2 where r: "checked_sub (sb_pending_bytes seg) (length c) = Some pb"
      "global_sub (length c) (put_seg key (seg\<lparr>sb_pending := bt_remove (sb_next_expected seg) (sb_pending seg),
         sb_next_expected := sb_next_expected seg + length c, sb_pending_bytes := pb,
         sb_state := SegUnfinished\<rparr>) r) = Some r1"
      "conn_sub_unwrap (fst key) (length c) r1 = Some r2"
      "drain_contiguous key (ev @ [Append (fst key) (snd key) (sb_next_expected seg) c]) r2 = Some (ev', r')"
      using 1(2) by (subst (asm) drain_contiguous.simps) (auto simp: Let_def elim!: bind_SomeE)
    note IH = 1(1) [OF seg refl refl r(1-3,4)]
    have "ra_global_pending r2 \<le> ra_global_pending r" "ra_quarantined r2 = ra_quarantined r" "ra_last_seq r2 = ra_last_seq r"
      "k \<noteq> key \<Longrightarrow> map_of (ra_segs r2) k = map_of (ra_segs r) k" for k
      using r(2,3) by (auto simp: global_sub_def conn_sub_unwrap_def checked_sub_def put_seg_def update_conv'
          elim!: bind_SomeE split: option.splits if_splits)
    then show ?thesis using IH by auto
  qed
qed

text \<open>The state when all chunks that arrived so far are pieces, \<open>used\<close> bytes together.\<close>

definition grid_state :: "(segment_key \<Rightarrow> bytes list) \<Rightarrow> (segment_key \<Rightarrow> nat set) \<Rightarrow> nat \<Rightarrow> reassembler \<Rightarrow> bool" where
  "grid_state P seen used r \<longleftrightarrow> base_ok r \<and> ra_quarantined r = [] \<and> ra_last_seq r = [] \<and> ra_global_pending r \<le> used \<and>
     (\<forall>k. on_grid (P k) (seen k) (seg_or_new k r))"

definition budgets_hold :: "budgets \<Rightarrow> nat \<Rightarrow> bool" where
  "budgets_hold b n \<longleftrightarrow> n \<le> l2_segment_cap b \<and> n \<le> l25_conn_cap b \<and> n \<le> l3_global_cap b"

lemma acct_pending_le:
  assumes "acct r"
  shows "conn_pending r d \<le> ra_global_pending r" "sb_pending_bytes (seg_or_new k r) \<le> ra_global_pending r"
proof -
  have g: "ra_global_pending r = all_total (ra_segs r)" using assms by (simp add: acct_def)
  have "dev_total d segs \<le> all_total segs" for segs
    by (rule sum_list_mono) (simp add: weight_def)
  then show "conn_pending r d \<le> ra_global_pending r" using acct_conn_pending [OF assms] g by simp
  show "sb_pending_bytes (seg_or_new k r) \<le> ra_global_pending r"
  proof (cases "map_of (ra_segs r) k")
    case (Some s)
    then have "sb_pending_bytes s \<in> set (map (sb_pending_bytes \<circ> snd) (ra_segs r))"
      by (force dest: map_of_SomeD)
    then show ?thesis using Some g member_le_sum_list by (fastforce simp: seg_or_new_def)
  qed (simp add: seg_or_new_def segment_buf_new_def)
qed

lemma stage_smooth:
  assumes ok: "base_ok r" and fit: "budgets_hold (ra_budgets r) (ra_global_pending r + length data)"
  shows "stage_chunk d q off ne data r = drain_contiguous (d, q) [] (insert_chunk (d, q) off data r)"
proof -
  have "acct r" using ok by (simp add: base_ok_def)
  then show ?thesis
    using acct_pending_le(1) [of r d] fit by (simp add: stage_chunk_def budgets_hold_def)
qed

lemma seen_insert:
  "on_grid ps seen s \<Longrightarrow> (i < length ps \<Longrightarrow> border ps i + length (ps ! i) \<le> sb_next_expected s \<or>
     map_of (sb_pending s) (border ps i) = Some (ps ! i)) \<Longrightarrow> on_grid ps (insert i seen) s"
  by (auto simp: on_grid_def)

lemma on_grid_same:
  "sb_pending t = sb_pending s \<Longrightarrow> sb_next_expected t = sb_next_expected s \<Longrightarrow> on_grid ps seen t = on_grid ps seen s"
  by (simp add: on_grid_def)

lemma on_grid_grown:
  assumes "on_grid ps seen s" "\<forall>p \<in> set ps. p \<noteq> []" "i < length ps"
  shows "on_grid ps (insert i seen) (grown (border ps i) (ps ! i) s)"
proof (rule seen_insert)
  have keep: "map_of (sb_pending s) (border ps j) = Some (ps ! j) \<Longrightarrow> j < length ps \<Longrightarrow>
      ((map_of (sb_pending s))(border ps i \<mapsto> ps ! i)) (border ps j) = Some (ps ! j)" for j
    using border_inj [OF assms(2), of j i] assms(3) by auto
  have new: "\<forall>(off, c) \<in> set (bt_insert (border ps i) (ps ! i) (sb_pending s)). \<exists>i < length ps. off = border ps i \<and> c = ps ! i"
    using assms(1,3) set_bt_insert_subset [of "border ps i" "ps ! i" "sb_pending s"] unfolding on_grid_def by blast
  show "on_grid ps seen (grown (border ps i) (ps ! i) s)"
    unfolding on_grid_def grown_fields map_of_bt_insert
    using assms(1) new keep unfolding on_grid_def by blast
qed simp

lemma place_on_grid:
  assumes grid: "grid_state P seen used r" and ps: "\<forall>p \<in> set (P (d, q)). p \<noteq> []" "i < length (P (d, q))"
    and fit: "budgets_hold (ra_budgets r) (used + length (P (d, q) ! i))" and len: "length (concat (P (d, q))) < 2 ^ 64"
  shows "\<exists>ev r'. place_chunk d q (border (P (d, q)) i) (P (d, q) ! i) r = Some (ev, r') \<and> list_all (smooth P) ev \<and>
    grid_state P (seen((d, q) := insert i (seen (d, q)))) (used + length (P (d, q) ! i)) r' \<and> ra_budgets r' = ra_budgets r"
proof -
  let ?k = "(d, q)" and ?ps = "P (d, q)"
  let ?off = "border ?ps i" and ?c = "?ps ! i" and ?s = "seg_or_new (d, q) r"
  let ?ne = "sb_next_expected ?s"
  have ok: "base_ok r" "ra_quarantined r = []" "ra_global_pending r \<le> used" "ra_last_seq r = []"
    and g: "\<And>k. on_grid (P k) (seen k) (seg_or_new k r)" using grid by (simp_all add: grid_state_def)
  have a: "acct r" using ok(1) by (simp add: base_ok_def)
  have nepb: "(case map_of (ra_segs r) ?k of None \<Rightarrow> (0, 0)
      | Some s \<Rightarrow> (sb_next_expected s, sb_pending_bytes s)) = (?ne, sb_pending_bytes ?s)"
    by (simp add: seg_or_new_def segment_buf_new_def split: option.split)
  obtain m where m: "m \<le> length ?ps" "?ne = border ?ps m" using g [of ?k] by (auto simp: on_grid_def)
  have "?off + length ?c = border ?ps (Suc i)" using ps(2) by (simp add: border_Suc)
  also have "\<dots> \<le> border ?ps (length ?ps)" by (rule border_add) (use ps(2) in simp_all)
  finally have add: "add64 ?off (length ?c) = ?off + length ?c" using len by (simp add: add64_def)
  show ?thesis
  proof (cases "?off + length ?c \<le> ?ne")
    case True
    have same: "seg_or_new k (bump_dup ?k r) = (if k = ?k \<and> map_of (ra_segs r) k \<noteq> None
        then ?s\<lparr>sb_dup_count := sb_dup_count ?s + 1\<rparr> else seg_or_new k r)" for k
      by (auto simp: bump_dup_def seg_or_new_def put_seg_def update_conv' split: option.splits)
    have "on_grid (P k) ((seen(?k := insert i (seen ?k))) k) (seg_or_new k (bump_dup ?k r))" for k
      using g [of k] True seen_insert [OF g [of ?k]] on_grid_same
      by (cases "k = ?k") (auto simp: same on_grid_def)
    moreover have "base_ok (bump_dup ?k r)" by (rule shrinks_base_ok [OF ok(1) bump_dup_shrinks [OF a]])
    moreover have "ra_quarantined (bump_dup ?k r) = []" "ra_last_seq (bump_dup ?k r) = []" "ra_global_pending (bump_dup ?k r) \<le> used"
      "ra_budgets (bump_dup ?k r) = ra_budgets r"
      using ok by (simp_all add: bump_dup_def put_seg_def split: option.splits)
    ultimately show ?thesis
      using True ok(2) unfolding place_chunk_def Let_def nepb prod.case add
      by (simp add: is_quarantined_def grid_state_def)
  next
    case False
    have ge: "?ne \<le> ?off"
    proof (rule ccontr)
      assume "\<not> ?ne \<le> ?off"
      then have "i < m" using m border_add [of m i ?ps] ps(2) by (metis leI less_imp_le)
      then show False using border_less [OF ps(1), of i m] m False by simp
    qed
    let ?r = "insert_chunk ?k ?off ?c r"
    have fit': "budgets_hold (ra_budgets r) (ra_global_pending r + length ?c)" using fit ok(3) by (simp add: budgets_hold_def)
    have l2: "sb_pending_bytes ?s + length ?c \<le> l2_segment_cap (ra_budgets r)"
      using acct_pending_le(2) [OF a, of ?k] fit' by (simp add: budgets_hold_def)
    have place: "place_chunk d q ?off ?c r = drain_contiguous ?k [] ?r"
      using False ge ok(2) l2 unfolding place_chunk_def Let_def nepb prod.case add
      by (simp add: is_quarantined_def max_absorb1 stage_smooth [OF ok(1) fit'])
    obtain ev r' where r': "drain_contiguous ?k [] ?r = Some (ev, r')" "base_ok r'" "ra_budgets r' = ra_budgets r"
      using insert_drain_call_ok [OF ok(1), of ?off ?k ?c False undefined "[]"] l2 by (auto simp: call_ok_def)
    have ar: "acct ?r" by (rule acct_insert [OF a])
    have gs: "map_of (ra_segs ?r) ?k = Some (grown ?off ?c ?s)" by (simp add: update_conv')
    obtain t where t: "map_of (ra_segs r') ?k = Some t" "on_grid ?ps (insert i (seen ?k)) t" "list_all (smooth P) ev"
      using on_grid_drain [where P = P, OF r'(1) ps(1) ar gs on_grid_grown [OF g ps]] by auto
    note fr = drain_frame [OF r'(1)]
    have "on_grid (P k) ((seen(?k := insert i (seen ?k))) k) (seg_or_new k r')" for k
      using t g [of k] fr by (cases "k = ?k") (simp_all add: seg_or_new_def update_conv')
    moreover have "ra_global_pending r' \<le> used + length ?c" "ra_quarantined r' = []" "ra_last_seq r' = []"
      using fr ok(2-4) by (simp_all add: insert_chunk_def Let_def put_seg_def)
    ultimately show ?thesis using place r' t(3) by (simp add: grid_state_def)
  qed
qed

section \<open>All chunks, in any order\<close>

definition piece_call :: "(segment_key \<Rightarrow> bytes list) \<Rightarrow> segment_key \<times> nat \<Rightarrow> ra_call" where
  "piece_call P e = (case e of ((d, q), i) \<Rightarrow> Place d q (border (P (d, q)) i) (P (d, q) ! i))"

definition bytes_of :: "(segment_key \<Rightarrow> bytes list) \<Rightarrow> (segment_key \<times> nat) list \<Rightarrow> nat" where
  "bytes_of P es = sum_list (map (\<lambda>(k, i). length (P k ! i)) es)"

definition seen_in :: "(segment_key \<times> nat) set \<Rightarrow> segment_key \<Rightarrow> nat set" where
  "seen_in E k = {i. (k, i) \<in> E}"

lemma piece_call_simp [simp]: "piece_call P ((d, q), i) = Place d q (border (P (d, q)) i) (P (d, q) ! i)"
  by (simp add: piece_call_def)

lemma ra_run_grid:
  "grid_state P (seen_in E) used r \<Longrightarrow> \<forall>k. (\<forall>p \<in> set (P k). p \<noteq> []) \<and> length (concat (P k)) < 2 ^ 64 \<Longrightarrow>
   \<forall>(k, i) \<in> set es. i < length (P k) \<Longrightarrow> budgets_hold (ra_budgets r) (used + bytes_of P es) \<Longrightarrow>
   \<exists>evs r'. ra_run (map (piece_call P) es) r = Some (evs, r') \<and> list_all (smooth P) evs \<and>
     grid_state P (seen_in (E \<union> set es)) (used + bytes_of P es) r'"
proof (induction es arbitrary: E used r)
  case (Cons e es)
  obtain d q i where e: "e = ((d, q), i)" by (metis prod.collapse)
  let ?n = "length (P (d, q) ! i)"
  have ps: "\<forall>p \<in> set (P (d, q)). p \<noteq> []" "i < length (P (d, q))" "length (concat (P (d, q))) < 2 ^ 64"
    "budgets_hold (ra_budgets r) (used + ?n)"
    using Cons.prems(2-4) e by (auto simp: budgets_hold_def bytes_of_def)
  obtain ev r1 where r1: "place_chunk d q (border (P (d, q)) i) (P (d, q) ! i) r = Some (ev, r1)" "list_all (smooth P) ev"
    "grid_state P ((seen_in E)((d, q) := insert i (seen_in E (d, q)))) (used + ?n) r1" "ra_budgets r1 = ra_budgets r"
    using place_on_grid [OF Cons.prems(1) ps(1,2,4,3)] by blast
  have "(seen_in E)((d, q) := insert i (seen_in E (d, q))) = seen_in (insert e E)"
    by (auto simp: e seen_in_def fun_eq_iff)
  then have "\<exists>evs r'. ra_run (map (piece_call P) es) r1 = Some (evs, r') \<and> list_all (smooth P) evs \<and>
     grid_state P (seen_in (insert e E \<union> set es)) (used + ?n + bytes_of P es) r'"
    using Cons.IH [of "insert e E" "used + ?n" r1] r1(3,4) Cons.prems(2-4) by (simp add: e bytes_of_def add.assoc)
  then show ?case using r1(1,2) by (auto simp: e bytes_of_def add.assoc)
qed (simp add: bytes_of_def)

lemma agrees_piece:
  assumes "i < length (P k)"
  shows "agrees (\<lambda>k. (!) (concat (P k))) k (border (P k) i) (P k ! i)"
proof -
  let ?ps = "P k"
  have "concat ?ps = concat (take i ?ps) @ ?ps ! i @ concat (drop (Suc i) ?ps)"
    using id_take_nth_drop [OF assms] by (metis concat.simps(2) concat_append)
  then have "concat ?ps ! (border ?ps i + j) = ?ps ! i ! j" if "j < length (?ps ! i)" for j
    using that by (simp add: border_def nth_append)
  then show ?thesis by (auto simp: agrees_def intro!: nth_equalityI)
qed

lemma grid_start: "grid_state P (seen_in {}) 0 (reassembler_new b)"
proof -
  have new: "seg_or_new k (reassembler_new b) = segment_buf_new k" for k by (simp add: seg_or_new_def reassembler_new_def)
  have "on_grid ps {} (segment_buf_new k)" for ps k
    unfolding on_grid_def by (auto simp: segment_buf_new_def intro!: exI [of _ 0])
  then show ?thesis
    using base_ok_new [of b] by (simp add: grid_state_def new seen_in_def) (simp add: reassembler_new_def)
qed

lemma chunks_delivered:
  assumes "\<forall>k. (\<forall>p \<in> set (P k). p \<noteq> []) \<and> length (concat (P k)) < 2 ^ 64"
    and "\<forall>k i. (k, i) \<in> set es \<longleftrightarrow> i < length (P k)" "budgets_hold b (bytes_of P es)"
  shows "\<exists>evs r. ra_run (map (piece_call P) es) (reassembler_new b) = Some (evs, r) \<and> list_all (smooth P) evs \<and>
    (\<forall>k. wal_run k evs [] = Some (concat (P k))) \<and> (\<forall>k. next_of r k = length (concat (P k))) \<and> ra_last_seq r = []"
proof -
  let ?T = "\<lambda>k. (!) (concat (P k))" and ?r0 = "reassembler_new b"
  have in_range: "\<forall>(k, i) \<in> set es. i < length (P k)" using assms(2) by auto
  have b: "ra_budgets ?r0 = b" by (simp add: reassembler_new_def)
  obtain evs r where r: "ra_run (map (piece_call P) es) ?r0 = Some (evs, r)" "list_all (smooth P) evs"
    "grid_state P (seen_in (set es)) (bytes_of P es) r"
    using ra_run_grid [OF grid_start assms(1) in_range, of b] assms(3) b by auto
  have "seen_in (set es) k = {..<length (P k)}" for k using assms(2) by (auto simp: seen_in_def)
  then have grid: "on_grid (P k) {..<length (P k)} (seg_or_new k r)" for k
    using r(3) by (metis grid_state_def)
  have "settled k (seg_or_new k r)" for k
    using r(3) by (auto simp: grid_state_def base_ok_def settled_seg.all_segs_def seg_or_new_def settled_def
        segment_buf_new_def split: option.splits)
  then have n: "next_of r k = length (concat (P k))" for k
    using on_grid_complete [OF grid, of k k] assms(1) by (simp add: next_of_def)
  have "faithful_seg.all_segs ?T ?r0"
    by (simp add: faithful_seg.all_segs_def reassembler_new_def)
  moreover have "list_all (true_call ?T) (map (piece_call P) es)"
    using in_range agrees_piece [where P = P] by (fastforce simp: list_all_iff)
  ultimately have "delivers ?T ?r0 evs r"
    using ra_run_ok [OF base_ok_new, of "map (piece_call P) es" b ?T] r(1) by auto
  then have "wal_run k evs [] = Some (map (?T k) [0..<length (concat (P k))])" for k
    unfolding delivers_def n [symmetric] by (metis list.simps(8) next_of_new upt_rec zero_less_iff_neq_zero less_irrefl)
  moreover have "ra_last_seq r = []" using r(3) by (simp add: grid_state_def)
  ultimately show ?thesis using r(1,2) n by (simp add: map_nth)
qed

text \<open>C5: If every chunk is a piece of its segment, all pieces come at least once and the budgets hold the
  bytes that come, then every arrival order, of all segments and devices together, ends with the
  whole of each segment delivered, and only appends and duplicates are reported.\<close>

theorem chunks_in_any_order:
  assumes "\<forall>k. (\<forall>p \<in> set (P k). p \<noteq> []) \<and> length (concat (P k)) < 2 ^ 64"
    and "\<forall>k i. (k, i) \<in> set es \<longleftrightarrow> i < length (P k)" "budgets_hold b (bytes_of P es)"
  shows "\<exists>evs r. ra_run (map (piece_call P) es) (reassembler_new b) = Some (evs, r) \<and> list_all (smooth P) evs \<and>
    (\<forall>k. wal_run k evs [] = Some (concat (P k)))"
  using chunks_delivered [OF assms] by blast

text \<open>Two overlapping chunks with different borders: byte 3 has arrived, and stays behind.\<close>

lemma overlap_is_stranded:
  "\<exists>evs r s. ra_run [Place 1 0 2 [2, 3], Place 1 0 0 [0, 1, 2]] (reassembler_new sample_budgets) = Some (evs, r) \<and>
     wal_run (1, 0) evs [] = Some [0, 1, 2] \<and> map_of (ra_segs r) (1, 0) = Some s \<and>
     sb_next_expected s = 3 \<and> sb_pending s = [(2, [2, 3])]"
  by (simp add: reassembly_eval)

theorem chunks_in_any_order_witness:
  "\<exists>evs r. ra_run [Place 1 0 3 [8], Place 1 0 2 [7], Place 1 0 0 [5, 6], Place 1 0 2 [7]] (reassembler_new sample_budgets) =
     Some (evs, r) \<and> wal_run (1, 0) evs [] = Some [5, 6, 7, 8]"
proof -
  let ?P = "\<lambda>k. if k = (1, 0) then [[5, 6], [7], [8 :: u8]] else []"
  let ?es = "[((1, 0), 2), ((1, 0), 1), ((1, 0), 0), ((1, 0), 1)] :: (segment_key \<times> nat) list"
  have calls: "map (piece_call ?P) ?es = [Place 1 0 3 [8], Place 1 0 2 [7], Place 1 0 0 [5, 6], Place 1 0 2 [7]]"
    by (simp add: border_def)
  have "(k, i) \<in> set ?es \<longleftrightarrow> i < length (?P k)" for k i
    by (cases "k = (1, 0)") (auto simp: less_Suc_eq numeral_3_eq_3)
  then have "\<exists>evs r. ra_run (map (piece_call ?P) ?es) (reassembler_new sample_budgets) = Some (evs, r) \<and>
      list_all (smooth ?P) evs \<and> (\<forall>k. wal_run k evs [] = Some (concat (?P k)))"
    by (intro chunks_in_any_order) (auto simp: budgets_hold_def bytes_of_def sample_budgets_def)
  then obtain evs r where "ra_run (map (piece_call ?P) ?es) (reassembler_new sample_budgets) = Some (evs, r)"
    "list_all (smooth ?P) evs" and w: "\<forall>k. wal_run k evs [] = Some (concat (?P k))" by blast
  then show ?thesis unfolding calls using w [rule_format, of "(1, 0)"] by simp
qed

end
