(* ===== verification/Transport_Props.thy ===== *)
theory Transport_Props
  imports Transport
begin

text \<open>
  Properties of the readers: chunk borders never matter, to the streaming decoder as long as no chunk
  is too large for it, to the file scan never.
\<close>

section \<open>The streaming decoder\<close>

definition sample_packet :: wal_record where
  "sample_packet = \<lparr>wr_timestamp_ns = 1000, wr_flags = 0, wr_tcp_flags = 16, wr_tcp_seq = 100,
     wr_tcp_ack = 1, wr_window_size = 512, wr_src_ip = [10, 0, 0, 1], wr_dst_ip = [10, 0, 0, 2],
     wr_src_port = 4000, wr_dst_port = 80, wr_proto = 6, wr_orig_payload_len = 5,
     wr_payload = [71, 69, 84, 32, 47]\<rparr>"

fun feed_all ::
  "(bytes \<Rightarrow> wal_record list \<times> nat) \<Rightarrow> bytes list \<Rightarrow> bytes \<Rightarrow> wal_record list \<times> bytes" where
  "feed_all dec [] residual = ([], residual)"
| "feed_all dec (c # cs) residual =
     (let (recs, residual) = decoder_feed dec c residual; (more_recs, residual) = feed_all dec cs residual
      in (recs @ more_recs, residual))"

definition left_over :: "(bytes \<Rightarrow> wal_record list \<times> nat) \<Rightarrow> bytes \<Rightarrow> bytes" where
  "left_over dec xs = drop (length xs - snd (dec xs)) xs"

lemma decoder_feed_cases:
  "decoder_feed dec c residual =
     (if WAL_RESIDUAL_CAP < length (residual @ c) then ([], [])
      else (fst (dec (residual @ c)), left_over dec (residual @ c)))"
  by (simp add: decoder_feed_def left_over_def Let_def case_prod_beta)

text \<open>A prefix of a stream of records is some records and a part of one.\<close>

lemma stream_prefix:
  "p @ q = concat (map enc rs) \<Longrightarrow>
   \<exists>rs1 part. p = concat (map enc rs1) @ part \<and> set rs1 \<subseteq> set rs \<and>
     (part = [] \<or> (\<exists>r \<in> set rs. length part \<le> length (enc r)))"
proof (induction rs arbitrary: p)
  case (Cons r rs)
  show ?case
  proof (cases "length p \<le> length (enc r)")
    case True
    then show ?thesis by (intro exI [of _ "[]"] exI [of _ p]) auto
  next
    case False
    let ?p = "drop (length (enc r)) p"
    have "take (length (enc r)) p = enc r" and tail: "?p @ q = concat (map enc rs)"
      using Cons.prems False by (auto simp: append_eq_append_conv_if)
    then have p: "p = enc r @ ?p" by (metis append_take_drop_id)
    obtain rs1 part where "?p = concat (map enc rs1) @ part" "set rs1 \<subseteq> set rs"
      "part = [] \<or> (\<exists>r \<in> set rs. length part \<le> length (enc r))"
      using Cons.IH [OF tail] by blast
    with p show ?thesis by (intro exI [of _ "r # rs1"] exI [of _ part]) auto
  qed
qed simp

context wal_stream
begin

lemma length_left_over: "length (left_over decode_stream xs) = snd (decode_stream xs)"
  using stream_residual [of xs] by (simp add: left_over_def)

lemma stream_extend:
  "fst (decode_stream (xs @ ys)) = fst (decode_stream xs) @ fst (decode_stream (left_over decode_stream xs @ ys))"
  "left_over decode_stream (xs @ ys) = left_over decode_stream (left_over decode_stream xs @ ys)"
proof -
  show "fst (decode_stream (xs @ ys)) = fst (decode_stream xs) @ fst (decode_stream (left_over decode_stream xs @ ys))"
    by (subst stream_append) (simp add: left_over_def)
  have n: "snd (decode_stream (xs @ ys)) = snd (decode_stream (left_over decode_stream xs @ ys))" by (subst stream_append) (simp add: left_over_def)
  have suffix: "m \<le> length b \<Longrightarrow> drop (length (a @ b) - m) (a @ b) = drop (length b - m) b" for a b :: bytes and m
    by simp
  have "xs @ ys = take (length xs - snd (decode_stream xs)) xs @ (left_over decode_stream xs @ ys)"
    by (simp add: left_over_def)
  then show "left_over decode_stream (xs @ ys) = left_over decode_stream (left_over decode_stream xs @ ys)"
    using suffix [of "snd (decode_stream (left_over decode_stream xs @ ys))" "left_over decode_stream xs @ ys"
        "take (length xs - snd (decode_stream xs)) xs"] stream_residual [of "left_over decode_stream xs @ ys"] n
    unfolding left_over_def [of _ "xs @ ys"] left_over_def [of _ "left_over decode_stream xs @ ys"] by metis
qed

lemma feed_all_bounded:
  assumes "\<And>p q. p @ q = xs @ concat cs \<Longrightarrow> snd (decode_stream p) \<le> M"
    and "\<forall>c \<in> set cs. length c + M \<le> WAL_RESIDUAL_CAP"
  shows "feed_all decode_stream cs (left_over decode_stream xs) =
     (fst (decode_stream (left_over decode_stream xs @ concat cs)), left_over decode_stream (xs @ concat cs))"
  using assms
proof (induction cs arbitrary: xs)
  case Nil
  then show ?case using residual_decodes [of xs] by (simp add: left_over_def)
next
  case (Cons c cs)
  have "length (left_over decode_stream xs @ c) \<le> M + length c"
    using Cons.prems(1) [of xs] unfolding length_append length_left_over by simp
  then have fit: "\<not> WAL_RESIDUAL_CAP < length (left_over decode_stream xs @ c)" using Cons.prems(2) by simp
  have "feed_all decode_stream cs (left_over decode_stream (xs @ c)) =
      (fst (decode_stream (left_over decode_stream (xs @ c) @ concat cs)), left_over decode_stream ((xs @ c) @ concat cs))"
    by (rule Cons.IH) (use Cons.prems in auto)
  moreover have "decoder_feed decode_stream c (left_over decode_stream xs) =
      (fst (decode_stream (left_over decode_stream xs @ c)), left_over decode_stream (xs @ c))"
    using fit stream_extend(2) [of xs c] by (simp only: decoder_feed_cases if_False)
  moreover have "fst (decode_stream (left_over decode_stream xs @ c @ concat cs)) = fst (decode_stream (left_over decode_stream xs @ c))
      @ fst (decode_stream (left_over decode_stream (xs @ c) @ concat cs))"
    using stream_extend(1) [of "left_over decode_stream xs @ c" "concat cs"] stream_extend(2) [of xs c] by simp
  ultimately show ?case by simp
qed

lemma residual_bound:
  assumes "p @ q = concat (map enc rs)" "\<forall>r \<in> set rs. wal_ok r \<and> length (enc r) \<le> M"
  shows "snd (decode_stream p) \<le> M"
proof -
  obtain rs1 part where p: "p = concat (map enc rs1) @ part" "set rs1 \<subseteq> set rs"
    "part = [] \<or> (\<exists>r \<in> set rs. length part \<le> length (enc r))"
    using stream_prefix [OF assms(1)] by blast
  have "\<forall>r \<in> set rs1. wal_ok r" using p(2) assms(2) by blast
  then have "snd (decode_stream p) = snd (decode_stream part)"
    unfolding p(1) by (induction rs1) (simp_all add: stream_enc)
  also have "\<dots> \<le> length part" by (rule stream_residual)
  also have "\<dots> \<le> M" using p(3) assms(2) by auto
  finally show ?thesis .
qed

lemma feed_all_records:
  assumes "\<forall>r \<in> set rs. wal_ok r \<and> length (enc r) \<le> M"
    and "concat chunks = concat (map enc rs)" "\<forall>c \<in> set chunks. length c + M \<le> WAL_RESIDUAL_CAP"
  shows "feed_all decode_stream chunks [] = (rs, [])"
proof -
  have "feed_all decode_stream chunks (left_over decode_stream []) =
      (fst (decode_stream (left_over decode_stream [] @ concat chunks)), left_over decode_stream ([] @ concat chunks))"
    by (rule feed_all_bounded [OF _ assms(3)]) (use residual_bound [OF _ assms(1)] assms(2) in simp)
  then show ?thesis using stream_of_records [of rs] assms(1,2) by (simp add: left_over_def)
qed

end



text \<open>A chunk that is larger than the decoder's megabyte is dropped before it is decoded, even if it
  consists of whole records, and so is what was kept of the record before it.\<close>

lemma large_chunk_is_dropped:
  "wal_stream enc dec F \<Longrightarrow> \<forall>r \<in> set rs. wal_ok r \<Longrightarrow> WAL_RESIDUAL_CAP < length (concat (map enc rs)) \<Longrightarrow>
   dec (concat (map enc rs)) = (rs, 0) \<and> decoder_feed dec (concat (map enc rs)) residual = ([], [])"
  by (simp add: decoder_feed_cases wal_stream.stream_of_records)

section \<open>The file scan\<close>

context wal_stream
begin

lemma bad_header_extend: "bad_header F xs \<Longrightarrow> bad_header F (xs @ ys)"
  using header by (auto simp: bad_header_def nth_append split: if_splits)

text \<open>What the loop has found after the bytes \<open>xs\<close>, in full reads.\<close>

lemma scan_loop_stream:
  assumes "\<forall>c \<in> set chunks. c \<noteq> []" "\<not> ss_stopped_early stats"
  shows "\<exists>pending stats' recs. scan_loop F decode_stream (map Some chunks)
      (left_over decode_stream xs, stats, fst (decode_stream xs)) = Some (pending, stats', recs) \<and>
    recs = fst (decode_stream (xs @ concat chunks)) \<and>
    (ss_stopped_early stats' \<or> bad_header F pending \<longleftrightarrow> bad_header F (left_over decode_stream (xs @ concat chunks))) \<and>
    (ss_stopped_early stats' \<longrightarrow> pending = []) \<and>
    (\<not> ss_stopped_early stats' \<longrightarrow> pending = left_over decode_stream (xs @ concat chunks) \<and>
       ss_total_bytes stats' = ss_total_bytes stats + of_nat (length (concat chunks)) \<and>
       ss_dirty_tail_bytes stats' = ss_dirty_tail_bytes stats)"
  using assms
proof (induction chunks arbitrary: xs stats)
  case Nil
  then show ?case by auto
next
  case (Cons c cs)
  let ?p = "left_over decode_stream xs @ c"
  show ?case
  proof (cases "bad_header F ?p")
    case True
    have bad: "decode_stream (?p @ concat cs) = ([], length (?p @ concat cs))"
      using bad_header_extend [OF True] by (rule stream_bad)
    have "left_over decode_stream (xs @ c @ concat cs) = ?p @ concat cs"
      using stream_extend(2) [of xs "c @ concat cs"] bad by (simp add: left_over_def)
    moreover have "fst (decode_stream (xs @ c @ concat cs)) = fst (decode_stream xs)"
      using stream_extend(1) [of xs "c @ concat cs"] bad by simp
    ultimately show ?thesis
      using True Cons.prems bad_header_extend [OF True, of "concat cs"] by (simp add: Let_def)
  next
    case False
    let ?stats = "stats\<lparr>ss_total_bytes := ss_total_bytes stats + of_nat (length c)\<rparr>"
    have step: "scan_loop F decode_stream (map Some (c # cs)) (left_over decode_stream xs, stats, fst (decode_stream xs)) =
        scan_loop F decode_stream (map Some cs)
          (left_over decode_stream (xs @ c), ?stats, fst (decode_stream (xs @ c)))"
      using False Cons.prems(1) stream_extend [of xs c]
      by (simp add: Let_def case_prod_beta left_over_def [of _ ?p] del: length_append)
    have "\<forall>c \<in> set cs. c \<noteq> []" "\<not> ss_stopped_early ?stats" using Cons.prems by simp_all
    from Cons.IH [OF this, of "xs @ c"] show ?thesis
      unfolding step by (simp add: add.assoc)
  qed
qed

end

text \<open>C37: The scan of a WAL file finds the records that one decoding of the whole file finds, however
  the reads split it; it reports an early stop exactly when what follows them is no record header, and
  otherwise counts the bytes of the file and of its tail.\<close>

theorem scan_ignores_read_borders:
  assumes "wal_stream enc dec F" "\<forall>c \<in> set chunks. c \<noteq> []" "bytes = concat chunks"
  shows "\<exists>stats. scan_reader F dec (map Some chunks) = Some (fst (dec bytes), stats) \<and>
    ss_records stats = of_nat (length (fst (dec bytes))) \<and>
    (ss_stopped_early stats \<longleftrightarrow> bad_header F (left_over dec bytes)) \<and>
    (\<not> ss_stopped_early stats \<longrightarrow> ss_total_bytes stats = of_nat (length bytes) \<and>
       ss_dirty_tail_bytes stats = of_nat (length (left_over dec bytes)))"
proof -
  have nil: "left_over dec [] = []" "fst (dec []) = []"
    by (simp_all add: left_over_def wal_stream.stream_nil [OF assms(1)])
  have "\<not> ss_stopped_early scan_stats_default" "ss_total_bytes scan_stats_default = 0"
      "ss_dirty_tail_bytes scan_stats_default = 0"
    by (simp_all add: scan_stats_default_def)
  with wal_stream.scan_loop_stream [OF assms(1,2), of scan_stats_default "[]"] obtain pending stats where
    run: "scan_loop F dec (map Some chunks) ([], scan_stats_default, []) = Some (pending, stats, fst (dec bytes))"
    and early: "ss_stopped_early stats \<or> bad_header F pending \<longleftrightarrow> bad_header F (left_over dec bytes)"
      "ss_stopped_early stats \<Longrightarrow> pending = []"
    and late: "\<not> ss_stopped_early stats \<Longrightarrow> pending = left_over dec bytes \<and>
      ss_total_bytes stats = of_nat (length bytes) \<and> ss_dirty_tail_bytes stats = 0"
    by (auto simp: nil assms(3))
  have "\<not> bad_header F []" using wal_stream.header [OF assms(1)] by (simp add: bad_header_def)
  then show ?thesis using run early late by (cases "ss_stopped_early stats") (auto simp: scan_reader_def Let_def)
qed

theorem scan_ignores_read_borders_witness:
  "\<exists>stats. scan_reader ref_format ref_decode_stream [Some (take 30 (ref_enc sample_packet)), Some (drop 30 (ref_enc sample_packet))] =
     Some ([sample_packet], stats) \<and> \<not> ss_stopped_early stats \<and> ss_dirty_tail_bytes stats = 0"
proof -
  let ?b = "ref_enc sample_packet"
  have ok: "wal_ok sample_packet" "length ?b = 69"
    by (simp_all add: wal_ok_def sample_packet_def ref_codec.enc_length)
  then have dec: "ref_decode_stream ?b = ([sample_packet], 0)"
    using ref_stream.stream_of_records [of "[sample_packet]"] by simp
  then have tail: "left_over ref_decode_stream ?b = []" by (simp add: left_over_def)
  have nonempty: "\<forall>c \<in> set [take 30 ?b, drop 30 ?b]. c \<noteq> []" using ok(2) by auto
  have "?b = concat [take 30 ?b, drop 30 ?b]" by simp
  from scan_ignores_read_borders [OF ref_stream.wal_stream_axioms nonempty this] show ?thesis
    using dec tail by (auto simp: bad_header_def ref_format_def)
qed

end
