(* ===== verification/Qr_Index.thy ===== *)
theory Qr_Index
  imports Qr_Inv
begin

text \<open>
  The record index.  No handler but \<open>index_record\<close> touches \<open>RECORD_TS\<close>, so the rows after a batch are
  the rows before it and one row for each record.
\<close>

section \<open>Who writes the index\<close>

lemma migrate_record_ts: "migrate_terminal L q flip m = Some (m', b) \<Longrightarrow> qm_record_ts m' = qm_record_ts m"
  by (auto simp: migrate_terminal_def Let_def split: if_splits option.splits elim!: bind_SomeE)

lemma clear_hit_record_ts: "clear_hit L h hit m = Some m' \<Longrightarrow> qm_record_ts m' = qm_record_ts m"
  by (auto simp: clear_hit_def Let_def elim!: bind_SomeE)

lemma consume_hits_record_ts:
  "consume_hits L h r primary others hits (m, st) = Some (m', st') \<Longrightarrow> qm_record_ts m' = qm_record_ts m"
  by (induction hits arbitrary: primary m st)
    (auto simp: Let_def elim!: bind_SomeE dest!: migrate_record_ts clear_hit_record_ts)

lemma abort_hits_record_ts:
  "abort_hits L h s ev hits m = Some m' \<Longrightarrow> qm_record_ts m' = qm_record_ts m"
  by (induction hits arbitrary: m)
    (auto simp: Let_def elim!: bind_SomeE dest!: migrate_record_ts clear_hit_record_ts)

lemma consume_r_record_ts: "consume_r L h st r ack m = Some (m', st') \<Longrightarrow> qm_record_ts m' = qm_record_ts m"
  by (auto simp: consume_r_def Let_def elim!: bind_SomeE dest!: consume_hits_record_ts)

lemma rst_cascade_record_ts: "rst_cascade L h st rec m = Some (m', st') \<Longrightarrow> qm_record_ts m' = qm_record_ts m"
  by (auto simp: rst_cascade_def Let_def elim!: bind_SomeE dest!: abort_hits_record_ts)

lemma flip_epoch_record_ts: "flip_epoch L C h rec dir q m = Some m' \<Longrightarrow> qm_record_ts m' = qm_record_ts m"
  by (auto simp: flip_epoch_def persist_state_def Let_def elim!: bind_SomeE dest!: abort_hits_record_ts)

lemma request_key_record_ts: "request_key h r st m = Some (k, st', m') \<Longrightarrow> qm_record_ts m' = qm_record_ts m"
  by (auto simp: request_key_def Let_def split: option.splits if_splits elim!: bind_SomeE)

lemma open_rows_record_ts: "open_rows L h inc q pair m = Some m' \<Longrightarrow> qm_record_ts m' = qm_record_ts m"
  by (auto simp: open_rows_def Let_def elim!: bind_SomeE)

lemma open_q_record_ts: "open_q L h st r a b m = Some (m', st') \<Longrightarrow> qm_record_ts m' = qm_record_ts m"
  by (auto simp: open_q_def elim!: bind_SomeE dest!: open_rows_record_ts request_key_record_ts)

lemma load_conn_record_ts: "load_conn L h m = Some (m', b) \<Longrightarrow> qm_record_ts m' = qm_record_ts m"
  by (auto simp: load_conn_def persist_state_def split: if_splits option.splits elim!: bind_SomeE)

lemma locate_record_ts: "locate L C rec d m = Some (m', h, dir) \<Longrightarrow> qm_record_ts m' = qm_record_ts m"
  by (auto simp: locate_def persist_state_def Let_def split: if_splits elim!: bind_SomeE
      dest!: load_conn_record_ts)

lemma enter_record_ts:
  "enter_generation L C r h dir st m = Some (m', st') \<Longrightarrow> qm_record_ts m' = qm_record_ts m"
  by (auto simp: enter_generation_def split: if_splits elim!: bind_SomeE dest!: flip_epoch_record_ts)

lemma request_response_record_ts:
  "request_response L h r dir a w s st m = Some (m', st') \<Longrightarrow> qm_record_ts m' = qm_record_ts m"
  by (auto simp: request_response_def Let_def split: dir.splits if_splits
      dest!: open_q_record_ts consume_r_record_ts)

lemma ingest_data_record_ts: "ingest_data L C r h dir st m = Some m' \<Longrightarrow> qm_record_ts m' = qm_record_ts m"
  by (auto simp: ingest_data_def persist_state_def Let_def split: prod.splits elim!: bind_SomeE
      dest!: request_response_record_ts)

lemma ingest_rst_record_ts: "ingest_rst L rec h st m = Some m' \<Longrightarrow> qm_record_ts m' = qm_record_ts m"
  by (auto simp: ingest_rst_def persist_state_def Let_def elim!: bind_SomeE dest!: rst_cascade_record_ts)

lemma ingest_tcp_record_ts: "ingest_tcp L C r m = Some m' \<Longrightarrow> qm_record_ts m' = qm_record_ts m"
  by (auto simp: ingest_tcp_def Let_def split: if_splits elim!: bind_SomeE
      dest!: locate_record_ts enter_record_ts ingest_rst_record_ts ingest_data_record_ts)

lemma writeback_record_ts: "writeback L hs m = Some m' \<Longrightarrow> qm_record_ts m' = qm_record_ts m"
  by (induction hs arbitrary: m)
    (auto simp: writeback_one_def archive_conn_def Let_def elim!: bind_SomeE split: if_splits)

section \<open>The rows of a batch\<close>

definition record_key :: "indexed_record \<Rightarrow> bytes" where
  "record_key r = k_record_ts (wr_timestamp_ns (ir_rec r)) (ir_idx r)"

definition record_row :: "wal_consts \<Rightarrow> indexed_record \<Rightarrow> bytes" where
  "record_row C r = v_record_summary_encode (record_summary_of C (ir_rec r))"

definition add_records :: "wal_consts \<Rightarrow> indexed_record list \<Rightarrow> contents \<Rightarrow> contents" where
  "add_records C rs x = foldl (\<lambda>x r. upd_new x (record_key r) (record_row C r)) x rs"

lemma add_records_simps [simp]:
  "add_records C [] x = x"
  "add_records C (r # rs) x = add_records C rs (upd_new x (record_key r) (record_row C r))"
  by (simp_all add: add_records_def)

lemma add_records_cases:
  "add_records C rs x k = Some v \<Longrightarrow>
   x k = Some v \<or> (\<exists>r \<in> set rs. k = record_key r \<and> v = record_row C r)"
proof (induction rs arbitrary: x)
  case (Cons r rs)
  then consider "upd_new x (record_key r) (record_row C r) k = Some v"
    | "\<exists>r \<in> set rs. k = record_key r \<and> v = record_row C r" by fastforce
  then show ?case
    by cases (auto simp: upd_new_def split: option.splits if_splits)
qed simp

lemma add_records_le: "x \<subseteq>\<^sub>m add_records C rs x"
proof (induction rs arbitrary: x)
  case (Cons r rs)
  then show ?case using map_le_trans [OF upd_new_le Cons.IH] by simp
qed simp

context lmdb_store
begin

lemma ingest_record_ts:
  assumes "ingest L C r m = Some m'"
  shows "view (qm_record_ts m') = upd_new (view (qm_record_ts m)) (record_key r) (record_row C r)"
proof -
  from assms obtain m1 where
    1: "index_record L C r m = Some m1" and 2: "m' = m1 \<or> ingest_tcp L C r m1 = Some m'"
    by (auto simp: ingest_def split: if_splits elim!: bind_SomeE)
  from 1 obtain d b where
    d: "put_no_overwrite L (qm_record_ts m) (record_key r) (record_row C r) = Some (d, b)"
      "m1 = m\<lparr>qm_record_ts := d\<rparr>"
    by (auto simp: index_record_def record_key_def record_row_def elim!: bind_SomeE)
  have "qm_record_ts m' = d" using 2 ingest_tcp_record_ts [of L C r m1 m'] d(2) by auto
  then show ?thesis using put_no_overwrite_view [OF d(1)] by simp
qed

lemma ingest_all_record_ts:
  "ingest_all L C rs m = Some m' \<Longrightarrow>
   view (qm_record_ts m') = add_records C rs (view (qm_record_ts m))"
  by (induction rs arbitrary: m) (auto elim!: bind_SomeE simp: ingest_record_ts)

lemma batch_record_ts:
  assumes "stage_lmdb_with_meta L C db rs tol meta = Some (db', out)"
  shows "view (qm_record_ts db') = add_records C rs (view (qm_record_ts db))"
proof -
  from assms obtain m m1 where
    1: "ingest_all L C rs (begin_with_meta db tol meta) = Some m" and
    2: "writeback L (sort (map fst (qm_conns m))) m = Some m1" and
    3: "db' = commit_live m1 (commit_epoch m1 db)"
    by (auto simp: stage_lmdb_with_meta_def qr_commit_def writeback_conns_def Let_def elim!: bind_SomeE)
  have "qm_record_ts db' = qm_record_ts m"
    using writeback_record_ts [OF 2] 3 by (simp add: commit_live_def commit_epoch_def)
  then show ?thesis
    using ingest_all_record_ts [OF 1] by (simp add: begin_with_meta_def dual_db.extend_def)
qed

end

end
