(* ===== verification/Batch_Facts.thy ===== *)
theory Batch_Facts
  imports Batch Qr_Index
begin

text \<open>
  The invariant of a pipeline and of the files behind it.  The open file holds the committed bytes,
  up to the watermark of its ledger row, followed by exactly the encodings of the pending records;
  the anchors of the pending records are their places in that file.  Constructors establish it,
  \<open>push_record\<close>, \<open>flush\<close> and \<open>finish\<close> keep it, and a restart gets it back from any torn file that
  still has its committed bytes.
\<close>

section \<open>Anchors\<close>

text \<open>What the program relies on in the record encoder: a 64-byte header and the payload.\<close>

definition enc_ok :: "(wal_record \<Rightarrow> bytes) \<Rightarrow> bool" where
  "enc_ok enc \<longleftrightarrow> (\<forall>r. length (enc r) = 64 + length (wr_payload r))"

text \<open>The records lie one after the other in file \<open>fid\<close>, from \<open>a\<close> to \<open>b\<close>.\<close>

fun chained :: "u32 \<Rightarrow> nat \<Rightarrow> indexed_record list \<Rightarrow> nat \<Rightarrow> bool" where
  "chained fid a [] b \<longleftrightarrow> a = b"
| "chained fid a (r # rs) b \<longleftrightarrow>
     ir_file_id r = fid \<and> unat (ir_offset r) = a \<and> chained fid (a + ir_rec_len r) rs b"

definition batch_bytes :: "(wal_record \<Rightarrow> bytes) \<Rightarrow> indexed_record list \<Rightarrow> bytes" where
  "batch_bytes enc rs = concat (map (\<lambda>r. enc (ir_rec r)) rs)"

lemma batch_bytes_simps [simp]:
  "batch_bytes enc [] = []"
  "batch_bytes enc (r # rs) = enc (ir_rec r) @ batch_bytes enc rs"
  "batch_bytes enc (rs @ rs') = batch_bytes enc rs @ batch_bytes enc rs'"
  by (simp_all add: batch_bytes_def)

lemma chained_append:
  "chained fid a (rs @ rs') b \<longleftrightarrow> (\<exists>c. chained fid a rs c \<and> chained fid c rs' b)"
  by (induction rs arbitrary: a) auto

lemma chained_le: "chained fid a rs b \<Longrightarrow> a \<le> b"
  by (induction rs arbitrary: a) fastforce+

lemma chained_less: "chained fid a rs b \<Longrightarrow> rs \<noteq> [] \<Longrightarrow> a < b"
  using chained_le by (cases rs) (fastforce simp: ir_rec_len_def)+

lemma chained_bytes:
  "enc_ok enc \<Longrightarrow> chained fid a rs b \<Longrightarrow> a + length (batch_bytes enc rs) = b"
  by (induction rs arbitrary: a) (fastforce simp: enc_ok_def ir_rec_len_def)+

lemma chained_at:
  "enc_ok enc \<Longrightarrow> chained fid a rs b \<Longrightarrow> r \<in> set rs \<Longrightarrow>
   ir_file_id r = fid \<and> (\<exists>pre post. batch_bytes enc rs = pre @ enc (ir_rec r) @ post
     \<and> unat (ir_offset r) = a + length pre)"
proof (induction rs arbitrary: a)
  case (Cons x rs)
  show ?case
  proof (cases "r = x")
    case True
    then have "batch_bytes enc (x # rs) = [] @ enc (ir_rec r) @ batch_bytes enc rs" by simp
    then show ?thesis using Cons.prems True by (metis add_0_right chained.simps(2) list.size(3))
  next
    case False
    have "chained fid (a + ir_rec_len x) rs b" "r \<in> set rs" using Cons.prems False by auto
    then obtain pre post where "ir_file_id r = fid"
      "batch_bytes enc rs = pre @ enc (ir_rec r) @ post"
      "unat (ir_offset r) = a + ir_rec_len x + length pre" using Cons.IH [OF Cons.prems(1)] by blast
    then have "batch_bytes enc (x # rs) = (enc (ir_rec x) @ pre) @ enc (ir_rec r) @ post"
      "unat (ir_offset r) = a + length (enc (ir_rec x) @ pre)"
      using Cons.prems(1) by (simp_all add: enc_ok_def ir_rec_len_def)
    then show ?thesis using \<open>ir_file_id r = fid\<close> by blast
  qed
qed simp

section \<open>The watermark of a batch\<close>

lemma unat_of_nat_u64: "n < 2 ^ 64 \<Longrightarrow> unat (of_nat n :: u64) = n"
  by (simp add: unsigned_of_nat take_bit_eq_mod)

lemma of_nat_sum_u64: "a + b < 2 ^ 64 \<Longrightarrow> unat (of_nat a + of_nat b :: u64) = a + b"
  using unat_of_nat_u64 [of "a + b"] by simp

lemma uint_of_int_u32: "0 \<le> x \<Longrightarrow> x < 2 ^ 32 \<Longrightarrow> uint (word_of_int x :: u32) = x"
  by (simp add: unsigned_of_int take_bit_int_eq_self)

lemma sint_small:
  assumes "unat (x :: u64) < 2 ^ 63"
  shows "sint x = uint x"
proof -
  have "int (unat x) < int (2 ^ 63)" using assms by (simp only: of_nat_less_iff)
  then have "uint x < 2 ^ 63" by simp
  moreover have "- (2 ^ 63) \<le> uint x" by (rule order_trans [OF _ uint_ge_0]) simp
  ultimately show ?thesis by (simp add: sint_uint signed_take_bit_int_eq_self)
qed

lemma ucast_of_unat: "ucast (w :: u32) = (of_nat (unat w) :: u64)"
  by (simp add: word_unat_eq_iff unat_of_nat_u64 order.strict_trans [OF unat_lt_pow [of w]])

lemma batch_ends_step:
  assumes "chained fid a rs b" "b < 2 ^ 32"
  shows "foldl (\<lambda>ends r.
       let e = (case map_of ends (ir_file_id r) of None \<Rightarrow> 0 | Some e \<Rightarrow> e);
           rec_end = ucast (ir_offset r) + of_nat (ir_rec_len r)
       in AList.update (ir_file_id r) (if e < rec_end then rec_end else e) ends)
     [(fid, of_nat a)] rs = [(fid, of_nat b :: u64)]"
  using assms
proof (induction rs arbitrary: a)
  case (Cons r rs)
  have le: "a + ir_rec_len r \<le> b" using Cons.prems(1) chained_le by auto
  have off: "ucast (ir_offset r) = (of_nat a :: u64)"
    using Cons.prems(1) by (auto simp: ucast_of_unat)
  have "unat (of_nat a + of_nat (ir_rec_len r) :: u64) = a + ir_rec_len r"
    using le Cons.prems(2) by (intro of_nat_sum_u64) simp
  moreover have "unat (of_nat a :: u64) = a"
    using le Cons.prems(2) by (intro unat_of_nat_u64) simp
  ultimately have "(of_nat a :: u64) < of_nat a + of_nat (ir_rec_len r)"
    by (simp add: word_less_nat_alt ir_rec_len_def)
  then show ?case
    using Cons.IH [of "a + ir_rec_len r"] Cons.prems off by (simp add: Let_def)
qed simp

lemma batch_ends_chained:
  assumes "chained fid a rs b" "b < 2 ^ 32" "rs \<noteq> []"
  shows "batch_ends rs = [(fid, of_nat b)]"
proof -
  obtain r rs' where rs: "rs = r # rs'" using assms(3) by (cases rs) auto
  have le: "a + ir_rec_len r \<le> b" using assms(1) rs chained_le by auto
  have off: "ucast (ir_offset r) = (of_nat a :: u64)"
    using assms(1) rs by (auto simp: ucast_of_unat)
  have "unat (of_nat a + of_nat (ir_rec_len r) :: u64) = a + ir_rec_len r"
    using le assms(2) by (intro of_nat_sum_u64) simp
  then have "(0 :: u64) < of_nat a + of_nat (ir_rec_len r)"
    by (simp add: word_less_nat_alt ir_rec_len_def)
  then show ?thesis
    using batch_ends_step [of fid "a + ir_rec_len r" rs' b] assms rs off
    by (simp add: batch_ends_def Let_def)
qed

text \<open>After the watermark only tables other than \<open>files\<close> are written.\<close>

definition same_files :: "ledger \<Rightarrow> ledger \<Rightarrow> bool" where
  "same_files g g' \<longleftrightarrow> lg_files g' = lg_files g \<and> lg_files_seq g' = lg_files_seq g
     \<and> (ledger_wf g \<longrightarrow> ledger_wf g')"

lemma same_files_refl: "same_files g g"
  by (simp add: same_files_def)

lemma same_files_trans: "same_files g g' \<Longrightarrow> same_files g' g'' \<Longrightarrow> same_files g g''"
  by (simp add: same_files_def)

lemma same_files_foldl: "(\<And>x g. same_files g (f g x)) \<Longrightarrow> same_files g (foldl f g xs)"
proof (induction xs arbitrary: g)
  case (Cons x xs)
  then show ?case using same_files_trans [of g "f g x"] by simp
qed (simp add: same_files_refl)

lemma same_files_ops:
  "same_files g (insert_anomalies es g)"
  "same_files g (fst (ext_meta_upsert hint magic ent fixed port t g))"
  "same_files g (upsert_conn_archive a g)"
  using ledger_wf_ops
  by (auto simp: same_files_def insert_anomalies_def ext_meta_upsert_def upsert_conn_archive_def Let_def
      split: option.splits)

lemma same_files_best_effort:
  "same_files g (write_conn_archives now archives (write_ext_meta now evs (insert_anomalies es g)))"
  unfolding write_conn_archives_def write_ext_meta_def
  by (rule same_files_trans [OF same_files_trans [OF same_files_ops(1) [of g es]]])
    (rule same_files_foldl, rule same_files_ops)+

section \<open>The open file\<close>

definition open_row :: "hot_writer \<Rightarrow> ledger \<Rightarrow> file_row \<Rightarrow> bool" where
  "open_row hw g row \<longleftrightarrow> file_at (uint (hw_file_id hw)) g = Some row
     \<and> fr_state row = FileOpen \<and> fr_dev_id row = hw_dev_id hw
     \<and> fr_segment_seq row = Some (uint (hw_segment_seq hw))
     \<and> (\<forall>r \<in> set (lg_files g). fr_dev_id r = hw_dev_id hw \<and> fr_state r = FileOpen \<longrightarrow> r = row)
     \<and> 0 \<le> fr_analysis_offset row"

definition hot_inv ::
  "(wal_record \<Rightarrow> bytes) \<Rightarrow> hot_writer \<Rightarrow> indexed_record list \<Rightarrow> 'z world_scheme \<Rightarrow> bool" where
  "hot_inv enc hw rs w \<longleftrightarrow>
     ledger_wf (w_ledger w) \<and> lg_files_seq (w_ledger w) < 2 ^ 32
     \<and> unat (hw_segment_size hw) < 2 ^ 32 \<and> hw_offset hw \<le> hw_segment_size hw
     \<and> (\<exists>row committed.
          open_row hw (w_ledger w) row \<and> hw_path hw = fr_path row
          \<and> hw_file hw = Some \<lparr>fh_path = fr_path row, fh_pos = unat (hw_offset hw)\<rparr>
          \<and> w_fs w (fr_path row) = Some (committed @ batch_bytes enc rs)
          \<and> int (length committed) = fr_analysis_offset row
          \<and> chained (hw_file_id hw) (length committed) rs (unat (hw_offset hw)))"

definition pipe_inv :: "(wal_record \<Rightarrow> bytes) \<Rightarrow> pipeline \<Rightarrow> 'z world_scheme \<Rightarrow> bool" where
  "pipe_inv enc p w \<longleftrightarrow> hot_inv enc (pl_hot p) (pl_pending p) w"

text \<open>Other planes, and other tables, may change.\<close>

lemma hot_inv_cong:
  assumes "hot_inv enc hw rs w" "same_files (w_ledger w) (w_ledger w')"
    "\<forall>path. w_fs w path \<noteq> None \<longrightarrow> w_fs w' path = w_fs w path"
  shows "hot_inv enc hw rs w'"
proof -
  from assms(1) obtain row committed where *:
    "open_row hw (w_ledger w) row" "hw_path hw = fr_path row"
    "hw_file hw = Some \<lparr>fh_path = fr_path row, fh_pos = unat (hw_offset hw)\<rparr>"
    "w_fs w (fr_path row) = Some (committed @ batch_bytes enc rs)"
    "int (length committed) = fr_analysis_offset row"
    "chained (hw_file_id hw) (length committed) rs (unat (hw_offset hw))"
    by (auto simp: hot_inv_def)
  moreover have "open_row hw (w_ledger w') row"
    using *(1) assms(2) by (simp add: open_row_def same_files_def file_at_def)
  moreover have "w_fs w' (fr_path row) = Some (committed @ batch_bytes enc rs)"
    using assms(3) *(4) by simp
  ultimately show ?thesis
    using assms(1,2) unfolding hot_inv_def same_files_def by metis
qed

text \<open>A record that fits into an empty file makes the length arithmetic exact.\<close>

definition fits :: "hot_writer \<Rightarrow> wal_record \<Rightarrow> bool" where
  "fits hw r \<longleftrightarrow> 64 + length (wr_payload r) \<le> unat (hw_segment_size hw)"

lemma end_of_record:
  assumes "hot_inv enc hw rs w" "fits hw r"
  shows "unat (hw_offset hw + rec_len64 r) = unat (hw_offset hw) + (64 + length (wr_payload r))"
proof -
  have "unat (hw_offset hw) + (64 + length (wr_payload r)) < 2 ^ 64"
    using assms by (simp add: hot_inv_def fits_def word_le_nat_alt)
  then show ?thesis
    using of_nat_sum_u64 [of "unat (hw_offset hw)" "64 + length (wr_payload r)"]
    by (simp add: rec_len64_def)
qed

lemma append_in_file:
  assumes enc: "enc_ok enc" and inv: "hot_inv enc hw rs w" and fits: "fits hw r"
    and room: "\<not> hw_segment_size hw < hw_offset hw + rec_len64 r"
    and run: "hot_append enc now r hw w = ((hw', w'), res)"
  shows "\<exists>off. res = Some (hw_file_id hw, off) \<and>
    hot_inv enc hw' (rs @ [\<lparr>ir_dev_id = d, ir_file_id = hw_file_id hw, ir_offset = off, ir_rec = r\<rparr>]) w'
    \<and> hw_dev_id hw' = hw_dev_id hw \<and> hw_segment_size hw' = hw_segment_size hw
    \<and> (\<exists>path b. w_fs w path = Some b \<and> w' = w\<lparr>w_fs := (w_fs w)(path \<mapsto> b @ enc r)\<rparr>)"
proof -
  let ?off = "ucast (hw_offset hw) :: u32"
  let ?x = "\<lparr>ir_dev_id = d, ir_file_id = hw_file_id hw, ir_offset = ?off, ir_rec = r\<rparr>"
  let ?n = "unat (hw_offset hw)"
  from inv obtain row committed where *:
    "open_row hw (w_ledger w) row" "hw_path hw = fr_path row"
    "hw_file hw = Some \<lparr>fh_path = fr_path row, fh_pos = ?n\<rparr>"
    "w_fs w (fr_path row) = Some (committed @ batch_bytes enc rs)"
    "int (length committed) = fr_analysis_offset row"
    "chained (hw_file_id hw) (length committed) rs ?n"
    by (auto simp: hot_inv_def)
  have len: "length committed + length (batch_bytes enc rs) = ?n"
    by (rule chained_bytes [OF enc *(6)])
  have end_at: "unat (hw_offset hw + rec_len64 r) = ?n + ir_rec_len ?x"
    using end_of_record [OF inv fits] by (simp add: ir_rec_len_def)
  have "?n < 2 ^ 32" using inv by (auto simp: hot_inv_def word_le_nat_alt)
  then have "unat ?off = ?n" by (simp add: unsigned_ucast_eq take_bit_nat_eq_self)
  then have chain: "chained (hw_file_id hw) (length committed) (rs @ [?x]) (unat (hw_offset hw + rec_len64 r))"
    using *(6) end_at by (auto simp: chained_append)
  let ?f = "\<lparr>fh_path = fr_path row, fh_pos = ?n\<rparr>"
  have "snd (fs_write (enc r) ?f (w_fs w)) = (w_fs w)(fr_path row \<mapsto> committed @ batch_bytes enc (rs @ [?x]))"
    using *(4) len by (simp add: fs_write_def Let_def)
  moreover have "fst (fs_write (enc r) ?f (w_fs w)) =
      \<lparr>fh_path = fr_path row, fh_pos = unat (hw_offset hw + rec_len64 r)\<rparr>"
    using enc end_at by (simp add: fs_write_def Let_def enc_ok_def ir_rec_len_def)
  ultimately have "fs_write (enc r) ?f (w_fs w) =
      (\<lparr>fh_path = fr_path row, fh_pos = unat (hw_offset hw + rec_len64 r)\<rparr>,
       (w_fs w)(fr_path row \<mapsto> committed @ batch_bytes enc (rs @ [?x])))"
    by (metis prod.collapse)
  then have out: "res = Some (hw_file_id hw, ?off)"
    "w' = w\<lparr>w_fs := (w_fs w)(fr_path row \<mapsto> committed @ batch_bytes enc (rs @ [?x]))\<rparr>"
    "hw' = hw\<lparr>hw_file := Some \<lparr>fh_path = fr_path row, fh_pos = unat (hw_offset hw + rec_len64 r)\<rparr>,
      hw_offset := hw_offset hw + rec_len64 r\<rparr>"
    using run room *(3) by (auto simp: hot_append_def Let_def)
  have "open_row hw' (w_ledger w') row" using *(1) out by (simp add: open_row_def)
  then have "hot_inv enc hw' (rs @ [?x]) w'"
    using inv out *(2,5) chain room unfolding hot_inv_def
    by (intro conjI exI [of _ row] exI [of _ committed]) (auto simp: not_less)
  moreover have "\<exists>path b. w_fs w path = Some b \<and> w' = w\<lparr>w_fs := (w_fs w)(path \<mapsto> b @ enc r)\<rparr>"
    by (rule exI [of _ "fr_path row"], rule exI [of _ "committed @ batch_bytes enc rs"])
      (simp add: out(2) *(4))
  ultimately show ?thesis using out(1,3) by auto
qed

section \<open>Opening and rotating\<close>

lemma no_open_find:
  "filter P xs = [] \<Longrightarrow> \<forall>r \<in> set xs. \<not> P r"
  by (simp add: filter_empty_conv)

text \<open>A freshly created file is empty, and its row is the only open row of the device.\<close>

lemma ensure_open_new:
  assumes wf: "ledger_wf (w_ledger w)" and seg: "unat (hw_segment_size hw) < 2 ^ 32"
    and closed: "hw_file hw = None"
    and none: "\<forall>r \<in> set (lg_files (w_ledger w)). fr_dev_id r = hw_dev_id hw \<longrightarrow> fr_state r \<noteq> FileOpen"
    and run: "ensure_open now hw w = ((hw', w'), True)"
    and ids: "lg_files_seq (w_ledger w') < 2 ^ 32"
  shows "hot_inv enc hw' [] w' \<and> hw_offset hw' = 0 \<and> hw_dev_id hw' = hw_dev_id hw
    \<and> hw_segment_size hw' = hw_segment_size hw
    \<and> (\<forall>path. w_fs w path \<noteq> None \<longrightarrow> w_fs w' path = w_fs w path)
    \<and> lg_files_seq (w_ledger w') = lg_files_seq (w_ledger w) + 1"
proof -
  let ?path = "segment_path (hw_dir hw) (hw_segment_seq hw)"
  from run closed obtain g fid where
    new: "w_fs w ?path = None" and
    ins: "insert_file ?path WalFile (hw_dev_id hw) (Some (uint (hw_segment_seq hw))) now (w_ledger w) = Some (g, fid)"
      and hw': "hw' = hw\<lparr>hw_file := Some \<lparr>fh_path = ?path, fh_pos = 0\<rparr>, hw_path := ?path,
        hw_file_id := word_of_int fid, hw_offset := 0\<rparr>"
      and w': "w' = w\<lparr>w_fs := (w_fs w)(?path \<mapsto> []), w_ledger := g\<rparr>"
    by (auto simp: ensure_open_def Let_def split: if_splits option.splits)
  from insert_file_wf [OF ins wf] have fid: "ledger_wf g" "fid = lg_files_seq (w_ledger w) + 1"
    "file_at fid (w_ledger w) = None" by auto
  define row where "row = \<lparr>fr_id = fid, fr_path = ?path, fr_kind = WalFile, fr_dev_id = hw_dev_id hw,
      fr_segment_seq = Some (uint (hw_segment_seq hw)), fr_size_bytes = 0, fr_sha256 = None,
      fr_first_ts = None, fr_last_ts = None, fr_state = FileOpen, fr_analysis_offset = 0,
      fr_created_at = now\<rparr>"
  have g: "g = (w_ledger w)\<lparr>lg_files := lg_files (w_ledger w) @ [row], lg_files_seq := fid\<rparr>"
    using ins fid(2) by (auto simp: insert_file_def Let_def row_def split: if_splits)
  have seq: "lg_files_seq (w_ledger w') = fid" using w' g by simp
  have "0 \<le> lg_files_seq (w_ledger w)" using wf by (simp add: ledger_wf_def)
  then have small: "uint (word_of_int fid :: u32) = fid"
    using ids seq fid(2) by (intro uint_of_int_u32) simp_all
  have "file_at fid g = Some row"
    using fid(3) by (simp add: file_at_def g find_append row_def split: option.split)
  then have "open_row hw' g row"
    using none small by (auto simp: open_row_def hw' g row_def)
  then have "hot_inv enc hw' [] w'"
    using fid(1) ids seg w' hw' unfolding hot_inv_def
    by (intro conjI exI [of _ row] exI [of _ "[]"]) (auto simp: row_def)
  then show ?thesis using hw' w' seq fid(2) new by auto
qed

text \<open>Sealing the open row of the device leaves it without one.\<close>

lemma sealed_none_open:
  assumes "open_row hw g row" "ledger_wf g"
  shows "\<forall>r \<in> set (lg_files (set_file_state (uint (hw_file_id hw)) FileSealed g)).
    fr_dev_id r = hw_dev_id hw \<longrightarrow> fr_state r \<noteq> FileOpen"
proof -
  have id: "fr_id row = uint (hw_file_id hw)"
    using assms(1) by (auto simp: open_row_def file_at_def dest!: find_SomeD)
  have "fr_state r \<noteq> FileOpen" if "r = (if fr_id r0 = uint (hw_file_id hw) then r0\<lparr>fr_state := FileSealed\<rparr> else r0)"
    "r0 \<in> set (lg_files g)" "fr_dev_id r = hw_dev_id hw" for r r0
  proof (cases "fr_id r0 = uint (hw_file_id hw)")
    case False
    then show ?thesis using that assms(1) id by (auto simp: open_row_def)
  qed (use that in simp)
  then show ?thesis by (auto simp: set_file_state_def in_update_where)
qed

lemma rotate_inv:
  assumes inv: "hot_inv enc hw rs w" and run: "hot_rotate now hw w = ((hw', w'), True)"
    and ids: "lg_files_seq (w_ledger w') < 2 ^ 32"
  shows "hot_inv enc hw' [] w' \<and> hw_offset hw' = 0 \<and> hw_dev_id hw' = hw_dev_id hw
    \<and> hw_segment_size hw' = hw_segment_size hw
    \<and> (\<forall>path. w_fs w path \<noteq> None \<longrightarrow> w_fs w' path = w_fs w path)
    \<and> lg_files_seq (w_ledger w') = lg_files_seq (w_ledger w) + 1"
proof -
  from inv obtain row where row: "open_row hw (w_ledger w) row" and wf: "ledger_wf (w_ledger w)"
    and seg: "unat (hw_segment_size hw) < 2 ^ 32" by (auto simp: hot_inv_def)
  have "row \<in> set (lg_files (w_ledger w))" "fr_id row = uint (hw_file_id hw)"
    using row by (auto simp: open_row_def file_at_def dest!: find_SomeD)
  then have "0 < uint (hw_file_id hw)" using wf by (auto simp: ledger_wf_def)
  then have nz: "hw_file_id hw \<noteq> 0" by auto
  let ?w = "w\<lparr>w_ledger := set_file_state (uint (hw_file_id hw)) FileSealed (w_ledger w)\<rparr>"
  let ?hw = "hw\<lparr>hw_file := None, hw_segment_seq := hw_segment_seq hw + 1\<rparr>"
  have "ensure_open now ?hw ?w = ((hw', w'), True)"
    using run nz by (simp add: hot_rotate_def Let_def)
  from ensure_open_new [OF _ _ _ _ this ids, of enc] show ?thesis
    using ledger_wf_ops(2) [OF wf] seg sealed_none_open [OF row wf]
    by (simp add: set_file_state_def)
qed

section \<open>The commit\<close>

lemma advance_open_row:
  assumes "open_row hw g row" "ledger_wf g" "advance_watermark (uint (hw_file_id hw)) off g = Some g'"
    "0 \<le> sint off"
  shows "open_row hw g' (row\<lparr>fr_analysis_offset := sint off\<rparr>)" and "lg_files_seq g' = lg_files_seq g"
proof -
  note at = advance_watermark_at [OF assms(3,2)]
  have id: "fr_id row = uint (hw_file_id hw)" "row \<in> set (lg_files g)"
    using assms(1) by (auto simp: open_row_def file_at_def dest!: find_SomeD)
  from assms(3) have g': "g' = g\<lparr>lg_files := update_where
      (\<lambda>r. fr_id r = uint (hw_file_id hw) \<and> fr_analysis_offset r \<le> sint off)
      (\<lambda>r. r\<lparr>fr_analysis_offset := sint off\<rparr>) (lg_files g)\<rparr>"
    by (auto simp: advance_watermark_def Let_def split: if_splits)
  then show "lg_files_seq g' = lg_files_seq g" by simp
  have le: "fr_analysis_offset row \<le> sint off"
    using at(3) assms(1) by (simp add: open_row_def)
  have only: "r = row" if "r \<in> set (lg_files g)" "fr_dev_id r = hw_dev_id hw" "fr_state r = FileOpen" for r
    using assms(1) that by (simp add: open_row_def)
  have "r = row\<lparr>fr_analysis_offset := sint off\<rparr>"
    if r: "r \<in> set (lg_files g')" and "fr_dev_id r = hw_dev_id hw" "fr_state r = FileOpen" for r
  proof -
    obtain r0 where "r0 \<in> set (lg_files g)" and r0: "r = (if fr_id r0 = uint (hw_file_id hw) \<and>
        fr_analysis_offset r0 \<le> sint off then r0\<lparr>fr_analysis_offset := sint off\<rparr> else r0)"
      using r by (auto simp: g' in_update_where)
    moreover have "fr_dev_id r0 = fr_dev_id r" "fr_state r0 = fr_state r" using r0 by simp_all
    ultimately have "r0 = row" using only that by metis
    then show ?thesis using r0 id(1) le by simp
  qed
  then show "open_row hw g' (row\<lparr>fr_analysis_offset := sint off\<rparr>)"
    using at(1) assms(1,4) by (simp add: open_row_def)
qed

text \<open>The watermark moves to the end of the batch, past anything that lies before it.\<close>

lemma stage_sqlite_inv:
  assumes enc: "enc_ok enc" and inv: "hot_inv enc hw (skipped @ rs) w" and ne: "rs \<noteq> []"
  shows "\<exists>g. stage_sqlite rs (w_ledger w) = (g, True) \<and> ledger_wf g
    \<and> lg_files_seq g = lg_files_seq (w_ledger w)
    \<and> hot_inv enc hw [] (w\<lparr>w_ledger := g\<rparr>)"
proof -
  from inv obtain row committed where *:
    "open_row hw (w_ledger w) row" "hw_path hw = fr_path row"
    "hw_file hw = Some \<lparr>fh_path = fr_path row, fh_pos = unat (hw_offset hw)\<rparr>"
    "w_fs w (fr_path row) = Some (committed @ batch_bytes enc (skipped @ rs))"
    "int (length committed) = fr_analysis_offset row"
    "chained (hw_file_id hw) (length committed) (skipped @ rs) (unat (hw_offset hw))"
    and wf: "ledger_wf (w_ledger w)" using inv unfolding hot_inv_def by blast
  obtain a where a: "chained (hw_file_id hw) a rs (unat (hw_offset hw))"
    using *(6) by (auto simp: chained_append)
  have small: "unat (hw_offset hw) < 2 ^ 32" using inv by (auto simp: hot_inv_def word_le_nat_alt)
  have ends: "batch_ends rs = [(hw_file_id hw, hw_offset hw)]"
    using batch_ends_chained [OF a small ne] by simp
  have s: "sint (hw_offset hw) = uint (hw_offset hw)"
    using small by (intro sint_small) simp
  have id: "row \<in> set (lg_files (w_ledger w))" "fr_id row = uint (hw_file_id hw)"
    using *(1) by (auto simp: open_row_def file_at_def dest!: find_SomeD)
  have "fr_analysis_offset row \<le> sint (hw_offset hw)"
    using of_nat_mono [OF chained_le [OF *(6)], where 'a = int] *(5) s by simp
  then have "\<exists>r \<in> set (lg_files (w_ledger w)). fr_id r = uint (hw_file_id hw) \<and>
      fr_analysis_offset r \<le> sint (hw_offset hw)" using id by blast
  then obtain g where g: "advance_watermark (uint (hw_file_id hw)) (hw_offset hw) (w_ledger w) = Some g"
    by (simp add: advance_watermark_def Let_def)
  note row' = advance_open_row [OF *(1) wf g]
  let ?row = "row\<lparr>fr_analysis_offset := sint (hw_offset hw)\<rparr>"
  have "hot_inv enc hw [] (w\<lparr>w_ledger := g\<rparr>)"
    using inv row' ledger_wf_ops(1) [OF wf g] *(2,3,4) s chained_bytes [OF enc *(6)]
    unfolding hot_inv_def
    by (intro conjI exI [of _ ?row] exI [of _ "committed @ batch_bytes enc (skipped @ rs)"]) auto
  then show ?thesis
    using g row'(2) s ends ledger_wf_ops(1) [OF wf g] by (simp add: stage_sqlite_def)
qed

text \<open>With nothing pending the watermark is the end of the file.\<close>

lemma hot_inv_watermark:
  assumes "hot_inv enc hw [] w"
  shows "watermark (uint (hw_file_id hw)) (w_ledger w) = Some (hw_offset hw)"
proof -
  from assms obtain row and committed :: bytes where row: "open_row hw (w_ledger w) row"
    "int (length committed) = fr_analysis_offset row" "length committed = unat (hw_offset hw)"
    unfolding hot_inv_def chained.simps by blast
  have "fr_analysis_offset row = uint (hw_offset hw)" using row(2,3) by simp
  then show ?thesis using row(1) by (simp add: watermark_def open_row_def)
qed

end
