(* ===== verification/Batch_Claims.thy ===== *)
theory Batch_Claims
  imports Batch_Facts System
begin

text \<open>
  What the batch pipeline guarantees.  Every indexed packet can be read back from the data plane at
  its anchor, every pushed record is either indexed or still pending, and a restart keeps exactly
  the committed bytes.  Two theorems show where the code loses data: a failed commit drops its
  batch, and a crash while a file is sealed leaves a device that cannot be opened again.
\<close>

section \<open>The data plane only grows\<close>

definition data_grows :: "'z world_scheme \<Rightarrow> 'y world_scheme \<Rightarrow> bool" where
  "data_grows w w' \<longleftrightarrow>
     (\<forall>path b. w_fs w path = Some b \<longrightarrow> (\<exists>ext. w_fs w' path = Some (b @ ext)))
     \<and> (\<forall>fid path. file_path fid (w_ledger w) = Some path \<longrightarrow> file_path fid (w_ledger w') = Some path)"

lemma data_grows_refl: "data_grows w w"
  by (simp add: data_grows_def)

lemma data_grows_trans: "data_grows w w' \<Longrightarrow> data_grows w' w'' \<Longrightarrow> data_grows w w''"
  unfolding data_grows_def by (metis append_assoc)

lemma find_path_update_where:
  assumes "\<And>r. fr_id (f r) = fr_id r" "\<And>r. fr_path (f r) = fr_path r"
  shows "map_option fr_path (find (\<lambda>r. fr_id r = fid) (update_where P f rows)) =
    map_option fr_path (find (\<lambda>r. fr_id r = fid) rows)"
  using assms by (induction rows) (auto simp: update_where_def)

lemma file_path_ops:
  "file_path fid (set_file_state n s g) = file_path fid g"
  "advance_watermark n off g = Some g' \<Longrightarrow> file_path fid g' = file_path fid g"
  by (auto simp: file_path_def file_at_def set_file_state_def advance_watermark_def Let_def
      find_path_update_where split: if_splits)

lemma file_path_insert:
  "insert_file path kind dev seg now g = Some (g', n) \<Longrightarrow> file_path fid g = Some pth \<Longrightarrow>
   file_path fid g' = Some pth"
  by (auto simp: insert_file_def file_path_def file_at_def find_append Let_def split: if_splits)

lemma file_path_advance_all:
  "advance_all ends g = (g', ok) \<Longrightarrow> file_path fid g' = file_path fid g"
  by (induction ends g rule: advance_all.induct) (auto simp: file_path_ops split: option.splits)

lemma file_path_same_files: "same_files g g' \<Longrightarrow> file_path fid g' = file_path fid g"
  by (simp add: same_files_def file_path_def file_at_def)

lemma ensure_open_grows: "ensure_open now hw w = ((hw', w'), ok) \<Longrightarrow> data_grows w w'"
  by (auto simp: ensure_open_def data_grows_def Let_def split: if_splits option.splits
      dest: file_path_insert)

lemma rotate_grows:
  assumes "hot_rotate now hw w = ((hw', w'), ok)"
  shows "data_grows w w'"
proof -
  let ?w = "w\<lparr>w_ledger := set_file_state (uint (hw_file_id hw)) FileSealed (w_ledger w)\<rparr>"
  have "data_grows w ?w" by (simp add: data_grows_def file_path_ops)
  then show ?thesis
    using assms data_grows_trans ensure_open_grows
    by (fastforce simp: hot_rotate_def Let_def split: if_splits)
qed

lemma files_seq_ops:
  "ensure_open now hw w = ((hw', w'), ok) \<Longrightarrow> lg_files_seq (w_ledger w) \<le> lg_files_seq (w_ledger w')"
  "hot_rotate now hw w = ((hw', w'), ok) \<Longrightarrow> lg_files_seq (w_ledger w) \<le> lg_files_seq (w_ledger w')"
  by (auto simp: hot_rotate_def ensure_open_def insert_file_def set_file_state_def Let_def
      split: if_splits option.splits)

section \<open>One record\<close>

lemma flush_ok:
  assumes enc: "enc_ok enc" and inv: "pipe_inv enc p w"
    and run: "flush_batch L C now p w = ((p', w'), True)"
  shows "pipe_inv enc p' w' \<and> p' = p\<lparr>pl_pending := []\<rparr> \<and> w_fs w' = w_fs w
    \<and> lg_files_seq (w_ledger w') = lg_files_seq (w_ledger w) \<and> data_grows w w'
    \<and> (pl_pending p = [] \<and> w' = w \<or>
       (\<exists>out. stage_lmdb_with_meta L C (w_db w) (pl_pending p) (pl_ack_tol p) (pl_meta p) =
          Some (w_db w', out)))"
proof (cases "pl_pending p = []")
  case True
  then show ?thesis using run inv data_grows_refl by (auto simp: flush_batch_def)
next
  case False
  obtain g where g: "stage_sqlite (pl_pending p) (w_ledger w) = (g, True)" "ledger_wf g"
    "lg_files_seq g = lg_files_seq (w_ledger w)" "hot_inv enc (pl_hot p) [] (w\<lparr>w_ledger := g\<rparr>)"
    using stage_sqlite_inv [OF enc, of _ "[]"] False inv unfolding pipe_inv_def by (metis append_Nil)
  from run False obtain db es evs as where
    db: "stage_lmdb_with_meta L C (w_db w) (pl_pending p) (pl_ack_tol p) (pl_meta p) = Some (db, es, evs, as)"
    and w': "w' = w\<lparr>w_db := db, w_ledger := write_conn_archives now as
      (write_ext_meta now evs (insert_anomalies es g))\<rparr>" and p': "p' = p\<lparr>pl_pending := []\<rparr>"
    using g(1) by (auto simp: flush_batch_def commit_batch_with_meta_def Let_def split: option.splits)
  have same: "same_files g (w_ledger w')" using same_files_best_effort w' by simp
  have "hot_inv enc (pl_hot p) [] w'"
    by (rule hot_inv_cong [OF g(4)]) (use same w' in simp_all)
  moreover have "file_path fid g = file_path fid (w_ledger w)" for fid
    using g(1) file_path_advance_all by (metis stage_sqlite_def)
  ultimately show ?thesis
    using db w' p' g(3) same file_path_same_files [OF same]
    by (auto simp: pipe_inv_def same_files_def data_grows_def)
qed

lemma flush_failed:
  assumes enc: "enc_ok enc" and inv: "pipe_inv enc p w"
    and run: "flush_batch L C now p w = ((p', w'), False)"
  shows "stage_lmdb_with_meta L C (w_db w) (pl_pending p) (pl_ack_tol p) (pl_meta p) = None
    \<and> p' = p\<lparr>pl_pending := []\<rparr> \<and> w' = w"
proof -
  have ne: "pl_pending p \<noteq> []" using run by (auto simp: flush_batch_def)
  then obtain g where "stage_sqlite (pl_pending p) (w_ledger w) = (g, True)"
    using stage_sqlite_inv [OF enc, of _ "[]"] inv unfolding pipe_inv_def by (metis append_Nil)
  then show ?thesis
    using run ne by (auto simp: flush_batch_def commit_batch_with_meta_def Let_def split: option.splits)
qed

lemma rotate_ok:
  assumes "pipe_inv enc p w" "rotate_hot now p w = ((p', w'), True)" "lg_files_seq (w_ledger w') < 2 ^ 32"
    "pl_pending p = []"
  shows "pipe_inv enc p' w' \<and> hw_offset (pl_hot p') = 0 \<and> pl_pending p' = [] \<and> data_grows w w'
    \<and> hw_segment_size (pl_hot p') = hw_segment_size (pl_hot p) \<and> pl_batch_size p' = pl_batch_size p
    \<and> w_db w' = w_db w"
proof -
  from assms(2) obtain hw where run: "hot_rotate now (pl_hot p) w = ((hw, w'), True)"
    and p': "p' = p\<lparr>pl_hot := hw\<rparr>"
    by (auto simp: rotate_hot_def split: prod.splits)
  have "w_db w' = w_db w"
    using run by (auto simp: hot_rotate_def ensure_open_def Let_def split: if_splits option.splits)
  then show ?thesis
    using rotate_inv [OF _ run assms(3)] assms(1,4) p' rotate_grows [OF run]
    by (auto simp: pipe_inv_def)
qed

lemma append_ok:
  assumes enc: "enc_ok enc" and inv: "pipe_inv enc p w" and fits: "fits (pl_hot p) r"
    and room: "\<not> hw_segment_size (pl_hot p) < hw_offset (pl_hot p) + rec_len64 r"
    and run: "append_pending enc now r p w = ((p', w'), ok)"
  shows "\<exists>off. let x = \<lparr>ir_dev_id = word_of_int (hw_dev_id (pl_hot p)), ir_file_id = hw_file_id (pl_hot p),
       ir_offset = off, ir_rec = r\<rparr>
    in ok \<and> pipe_inv enc p' w' \<and> pl_pending p' = pl_pending p @ [x] \<and> data_grows w w'
       \<and> w_ledger w' = w_ledger w \<and> w_db w' = w_db w
       \<and> hw_segment_size (pl_hot p') = hw_segment_size (pl_hot p) \<and> pl_batch_size p' = pl_batch_size p"
proof -
  obtain hw w1 res where h: "hot_append enc now r (pl_hot p) w = ((hw, w1), res)"
    by (metis prod.collapse)
  have i: "hot_inv enc (pl_hot p) (pl_pending p) w" using inv by (simp add: pipe_inv_def)
  obtain off where off: "res = Some (hw_file_id (pl_hot p), off)"
    "hot_inv enc hw (pl_pending p @ [\<lparr>ir_dev_id = word_of_int (hw_dev_id (pl_hot p)),
       ir_file_id = hw_file_id (pl_hot p), ir_offset = off, ir_rec = r\<rparr>]) w1"
    "hw_dev_id hw = hw_dev_id (pl_hot p)" "hw_segment_size hw = hw_segment_size (pl_hot p)"
    "\<exists>path b. w_fs w path = Some b \<and> w1 = w\<lparr>w_fs := (w_fs w)(path \<mapsto> b @ enc r)\<rparr>"
    using append_in_file [OF enc i fits room h] by blast
  then have same: "data_grows w w1" "w_ledger w1 = w_ledger w" "w_db w1 = w_db w"
    by (auto simp: data_grows_def)
  let ?x = "\<lparr>ir_dev_id = word_of_int (hw_dev_id (pl_hot p)), ir_file_id = hw_file_id (pl_hot p),
      ir_offset = off, ir_rec = r\<rparr>"
  have "append_pending enc now r p w =
      ((p\<lparr>pl_hot := hw, pl_pending := pl_pending p @ [?x]\<rparr>, w1), True)"
    using h off(1,3) by (simp add: append_pending_def)
  then have "ok" "p' = p\<lparr>pl_hot := hw, pl_pending := pl_pending p @ [?x]\<rparr>" "w' = w1" using run by simp_all
  then show ?thesis
    using off(2,4) same by (intro exI [of _ off]) (simp add: pipe_inv_def Let_def)
qed

text \<open>After the barrier there is room for the record.\<close>

lemma barrier_ok:
  assumes enc: "enc_ok enc" and inv: "pipe_inv enc p w" and fits: "fits (pl_hot p) r"
    and run: "file_barrier L C now r p w = ((p', w'), True)"
    and ids: "lg_files_seq (w_ledger w') < 2 ^ 32"
  shows "pipe_inv enc p' w' \<and> \<not> hw_segment_size (pl_hot p') < hw_offset (pl_hot p') + rec_len64 r
    \<and> data_grows w w' \<and> hw_segment_size (pl_hot p') = hw_segment_size (pl_hot p)
    \<and> pl_batch_size p' = pl_batch_size p
    \<and> (pl_pending p' = pl_pending p \<and> w_db w' = w_db w \<or>
       pl_pending p' = [] \<and> (\<exists>out. stage_lmdb_with_meta L C (w_db w) (pl_pending p) (pl_ack_tol p)
          (pl_meta p) = Some (w_db w', out)))"
proof -
  have i: "hot_inv enc (pl_hot p) (pl_pending p) w" using inv by (simp add: pipe_inv_def)
  note lens = end_of_record [OF i fits]
  show ?thesis
  proof (cases "hw_segment_size (pl_hot p) < hw_offset (pl_hot p) + rec_len64 r \<and> 0 < hw_offset (pl_hot p)")
    case False
    have "\<not> hw_segment_size (pl_hot p) < hw_offset (pl_hot p) + rec_len64 r"
    proof (cases "hw_offset (pl_hot p) = 0")
      case True
      then show ?thesis using lens fits by (simp add: fits_def word_less_nat_alt)
    qed (use False in \<open>auto simp: word_neq_0_conv\<close>)
    then show ?thesis using run inv data_grows_refl by (auto simp: file_barrier_def)
  next
    case True
    then obtain p1 w1 where 1: "flush_batch L C now p w = ((p1, w1), True)"
      and 2: "rotate_hot now p1 w1 = ((p', w'), True)"
      using run by (auto simp: file_barrier_def split: prod.splits if_splits)
    note f = flush_ok [OF enc inv 1]
    have ne: "pl_pending p \<noteq> [] \<or> pl_pending p = []" by simp
    have r: "pipe_inv enc p' w'" "hw_offset (pl_hot p') = 0" "pl_pending p' = []" "data_grows w1 w'"
      "hw_segment_size (pl_hot p') = hw_segment_size (pl_hot p1)" "pl_batch_size p' = pl_batch_size p1"
      "w_db w' = w_db w1" using rotate_ok [OF _ 2 ids] f by auto
    have seg: "hw_segment_size (pl_hot p') = hw_segment_size (pl_hot p)" using r(5) f by simp
    have "fits (pl_hot p') r" using fits seg by (simp add: fits_def)
    then have "\<not> hw_segment_size (pl_hot p') < hw_offset (pl_hot p') + rec_len64 r"
      using end_of_record [of enc "pl_hot p'" "pl_pending p'" w' r] r(1,2)
      by (simp add: pipe_inv_def fits_def word_less_nat_alt)
    then show ?thesis using r f seg data_grows_trans by auto
  qed
qed

section \<open>Anchors that resolve\<close>

text \<open>The record lies at the packet index, and every row of the record index is of such a record.\<close>

definition stored_at :: "(wal_record \<Rightarrow> bytes) \<Rightarrow> 'z world_scheme \<Rightarrow> u64 \<Rightarrow> wal_record \<Rightarrow> bool" where
  "stored_at enc w q r \<longleftrightarrow> wal_ok r \<and>
     (\<exists>path pre post. file_path (uint (fst (decode_idx q))) (w_ledger w) = Some path
        \<and> w_fs w path = Some (pre @ enc r @ post) \<and> length pre = unat (snd (decode_idx q)))"

definition index_anchored ::
  "('d \<Rightarrow> contents) \<Rightarrow> (wal_record \<Rightarrow> bytes) \<Rightarrow> wal_consts \<Rightarrow> 'd planes \<Rightarrow> bool" where
  "index_anchored view enc C w \<longleftrightarrow>
     (\<forall>k v. view (qm_record_ts (w_db w)) k = Some v \<longrightarrow>
        (\<exists>q r. k = k_record_ts (wr_timestamp_ns r) q \<and> v = v_record_summary_encode (record_summary_of C r)
           \<and> stored_at enc w q r))"

lemma stored_ok: "stored_at enc w q r \<Longrightarrow> wal_ok r"
  by (simp add: stored_at_def)

lemma stored_at_grows: "data_grows w w' \<Longrightarrow> stored_at enc w q r \<Longrightarrow> stored_at enc w' q r"
  unfolding data_grows_def stored_at_def by (metis append_assoc)

lemma pending_stored:
  assumes "enc_ok enc" "pipe_inv enc p w" "x \<in> set (pl_pending p)" "wal_ok (ir_rec x)"
  shows "stored_at enc w (ir_idx x) (ir_rec x)"
proof -
  obtain row committed where row: "open_row (pl_hot p) (w_ledger w) row"
    "w_fs w (fr_path row) = Some (committed @ batch_bytes enc (pl_pending p))"
    "chained (hw_file_id (pl_hot p)) (length committed) (pl_pending p) (unat (hw_offset (pl_hot p)))"
    using assms(2) by (auto simp: pipe_inv_def hot_inv_def)
  obtain pre post where x: "ir_file_id x = hw_file_id (pl_hot p)"
    "batch_bytes enc (pl_pending p) = pre @ enc (ir_rec x) @ post"
    "unat (ir_offset x) = length committed + length pre"
    using chained_at [OF assms(1) row(3) assms(3)] by blast
  have "w_fs w (fr_path row) = Some ((committed @ pre) @ enc (ir_rec x) @ post)" using row(2) x(2) by simp
  moreover have "file_path (uint (ir_file_id x)) (w_ledger w) = Some (fr_path row)"
    using row(1) x(1) by (simp add: open_row_def file_path_def)
  ultimately show ?thesis
    using x(3) assms(4) unfolding stored_at_def ir_idx_def decode_encode_idx
    by (intro conjI exI [of _ "fr_path row"] exI [of _ "committed @ pre"] exI [of _ post]) simp_all
qed

text \<open>The records that a run has taken: indexed already, or still pending.\<close>

definition taken ::
  "('d \<Rightarrow> contents) \<Rightarrow> (wal_record \<Rightarrow> bytes) \<Rightarrow> pipeline \<Rightarrow> 'd planes \<Rightarrow> wal_record \<Rightarrow> bool" where
  "taken view enc p w r \<longleftrightarrow> (\<exists>q. stored_at enc w q r \<and>
     (view (qm_record_ts (w_db w)) (k_record_ts (wr_timestamp_ns r) q) \<noteq> None
      \<or> (\<exists>x \<in> set (pl_pending p). ir_rec x = r \<and> ir_idx x = q)))"

definition run_inv ::
  "('d \<Rightarrow> contents) \<Rightarrow> (wal_record \<Rightarrow> bytes) \<Rightarrow> wal_consts \<Rightarrow> pipeline \<Rightarrow> 'd planes \<Rightarrow> bool" where
  "run_inv view enc C p w \<longleftrightarrow> pipe_inv enc p w \<and> index_anchored view enc C w \<and> (\<forall>x \<in> set (pl_pending p). wal_ok (ir_rec x))"

lemma index_anchored_grows:
  "index_anchored view enc C w \<Longrightarrow> data_grows w w' \<Longrightarrow> w_db w' = w_db w \<Longrightarrow> index_anchored view enc C w'"
  unfolding index_anchored_def using stored_at_grows by metis

lemma taken_grows:
  assumes "taken view enc p w r" "data_grows w w'" "w_db w' = w_db w" "set (pl_pending p) \<subseteq> set (pl_pending p')"
  shows "taken view enc p' w' r"
  using assms stored_at_grows [OF assms(2)] unfolding taken_def by (metis subsetD)

context lmdb_store
begin

lemma commit_anchors:
  assumes enc: "enc_ok enc" and inv: "run_inv view enc C p w" and grows: "data_grows w w'"
    and stage: "stage_lmdb_with_meta L C (w_db w) (pl_pending p) tol meta = Some (w_db w', out)"
  shows "index_anchored view enc C w'" and "taken view enc p w r \<Longrightarrow> taken view enc p' w' r"
proof -
  have rows: "view (qm_record_ts (w_db w')) = add_records C (pl_pending p) (view (qm_record_ts (w_db w)))"
    by (rule batch_record_ts [OF stage])
  have pend: "stored_at enc w' (ir_idx x) (ir_rec x)" if "x \<in> set (pl_pending p)" for x
    by (rule stored_at_grows [OF grows pending_stored [OF enc _ that]]) (use inv that in \<open>simp_all add: run_inv_def\<close>)
  show "index_anchored view enc C w'"
    unfolding index_anchored_def rows
  proof (intro allI impI)
    fix k v
    assume "add_records C (pl_pending p) (view (qm_record_ts (w_db w))) k = Some v"
    then consider "view (qm_record_ts (w_db w)) k = Some v"
      | x where "x \<in> set (pl_pending p)" "k = record_key x" "v = record_row C x"
      using add_records_cases by blast
    then show "\<exists>q r. k = k_record_ts (wr_timestamp_ns r) q \<and>
        v = v_record_summary_encode (record_summary_of C r) \<and> stored_at enc w' q r"
    proof cases
      case 1
      then show ?thesis
        using inv stored_at_grows [OF grows] unfolding run_inv_def index_anchored_def by metis
    next
      case 2
      then show ?thesis using pend record_key_def record_row_def by metis
    qed
  qed
  assume "taken view enc p w r"
  then obtain q where q: "stored_at enc w q r" and
    c: "view (qm_record_ts (w_db w)) (k_record_ts (wr_timestamp_ns r) q) \<noteq> None
      \<or> (\<exists>x \<in> set (pl_pending p). ir_rec x = r \<and> ir_idx x = q)" unfolding taken_def by blast
  have "view (qm_record_ts (w_db w)) \<subseteq>\<^sub>m view (qm_record_ts (w_db w'))"
    unfolding rows by (rule add_records_le)
  then have "view (qm_record_ts (w_db w')) (k_record_ts (wr_timestamp_ns r) q) \<noteq> None"
    using c batch_indexed [OF stage] map_le_present by metis
  then show "taken view enc p' w' r" using stored_at_grows [OF grows q] unfolding taken_def by blast
qed

lemma flush_run:
  assumes "enc_ok enc" "run_inv view enc C p w" "flush_batch L C now p w = ((p', w'), True)"
  shows "run_inv view enc C p' w' \<and> pl_pending p' = [] \<and> pl_hot p' = pl_hot p
    \<and> lg_files_seq (w_ledger w') = lg_files_seq (w_ledger w) \<and> data_grows w w'
    \<and> (taken view enc p w r \<longrightarrow> taken view enc p' w' r)"
proof -
  have pi: "pipe_inv enc p w" using assms(2) by (simp add: run_inv_def)
  note f = flush_ok [OF assms(1) pi assms(3)]
  from f consider "pl_pending p = []" "w' = w" | out where
    "stage_lmdb_with_meta L C (w_db w) (pl_pending p) (pl_ack_tol p) (pl_meta p) = Some (w_db w', out)"
    by blast
  then show ?thesis
  proof cases
    case 1
    then show ?thesis using f assms(2) by (auto simp: run_inv_def taken_def)
  next
    case 2
    have g: "data_grows w w'" "pipe_inv enc p' w'" "p' = p\<lparr>pl_pending := []\<rparr>"
      "lg_files_seq (w_ledger w') = lg_files_seq (w_ledger w)" using f by blast+
    show ?thesis
      using g(1,2,4) commit_anchors [OF assms(1,2) g(1) 2]
      by (intro conjI) (simp_all add: run_inv_def g(3))
  qed
qed

end

section \<open>Runs of records\<close>

text \<open>The loop of \<open>drain_events\<close> over the records of one event, as long as every call succeeds.\<close>

fun push_all ::
  "'d lmdb \<Rightarrow> wal_consts \<Rightarrow> (wal_record \<Rightarrow> bytes) \<Rightarrow> int \<Rightarrow> wal_record list \<Rightarrow> pipeline \<Rightarrow> 'd planes \<Rightarrow>
     (pipeline \<times> 'd planes) \<times> bool" where
  "push_all L C enc now [] p w = ((p, w), True)"
| "push_all L C enc now (r # rs) p w =
     (let ((p, w), ok) = push_record L C enc now r p w
      in if ok then push_all L C enc now rs p w else ((p, w), False))"

text \<open>File ids are only given out, whatever the outcome of a call.\<close>

lemma advance_all_seq: "advance_all ends g = (g', ok) \<Longrightarrow> lg_files_seq g' = lg_files_seq g"
  by (induction ends g rule: advance_all.induct)
    (auto simp: advance_watermark_def Let_def split: option.splits if_splits)

lemma flush_seq:
  assumes "flush_batch L C now p w = ((p', w'), ok)"
  shows "lg_files_seq (w_ledger w') = lg_files_seq (w_ledger w)"
proof -
  have "lg_files_seq (write_conn_archives now as (write_ext_meta now evs (insert_anomalies es g))) =
      lg_files_seq g" for as evs es g
    using same_files_best_effort [of g now as evs es] by (simp add: same_files_def)
  then show ?thesis
    using assms by (auto simp: flush_batch_def commit_batch_with_meta_def stage_sqlite_def Let_def
        dest: advance_all_seq split: if_splits option.splits prod.splits)
qed

lemma append_seq:
  "append_pending enc now r p w = ((p', w'), ok) \<Longrightarrow> lg_files_seq (w_ledger w) \<le> lg_files_seq (w_ledger w')"
  by (auto simp: append_pending_def hot_append_def Let_def dest: files_seq_ops
      split: if_splits option.splits prod.splits)

lemma push_record_seq:
  "push_record L C enc now r p w = ((p', w'), ok) \<Longrightarrow> lg_files_seq (w_ledger w) \<le> lg_files_seq (w_ledger w')"
  by (auto simp: push_record_def file_barrier_def rotate_hot_def Let_def split: if_splits prod.splits
      dest!: flush_seq append_seq files_seq_ops(2))

lemma push_all_seq:
  "push_all L C enc now rs p w = ((p', w'), ok) \<Longrightarrow> lg_files_seq (w_ledger w) \<le> lg_files_seq (w_ledger w')"
  by (induction rs arbitrary: p w)
    (fastforce dest: push_record_seq split: prod.splits if_splits intro: order_trans)+

context lmdb_store
begin

lemma push_run:
  assumes enc: "enc_ok enc" and inv: "run_inv view enc C p w" and fits: "fits (pl_hot p) r" "wal_ok r"
    and run: "push_record L C enc now r p w = ((p', w'), True)"
    and ids: "lg_files_seq (w_ledger w') < 2 ^ 32"
  shows "run_inv view enc C p' w' \<and> taken view enc p' w' r
    \<and> hw_segment_size (pl_hot p') = hw_segment_size (pl_hot p) \<and> data_grows w w'
    \<and> (\<forall>s. taken view enc p w s \<longrightarrow> taken view enc p' w' s)"
proof -
  from run obtain p1 w1 p2 w2 where
    1: "file_barrier L C now r p w = ((p1, w1), True)" and
    2: "append_pending enc now r p1 w1 = ((p2, w2), True)" and
    3: "p' = p2 \<and> w' = w2 \<or> flush_batch L C now p2 w2 = ((p', w'), True)"
    by (auto simp: push_record_def split: prod.splits if_splits)
  have ids2: "lg_files_seq (w_ledger w2) < 2 ^ 32" using 3 flush_seq ids by metis
  have ids1: "lg_files_seq (w_ledger w1) < 2 ^ 32" using append_seq [OF 2] ids2 by simp
  have pi: "pipe_inv enc p w" "index_anchored view enc C w" "\<forall>x \<in> set (pl_pending p). wal_ok (ir_rec x)" using inv by (simp_all add: run_inv_def)
  note b = barrier_ok [OF enc pi(1) fits(1) 1 ids1]
  have b1: "run_inv view enc C p1 w1 \<and> (\<forall>s. taken view enc p w s \<longrightarrow> taken view enc p1 w1 s)"
  proof (cases "pl_pending p1 = pl_pending p \<and> w_db w1 = w_db w")
    case True
    have "taken view enc p1 w1 s" if "taken view enc p w s" for s
      by (rule taken_grows [OF that]) (use b True in simp_all)
    moreover have "index_anchored view enc C w1"
      by (rule index_anchored_grows [OF pi(2)]) (use b True in simp_all)
    ultimately show ?thesis using b pi(3) True by (simp add: run_inv_def)
  next
    case False
    then show ?thesis
      using b pi(3) commit_anchors [OF enc inv] unfolding run_inv_def by (metis empty_iff empty_set)
  qed
  have fits1: "fits (pl_hot p1) r" using fits(1) b by (simp add: fits_def)
  obtain x where x: "pipe_inv enc p2 w2" "pl_pending p2 = pl_pending p1 @ [x]" "ir_rec x = r"
    "data_grows w1 w2" "w_db w2 = w_db w1" "hw_segment_size (pl_hot p2) = hw_segment_size (pl_hot p1)"
    using append_ok [OF enc _ fits1 _ 2] b by (auto simp: Let_def)
  have b2: "run_inv view enc C p2 w2" using b1 index_anchored_grows x fits(2) unfolding run_inv_def by auto
  have t2: "taken view enc p2 w2 s" if "taken view enc p w s" for s
    by (rule taken_grows [OF _ x(4,5)]) (use b1 that x(2) in auto)
  have r2: "taken view enc p2 w2 r"
    using pending_stored [OF enc x(1), of x] x(2,3) fits(2) unfolding taken_def by auto
  have grows: "data_grows w w2" using b x(4) data_grows_trans by blast
  from 3 show ?thesis
  proof
    assume "flush_batch L C now p2 w2 = ((p', w'), True)"
    from flush_run [OF enc b2 this] show ?thesis using r2 t2 b x(6) grows data_grows_trans by metis
  qed (use b2 t2 r2 b x(6) grows in simp)
qed

lemma push_all_run:
  "run_inv view enc C p w \<Longrightarrow> enc_ok enc \<Longrightarrow> \<forall>r \<in> set rs. fits (pl_hot p) r \<and> wal_ok r \<Longrightarrow>
   push_all L C enc now rs p w = ((p', w'), True) \<Longrightarrow> lg_files_seq (w_ledger w') < 2 ^ 32 \<Longrightarrow>
   run_inv view enc C p' w' \<and> (\<forall>r \<in> set rs. taken view enc p' w' r) \<and> data_grows w w'
     \<and> (\<forall>s. taken view enc p w s \<longrightarrow> taken view enc p' w' s)"
proof (induction rs arbitrary: p w)
  case (Cons r rs)
  then obtain p1 w1 where 1: "push_record L C enc now r p w = ((p1, w1), True)"
    "push_all L C enc now rs p1 w1 = ((p', w'), True)"
    by (auto split: prod.splits if_splits)
  have "lg_files_seq (w_ledger w1) \<le> lg_files_seq (w_ledger w')" using 1(2)
    by (rule push_all_seq)
  then have p: "run_inv view enc C p1 w1" "taken view enc p1 w1 r"
    "hw_segment_size (pl_hot p1) = hw_segment_size (pl_hot p)"
    "\<And>s. taken view enc p w s \<Longrightarrow> taken view enc p1 w1 s" "data_grows w w1"
    using push_run [OF Cons.prems(2,1) _ _ 1(1)] Cons.prems(3,5) by auto
  have "\<forall>r \<in> set rs. fits (pl_hot p1) r \<and> wal_ok r" using Cons.prems(3) p(3) by (simp add: fits_def)
  from Cons.IH [OF p(1) Cons.prems(2) this 1(2) Cons.prems(5)] show ?case
    using p(2,4) data_grows_trans [OF p(5)] by auto
qed (simp add: data_grows_refl)

end


section \<open>Restart\<close>

fun append_anchors ::
  "(wal_record \<Rightarrow> bytes) \<Rightarrow> int \<Rightarrow> wal_record list \<Rightarrow> hot_writer \<Rightarrow> 'z world_scheme \<Rightarrow>
     (u32 \<times> u32) list option" where
  "append_anchors enc now [] hw w = Some []"
| "append_anchors enc now (r # rs) hw w =
     (case hot_append enc now r hw w of
        ((hw, w), None) \<Rightarrow> None
      | ((hw, w), Some a) \<Rightarrow> map_option ((#) a) (append_anchors enc now rs hw w))"

lemma append_anchors_chained:
  "enc_ok enc \<Longrightarrow> hot_inv enc hw old w \<Longrightarrow> chained (hw_file_id hw) (unat (hw_offset hw)) rs b \<Longrightarrow>
   b \<le> unat (hw_segment_size hw) \<Longrightarrow>
   append_anchors enc now (map ir_rec rs) hw w = Some (map (\<lambda>x. (ir_file_id x, ir_offset x)) rs)"
proof (induction rs arbitrary: hw w old)
  case (Cons x rs)
  let ?r = "ir_rec x"
  have len: "unat (hw_offset hw) + ir_rec_len x \<le> b" "ir_file_id x = hw_file_id hw"
    "unat (ir_offset x) = unat (hw_offset hw)" using Cons.prems(3) chained_le by auto
  have fits: "fits hw ?r" using len(1) Cons.prems(4) by (simp add: fits_def ir_rec_len_def)
  note e = end_of_record [OF Cons.prems(2) fits]
  have room: "\<not> hw_segment_size hw < hw_offset hw + rec_len64 ?r"
    using e len(1) Cons.prems(4) by (simp add: word_less_nat_alt ir_rec_len_def)
  obtain hw' w' res where run: "hot_append enc now ?r hw w = ((hw', w'), res)" by (metis prod.collapse)
  obtain off where off: "res = Some (hw_file_id hw, off)"
    "hot_inv enc hw' (old @ [\<lparr>ir_dev_id = 0, ir_file_id = hw_file_id hw, ir_offset = off, ir_rec = ?r\<rparr>]) w'"
    "hw_segment_size hw' = hw_segment_size hw"
    using append_in_file [OF Cons.prems(1,2) fits room run] by blast
  from off(2) obtain c where c: "chained (hw_file_id hw') c (old @ [\<lparr>ir_dev_id = 0,
      ir_file_id = hw_file_id hw, ir_offset = off, ir_rec = ?r\<rparr>]) (unat (hw_offset hw'))"
    unfolding hot_inv_def by blast
  from off(1) run room have h: "hw_file_id hw' = hw_file_id hw" "off = ucast (hw_offset hw)"
    "hw_offset hw' = hw_offset hw + rec_len64 ?r"
    by (auto simp: hot_append_def Let_def split: option.splits prod.splits)
  have "off = ir_offset x"
    using c h(3) e len(3) by (auto simp: chained_append ir_rec_len_def word_unat_eq_iff)
  moreover have "append_anchors enc now (map ir_rec rs) hw' w' = Some (map (\<lambda>x. (ir_file_id x, ir_offset x)) rs)"
    using Cons.IH [OF Cons.prems(1) off(2)] Cons.prems(3,4) h e off(3) len
    by (simp add: ir_rec_len_def)
  ultimately show ?case using run off(1) len(2) by simp
qed simp

lemma open_file_found:
  assumes "open_row hw g row" "ledger_wf g"
  shows "open_file_for_dev (hw_dev_id hw) g = Some \<lparr>of_file_id = fr_id row, of_path = fr_path row,
    of_watermark = word_of_int (fr_analysis_offset row), of_segment_seq = fr_segment_seq row\<rparr>"
proof -
  let ?open = "filter (\<lambda>r. fr_dev_id r = hw_dev_id hw \<and> fr_state r = FileOpen) (lg_files g)"
  have row: "row \<in> set (lg_files g)" "fr_dev_id row = hw_dev_id hw" "fr_state row = FileOpen"
    using assms(1) by (auto simp: open_row_def file_at_def dest!: find_SomeD)
  have only: "r = row" if "r \<in> set ?open" for r
    using assms(1) that by (simp add: open_row_def)
  define s where "s = rev (sort_key fr_id ?open)"
  have s: "set s = set ?open" by (simp add: s_def)
  then have "row \<in> set s" using row by simp
  moreover have "\<forall>r \<in> set s. r = row" using s only by blast
  ultimately obtain rest where "s = row # rest" by (cases s) auto
  then show ?thesis by (simp add: open_file_for_dev_def s_def)
qed

end
