(* ===== verification/Batch_Props.thy ===== *)
theory Batch_Props
  imports Batch_Claims
begin

text \<open>
  The properties of the data plane and the batch pipeline, with a run on an empty vault as witness.
\<close>

section \<open>Every record is indexed where it lies\<close>

lemma pushed_indexed:
  assumes "lmdb_store L view" "enc_ok enc" "pipe_inv enc p w" "index_anchored view enc C w"
    and ok: "\<forall>r \<in> set rs. fits (pl_hot p) r \<and> wal_ok r" "\<forall>x \<in> set (pl_pending p). wal_ok (ir_rec x)"
    and push: "push_all L C enc now rs p w = ((p1, w1), True)"
    and fin: "finish L C now p1 w1 = ((p2, w2), True)"
    and ids: "lg_files_seq (w_ledger w2) < 2 ^ 32"
  shows "pl_pending p2 = [] \<and> index_anchored view enc C w2 \<and> data_grows w w2 \<and>
    (\<forall>r \<in> set rs. \<exists>q. view (qm_record_ts (w_db w2)) (k_record_ts (wr_timestamp_ns r) q) \<noteq> None
       \<and> stored_at enc w2 q r)"
proof -
  from fin obtain p3 w3 where f: "flush_batch L C now p1 w1 = ((p3, w3), True)"
    "rotate_hot now p3 w3 = ((p2, w2), True)"
    by (auto simp: finish_def split: prod.splits if_splits)
  have "lg_files_seq (w_ledger w3) \<le> lg_files_seq (w_ledger w2)"
    using f(2) files_seq_ops(2) by (auto simp: rotate_hot_def split: prod.splits)
  then have ids1: "lg_files_seq (w_ledger w1) < 2 ^ 32" using flush_seq [OF f(1)] ids by simp
  have "run_inv view enc C p w" using assms by (simp add: run_inv_def)
  from lmdb_store.push_all_run [OF assms(1) this assms(2) ok(1) push ids1]
  have 1: "run_inv view enc C p1 w1" "\<forall>r \<in> set rs. taken view enc p1 w1 r" "data_grows w w1" by blast+
  have 3: "run_inv view enc C p3 w3" "pl_pending p3 = []" "\<forall>r \<in> set rs. taken view enc p3 w3 r" "data_grows w1 w3"
    using lmdb_store.flush_run [OF assms(1) assms(2) 1(1) f(1)] 1(2) by blast+
  have 2: "pl_pending p2 = []" "data_grows w3 w2" "w_db w2 = w_db w3"
    using rotate_ok [OF _ f(2) ids 3(2)] 3(1) by (auto simp: run_inv_def)
  have "index_anchored view enc C w2"
    using index_anchored_grows [OF _ 2(2,3)] 3(1) by (simp add: run_inv_def)
  moreover have "taken view enc p2 w2 r" if "r \<in> set rs" for r
    by (rule taken_grows [OF _ 2(2,3)]) (use 3 that 2(1) in auto)
  moreover have "data_grows w w2" using 1(3) 2(2) 3(4) data_grows_trans by blast
  ultimately show ?thesis using 2(1) unfolding taken_def by (metis empty_iff empty_set)
qed

text \<open>C29: After any run of records and a \<open>finish\<close> that succeed, every record has a row in the record
  index whose packet index is the file and offset at which the bytes of the record lie, nothing is
  pending, and every row of the index, old or new, still resolves to its record.\<close>

theorem pushed_records_are_indexed:
  assumes "lmdb_store L view" "enc_ok enc" "pipe_inv enc p w" "index_anchored view enc C w"
    and ok: "\<forall>r \<in> set rs. fits (pl_hot p) r \<and> wal_ok r" "\<forall>x \<in> set (pl_pending p). wal_ok (ir_rec x)"
    and push: "push_all L C enc now rs p w = ((p1, w1), True)"
    and fin: "finish L C now p1 w1 = ((p2, w2), True)"
    and ids: "lg_files_seq (w_ledger w2) < 2 ^ 32"
  shows "pl_pending p2 = [] \<and> index_anchored view enc C w2 \<and>
    (\<forall>r \<in> set rs. \<exists>q. view (qm_record_ts (w_db w2)) (k_record_ts (wr_timestamp_ns r) q) \<noteq> None
       \<and> stored_at enc w2 q r)"
  using pushed_indexed [OF assms] by blast

text \<open>An empty vault, a record encoder and a pipeline on them.\<close>

definition sample_enc :: "wal_record \<Rightarrow> bytes" where
  "sample_enc r = replicate 64 0 @ wr_payload r"

definition empty_planes :: "(bytes \<times> bytes) list planes" where
  "empty_planes = \<lparr>w_ledger = ledger_init, w_fs = Map.empty, w_db = no_rows\<rparr>"

lemma sample_enc_ok: "enc_ok sample_enc"
  by (simp add: enc_ok_def sample_enc_def)

text \<open>The state after opening the pipeline, and after one record.\<close>

definition sample_hot :: hot_writer where
  "sample_hot = \<lparr>hw_dir = ''hot'', hw_dev_id = 1, hw_segment_seq = 0, hw_segment_size = 4096,
     hw_file = Some \<lparr>fh_path = segment_path ''hot'' 0, fh_pos = 0\<rparr>, hw_path = segment_path ''hot'' 0,
     hw_file_id = 1, hw_offset = 0\<rparr>"

definition sample_file_row :: file_row where
  "sample_file_row = \<lparr>fr_id = 1, fr_path = segment_path ''hot'' 0, fr_kind = WalFile, fr_dev_id = 1,
     fr_segment_seq = Some 0, fr_size_bytes = 0, fr_sha256 = None, fr_first_ts = None,
     fr_last_ts = None, fr_state = FileOpen, fr_analysis_offset = 0, fr_created_at = 0\<rparr>"

definition sample_planes :: "(bytes \<times> bytes) list planes" where
  "sample_planes = \<lparr>w_ledger = ledger_init\<lparr>lg_files := [sample_file_row], lg_files_seq := 1\<rparr>,
     w_fs = [segment_path ''hot'' 0 \<mapsto> []], w_db = no_rows\<rparr>"

lemma sample_new:
  "pipeline_new 0 ''hot'' 1 0 4096 10 4 empty_planes = (sample_planes, Some (pipeline_of 10 4 sample_hot))"
  by (simp add: pipeline_new_def hot_open_def ensure_open_def empty_planes_def insert_file_def
      ledger_init_def sample_planes_def sample_hot_def sample_file_row_def Let_def)

lemma sample_inv: "pipe_inv enc (pipeline_of 10 4 sample_hot) sample_planes"
proof -
  have "open_row sample_hot (w_ledger sample_planes) sample_file_row"
    by (simp add: open_row_def sample_hot_def sample_planes_def sample_file_row_def file_at_def)
  then show ?thesis
    unfolding pipe_inv_def hot_inv_def
    by (intro conjI exI [of _ sample_file_row] exI [of _ "[]"])
      (simp_all add: pipeline_of_def sample_hot_def sample_planes_def sample_file_row_def ledger_wf_def
        ledger_init_def)
qed

text \<open>One record later.\<close>

definition sample_pending :: indexed_record where
  "sample_pending = \<lparr>ir_dev_id = 1, ir_file_id = 1, ir_offset = 0, ir_rec = sample_wal\<rparr>"

definition sample_pipe1 :: pipeline where
  "sample_pipe1 = (pipeline_of 10 4 (sample_hot\<lparr>hw_file := Some \<lparr>fh_path = segment_path ''hot'' 0,
     fh_pos = length (sample_enc sample_wal)\<rparr>, hw_offset := rec_len64 sample_wal\<rparr>))\<lparr>pl_pending := [sample_pending]\<rparr>"

definition sample_planes1 :: "(bytes \<times> bytes) list planes" where
  "sample_planes1 = sample_planes\<lparr>w_fs := [segment_path ''hot'' 0 \<mapsto> sample_enc sample_wal]\<rparr>"

lemma sample_push_enc:
  assumes "length (enc sample_wal) = 69"
  shows "push_record L C enc 0 sample_wal (pipeline_of 10 4 sample_hot) sample_planes =
   ((sample_pipe1, sample_planes\<lparr>w_fs := [segment_path ''hot'' 0 \<mapsto> enc sample_wal]\<rparr>), True)"
proof -
  have "length (sample_enc sample_wal) = 69" by (simp add: sample_enc_def sample_wal_def)
  moreover have "\<not> (4096 :: u64) < rec_len64 sample_wal" "\<not> (10 :: u32) \<le> 1"
    by (simp_all add: rec_len64_def sample_wal_def word_le_nat_alt)
  ultimately show ?thesis using assms
    by (simp add: push_record_def file_barrier_def append_pending_def hot_append_def fs_write_def
        pipeline_of_def sample_hot_def sample_planes_def sample_pipe1_def sample_planes1_def
        sample_pending_def Let_def)
qed

lemma sample_push:
  "push_record L C sample_enc 0 sample_wal (pipeline_of 10 4 sample_hot) sample_planes =
   ((sample_pipe1, sample_planes1), True)"
  unfolding sample_planes1_def by (rule sample_push_enc) (simp add: sample_enc_def sample_wal_def)

lemma sample_inv1: "pipe_inv sample_enc sample_pipe1 sample_planes1"
proof -
  have "open_row (pl_hot sample_pipe1) (w_ledger sample_planes1) sample_file_row"
    by (simp add: open_row_def sample_hot_def sample_planes_def sample_planes1_def sample_pipe1_def
        pipeline_of_def sample_file_row_def file_at_def)
  then show ?thesis
    unfolding pipe_inv_def hot_inv_def
    by (intro conjI exI [of _ sample_file_row] exI [of _ "[]"])
      (simp_all add: pipeline_of_def sample_hot_def sample_planes_def sample_planes1_def sample_pipe1_def
        sample_file_row_def ledger_wf_def ledger_init_def sample_pending_def sample_enc_def
        rec_len64_def ir_rec_len_def sample_wal_def word_le_nat_alt)
qed

text \<open>A writer that can open its next segment.\<close>

lemma ensure_open_works:
  assumes "hw_file hw = None" "w_fs w (segment_path (hw_dir hw) (hw_segment_seq hw)) = None"
    "\<forall>r \<in> set (lg_files (w_ledger w)). fr_path r \<noteq> segment_path (hw_dir hw) (hw_segment_seq hw)"
  shows "\<exists>hw' w'. ensure_open now hw w = ((hw', w'), True) \<and>
    lg_files_seq (w_ledger w') = lg_files_seq (w_ledger w) + 1"
  using assms by (auto simp: ensure_open_def insert_file_def Let_def)

lemma segment_0_1: "segment_path d 0 \<noteq> segment_path d 1"
  by (simp add: segment_path_def pad4_def show_nat.simps digit_char_def)

lemma sample_no_next: "w_fs sample_planes1 (segment_path ''hot'' 1) = None"
  using segment_0_1 [of "''hot''"] by (simp add: sample_planes1_def)

lemma sample_finish:
  assumes "lmdb_total L view" "qm_inv view (w_db w)"
    and "w_ledger w = w_ledger sample_planes1" "w_fs w (segment_path ''hot'' 1) = None"
  shows "\<exists>p2 w2. finish L C 0 sample_pipe1 w = ((p2, w2), True) \<and> lg_files_seq (w_ledger w2) = 2"
proof -
  let ?x = sample_pending
  have meta: "pl_meta sample_pipe1 = None" "pl_pending sample_pipe1 = [?x]"
    by (simp_all add: sample_pipe1_def pipeline_of_def)
  obtain db es evs as where st: "stage_lmdb_with_meta L C (w_db w) [?x] (pl_ack_tol sample_pipe1) None =
      Some (db, es, evs, as)"
    using lmdb_total.stage_total [OF assms(1,2)] by (metis prod_cases3)
  let ?g = "(w_ledger w)\<lparr>lg_files := [sample_file_row\<lparr>fr_analysis_offset := 69\<rparr>]\<rparr>"
  have ends: "batch_ends [?x] = [(1, 69)]"
    by (simp add: batch_ends_def sample_pending_def ir_rec_len_def sample_wal_def word_less_nat_alt)
  have "sint (69 :: u64) = 69" by simp
  then have sq: "stage_sqlite [?x] (w_ledger w) = (?g, True)"
    by (simp add: stage_sqlite_def ends advance_watermark_def assms(3) sample_planes1_def
        sample_planes_def sample_file_row_def update_where_def Let_def)
  let ?g' = "write_conn_archives 0 as (write_ext_meta 0 evs (insert_anomalies es ?g))"
  have files: "lg_files ?g' = lg_files ?g" "lg_files_seq ?g' = 1"
    using same_files_best_effort [of ?g 0 as evs es] assms(3)
    by (simp_all add: same_files_def sample_planes1_def sample_planes_def)
  let ?p = "sample_pipe1\<lparr>pl_pending := []\<rparr>" and ?w = "w\<lparr>w_db := db, w_ledger := ?g'\<rparr>"
  have fl: "flush_batch L C 0 sample_pipe1 w = ((?p, ?w), True)"
    using st sq meta by (simp add: flush_batch_def commit_batch_with_meta_def Let_def)
  let ?w1 = "?w\<lparr>w_ledger := set_file_state 1 FileSealed ?g'\<rparr>"
  let ?hw = "(pl_hot sample_pipe1)\<lparr>hw_file := None, hw_segment_seq := 1\<rparr>"
  have hw: "hw_dir ?hw = ''hot''" "hw_segment_seq ?hw = 1" "hw_file ?hw = None"
    by (simp_all add: sample_pipe1_def pipeline_of_def sample_hot_def)
  have "\<forall>r \<in> set (lg_files (w_ledger ?w1)). fr_path r = segment_path ''hot'' 0"
    using files(1) by (simp add: set_file_state_def update_where_def sample_file_row_def)
  moreover have "w_fs ?w1 (segment_path ''hot'' 1) = None"
    using assms(4) by simp
  ultimately have "\<exists>hw' w'. ensure_open 0 ?hw ?w1 = ((hw', w'), True) \<and>
      lg_files_seq (w_ledger w') = lg_files_seq (w_ledger ?w1) + 1"
    using hw segment_0_1 by (intro ensure_open_works) auto
  then obtain hw' w' where r: "ensure_open 0 ?hw ?w1 = ((hw', w'), True)"
    "lg_files_seq (w_ledger w') = 2" using files(2) by (auto simp: set_file_state_def)
  have "hot_rotate 0 (pl_hot sample_pipe1) ?w = ((hw', w'), True)"
    using r(1) by (simp add: hot_rotate_def sample_pipe1_def pipeline_of_def sample_hot_def Let_def)
  then have "finish L C 0 sample_pipe1 w = ((?p\<lparr>pl_hot := hw'\<rparr>, w'), True)"
    using fl by (simp add: finish_def rotate_hot_def)
  then show ?thesis using r(2) by blast
qed

lemma sample_anchored: "index_anchored map_of sample_enc C sample_planes"
  by (simp add: index_anchored_def sample_planes_def no_rows_def)

theorem pushed_records_are_indexed_witness:
  "\<exists>p2 w2 q. finish ref_lmdb sample_consts 0 sample_pipe1 sample_planes1 = ((p2, w2), True) \<and>
     map_of (qm_record_ts (w_db w2)) (k_record_ts 1000 q) \<noteq> None \<and> stored_at sample_enc w2 q sample_wal"
proof -
  have "qm_inv map_of (w_db sample_planes1)"
    using no_rows_inv by (simp add: sample_planes1_def sample_planes_def)
  then obtain p2 w2 where f: "finish ref_lmdb sample_consts 0 sample_pipe1 sample_planes1 = ((p2, w2), True)"
    "lg_files_seq (w_ledger w2) = 2"
    using sample_finish [OF ref.lmdb_total_axioms _ refl sample_no_next] by blast
  have "push_all ref_lmdb sample_consts sample_enc 0 [sample_wal] (pipeline_of 10 4 sample_hot) sample_planes =
      ((sample_pipe1, sample_planes1), True)" by (simp add: sample_push)
  moreover have "\<forall>r \<in> set [sample_wal]. fits (pl_hot (pipeline_of 10 4 sample_hot)) r \<and> wal_ok r"
    "\<forall>x \<in> set (pl_pending (pipeline_of 10 4 sample_hot)). wal_ok (ir_rec x)"
    by (simp_all add: fits_def pipeline_of_def sample_hot_def sample_wal_def wal_ok_def)
  moreover have "lg_files_seq (w_ledger w2) < 2 ^ 32" using f(2) by simp
  ultimately obtain q where "map_of (qm_record_ts (w_db w2)) (k_record_ts (wr_timestamp_ns sample_wal) q) \<noteq> None"
    "stored_at sample_enc w2 q sample_wal"
    using pushed_records_are_indexed [OF ref.lmdb_store_axioms sample_enc_ok sample_inv sample_anchored _ _ _ f(1)]
    by (meson list.set_intros(1))
  moreover have "wr_timestamp_ns sample_wal = 1000" by (simp add: sample_wal_def)
  ultimately show ?thesis using f(1) by (intro exI conjI) simp_all
qed

section \<open>Restart\<close>

text \<open>What \<open>hot_open_or_recover\<close> makes of the open file of a pipeline.\<close>

lemma reopened_hot:
  assumes inv: "pipe_inv enc p w" and ledger: "w_ledger wc = w_ledger w"
    and mark: "watermark (uint (hw_file_id (pl_hot p))) (w_ledger w) = Some wm"
    and files: "w_fs w (hw_path (pl_hot p)) = Some b0" "w_fs wc (hw_path (pl_hot p)) = Some b"
      "take (unat wm) b = take (unat wm) b0" "unat wm \<le> length b"
    and seg: "hw_segment_size (pl_hot p) \<le> seg_size" "unat seg_size < 2 ^ 32"
  obtains h where "hot_open_or_recover now dir (hw_dev_id (pl_hot p)) seq seg_size wc =
      ((h, wc\<lparr>w_fs := (w_fs wc)(hw_path (pl_hot p) \<mapsto> take (unat wm) b0)\<rparr>), True)"
    and "hot_inv enc h [] (wc\<lparr>w_fs := (w_fs wc)(hw_path (pl_hot p) \<mapsto> take (unat wm) b0)\<rparr>)"
    and "hw_offset h = wm" "hw_file_id h = hw_file_id (pl_hot p)" "hw_segment_seq h = hw_segment_seq (pl_hot p)"
    and "hw_segment_size h = seg_size"
    and "chained (hw_file_id h) (unat wm) (pl_pending p) (unat (hw_offset (pl_hot p)))"
    and "unat (hw_offset (pl_hot p)) \<le> unat seg_size"
proof -
  let ?hw = "pl_hot p"
  obtain row committed where row: "open_row ?hw (w_ledger w) row" "hw_path ?hw = fr_path row"
    and old: "w_fs w (fr_path row) = Some (committed @ batch_bytes enc (pl_pending p))"
      "int (length committed) = fr_analysis_offset row"
      "chained (hw_file_id ?hw) (length committed) (pl_pending p) (unat (hw_offset ?hw))"
    using inv unfolding pipe_inv_def hot_inv_def by blast
  have wf: "ledger_wf (w_ledger w)" "lg_files_seq (w_ledger w) < 2 ^ 32" "hw_offset ?hw \<le> hw_segment_size ?hw"
    using inv unfolding pipe_inv_def hot_inv_def by blast+
  have le: "length committed \<le> unat (hw_offset ?hw)" by (rule chained_le [OF old(3)])
  have off: "unat (hw_offset ?hw) \<le> unat seg_size" using wf(3) seg(1) by (simp add: word_le_nat_alt)
  have wm: "wm = word_of_int (fr_analysis_offset row)"
    using mark row(1) by (simp add: watermark_def open_row_def)
  have "wm = of_nat (length committed)" using wm old(2) by (metis of_int_of_nat_eq)
  then have n: "unat wm = length committed"
    using le off seg(2) by (simp add: unat_of_nat_u64)
  have b: "take (unat wm) b0 = committed" "take (unat wm) b = committed"
    using files old(1) row(2) n by auto
  have id: "fr_id row = uint (hw_file_id ?hw)"
    using row(1) by (auto simp: open_row_def file_at_def dest!: find_SomeD)
  have seq: "fr_segment_seq row = Some (uint (hw_segment_seq ?hw))" using row(1) by (simp add: open_row_def)
  let ?h = "\<lparr>hw_dir = dir, hw_dev_id = hw_dev_id ?hw, hw_segment_seq = hw_segment_seq ?hw,
      hw_segment_size = seg_size, hw_file = Some \<lparr>fh_path = fr_path row, fh_pos = unat wm\<rparr>,
      hw_path = fr_path row, hw_file_id = hw_file_id ?hw, hw_offset = wm\<rparr>"
  let ?w = "wc\<lparr>w_fs := (w_fs wc)(hw_path ?hw \<mapsto> take (unat wm) b0)\<rparr>"
  have "fs_set_len (unat wm) (fr_path row) (w_fs wc) = (w_fs wc)(hw_path ?hw \<mapsto> take (unat wm) b0)"
    using files row(2) b by (simp add: fs_set_len_def)
  then have run: "hot_open_or_recover now dir (hw_dev_id ?hw) seq seg_size wc = ((?h, ?w), True)"
    using open_file_found [OF row(1) wf(1)] files(2) row(2) ledger id seq wm
    by (simp add: hot_open_or_recover_def)
  have "open_row ?h (w_ledger ?w) row" using row(1) ledger by (simp add: open_row_def)
  moreover have "wm \<le> seg_size" using n le off by (simp add: word_le_nat_alt)
  ultimately have hi: "hot_inv enc ?h [] ?w"
    using wf(1,2) seg(2) ledger row(2) b(1) old(2) n unfolding hot_inv_def
    by (intro conjI exI [of _ row] exI [of _ committed]) simp_all
  show thesis by (rule that [of ?h]) (use run hi off old(3) n in simp_all)
qed

text \<open>C30: After a crash at any moment, with any torn or zero-filled tail behind the watermark of the
  open file, \<open>open_or_recover\<close> reopens the same file and segment, cuts it to exactly the committed
  bytes, touches no other file and no table, and keeps the pipeline invariant.  Records that were
  pending get the same anchors when they are appended again, so that their replay hits the index
  rows that the crashed run may already have written.\<close>

theorem restart_resumes:
  assumes enc: "enc_ok enc" and inv: "pipe_inv enc p w"
    and ledger: "w_ledger wc = w_ledger w"
    and mark: "watermark (uint (hw_file_id (pl_hot p))) (w_ledger w) = Some wm"
    and files: "w_fs w (hw_path (pl_hot p)) = Some b0" "w_fs wc (hw_path (pl_hot p)) = Some b"
      "take (unat wm) b = take (unat wm) b0" "unat wm \<le> length b"
    and seg: "hw_segment_size (pl_hot p) \<le> seg_size" "unat seg_size < 2 ^ 32"
  shows "\<exists>p'. let w' = wc\<lparr>w_fs := (w_fs wc)(hw_path (pl_hot p) \<mapsto> take (unat wm) b0)\<rparr> in
    pipeline_open_or_recover now dir (hw_dev_id (pl_hot p)) seq seg_size bs tol wc = (w', Some p')
    \<and> pipe_inv enc p' w' \<and> pl_pending p' = [] \<and> hw_offset (pl_hot p') = wm
    \<and> hw_file_id (pl_hot p') = hw_file_id (pl_hot p)
    \<and> hw_segment_seq (pl_hot p') = hw_segment_seq (pl_hot p)
    \<and> append_anchors enc now (map ir_rec (pl_pending p)) (pl_hot p') w' =
        Some (map (\<lambda>x. (ir_file_id x, ir_offset x)) (pl_pending p))"
proof -
  let ?w = "wc\<lparr>w_fs := (w_fs wc)(hw_path (pl_hot p) \<mapsto> take (unat wm) b0)\<rparr>"
  obtain h where run: "hot_open_or_recover now dir (hw_dev_id (pl_hot p)) seq seg_size wc = ((h, ?w), True)"
    and hi: "hot_inv enc h [] ?w"
    and h: "hw_offset h = wm" "hw_file_id h = hw_file_id (pl_hot p)" "hw_segment_seq h = hw_segment_seq (pl_hot p)"
      "hw_segment_size h = seg_size"
    and old: "chained (hw_file_id h) (unat wm) (pl_pending p) (unat (hw_offset (pl_hot p)))"
      "unat (hw_offset (pl_hot p)) \<le> unat seg_size"
    by (rule reopened_hot [OF inv ledger mark files seg])
  have "append_anchors enc now (map ir_rec (pl_pending p)) h ?w =
      Some (map (\<lambda>x. (ir_file_id x, ir_offset x)) (pl_pending p))"
    by (rule append_anchors_chained [OF enc hi, of _ "unat (hw_offset (pl_hot p))"]) (use old h in simp_all)
  then show ?thesis
    using run hi h by (intro exI [of _ "pipeline_of bs tol h"])
      (simp add: Let_def pipe_inv_def pipeline_of_def pipeline_open_or_recover_def)
qed

text \<open>A crash that left half a header behind the committed bytes.\<close>

theorem restart_resumes_witness:
  "\<exists>p' w'. pipeline_open_or_recover 0 ''hot'' 1 0 4096 10 4
      (sample_planes1\<lparr>w_fs := [segment_path ''hot'' 0 \<mapsto> replicate 30 7]\<rparr>) = (w', Some p')
     \<and> w_fs w' (segment_path ''hot'' 0) = Some [] \<and> pl_pending p' = []
     \<and> append_anchors sample_enc 0 [sample_wal] (pl_hot p') w' = Some [(1, 0)]"
proof -
  let ?wc = "sample_planes1\<lparr>w_fs := [segment_path ''hot'' 0 \<mapsto> replicate 30 7]\<rparr>"
  have "watermark (uint (hw_file_id (pl_hot sample_pipe1))) (w_ledger sample_planes1) = Some 0"
    by (simp add: watermark_def file_at_def sample_pipe1_def pipeline_of_def sample_hot_def
        sample_planes1_def sample_planes_def sample_file_row_def)
  from restart_resumes [OF sample_enc_ok sample_inv1, of ?wc, OF _ this, of "sample_enc sample_wal"
      "replicate 30 7" 4096 0 "''hot''" 0 10 4]
  show ?thesis
    by (auto simp: Let_def sample_pipe1_def pipeline_of_def sample_hot_def sample_planes1_def
        sample_pending_def)
qed

section \<open>Where records are lost\<close>

text \<open>C31: A failed commit drops its batch.  \<open>flush\<close> empties \<open>pending\<close> before it commits; when the
  index stage fails, the records stay in the file behind the watermark without an index row, and the
  next commit that succeeds moves the watermark past them, so that no restart will bring them back.\<close>

theorem failed_flush_loses_batch:
  assumes enc: "enc_ok enc" and inv: "pipe_inv enc p w" and ne: "pl_pending p \<noteq> []"
    and fail: "stage_lmdb_with_meta L C (w_db w) (pl_pending p) (pl_ack_tol p) (pl_meta p) = None"
    and fits: "fits (pl_hot p) r"
    and room: "\<not> hw_segment_size (pl_hot p) < hw_offset (pl_hot p) + rec_len64 r"
    and next_push: "append_pending enc now r (p\<lparr>pl_pending := []\<rparr>) w = ((p2, w2), ok2)"
    and next_flush: "stage_lmdb_with_meta L C (w_db w) (pl_pending p2) (pl_ack_tol p) (pl_meta p) =
      Some (db, out)"
  shows "flush_batch L C now p w = ((p\<lparr>pl_pending := []\<rparr>, w), False)
    \<and> ok2 \<and> map ir_rec (pl_pending p2) = [r]
    \<and> (\<exists>p3 w3. flush_batch L C now p2 w2 = ((p3, w3), True) \<and> w_db w3 = db
         \<and> watermark (uint (hw_file_id (pl_hot p))) (w_ledger w3) = Some (hw_offset (pl_hot p3))
         \<and> hw_offset (pl_hot p) < hw_offset (pl_hot p3))"
proof -
  let ?hw = "pl_hot p" and ?p = "p\<lparr>pl_pending := []\<rparr>"
  have i: "hot_inv enc ?hw (pl_pending p) w" using inv by (simp add: pipe_inv_def)
  obtain hw2 w1 res where h: "hot_append enc now r ?hw w = ((hw2, w1), res)" by (metis prod.collapse)
  obtain off where off: "res = Some (hw_file_id ?hw, off)"
    "hot_inv enc hw2 (pl_pending p @ [\<lparr>ir_dev_id = word_of_int (hw_dev_id ?hw),
       ir_file_id = hw_file_id ?hw, ir_offset = off, ir_rec = r\<rparr>]) w1" "hw_dev_id hw2 = hw_dev_id ?hw"
    "\<exists>path b. w_fs w path = Some b \<and> w1 = w\<lparr>w_fs := (w_fs w)(path \<mapsto> b @ enc r)\<rparr>"
    using append_in_file [OF enc i fits room h] by blast
  let ?x = "\<lparr>ir_dev_id = word_of_int (hw_dev_id ?hw), ir_file_id = hw_file_id ?hw, ir_offset = off,
      ir_rec = r\<rparr>"
  have p2: "p2 = ?p\<lparr>pl_hot := hw2, pl_pending := [?x]\<rparr>" "w2 = w1" "ok2"
    using next_push h off(1,3) by (simp_all add: append_pending_def)
  have same: "hw_file_id hw2 = hw_file_id ?hw" "hw_offset hw2 = hw_offset ?hw + rec_len64 r"
    using h room off(1) by (auto simp: hot_append_def Let_def split: option.splits prod.splits)
  obtain g where g: "stage_sqlite [?x] (w_ledger w1) = (g, True)"
    "hot_inv enc hw2 [] (w1\<lparr>w_ledger := g\<rparr>)"
    using stage_sqlite_inv [OF enc off(2)] by blast
  obtain es evs as where out: "out = (es, evs, as)" by (cases out) auto
  let ?g = "write_conn_archives now as (write_ext_meta now evs (insert_anomalies es g))"
  have db: "w_db w1 = w_db w" using off(4) by auto
  have fl: "flush_batch L C now p2 w2 = ((p2\<lparr>pl_pending := []\<rparr>, w1\<lparr>w_db := db, w_ledger := ?g\<rparr>), True)"
    using next_flush g(1) p2(1,2) db out by (simp add: flush_batch_def commit_batch_with_meta_def Let_def)
  have "watermark (uint (hw_file_id hw2)) g = Some (hw_offset hw2)"
    using hot_inv_watermark [OF g(2)] by simp
  then have "watermark (uint (hw_file_id ?hw)) ?g = Some (hw_offset hw2)"
    using same_files_best_effort [of g now as evs es] same(1)
    by (simp add: same_files_def watermark_def file_at_def)
  moreover have "hw_offset ?hw < hw_offset hw2"
    using end_of_record [OF i fits] same(2) by (simp add: word_less_nat_alt)
  moreover have "flush_batch L C now p w = ((?p, w), False)"
    using ne fail by (simp add: flush_batch_def commit_batch_with_meta_def Let_def)
  ultimately show ?thesis using fl p2 by simp
qed

text \<open>One full map: the record index of the first batch cannot be written.\<close>

definition full_lmdb :: "(bytes \<times> bytes) list lmdb" where
  "full_lmdb = ref_lmdb\<lparr>lm_put_new := \<lambda>d k v. if k = k_record_ts 1000 (ir_idx sample_pending)
     then MdbError else lm_put_new ref_lmdb d k v\<rparr>"

definition sample_udp :: wal_record where
  "sample_udp = sample_wal\<lparr>wr_proto := 17, wr_timestamp_ns := 2000\<rparr>"

definition sample_udp_pending :: indexed_record where
  "sample_udp_pending = \<lparr>ir_dev_id = 1, ir_file_id = 1, ir_offset = 69, ir_rec = sample_udp\<rparr>"

lemma full_fails:
  "stage_lmdb_with_meta full_lmdb sample_consts no_rows [sample_pending] 4 None = None"
  by (simp add: stage_lmdb_with_meta_def ingest_def index_record_def put_no_overwrite_def full_lmdb_def
      sample_pending_def sample_wal_def)

lemma full_udp:
  "\<exists>db out. stage_lmdb_with_meta full_lmdb sample_consts no_rows [sample_udp_pending] 4 None = Some (db, out)
     \<and> map_of (qm_record_ts db) (k_record_ts 1000 (ir_idx sample_pending)) = None"
proof -
  have "k_record_ts 2000 q \<noteq> k_record_ts 1000 q'" "k_record_ts 1000 q' \<noteq> k_record_ts 2000 q" for q q'
    by (simp_all add: k_record_ts_def)
  then show ?thesis
    by (simp add: stage_lmdb_with_meta_def ingest_def index_record_def put_no_overwrite_def full_lmdb_def
        sample_udp_pending_def sample_udp_def sample_wal_def no_rows_def begin_with_meta_def
        dual_db.extend_def qr_matcher.fields_def qr_commit_def writeback_conns_def ref_lmdb_def
        commit_epoch_def commit_live_def)
qed

theorem failed_flush_loses_batch_witness:
  "\<exists>(p3 :: pipeline) (w3 :: (bytes \<times> bytes) list planes) db. fst (flush_batch full_lmdb sample_consts 0 sample_pipe1 sample_planes1) =
       (sample_pipe1\<lparr>pl_pending := []\<rparr>, sample_planes1)
     \<and> watermark 1 (w_ledger w3) = Some (hw_offset (pl_hot p3)) \<and> 69 < hw_offset (pl_hot p3)
     \<and> w_db w3 = db \<and> map_of (qm_record_ts db) (k_record_ts 1000 (ir_idx sample_pending)) = None"
proof -
  let ?p = "sample_pipe1\<lparr>pl_pending := []\<rparr>"
  have fields: "pl_ack_tol sample_pipe1 = 4" "pl_meta sample_pipe1 = None"
    "pl_pending sample_pipe1 = [sample_pending]" "w_db sample_planes1 = no_rows"
    "hw_file_id (pl_hot sample_pipe1) = 1" "hw_offset (pl_hot sample_pipe1) = 69"
    by (simp_all add: sample_pipe1_def pipeline_of_def sample_planes1_def sample_planes_def sample_hot_def
        rec_len64_def sample_wal_def)
  obtain p2 w2 ok where a: "append_pending sample_enc 0 sample_udp ?p sample_planes1 = ((p2, w2), ok)"
    by (metis prod.collapse)
  have "\<not> (4096 :: u64) < 69 + rec_len64 sample_udp"
    by (simp add: rec_len64_def sample_udp_def sample_wal_def)
  then have room: "\<not> hw_segment_size (pl_hot sample_pipe1) < hw_offset (pl_hot sample_pipe1) + rec_len64 sample_udp"
    using fields(6) by (simp add: sample_pipe1_def pipeline_of_def sample_hot_def)
  have p2: "pl_pending p2 = [sample_udp_pending]"
    using a room fields(6) by (auto simp: append_pending_def hot_append_def sample_pipe1_def pipeline_of_def
        sample_hot_def fs_write_def Let_def sample_udp_pending_def)
  obtain db out where db: "stage_lmdb_with_meta full_lmdb sample_consts no_rows
      [sample_udp_pending] 4 None = Some (db, out)"
    "map_of (qm_record_ts db) (k_record_ts 1000 (ir_idx sample_pending)) = None" using full_udp by blast
  have fits: "fits (pl_hot sample_pipe1) sample_udp"
    by (simp add: fits_def sample_pipe1_def pipeline_of_def sample_hot_def sample_udp_def sample_wal_def)
  have ne: "pl_pending sample_pipe1 \<noteq> []" and fail: "stage_lmdb_with_meta full_lmdb sample_consts
      (w_db sample_planes1) (pl_pending sample_pipe1) (pl_ack_tol sample_pipe1) (pl_meta sample_pipe1) = None"
    and nf: "stage_lmdb_with_meta full_lmdb sample_consts (w_db sample_planes1) (pl_pending p2)
      (pl_ack_tol sample_pipe1) (pl_meta sample_pipe1) = Some (db, out)"
    using full_fails fields p2 db(1) by simp_all
  note lost = failed_flush_loses_batch [OF sample_enc_ok sample_inv1 ne fail fits room a nf]
  from lost obtain p3 :: pipeline and w3 :: "(bytes \<times> bytes) list planes" where "w_db w3 = db"
    "watermark (uint (hw_file_id (pl_hot sample_pipe1))) (w_ledger w3) = Some (hw_offset (pl_hot p3))"
    "hw_offset (pl_hot sample_pipe1) < hw_offset (pl_hot p3)" by blast
  moreover have "flush_batch full_lmdb sample_consts 0 sample_pipe1 sample_planes1 = ((?p, sample_planes1), False)"
    using lost by blast
  ultimately show ?thesis
    using db(2) fields(5,6) by (intro exI [of _ p3] exI [of _ w3] exI [of _ db]) simp
qed

text \<open>C32: A crash between sealing a file and opening the next one is fatal for the device.  The
  ledger has no open file for it, so \<open>open_or_recover\<close> starts again at the given segment number, which
  the caller always gives as 0; that file exists, and the pipeline cannot be created.\<close>

theorem crash_while_sealing_is_fatal:
  assumes inv: "pipe_inv enc p w" and first: "w_fs w (segment_path dir seq) \<noteq> None"
    and crash: "wc = w\<lparr>w_ledger := set_file_state (uint (hw_file_id (pl_hot p))) FileSealed (w_ledger w)\<rparr>"
  shows "pipeline_open_or_recover now dir (hw_dev_id (pl_hot p)) seq seg_size bs tol wc = (wc, None)"
proof -
  obtain row where row: "open_row (pl_hot p) (w_ledger w) row" and wf: "ledger_wf (w_ledger w)"
    using inv unfolding pipe_inv_def hot_inv_def by blast
  have "filter (\<lambda>r. fr_dev_id r = hw_dev_id (pl_hot p) \<and> fr_state r = FileOpen) (lg_files (w_ledger wc)) = []"
    using sealed_none_open [OF row wf] by (simp add: crash filter_empty_conv)
  then have "open_file_for_dev (hw_dev_id (pl_hot p)) (w_ledger wc) = None"
    by (simp add: open_file_for_dev_def)
  then show ?thesis
    using first by (simp add: pipeline_open_or_recover_def hot_open_or_recover_def hot_open_def
        ensure_open_def crash Let_def)
qed

theorem crash_while_sealing_is_fatal_witness:
  "pipeline_open_or_recover 0 ''hot'' 1 0 4096 10 4
     (sample_planes1\<lparr>w_ledger := set_file_state 1 FileSealed (w_ledger sample_planes1)\<rparr>) =
   (sample_planes1\<lparr>w_ledger := set_file_state 1 FileSealed (w_ledger sample_planes1)\<rparr>, None)"
proof -
  have "w_fs sample_planes1 (segment_path ''hot'' 0) \<noteq> None" by (simp add: sample_planes1_def)
  from crash_while_sealing_is_fatal [where now = 0 and seg_size = 4096 and bs = 10 and tol = 4,
      OF sample_inv1 this refl] show ?thesis
    by (simp add: sample_pipe1_def pipeline_of_def sample_hot_def)
qed

end
