(* ===== verification/Ingest_Flow.thy ===== *)
theory Ingest_Flow
  imports Ingest Reassembly_Complete Transport_Props Batch_Props
begin

text \<open>
  From chunks to records: the chunk frames of a segment, in any order, end with the pipeline of
  the device as it is after pushing the records of the segment one by one.
\<close>

section \<open>Downstream of the reassembly\<close>

text \<open>What the events of a segment work on: the rest of the decoder, the pipeline (opened when
  there is none yet) and the planes.\<close>

definition downstream :: "clock \<Rightarrow> segment_key \<Rightarrow> 'd live_ingest \<Rightarrow> (bytes \<times> pipeline \<times> 'd planes) option" where
  "downstream now k s =
     (case pipeline_for now (fst k) s of
        (s', None) \<Rightarrow> None
      | (s', Some p) \<Rightarrow> Some (case map_of (li_decoders s) k of None \<Rightarrow> [] | Some r \<Rightarrow> r, p, li_planes s'))"

definition same_downstream :: "'d live_ingest \<Rightarrow> 'd live_ingest \<Rightarrow> bool" where
  "same_downstream s s' \<longleftrightarrow> li_reg s' = li_reg s \<and> li_world s' = li_world s \<and> li_pipelines s' = li_pipelines s \<and>
     li_hot_root s' = li_hot_root s \<and> li_batch_size s' = li_batch_size s \<and> li_ack_tol s' = li_ack_tol s \<and> li_meta s' = li_meta s"

lemma pipeline_for_same:
  assumes "same_downstream s s'"
  shows "snd (pipeline_for now dev s') = snd (pipeline_for now dev s) \<and>
    li_planes (fst (pipeline_for now dev s')) = li_planes (fst (pipeline_for now dev s)) \<and>
    li_pipelines (fst (pipeline_for now dev s')) = li_pipelines (fst (pipeline_for now dev s))"
  using assms by (auto simp: same_downstream_def pipeline_for_def li_planes_def put_planes_def Let_def
      split: option.splits prod.splits)

lemma downstream_same:
  "same_downstream s s' \<Longrightarrow> map_of (li_decoders s') k = map_of (li_decoders s) k \<Longrightarrow> downstream now k s' = downstream now k s"
  using pipeline_for_same [of s s' now "fst k"]
  by (cases "pipeline_for now (fst k) s"; cases "pipeline_for now (fst k) s'")
    (auto simp: downstream_def split: option.splits)

lemma pipeline_for_known: "map_of (li_pipelines s) (uint dev) = Some p \<Longrightarrow> pipeline_for now dev s = (s, Some p)"
  by (simp add: pipeline_for_def)

text \<open>The effect of an append.\<close>

definition flow_chunk ::
  "'d ingest_env \<Rightarrow> int \<Rightarrow> bytes \<Rightarrow> bytes \<times> pipeline \<times> 'd planes \<Rightarrow> (bytes \<times> pipeline \<times> 'd planes) option" where
  "flow_chunk env secs c x =
     (case x of (residual, p, w) \<Rightarrow>
        let (recs, residual) = decoder_feed (ie_decode_stream env) c residual
        in map_option (Pair residual) (push_records env secs recs (p, w)))"

lemma on_append_flow:
  assumes "downstream now (dev, seg) s = Some x"
  shows "case flow_chunk env (ck_secs now) c x of
      None \<Rightarrow> on_append env now dev seg c s = None
    | Some x' \<Rightarrow> \<exists>s'. on_append env now dev seg c s = Some s' \<and> downstream now (dev, seg) s' = Some x' \<and>
        map_of (li_pipelines s') (uint dev) \<noteq> None \<and> li_reassembler s' = li_reassembler s \<and> li_key s' = li_key s"
proof -
  obtain residual p w where x: "x = (residual, p, w)" by (cases x)
  obtain recs residual' where d: "decoder_feed (ie_decode_stream env) c residual = (recs, residual')" by force
  let ?s = "s\<lparr>li_decoders := AList.update (dev, seg) residual' (li_decoders s)\<rparr>"
  let ?s1 = "?s\<lparr>li_total_records := li_total_records ?s + of_nat (length recs)\<rparr>"
  have r: "residual = (case map_of (li_decoders s) (dev, seg) of None \<Rightarrow> [] | Some r \<Rightarrow> r)"
    using assms by (auto simp: downstream_def x split: prod.splits option.splits)
  have f: "feed_decoder env (dev, seg) c s = (recs, ?s)"
    using d by (simp add: feed_decoder_def r [symmetric])
  obtain s2 where p: "pipeline_for now dev ?s1 = (s2, Some p)" "li_planes s2 = w"
    using pipeline_for_same [of s ?s1 now dev] assms
    by (cases "pipeline_for now dev s"; cases "pipeline_for now dev ?s1")
      (auto simp: downstream_def x same_downstream_def split: option.splits)
  have dec: "li_decoders s2 = li_decoders ?s1" "li_reassembler s2 = li_reassembler s" "li_key s2 = li_key s"
    using p(1) by (auto simp: pipeline_for_def put_planes_def Let_def split: option.splits prod.splits)
  have a: "on_append env now dev seg c s = (case push_records env (ck_secs now) recs (p, w) of
      None \<Rightarrow> None | Some (p, w) \<Rightarrow> Some (put_planes w (s2\<lparr>li_pipelines := AList.update (uint dev) p (li_pipelines s2)\<rparr>)))"
    using p by (auto simp: on_append_def f split: option.splits)
  show ?thesis
  proof (cases "push_records env (ck_secs now) recs (p, w)")
    case None
    then show ?thesis using a d by (simp add: flow_chunk_def x)
  next
    case (Some pw)
    then obtain p' w' where pw: "push_records env (ck_secs now) recs (p, w) = Some (p', w')" by (cases pw) auto
    let ?t = "put_planes w' (s2\<lparr>li_pipelines := AList.update (uint dev) p' (li_pipelines s2)\<rparr>)"
    have t: "map_of (li_pipelines ?t) (uint dev) = Some p'" "li_planes ?t = w'" "li_reassembler ?t = li_reassembler s"
      "li_key ?t = li_key s" "map_of (li_decoders ?t) (dev, seg) = Some residual'"
      using dec by (simp_all add: put_planes_def li_planes_def update_conv')
    then have "downstream now (dev, seg) ?t = Some (residual', p', w')"
      by (simp add: downstream_def pipeline_for_known [OF t(1)])
    then show ?thesis using a d t pw by (simp add: flow_chunk_def x)
  qed
qed

section \<open>A run of chunk frames\<close>

fun appended :: "event list \<Rightarrow> bytes list" where
  "appended [] = []"
| "appended (Append _ _ _ c # es) = c # appended es"
| "appended (_ # es) = appended es"

lemma appended_append [simp]: "appended (es @ fs) = appended es @ appended fs"
  by (induction es rule: appended.induct) simp_all

fun flow_all ::
  "'d ingest_env \<Rightarrow> int \<Rightarrow> bytes list \<Rightarrow> bytes \<times> pipeline \<times> 'd planes \<Rightarrow> (bytes \<times> pipeline \<times> 'd planes) option" where
  "flow_all env secs [] x = Some x"
| "flow_all env secs (c # cs) x = do { x \<leftarrow> flow_chunk env secs c x; flow_all env secs cs x }"

lemma flow_all_append: "flow_all env secs (cs @ ds) x = do { x \<leftarrow> flow_all env secs cs x; flow_all env secs ds x }"
  by (induction cs arbitrary: x) (auto split: Option.bind_splits)

lemma push_records_append:
  "push_records env secs (rs @ rs') pw = do { pw \<leftarrow> push_records env secs rs pw; push_records env secs rs' pw }"
  by (induction env secs rs pw rule: push_records.induct) (auto split: prod.splits)

lemma flow_all_records:
  "flow_all env secs cs (residual, pw) =
     map_option (Pair (snd (feed_all (ie_decode_stream env) cs residual)))
       (push_records env secs (fst (feed_all (ie_decode_stream env) cs residual)) pw)"
proof (induction cs arbitrary: residual pw)
  case (Cons c cs)
  obtain p w where pw: "pw = (p, w)" by (cases pw)
  show ?case
    by (auto simp: flow_chunk_def Let_def case_prod_beta push_records_append Cons.IH pw split: Option.bind_splits option.splits)
qed simp

text \<open>What a step of the ingest does when the events of its reassembly append \<open>cs\<close>.\<close>

definition flows ::
  "'d ingest_env \<Rightarrow> clock \<Rightarrow> segment_key \<Rightarrow> bytes list \<Rightarrow> 'd live_ingest \<Rightarrow> 'd live_ingest option \<Rightarrow> reassembler \<Rightarrow> bool" where
  "flows env now k cs s res r \<longleftrightarrow> (\<forall>x. downstream now k s = Some x \<longrightarrow>
     (case flow_all env (ck_secs now) cs x of
        None \<Rightarrow> res = None
      | Some x' \<Rightarrow> \<exists>s'. res = Some s' \<and> downstream now k s' = Some x' \<and> li_reassembler s' = r \<and> li_key s' = li_key s \<and>
          (cs \<noteq> [] \<or> map_of (li_pipelines s) (uint (fst k)) \<noteq> None \<longrightarrow> map_of (li_pipelines s') (uint (fst k)) \<noteq> None)))"

lemma flows_trans:
  assumes "flows env now k cs s res r" "\<And>s'. res = Some s' \<Longrightarrow> li_reassembler s' = r \<Longrightarrow> li_key s' = li_key s \<Longrightarrow> flows env now k ds s' (f s') r'"
  shows "flows env now k (cs @ ds) s (Option.bind res f) r'"
  unfolding flows_def
proof (intro allI impI)
  fix x
  assume x: "downstream now k s = Some x"
  show "case flow_all env (ck_secs now) (cs @ ds) x of
        None \<Rightarrow> Option.bind res f = None
      | Some x' \<Rightarrow> \<exists>s'. Option.bind res f = Some s' \<and> downstream now k s' = Some x' \<and> li_reassembler s' = r' \<and> li_key s' = li_key s \<and>
          (cs @ ds \<noteq> [] \<or> map_of (li_pipelines s) (uint (fst k)) \<noteq> None \<longrightarrow> map_of (li_pipelines s') (uint (fst k)) \<noteq> None)"
  proof (cases "flow_all env (ck_secs now) cs x")
    case None
    then show ?thesis using assms(1) x by (simp add: flows_def flow_all_append)
  next
    case (Some y)
    then obtain s1 where s1: "res = Some s1" "downstream now k s1 = Some y" "li_reassembler s1 = r" "li_key s1 = li_key s"
      "cs \<noteq> [] \<or> map_of (li_pipelines s) (uint (fst k)) \<noteq> None \<longrightarrow> map_of (li_pipelines s1) (uint (fst k)) \<noteq> None"
      using assms(1) x by (auto simp: flows_def)
    then show ?thesis
      using assms(2) [OF s1(1,3,4), unfolded flows_def, rule_format, OF s1(2)] Some
      by (auto simp: flow_all_append split: option.splits)
  qed
qed

lemma flows_same:
  assumes "same_downstream s s'" "li_decoders s' = li_decoders s" "li_key s' = li_key s" "flows env now k cs s' res r"
  shows "flows env now k cs s res r"
proof -
  have d: "downstream now k s' = downstream now k s" "li_pipelines s' = li_pipelines s"
    using downstream_same [OF assms(1)] assms(1,2) by (simp_all add: same_downstream_def)
  show ?thesis using assms(4) unfolding flows_def d assms(3) .
qed

lemma flows_Nil:
  assumes "same_downstream s s'" "li_decoders s' = li_decoders s" "li_key s' = li_key s"
  shows "flows env now k [] s (Some s') (li_reassembler s')"
  using assms downstream_same [OF assms(1), of k now] by (simp add: flows_def same_downstream_def)

lemma drain_flows:
  "list_all (smooth P) evs \<Longrightarrow> \<forall>k'. k' \<noteq> k \<longrightarrow> P k' = [] \<Longrightarrow>
   flows env now k (appended evs) s (drain_events env now evs s) (li_reassembler s)"
proof (induction evs arbitrary: s)
  case Nil
  then show ?case using flows_Nil [of s s] by (simp add: same_downstream_def)
next
  case (Cons e evs)
  have IH: "flows env now k (appended evs) s' (drain_events env now evs s') (li_reassembler s)"
    if "li_reassembler s' = li_reassembler s" for s'
    using Cons.IH [of s'] Cons.prems that by simp
  consider d q off c where "e = Append d q off c" "(d, q) = k" | d q where "e = Dup d q"
    using Cons.prems by (cases e) (auto, metis empty_iff empty_set)
  then show ?case
  proof cases
    case 1
    have "flows env now k [c] s (drain_event env now e s) (li_reassembler s)"
      using on_append_flow [of now d q s _ env c] 1
      by (auto simp: flows_def split: option.splits Option.bind_splits)
    then have "flows env now k ([c] @ appended evs) s (Option.bind (drain_event env now e s) (drain_events env now evs)) (li_reassembler s)"
      by (rule flows_trans) (rule IH)
    then show ?thesis using 1 by simp
  next
    case 2
    have "flows env now k [] s (drain_event env now e s) (li_reassembler s)"
      using flows_Nil [of s "upd_stats (\<lambda>t. t\<lparr>st_dups := st_dups t + 1\<rparr>) s"] 2 by (simp add: same_downstream_def upd_stats_def)
    then have "flows env now k ([] @ appended evs) s (Option.bind (drain_event env now e s) (drain_events env now evs)) (li_reassembler s)"
      by (rule flows_trans) (rule IH)
    then show ?thesis using 2 by simp
  qed
qed

text \<open>A chunk frame that carries the bytes \<open>c\<close> of the segment at \<open>off\<close>.\<close>

definition carries :: "'d ingest_env \<Rightarrow> bytes \<Rightarrow> segment_key \<Rightarrow> nat \<Rightarrow> bytes \<Rightarrow> bytes \<Rightarrow> bool" where
  "carries env key k off c payload \<longleftrightarrow>
     (case ie_decode_chunk env payload of
        None \<Rightarrow> False
      | Some f \<Rightarrow> \<not> cf_ref_only f \<and> (cf_dev_id f, cf_segment_seq f) = k \<and> cf_start_offset f = off \<and>
          decrypt_chunk_payload (ie_open_box env) key (drop (ie_chunk_header_len env) payload) (cf_chunk_len f) = Some c)"

lemma on_chunk_flows:
  assumes "carries env (li_key s) (d, q) off c payload" "place_chunk d q off c (li_reassembler s) = Some (evs, r)"
    and "list_all (smooth P) evs" "\<forall>k'. k' \<noteq> (d, q) \<longrightarrow> P k' = []"
  shows "flows env now (d, q) (appended evs) s (on_chunk env now payload s) r"
proof -
  let ?s = "(count_chunk s)\<lparr>li_reassembler := r\<rparr>"
  have "on_chunk env now payload s = drain_events env now evs ?s"
    using assms(1,2) by (auto simp: carries_def on_chunk_def place_payload_def Let_def count_chunk_def upd_stats_def
        split: option.splits)
  moreover have "same_downstream s ?s" "li_decoders ?s = li_decoders s" "li_key ?s = li_key s"
    by (simp_all add: same_downstream_def count_chunk_def upd_stats_def)
  ultimately show ?thesis
    using flows_same [of s ?s] drain_flows [OF assms(3,4), of env now ?s] by simp
qed

lemma loop_flows:
  "list_all2 (\<lambda>payload i. carries env key (d, q) (border ps i) (ps ! i) payload) payloads is \<Longrightarrow>
   P = (\<lambda>k. if k = (d, q) then ps else []) \<Longrightarrow> li_key s = key \<Longrightarrow>
   grid_state P (seen_in E) used (li_reassembler s) \<Longrightarrow> (\<forall>p \<in> set ps. p \<noteq> []) \<and> length (concat ps) < 2 ^ 64 \<Longrightarrow>
   \<forall>i \<in> set is. i < length ps \<Longrightarrow> budgets_hold (ra_budgets (li_reassembler s)) (used + sum_list (map (\<lambda>i. length (ps ! i)) is)) \<Longrightarrow>
   ra_run (map (piece_call P) (map (Pair (d, q)) is)) (li_reassembler s) = Some (evs, r) \<Longrightarrow>
   flows env now (d, q) (appended evs) s (ingest_loop env (map (\<lambda>p. (now, MsgChunk p)) payloads) s) r"
proof (induction payloads "is" arbitrary: E used s evs rule: list_all2_induct)
  case Nil
  then show ?case using flows_Nil [of s s] by (simp add: same_downstream_def)
next
  case (Cons payload payloads i "is")
  let ?n = "length (ps ! i)" and ?k = "(d, q)"
  have ps: "\<forall>p \<in> set (P ?k). p \<noteq> []" "i < length (P ?k)" "length (concat (P ?k)) < 2 ^ 64"
    "budgets_hold (ra_budgets (li_reassembler s)) (used + length (P ?k ! i))" "P ?k = ps"
    using Cons.prems by (auto simp: budgets_hold_def)
  obtain ev r1 where r1: "place_chunk d q (border ps i) (ps ! i) (li_reassembler s) = Some (ev, r1)" "list_all (smooth P) ev"
    "grid_state P ((seen_in E)(?k := insert i (seen_in E ?k))) (used + ?n) r1" "ra_budgets r1 = ra_budgets (li_reassembler s)"
    using place_on_grid [OF Cons.prems(3) ps(1,2,4,3)] ps(5) by auto
  have seen: "(seen_in E)(?k := insert i (seen_in E ?k)) = seen_in (insert (?k, i) E)"
    by (auto simp: seen_in_def fun_eq_iff)
  have other: "\<forall>k'. k' \<noteq> ?k \<longrightarrow> P k' = []" using Cons.prems(1) by simp
  obtain evs' where evs: "evs = ev @ evs'" "ra_run (map (piece_call P) (map (Pair ?k) is)) r1 = Some (evs', r)"
    using Cons.prems(7) r1(1) ps(5) by (auto elim!: bind_SomeE)
  have "flows env now ?k (appended ev) s (on_chunk env now payload s) r1"
    by (rule on_chunk_flows [OF _ r1(1,2) other]) (use Cons.hyps Cons.prems(2) in simp)
  then have "flows env now ?k (appended ev @ appended evs') s
      (Option.bind (on_chunk env now payload s) (ingest_loop env (map (\<lambda>p. (now, MsgChunk p)) payloads))) r"
  proof (rule flows_trans)
    fix s'
    assume "on_chunk env now payload s = Some s'" and s': "li_reassembler s' = r1" "li_key s' = li_key s"
    show "flows env now ?k (appended evs') s' (ingest_loop env (map (\<lambda>p. (now, MsgChunk p)) payloads) s') r"
      by (rule Cons.IH [of s' "insert (?k, i) E" "used + ?n", OF Cons.prems(1)])
        (use s' Cons.prems(2,4-6) r1(3,4) seen evs(2) in \<open>simp_all add: add.assoc\<close>)
  qed
  then show ?case by (simp add: evs(1))
qed

lemma appended_run:
  "wal_run k evs out = Some out' \<Longrightarrow> list_all (smooth P) evs \<Longrightarrow> \<forall>k'. k' \<noteq> k \<longrightarrow> P k' = [] \<Longrightarrow>
   out' = out @ concat (appended evs) \<and> set (appended evs) \<subseteq> set (P k)"
proof (induction evs arbitrary: out)
  case (Cons e evs)
  obtain out1 where o: "wal_step k e out = Some out1" "wal_run k evs out1 = Some out'"
    using Cons.prems(1) by (auto elim!: bind_SomeE)
  note IH = Cons.IH [OF o(2)]
  show ?case
  proof (cases e)
    case (Append d q off c)
    then have "c \<in> set (P (d, q))" using Cons.prems(2) by simp
    then have "(d, q) = k" using Cons.prems(3) by (metis empty_iff empty_set)
    then show ?thesis using IH o(1) Append Cons.prems \<open>c \<in> set (P (d, q))\<close> by (auto split: if_splits)
  qed (use IH o(1) Cons.prems in auto)
qed simp

lemma frames_become_records:
  fixes s :: "'d live_ingest"
  assumes stream: "wal_stream enc (ie_decode_stream env) F" "\<forall>r \<in> set rs. wal_ok r \<and> length (enc r) \<le> M" "rs \<noteq> []"
    and cut: "concat ps = concat (map enc rs)" "\<forall>p \<in> set ps. p \<noteq> [] \<and> length p + M \<le> WAL_RESIDUAL_CAP" "length (concat ps) < 2 ^ 64"
    and frames: "list_all2 (\<lambda>payload i. carries env (li_key s) (d, q) (border ps i) (ps ! i) payload) payloads is"
      "set is = {..<length ps}" "budgets_hold b (sum_list (map (\<lambda>i. length (ps ! i)) is))"
    and start: "li_reassembler s = reassembler_new b" "map_of (li_decoders s) (d, q) = None" "pipeline_for now d s = (s1, Some p)"
  shows "case push_records env (ck_secs now) rs (p, li_planes s1) of
      None \<Rightarrow> ingest_loop env (map (\<lambda>p. (now, MsgChunk p)) payloads) s = None
    | Some (p', w') \<Rightarrow> \<exists>s'. ingest_loop env (map (\<lambda>p. (now, MsgChunk p)) payloads) s = Some s' \<and>
        map_of (li_pipelines s') (uint d) = Some p' \<and> li_planes s' = w' \<and> map_of (li_decoders s') (d, q) \<in> {None, Some []} \<and>
        ra_last_seq (li_reassembler s') = [] \<and>
        (\<exists>sb. map_of (ra_segs (li_reassembler s')) (d, q) = Some sb \<and> sb_next_expected sb = length (concat ps))"
proof -
  let ?P = "\<lambda>k. if k = (d, q) then ps else []" and ?es = "map (Pair (d, q)) is"
  have pieces: "\<forall>k. (\<forall>p \<in> set (?P k). p \<noteq> []) \<and> length (concat (?P k)) < 2 ^ 64" using cut by simp
  have total: "bytes_of ?P ?es = sum_list (map (\<lambda>i. length (ps ! i)) is)" by (simp add: bytes_of_def comp_def)
  have all: "\<forall>k i. (k, i) \<in> set ?es \<longleftrightarrow> i < length (?P k)" using frames(2) by auto
  obtain evs r where run: "ra_run (map (piece_call ?P) ?es) (reassembler_new b) = Some (evs, r)" "list_all (smooth ?P) evs"
    "\<forall>k. wal_run k evs [] = Some (concat (?P k))" "next_of r (d, q) = length (concat ps)" "ra_last_seq r = []"
    using chunks_delivered [OF pieces all, of b] frames(3) unfolding total by (auto dest: spec [of _ "(d, q)"])
  have app: "concat (appended evs) = concat ps" "set (appended evs) \<subseteq> set ps"
    using appended_run [OF run(3) [rule_format, of "(d, q)"] run(2)] by auto
  have feed: "feed_all (ie_decode_stream env) (appended evs) [] = (rs, [])"
    by (rule wal_stream.feed_all_records [OF stream(1,2)]) (use app cut(1,2) in auto)
  then have some: "appended evs \<noteq> []" using stream(3) by auto
  have down: "downstream now (d, q) s = Some ([], p, li_planes s1)"
    using start(2,3) by (simp add: downstream_def)
  have "flows env now (d, q) (appended evs) s (ingest_loop env (map (\<lambda>p. (now, MsgChunk p)) payloads) s) r"
    by (rule loop_flows [OF frames(1) refl refl, of "{}" 0]) (use start(1) grid_start cut frames(2,3) run(1) in
        \<open>auto simp: reassembler_new_def\<close>)
  note fl = this [unfolded flows_def, rule_format, OF down, unfolded flow_all_records feed]
  show ?thesis
  proof (cases "push_records env (ck_secs now) rs (p, li_planes s1)")
    case None
    then show ?thesis using fl by simp
  next
    case (Some pw)
    then obtain p' w' where pw: "push_records env (ck_secs now) rs (p, li_planes s1) = Some (p', w')" by (cases pw) auto
    then obtain s' p'' where s': "ingest_loop env (map (\<lambda>p. (now, MsgChunk p)) payloads) s = Some s'"
      "downstream now (d, q) s' = Some ([], p', w')" "map_of (li_pipelines s') (uint d) = Some p''" "li_reassembler s' = r"
      using fl some by auto
    then have "p'' = p'" "li_planes s' = w'" "map_of (li_decoders s') (d, q) \<in> {None, Some []}"
      by (auto simp: downstream_def pipeline_for_known split: option.splits)
    moreover have "\<forall>c \<in> set (appended evs). c \<noteq> []" using app(2) cut(2) by auto
    then have "concat ps \<noteq> []" using some unfolding app(1) [symmetric] by (cases "appended evs") auto
    then obtain sb where "map_of (ra_segs r) (d, q) = Some sb" "sb_next_expected sb = length (concat ps)"
      using run(4) by (auto simp: next_of_def seg_or_new_def segment_buf_new_def split: option.splits)
    ultimately show ?thesis using pw s'(1,3,4) run(5) by simp
  qed
qed


section \<open>A concrete ingest\<close>

text \<open>An environment with the reference store and decoder; a frame has its offset and size in two
  bytes before the cipher text, which is the plain text with an empty nonce and tag.\<close>

definition flow_env :: "(bytes \<times> bytes) list ingest_env" where
  "flow_env = \<lparr>ie_lmdb = ref_lmdb, ie_consts = sample_consts, ie_enc = ref_enc, ie_decode_stream = ref_decode_stream,
     ie_open_box = (\<lambda>key nonce ct. Some (take (length ct - 16) ct)), ie_decode_batch = (\<lambda>_. None),
     ie_decode_chunk = (\<lambda>b. if length b < 2 then None else
       Some \<lparr>cf_dev_id = 1, cf_segment_seq = 0, cf_start_offset = unat (b ! 0), cf_chunk_len = ucast (b ! 1), cf_ref_only = False\<rparr>),
     ie_decode_seal = (\<lambda>_. None), ie_chunk_header_len = 2, ie_disk_size = (\<lambda>_. Some 0), ie_fresh = epoch_of no_rows\<rparr>"

definition flow_frame :: "u8 \<Rightarrow> bytes \<Rightarrow> bytes" where
  "flow_frame off c = off # of_nat (length c) # replicate 12 0 @ c @ replicate 16 0"

lemma flow_frame_carries:
  "length c < 256 \<Longrightarrow> carries flow_env key (1, 0) (unat off) c (flow_frame off c)"
  by (simp add: carries_def flow_env_def flow_frame_def decrypt_chunk_payload_def NONCE_LEN_def TAG_LEN_def
      unsigned_ucast_eq unat_of_nat take_bit_nat_eq_self)

definition flow_start :: "(bytes \<times> bytes) list live_ingest" where
  "flow_start = (live_ingest_new \<lparr>rg_db = no_rows, rg_frozen = [], rg_epoch_num = 0, rg_epoch_max_bytes = 1000\<rparr>
      \<lparr>w_ledger = w_ledger sample_planes, w_fs = w_fs sample_planes\<rparr> [] 
      (reassembler_new (sample_budgets\<lparr>l2_segment_cap := 100, l25_conn_cap := 100, l3_global_cap := 100\<rparr>)) None
      \<lparr>ip_batch_size = 10, ip_ack_tol = 4, ip_hot_dir = ''hot'', ip_ttl_scan_secs = 1, ip_qr_timeout_secs = 30, ip_fin_short_secs = 5\<rparr>)
     \<lparr>li_pipelines := [(1, pipeline_of 10 4 sample_hot)]\<rparr>"


end
