(* ===== verification/Query.thy ===== *)
theory Query
  imports Registry Ledger
begin

text \<open>
  The queries of \<open>src/src/query.rs\<close>: sessions over the live store, the current epoch and the frozen
  epochs; paged scans over the index databases; the time pruning of epochs; and the streaming
  exports.  A sink of the trait \<open>ExportSink\<close> is a state and its two functions.
\<close>

section \<open>Parameters and rows\<close>

record page =
  pg_cursor :: "bytes option"
  pg_limit :: nat
  pg_forward :: bool

definition page_default :: page where
  "page_default = \<lparr>pg_cursor = None, pg_limit = 100, pg_forward = True\<rparr>"

record 'r page_rows =
  pr_rows :: "'r list"
  pr_has_more :: bool
  pr_next_cursor :: "bytes option"

record qr_filter =
  qf_conn_hash :: "u64 option"
  qf_start_ts :: "u64 option"
  qf_end_ts :: "u64 option"
  qf_status :: "qr_status option"

record qr_index_row =
  qi_q_first_idx :: u64
  qi_q_ts :: u64
  qi_status :: u8
  qi_status_name :: string
  qi_conn_hash :: "u64 option"

record record_row =
  rr_ts_ns :: u64
  rr_packet_idx :: u64
  rr_summary :: record_summary

text \<open>A row as scanned: epoch number, key, value.\<close>

type_synonym raw_row = "u32 \<times> bytes \<times> bytes"

record epoch_target =
  et_num :: u32
  et_dir :: string
  et_current :: bool

record 'd session =
  qs_db :: "'d dual_db"
  qs_frozen :: "(string \<times> 'd epoch_env) list"
  qs_targets :: "epoch_target list"
  qs_all_targets :: "epoch_target list"

section \<open>Sessions\<close>

text \<open>\<open>prune_targets_by_window\<close>: an epoch stays unless its stored bounds miss the window.\<close>

definition in_bounds :: "u64 option \<Rightarrow> u64 option \<Rightarrow> epoch_boundary \<Rightarrow> bool" where
  "in_bounds start stop b =
     (let s = (case start of None \<Rightarrow> 0 | Some s \<Rightarrow> s);
          e = (case stop of None \<Rightarrow> - 1 | Some e \<Rightarrow> e);
          bmin = (case eb_min_ts b of None \<Rightarrow> 0 | Some v \<Rightarrow> word_of_int v);
          bmax = (case eb_max_ts b of None \<Rightarrow> - 1 | Some v \<Rightarrow> word_of_int v)
      in \<not> (bmax < s \<or> e < bmin))"

definition prune_targets_by_window ::
  "epoch_target list \<Rightarrow> ledger \<Rightarrow> u64 option \<Rightarrow> u64 option \<Rightarrow> epoch_target list" where
  "prune_targets_by_window targets g start stop =
     (if start = None \<and> stop = None then targets
      else
        let boundaries = map_of (rev (map (\<lambda>b. (eb_epoch_id b, b)) (epoch_boundaries g)))
        in filter (\<lambda>t. et_current t \<or>
             (case boundaries (uint (et_num t)) of None \<Rightarrow> True | Some b \<Rightarrow> in_bounds start stop b)) targets)"

definition build_session ::
  "'d registry \<Rightarrow> ledger option \<Rightarrow> u64 option \<Rightarrow> u64 option \<Rightarrow> 'd session" where
  "build_session reg g start stop =
     (let all = map (\<lambda>(n, d). \<lparr>et_num = n, et_dir = d, et_current = (n = rg_epoch_num reg)\<rparr>)
            (epoch_targets (rg_names reg))
      in \<lparr>qs_db = rg_db reg, qs_frozen = rg_frozen reg,
          qs_targets = (case g of None \<Rightarrow> all | Some g \<Rightarrow> prune_targets_by_window all g start stop),
          qs_all_targets = all\<rparr>)"

definition open_session :: "'d registry \<Rightarrow> 'd session" where
  "open_session reg = build_session reg None None None"

definition open_with_window :: "'d registry \<Rightarrow> ledger \<Rightarrow> u64 option \<Rightarrow> u64 option \<Rightarrow> 'd session" where
  "open_with_window reg g start stop = build_session reg (Some g) start stop"

definition conn_window :: "'d lmdb \<Rightarrow> 'd registry \<Rightarrow> ledger \<Rightarrow> u64 \<Rightarrow> (u64 \<times> u64) option option" where
  "conn_window L reg g h =
     do {
       v \<leftarrow> lm_get L (qm_conn_state (rg_db reg)) (k_conn_state h);
       let archived = (case conn_archive_of h g of
           None \<Rightarrow> None
         | Some a \<Rightarrow> (case (cr_first_ts a, cr_last_ts a) of
               (Some f, Some l) \<Rightarrow> if 0 < f \<and> 0 < l then Some (word_of_int f, word_of_int l) else None
             | _ \<Rightarrow> None));
       Some (case Option.bind v conn_state_from_bytes of
           Some st \<Rightarrow> if 0 < cs_first_ts st \<and> 0 < cs_last_ts st then Some (cs_first_ts st, cs_last_ts st)
             else archived
         | None \<Rightarrow> archived)
     }"

definition open_for_conn :: "'d lmdb \<Rightarrow> 'd registry \<Rightarrow> ledger \<Rightarrow> u64 \<Rightarrow> 'd session option" where
  "open_for_conn L reg g h =
     do {
       window \<leftarrow> conn_window L reg g h;
       Some (case window of
           Some (f, l) \<Rightarrow> build_session reg (Some g) (Some f) (Some l)
         | None \<Rightarrow> build_session reg None None None)
     }"

text \<open>The store behind a target: the snapshot for the current epoch, otherwise a reopened one.\<close>

definition epoch_env_of :: "'d session \<Rightarrow> epoch_target \<Rightarrow> 'd epoch_env option" where
  "epoch_env_of s t = (if et_current t then Some (epoch_of (qs_db s)) else map_of (qs_frozen s) (et_dir t))"

section \<open>Point queries\<close>

fun epoch_get ::
  "'d lmdb \<Rightarrow> ('d epoch_env \<Rightarrow> 'd) \<Rightarrow> bytes \<Rightarrow> (bytes \<Rightarrow> 'a option) \<Rightarrow> 'd session \<Rightarrow> epoch_target list \<Rightarrow>
     'a option option" where
  "epoch_get L dbi key decode s [] = Some None"
| "epoch_get L dbi key decode s (t # ts) =
     do {
       env \<leftarrow> epoch_env_of s t;
       v \<leftarrow> lm_get L (dbi env) key;
       case Option.bind v decode of
         Some x \<Rightarrow> Some (Some x)
       | None \<Rightarrow> epoch_get L dbi key decode s ts
     }"

definition qr_by_idx :: "'d lmdb \<Rightarrow> 'd session \<Rightarrow> u64 \<Rightarrow> qr_pair_value option option" where
  "qr_by_idx L s q =
     do {
       v \<leftarrow> lm_get L (qm_live_pair (qs_db s)) (k_qr_pair q);
       case Option.bind v qr_pair_decode of
         Some p \<Rightarrow> Some (Some p)
       | None \<Rightarrow> epoch_get L ep_pair (k_qr_pair q) qr_pair_decode s (qs_all_targets s)
     }"

definition qr_by_packet :: "'d lmdb \<Rightarrow> 'd session \<Rightarrow> u64 \<Rightarrow> u64 option option" where
  "qr_by_packet L s idx = epoch_get L ep_packet_qr (k_packet_qr idx) v_packet_qr_decode s (qs_all_targets s)"

definition query_conn_state :: "'d lmdb \<Rightarrow> 'd session \<Rightarrow> u64 \<Rightarrow> conn_state option option" where
  "query_conn_state L s h =
     do {
       v \<leftarrow> lm_get L (qm_conn_state (qs_db s)) (k_conn_state h);
       Some (Option.bind v conn_state_from_bytes)
     }"

section \<open>Paged scans\<close>

definition encode_cursor :: "u32 \<Rightarrow> bytes \<Rightarrow> bytes" where
  "encode_cursor num key = be32 num @ key"

definition parse_cursor :: "bytes option \<Rightarrow> u32 \<times> bytes option" where
  "parse_cursor cursor =
     (case cursor of
        Some c \<Rightarrow> if 4 \<le> length c then (of_be32 (take 4 c), Some (drop 4 c)) else (0, None)
      | None \<Rightarrow> (0, None))"

text \<open>The entries that \<open>range\<close> and \<open>rev_range\<close> yield: a cursor replaces one bound and is excluded.\<close>

definition range_items ::
  "'d lmdb \<Rightarrow> 'd \<Rightarrow> bytes \<Rightarrow> bytes \<Rightarrow> bytes option \<Rightarrow> bool \<Rightarrow> (bytes \<times> bytes) list option" where
  "range_items L d lo hi cursor forward =
     (if forward then
        (case cursor of
           None \<Rightarrow> lm_range L d lo hi
         | Some k \<Rightarrow> map_option (filter (\<lambda>e. fst e \<noteq> k)) (lm_range L d k hi))
      else
        map_option rev
          (case cursor of
             None \<Rightarrow> lm_range L d lo hi
           | Some k \<Rightarrow> map_option (filter (\<lambda>e. fst e \<noteq> k)) (lm_range L d lo k)))"

fun collect_rows :: "u32 \<Rightarrow> nat \<Rightarrow> (bytes \<times> bytes) list \<Rightarrow> raw_row list \<Rightarrow> raw_row list \<times> bool" where
  "collect_rows num limit [] out = (out, False)"
| "collect_rows num limit ((k, v) # items) out =
     (let out = out @ [(num, k, v)]
      in if limit \<le> length out then (out, True) else collect_rows num limit items out)"

definition scan_epoch_range ::
  "'d lmdb \<Rightarrow> 'd \<Rightarrow> bytes \<Rightarrow> bytes \<Rightarrow> u32 \<Rightarrow> bytes option \<Rightarrow> bool \<Rightarrow> nat \<Rightarrow> raw_row list \<Rightarrow>
     (raw_row list \<times> bool) option" where
  "scan_epoch_range L d lo hi num cursor forward limit out =
     do {
       items \<leftarrow> range_items L d lo hi cursor forward;
       Some (collect_rows num limit items out)
     }"

text \<open>The loop of \<open>page_rows_epochs\<close> over the epochs from the cursor on.\<close>

fun scan_targets ::
  "'d lmdb \<Rightarrow> ('d epoch_env \<Rightarrow> 'd) \<Rightarrow> bytes \<Rightarrow> bytes \<Rightarrow> page \<Rightarrow> 'd session \<Rightarrow> epoch_target list \<Rightarrow>
     raw_row list \<Rightarrow> raw_row list option" where
  "scan_targets L dbi lo hi page s [] out = Some out"
| "scan_targets L dbi lo hi page s (t # ts) out =
     do {
       let (cur_epoch, cur_key) = parse_cursor (pg_cursor page);
       let cursor_key = (if et_num t = cur_epoch \<and> pg_cursor page \<noteq> None then cur_key else None);
       env \<leftarrow> epoch_env_of s t;
       (out, finished) \<leftarrow> scan_epoch_range L (dbi env) lo hi (et_num t) cursor_key (pg_forward page)
         (max (pg_limit page) 1) out;
       if finished then Some out else scan_targets L dbi lo hi page s ts out
     }"

definition page_rows_epochs ::
  "'d lmdb \<Rightarrow> ('d epoch_env \<Rightarrow> 'd) \<Rightarrow> bytes \<Rightarrow> bytes \<Rightarrow> page \<Rightarrow> 'd session \<Rightarrow> raw_row list option" where
  "page_rows_epochs L dbi lo hi page s =
     (let (cur_epoch, _) = parse_cursor (pg_cursor page);
          targets = (if pg_forward page then filter (\<lambda>t. cur_epoch \<le> et_num t) (qs_targets s)
                     else filter (\<lambda>t. et_num t \<le> cur_epoch) (rev (qs_targets s)))
      in scan_targets L dbi lo hi page s targets [])"

definition paged :: "raw_row list \<Rightarrow> 'r list \<Rightarrow> nat \<Rightarrow> 'r page_rows" where
  "paged raw rows limit =
     (let next_cursor = (if raw = [] then None
          else (case last raw of (num, k, _) \<Rightarrow> Some (encode_cursor num k)))
      in \<lparr>pr_rows = rows, pr_has_more = (limit \<le> length raw \<and> next_cursor \<noteq> None),
          pr_next_cursor = next_cursor\<rparr>)"

definition conn_qr_bounds :: "u64 \<Rightarrow> u64 option \<Rightarrow> u64 option \<Rightarrow> bytes \<times> bytes" where
  "conn_qr_bounds h start stop =
     (be64 h @ be64 (case start of None \<Rightarrow> 0 | Some t \<Rightarrow> t) @ replicate 8 0,
      be64 h @ be64 (case stop of None \<Rightarrow> - 1 | Some t \<Rightarrow> t) @ replicate 8 0xFF)"

definition ts_bounds :: "u64 option \<Rightarrow> u64 option \<Rightarrow> bytes \<times> bytes" where
  "ts_bounds start stop =
     (be64 (case start of None \<Rightarrow> 0 | Some t \<Rightarrow> t) @ replicate 8 0,
      be64 (case stop of None \<Rightarrow> - 1 | Some t \<Rightarrow> t) @ replicate 8 0xFF)"

text \<open>\<open>be64(&k[i..i + 8])\<close>, which panics on a shorter key.\<close>

definition key_u64 :: "bytes \<Rightarrow> nat \<Rightarrow> u64 option" where
  "key_u64 k i = map_option of_be64 (slice_get k i (i + 8))"

section \<open>Request scans\<close>

text \<open>\<open>batch_statuses\<close>: the live store first, then every epoch for what is not resolved yet.\<close>

definition row_status :: "bytes option \<Rightarrow> qr_status option" where
  "row_status v = do { b \<leftarrow> v; p \<leftarrow> qr_pair_decode b; status_from_u8 (qp_status p) }"

fun resolve_live ::
  "'d lmdb \<Rightarrow> 'd \<Rightarrow> u64 list \<Rightarrow> (u64 \<Rightarrow> qr_status option) \<Rightarrow> (u64 \<Rightarrow> qr_status option) option" where
  "resolve_live L d [] out = Some out"
| "resolve_live L d (c # cs) out =
     do {
       v \<leftarrow> lm_get L d (k_qr_pair c);
       resolve_live L d cs (case row_status v of None \<Rightarrow> out | Some st \<Rightarrow> out(c \<mapsto> st))
     }"

fun batch_resolve_epoch ::
  "'d lmdb \<Rightarrow> 'd \<Rightarrow> u64 list \<Rightarrow> (u64 \<Rightarrow> qr_status option) \<Rightarrow> (u64 \<Rightarrow> qr_status option) option" where
  "batch_resolve_epoch L d [] out = Some out"
| "batch_resolve_epoch L d (c # cs) out =
     (if out c \<noteq> None then batch_resolve_epoch L d cs out
      else do {
        v \<leftarrow> lm_get L d (k_qr_pair c);
        batch_resolve_epoch L d cs (case row_status v of None \<Rightarrow> out | Some st \<Rightarrow> out(c \<mapsto> st))
      })"

fun resolve_targets ::
  "'d lmdb \<Rightarrow> 'd session \<Rightarrow> u64 list \<Rightarrow> epoch_target list \<Rightarrow> (u64 \<Rightarrow> qr_status option) \<Rightarrow>
     (u64 \<Rightarrow> qr_status option) option" where
  "resolve_targets L s cs [] out = Some out"
| "resolve_targets L s cs (t # ts) out =
     do {
       env \<leftarrow> epoch_env_of s t;
       out \<leftarrow> batch_resolve_epoch L (ep_pair env) cs out;
       resolve_targets L s cs ts out
     }"

definition batch_statuses :: "'d lmdb \<Rightarrow> 'd session \<Rightarrow> u64 list \<Rightarrow> (u64 \<Rightarrow> qr_status option) option" where
  "batch_statuses L s cs =
     do {
       out \<leftarrow> resolve_live L (qm_live_pair (qs_db s)) cs Map.empty;
       resolve_targets L s cs (qs_all_targets s) out
     }"

text \<open>The rows of a page: candidates without a status, and those with another one, are left out.\<close>

definition index_row ::
  "(u64 \<Rightarrow> qr_status option) \<Rightarrow> qr_status option \<Rightarrow> u64 option \<Rightarrow> u64 \<times> u64 \<Rightarrow> qr_index_row option" where
  "index_row statuses wanted h = (\<lambda>(q_ts, q).
     case statuses q of
       None \<Rightarrow> None
     | Some st \<Rightarrow>
         if wanted \<noteq> None \<and> wanted \<noteq> Some st then None
         else Some \<lparr>qi_q_first_idx = q, qi_q_ts = q_ts, qi_status = status_u8 st,
           qi_status_name = status_name st, qi_conn_hash = h\<rparr>)"

text \<open>The fields of the keys, time and request, at their places in the key.\<close>

fun key_fields :: "nat \<Rightarrow> nat \<Rightarrow> raw_row list \<Rightarrow> (u64 \<times> u64) list option" where
  "key_fields i j [] = Some []"
| "key_fields i j ((_, k, _) # raw) =
     do { t \<leftarrow> key_u64 k i; q \<leftarrow> key_u64 k j; rest \<leftarrow> key_fields i j raw; Some ((t, q) # rest) }"

definition scan_qr ::
  "'d lmdb \<Rightarrow> 'd session \<Rightarrow> ('d epoch_env \<Rightarrow> 'd) \<Rightarrow> bytes \<times> bytes \<Rightarrow> nat \<Rightarrow> nat \<Rightarrow> u64 option \<Rightarrow>
     qr_filter \<Rightarrow> page \<Rightarrow> qr_index_row page_rows option" where
  "scan_qr L s dbi bounds i j h f page =
     do {
       raw \<leftarrow> page_rows_epochs L dbi (fst bounds) (snd bounds) page s;
       fields \<leftarrow> key_fields i j raw;
       statuses \<leftarrow> batch_statuses L s (map snd fields);
       Some (paged raw (List.map_filter (index_row statuses (qf_status f) h) fields) (pg_limit page))
     }"

definition scan_conn_qr ::
  "'d lmdb \<Rightarrow> 'd session \<Rightarrow> qr_filter \<Rightarrow> page \<Rightarrow> qr_index_row page_rows option" where
  "scan_conn_qr L s f page =
     do {
       h \<leftarrow> qf_conn_hash f;
       scan_qr L s ep_conn_qr (conn_qr_bounds h (qf_start_ts f) (qf_end_ts f)) 8 16 (Some h) f page
     }"

definition scan_time_qr ::
  "'d lmdb \<Rightarrow> 'd session \<Rightarrow> qr_filter \<Rightarrow> page \<Rightarrow> qr_index_row page_rows option" where
  "scan_time_qr L s f page =
     scan_qr L s ep_qr_time (ts_bounds (qf_start_ts f) (qf_end_ts f)) 0 8 None f page"

section \<open>Packet scans\<close>

text \<open>A row whose summary does not decode is skipped.\<close>

definition record_row_of :: "bytes \<times> bytes \<Rightarrow> record_row option option" where
  "record_row_of = (\<lambda>(k, v).
     case v_record_summary_decode v of
       None \<Rightarrow> Some None
     | Some summary \<Rightarrow>
         do {
           t \<leftarrow> key_u64 k 0;
           q \<leftarrow> key_u64 k 8;
           Some (Some \<lparr>rr_ts_ns = t, rr_packet_idx = q, rr_summary = summary\<rparr>)
         })"

fun record_rows :: "(bytes \<times> bytes) list \<Rightarrow> record_row list option" where
  "record_rows [] = Some []"
| "record_rows (e # es) =
     do {
       r \<leftarrow> record_row_of e;
       rest \<leftarrow> record_rows es;
       Some (case r of None \<Rightarrow> rest | Some row \<Rightarrow> row # rest)
     }"

definition scan_records ::
  "'d lmdb \<Rightarrow> 'd session \<Rightarrow> u64 option \<Rightarrow> u64 option \<Rightarrow> page \<Rightarrow> record_row page_rows option" where
  "scan_records L s start stop page =
     do {
       let (lo, hi) = ts_bounds start stop;
       raw \<leftarrow> page_rows_epochs L ep_record_ts lo hi page s;
       rows \<leftarrow> record_rows (map snd raw);
       Some (paged raw rows (pg_limit page))
     }"

section \<open>Streams\<close>

text \<open>\<open>replay_epoch_range\<close> and the loop over the epochs; a sink may refuse a row.\<close>

fun replay_items ::
  "(record_row \<Rightarrow> 's \<Rightarrow> 's option) \<Rightarrow> (bytes \<times> bytes) list \<Rightarrow> 's \<times> u64 \<Rightarrow> ('s \<times> u64) option" where
  "replay_items emit [] (sink, cnt) = Some (sink, cnt)"
| "replay_items emit (e # es) (sink, cnt) =
     do {
       r \<leftarrow> record_row_of e;
       case r of
         None \<Rightarrow> replay_items emit es (sink, cnt)
       | Some row \<Rightarrow>
           do {
             sink \<leftarrow> emit row sink;
             replay_items emit es (sink, cnt + 1)
           }
     }"

fun replay_targets ::
  "'d lmdb \<Rightarrow> 'd session \<Rightarrow> (record_row \<Rightarrow> 's \<Rightarrow> 's option) \<Rightarrow> bytes \<Rightarrow> bytes \<Rightarrow> epoch_target list \<Rightarrow>
     's \<times> u64 \<Rightarrow> ('s \<times> u64) option" where
  "replay_targets L s emit lo hi [] acc = Some acc"
| "replay_targets L s emit lo hi (t # ts) acc =
     do {
       env \<leftarrow> epoch_env_of s t;
       items \<leftarrow> lm_range L (ep_record_ts env) lo hi;
       acc \<leftarrow> replay_items emit items acc;
       replay_targets L s emit lo hi ts acc
     }"

definition replay_into_sink ::
  "'d lmdb \<Rightarrow> 'd session \<Rightarrow> (record_row \<Rightarrow> 's \<Rightarrow> 's option) \<Rightarrow> u64 option \<Rightarrow> u64 option \<Rightarrow> 's \<Rightarrow>
     ('s \<times> u64) option" where
  "replay_into_sink L s emit start stop sink =
     (let (lo, hi) = ts_bounds start stop in replay_targets L s emit lo hi (qs_targets s) (sink, 0))"

definition stream_records ::
  "'d lmdb \<Rightarrow> 'd registry \<Rightarrow> (record_row \<Rightarrow> 's \<Rightarrow> 's option) \<Rightarrow> ('s \<Rightarrow> 's option) \<Rightarrow>
     u64 option \<Rightarrow> u64 option \<Rightarrow> 's \<Rightarrow> ('s \<times> u64) option" where
  "stream_records L reg emit finish_sink start stop sink =
     do {
       (sink, n) \<leftarrow> replay_into_sink L (open_session reg) emit start stop sink;
       sink \<leftarrow> finish_sink sink;
       Some (sink, n)
     }"

definition replay_scan ::
  "'d lmdb \<Rightarrow> 'd registry \<Rightarrow> ledger \<Rightarrow> (record_row \<Rightarrow> 's \<Rightarrow> 's option) \<Rightarrow> u64 option \<Rightarrow> u64 option \<Rightarrow> 's \<Rightarrow>
     ('s \<times> u64) option" where
  "replay_scan L reg g emit start stop sink =
     replay_into_sink L (open_with_window reg g start stop) emit start stop sink"

text \<open>\<open>stream_qrs\<close>: page after page, until a page is not full.  The loop has no bound of its own, so
  not returning is the value \<open>None\<close>.\<close>

fun emit_all :: "('r \<Rightarrow> 's \<Rightarrow> 's option) \<Rightarrow> 'r list \<Rightarrow> 's \<times> u64 \<Rightarrow> ('s \<times> u64) option" where
  "emit_all emit [] acc = Some acc"
| "emit_all emit (r # rs) (sink, cnt) = do { sink \<leftarrow> emit r sink; emit_all emit rs (sink, cnt + 1) }"

definition qr_page :: "'d lmdb \<Rightarrow> 'd session \<Rightarrow> qr_filter \<Rightarrow> page \<Rightarrow> qr_index_row page_rows option" where
  "qr_page L s f page =
     (case qf_conn_hash f of Some _ \<Rightarrow> scan_conn_qr L s f page | None \<Rightarrow> scan_time_qr L s f page)"

partial_function (option) stream_pages ::
  "'d lmdb \<Rightarrow> 'd session \<Rightarrow> qr_filter \<Rightarrow> (qr_index_row \<Rightarrow> 's \<Rightarrow> 's option) \<Rightarrow> page \<Rightarrow> 's \<times> u64 \<Rightarrow>
     ('s \<times> u64) option" where
  "stream_pages L s f emit page acc =
     do {
       r \<leftarrow> qr_page L s f page;
       acc \<leftarrow> emit_all emit (pr_rows r) acc;
       if pr_has_more r then stream_pages L s f emit (page\<lparr>pg_cursor := pr_next_cursor r\<rparr>) acc
       else Some acc
     }"

definition stream_qrs ::
  "'d lmdb \<Rightarrow> 'd registry \<Rightarrow> (qr_index_row \<Rightarrow> 's \<Rightarrow> 's option) \<Rightarrow> ('s \<Rightarrow> 's option) \<Rightarrow> qr_filter \<Rightarrow> 's \<Rightarrow>
     ('s \<times> u64) option" where
  "stream_qrs L reg emit finish_sink f sink =
     do {
       (sink, n) \<leftarrow> stream_pages L (open_session reg) f emit page_default (sink, 0);
       sink \<leftarrow> finish_sink sink;
       Some (sink, n)
     }"

end
