(* ===== verification/Query_Facts.thy ===== *)
theory Query_Facts
  imports Query Qr_Replay
begin

text \<open>
  Paging, pruning and streaming against one scan of all epochs.  \<open>full_scan\<close> is the reference: all
  rows between the bounds, epoch by epoch.  Pages are its consecutive pieces, so a stream of pages
  is the whole of it, whatever the page size.
\<close>

section \<open>The reference scan\<close>

definition tag_rows :: "u32 \<Rightarrow> (bytes \<times> bytes) list \<Rightarrow> raw_row list" where
  "tag_rows num items = map (\<lambda>(k, v). (num, k, v)) items"

fun full_scan ::
  "'d lmdb \<Rightarrow> ('d epoch_env \<Rightarrow> 'd) \<Rightarrow> bytes \<Rightarrow> bytes \<Rightarrow> 'd session \<Rightarrow> epoch_target list \<Rightarrow>
     raw_row list option" where
  "full_scan L dbi lo hi s [] = Some []"
| "full_scan L dbi lo hi s (t # ts) =
     do {
       env \<leftarrow> epoch_env_of s t;
       items \<leftarrow> lm_range L (dbi env) lo hi;
       remains \<leftarrow> full_scan L dbi lo hi s ts;
       Some (tag_rows (et_num t) items @ remains)
     }"

lemma tag_rows_simps [simp]:
  "tag_rows num [] = []" "tag_rows num ((k, v) # items) = (num, k, v) # tag_rows num items"
  "tag_rows num (xs @ ys) = tag_rows num xs @ tag_rows num ys" "length (tag_rows num items) = length items"
  by (simp_all add: tag_rows_def)

lemma collect_rows_take:
  "length out < limit \<Longrightarrow> collect_rows num limit items out =
   (take limit (out @ tag_rows num items), limit \<le> length out + length items)"
proof (induction items arbitrary: out)
  case (Cons e items)
  obtain k v where "e = (k, v)" by (cases e)
  then show ?case using Cons by (auto simp: Let_def not_le take_Cons')
qed simp

section \<open>Cursors\<close>

lemma parse_encode_cursor: "parse_cursor (Some (encode_cursor num k)) = (num, Some k)"
  by (simp add: parse_cursor_def encode_cursor_def)

lemma full_scan_split:
  "full_scan L dbi lo hi s ts = Some (xs @ (num, k, v) # remains) \<Longrightarrow>
   \<exists>pre t post env a b rows. ts = pre @ t # post \<and> et_num t = num \<and> epoch_env_of s t = Some env
     \<and> lm_range L (dbi env) lo hi = Some (a @ (k, v) # b) \<and> full_scan L dbi lo hi s post = Some rows
     \<and> remains = tag_rows num b @ rows"
proof (induction ts arbitrary: xs)
  case (Cons t ts)
  then obtain env items rows where 1: "epoch_env_of s t = Some env"
    "lm_range L (dbi env) lo hi = Some items" "full_scan L dbi lo hi s ts = Some rows"
    "tag_rows (et_num t) items @ rows = xs @ (num, k, v) # remains"
    by (auto elim!: bind_SomeE)
  from 1(4) consider us where "tag_rows (et_num t) items = xs @ us" "us @ rows = (num, k, v) # remains" "us \<noteq> []"
    | us where "xs = tag_rows (et_num t) items @ us" "rows = us @ (num, k, v) # remains"
    by (auto simp: append_eq_append_conv2) (metis append_Nil append_Nil2 append_self_conv2)
  then show ?case
  proof cases
    case 1
    then obtain b' where b': "tag_rows (et_num t) items = xs @ (num, k, v) # b'" "remains = b' @ rows"
      by (cases us) auto
    then obtain a e b where items: "items = a @ e # b" "tag_rows (et_num t) b = b'"
      "(case e of (k, v) \<Rightarrow> (et_num t, k, v)) = (num, k, v)"
      unfolding tag_rows_def by (auto simp: map_eq_append_conv map_eq_Cons_conv)
    have e: "et_num t = num" "e = (k, v)" using items(3) by (cases e; simp)+
    have "lm_range L (dbi env) lo hi = Some (a @ (k, v) # b)" using 1 items e \<open>lm_range L (dbi env) lo hi = Some items\<close> by simp
    then show ?thesis
      using \<open>epoch_env_of s t = Some env\<close> \<open>full_scan L dbi lo hi s ts = Some rows\<close> e items(2) b'(2)
      by (intro exI [of _ "[]"] exI [of _ t] exI [of _ ts] exI [of _ env] exI [of _ a] exI [of _ b]
          exI [of _ rows]) simp
  next
    case 2
    then obtain pre t' post env' a b rows' where "ts = pre @ t' # post" "et_num t' = num"
      "epoch_env_of s t' = Some env'" "lm_range L (dbi env') lo hi = Some (a @ (k, v) # b)"
      "full_scan L dbi lo hi s post = Some rows'" "remains = tag_rows num b @ rows'"
      using Cons.IH [of us] \<open>full_scan L dbi lo hi s ts = Some rows\<close> by blast
    then show ?thesis
      by (intro exI [of _ "t # pre"] exI [of _ t'] exI [of _ post] exI [of _ env'] exI [of _ a] exI [of _ b]
          exI [of _ rows']) simp
  qed
qed simp

text \<open>Epochs without a cursor contribute from their beginning.\<close>

lemma scan_targets_take:
  "full_scan L dbi lo hi s ts = Some rows \<Longrightarrow> max (pg_limit page) 1 = n \<Longrightarrow> length out < n \<Longrightarrow>
   pg_forward page \<Longrightarrow>
   (\<forall>t \<in> set ts. pg_cursor page = None \<or> et_num t \<noteq> fst (parse_cursor (pg_cursor page))) \<Longrightarrow>
   scan_targets L dbi lo hi page s ts out = Some (take n (out @ rows))"
proof (induction ts arbitrary: out rows)
  case (Cons t ts)
  then obtain env items remains where 1: "epoch_env_of s t = Some env"
    "lm_range L (dbi env) lo hi = Some items" "full_scan L dbi lo hi s ts = Some remains"
    "rows = tag_rows (et_num t) items @ remains" by (auto elim!: bind_SomeE)
  have "(if et_num t = fst (parse_cursor (pg_cursor page)) \<and> pg_cursor page \<noteq> None
      then snd (parse_cursor (pg_cursor page)) else None) = None" using Cons.prems(5) by auto
  then have step: "scan_targets L dbi lo hi page s (t # ts) out =
      (if n \<le> length out + length items then Some (take n (out @ tag_rows (et_num t) items))
       else scan_targets L dbi lo hi page s ts (take n (out @ tag_rows (et_num t) items)))"
    using 1(1,2) Cons.prems(2,3,4)
    by (simp add: scan_epoch_range_def range_items_def collect_rows_take case_prod_beta del: take_append)
  show ?case
  proof (cases "n \<le> length out + length items")
    case True
    then show ?thesis using step 1(4) by simp
  next
    case False
    have later: "\<forall>t \<in> set ts. pg_cursor page = None \<or> et_num t \<noteq> fst (parse_cursor (pg_cursor page))"
      using Cons.prems(5) by auto
    have "length (out @ tag_rows (et_num t) items) < n" using False by simp
    from Cons.IH [OF 1(3) Cons.prems(2) this Cons.prems(4) later]
    have "scan_targets L dbi lo hi page s ts (out @ tag_rows (et_num t) items) =
        Some (take n ((out @ tag_rows (et_num t) items) @ remains))" .
    moreover have "take n (out @ tag_rows (et_num t) items) = out @ tag_rows (et_num t) items"
      using False by (intro take_all) simp
    ultimately show ?thesis using step False 1(4) by (simp del: take_append)
  qed
qed simp

lemma page_first:
  assumes "full_scan L dbi lo hi s (qs_targets s) = Some rows" "pg_forward page" "pg_cursor page = None"
  shows "page_rows_epochs L dbi lo hi page s = Some (take (max (pg_limit page) 1) rows)"
  using scan_targets_take [OF assms(1), of page "max (pg_limit page) 1" "[]"] assms(2,3)
  by (simp add: page_rows_epochs_def parse_cursor_def)

context lmdb_total
begin

lemma range_unique:
  assumes "lm_range L d lo hi = Some xs" "scan_of (view d) lo hi ys"
  shows "xs = ys"
proof -
  have 1: "scan_of (view d) lo hi xs" by (rule range_view [OF assms(1)])
  have "e \<in> set xs \<longleftrightarrow> e \<in> set ys" for e
    using 1 assms(2) by (cases e) (simp add: scan_of_def)
  then have "set xs = set ys" by blast
  then show ?thesis using 1 assms(2) bt_sorted_unique [of xs ys] by (auto simp: scan_of_def)
qed

lemma range_after:
  assumes "lm_range L d lo hi = Some xs" "(k, v) \<in> set xs"
  shows "range_items L d lo hi (Some k) True = Some (filter (\<lambda>e. k < fst e) xs)"
proof -
  have xs: "scan_of (view d) lo hi xs" by (rule range_view [OF assms(1)])
  obtain ys where ys: "lm_range L d k hi = Some ys" using range_total by fastforce
  have "scan_of (view d) k hi ys" by (rule range_view [OF ys])
  moreover have "scan_of (view d) k hi (filter (\<lambda>e. k \<le> fst e) xs)"
    using xs assms(2) bt_sorted_filter unfolding scan_of_def by (auto intro: order_trans)
  ultimately have "ys = filter (\<lambda>e. k \<le> fst e) xs" using range_unique [OF ys] by blast
  then have "filter (\<lambda>e. fst e \<noteq> k) ys = filter (\<lambda>e. k < fst e) xs"
    by (auto intro: filter_cong)
  then show ?thesis using ys by (simp add: range_items_def)
qed

text \<open>The page after a row is the next piece of the reference scan.\<close>

lemma page_next:
  assumes full: "full_scan L dbi lo hi s (qs_targets s) = Some (xs @ (num, k, v) # remains)"
    and nums: "sorted_wrt (\<lambda>a b. et_num a < et_num b) (qs_targets s)"
    and page: "pg_forward page" "pg_cursor page = Some (encode_cursor num k)"
  shows "page_rows_epochs L dbi lo hi page s = Some (take (max (pg_limit page) 1) remains)"
proof -
  obtain pre t post env a b rows where t: "qs_targets s = pre @ t # post" "et_num t = num"
    "epoch_env_of s t = Some env" "lm_range L (dbi env) lo hi = Some (a @ (k, v) # b)"
    "full_scan L dbi lo hi s post = Some rows" "remains = tag_rows num b @ rows"
    using full_scan_split [OF full] by blast
  have cur: "parse_cursor (pg_cursor page) = (num, Some k)" using page(2) parse_encode_cursor by simp
  have post: "\<forall>t' \<in> set post. num < et_num t'" and pre: "\<forall>t' \<in> set pre. et_num t' < num"
    using nums t(1,2) by (auto simp: sorted_wrt_append)
  have targets: "filter (\<lambda>t. num \<le> et_num t) (qs_targets s) = t # post"
    using t(1,2) pre post by (auto simp: filter_empty_conv not_le filter_id_conv less_imp_le)
  have srt: "bt_sorted (a @ (k, v) # b)" using range_view [OF t(4)] by (simp add: scan_of_def)
  have "filter (\<lambda>e. k < fst e) (a @ (k, v) # b) = b"
    using srt by (auto simp: sorted_wrt_append filter_empty_conv intro!: filter_True)
  then have items: "range_items L (dbi env) lo hi (Some k) True = Some b"
    using range_after [OF t(4), of k v] by simp
  define n where "n = max (pg_limit page) 1"
  have n: "max (pg_limit page) (Suc 0) = n" "0 < n" by (simp_all add: n_def)
  have "scan_targets L dbi lo hi page s (t # post) [] =
      (if n \<le> length b then Some (take n (tag_rows num b))
       else scan_targets L dbi lo hi page s post (take n (tag_rows num b)))"
    using t(2,3) cur page items n by (simp add: scan_epoch_range_def collect_rows_take)
  moreover have "scan_targets L dbi lo hi page s post (tag_rows num b) = Some (take n (tag_rows num b @ rows))"
    if "\<not> n \<le> length b"
    by (rule scan_targets_take [OF t(5)]) (use that page cur post n in auto)
  ultimately have "scan_targets L dbi lo hi page s (t # post) [] = Some (take n (tag_rows num b @ rows))"
    by (cases "n \<le> length b") (simp_all add: take_all)
  then show ?thesis
    using cur page(1) targets t(6) by (simp add: page_rows_epochs_def n_def del: scan_targets.simps)
qed

end

section \<open>Statuses\<close>

text \<open>The status of a request: that of the live pair, or of the first epoch that has one.\<close>

fun first_status :: "('d \<Rightarrow> contents) \<Rightarrow> 'd epoch_env list \<Rightarrow> u64 \<Rightarrow> qr_status option" where
  "first_status view [] c = None"
| "first_status view (e # es) c =
     (case row_status (view (ep_pair e) (k_qr_pair c)) of
        Some st \<Rightarrow> Some st
      | None \<Rightarrow> first_status view es c)"

definition status_in :: "('d \<Rightarrow> contents) \<Rightarrow> 'd dual_db \<Rightarrow> 'd epoch_env list \<Rightarrow> u64 \<Rightarrow> qr_status option" where
  "status_in view db es c =
     (case row_status (view (qm_live_pair db) (k_qr_pair c)) of
        Some st \<Rightarrow> Some st
      | None \<Rightarrow> first_status view es c)"

context lmdb_total
begin

lemma resolve_live_eq:
  "resolve_live L d cs out = Some (\<lambda>c. if c \<in> set cs \<and> row_status (view d (k_qr_pair c)) \<noteq> None
     then row_status (view d (k_qr_pair c)) else out c)"
proof (induction cs arbitrary: out)
  case (Cons c cs)
  then show ?case
    by (auto simp: get_Some fun_eq_iff split: option.splits)
qed simp

lemma batch_resolve_epoch_eq:
  "batch_resolve_epoch L d cs out = Some (\<lambda>c. if c \<in> set cs \<and> out c = None
     then row_status (view d (k_qr_pair c)) else out c)"
proof (induction cs arbitrary: out)
  case (Cons c cs)
  then show ?case
    by (auto simp: get_Some fun_eq_iff split: option.splits)
qed simp

lemma resolve_targets_eq:
  "those (map (epoch_env_of s) ts) = Some es \<Longrightarrow>
   resolve_targets L s cs ts out =
     Some (\<lambda>c. if c \<in> set cs \<and> out c = None then first_status view es c else out c)"
proof (induction ts arbitrary: out es)
  case (Cons t ts)
  then obtain e es' where "epoch_env_of s t = Some e" "those (map (epoch_env_of s) ts) = Some es'"
    "es = e # es'" by (auto split: option.splits)
  then show ?case
    using Cons.IH by (auto simp: batch_resolve_epoch_eq fun_eq_iff split: option.splits)
qed auto

lemma batch_statuses_eq:
  assumes "those (map (epoch_env_of s) (qs_all_targets s)) = Some es"
  shows "\<exists>out. batch_statuses L s cs = Some out \<and> (\<forall>c \<in> set cs. out c = status_in view (qs_db s) es c)"
  using resolve_targets_eq [OF assms]
  by (auto simp: batch_statuses_def resolve_live_eq status_in_def split: option.splits)

end

section \<open>The stream of pages\<close>

lemma emit_all_append:
  "emit_all emit (xs @ ys) acc = Option.bind (emit_all emit xs acc) (emit_all emit ys)"
proof (induction xs arbitrary: acc)
  case (Cons x xs)
  then show ?case by (cases acc) (auto intro!: bind_cong_fundef)
qed simp

lemma key_fields_append:
  "key_fields i j (xs @ ys) =
   do { a \<leftarrow> key_fields i j xs; b \<leftarrow> key_fields i j ys; Some (a @ b) }"
proof (induction xs)
  case (Cons x xs)
  obtain n k v where "x = (n, k, v)" by (cases x)
  then show ?case using Cons by (cases "key_u64 k i"; cases "key_u64 k j"; cases "key_fields i j xs";
      cases "key_fields i j ys") auto
qed (cases "key_fields i j ys", auto)

definition scan_args ::
  "qr_filter \<Rightarrow> ('d epoch_env \<Rightarrow> 'd) \<times> (bytes \<times> bytes) \<times> nat \<times> nat" where
  "scan_args f =
     (case qf_conn_hash f of
        None \<Rightarrow> (ep_qr_time, ts_bounds (qf_start_ts f) (qf_end_ts f), 0, 8)
      | Some h \<Rightarrow> (ep_conn_qr, conn_qr_bounds h (qf_start_ts f) (qf_end_ts f), 8, 16))"

lemma qr_page_args:
  "scan_args f = (dbi, bounds, i, j) \<Longrightarrow> qr_page L s f page = scan_qr L s dbi bounds i j (qf_conn_hash f) f page"
  by (auto simp: scan_args_def qr_page_def scan_conn_qr_def scan_time_qr_def split: option.splits)

lemma map_filter_cong: "(\<And>x. x \<in> set xs \<Longrightarrow> f x = g x) \<Longrightarrow> List.map_filter f xs = List.map_filter g xs"
  by (induction xs) (auto simp: List.map_filter_simps split: option.splits)

lemma map_filter_append: "List.map_filter f (xs @ ys) = List.map_filter f xs @ List.map_filter f ys"
  by (simp add: List.map_filter_def)

text \<open>Where a cursor stands in the reference scan.\<close>

definition cursor_at :: "raw_row list \<Rightarrow> bytes option \<Rightarrow> bool" where
  "cursor_at xs c \<longleftrightarrow>
     (if xs = [] then c = None else (case last xs of (num, k, v) \<Rightarrow> c = Some (encode_cursor num k)))"

context lmdb_total
begin

lemma page_at:
  assumes "full_scan L dbi lo hi s (qs_targets s) = Some (xs @ ys)"
    and "sorted_wrt (\<lambda>a b. et_num a < et_num b) (qs_targets s)"
    and "pg_forward page" "cursor_at xs (pg_cursor page)"
  shows "page_rows_epochs L dbi lo hi page s = Some (take (max (pg_limit page) 1) ys)"
proof (cases xs rule: rev_cases)
  case Nil
  then show ?thesis using page_first [of L dbi lo hi s "xs @ ys" page] assms by (simp add: cursor_at_def)
next
  case (snoc zs z)
  obtain num k v where "z = (num, k, v)" by (cases z)
  then show ?thesis
    using page_next [of dbi lo hi s zs num k v ys page] assms snoc by (simp add: cursor_at_def)
qed

lemma stream_pages_all:
  assumes full: "full_scan L dbi (fst bounds) (snd bounds) s (qs_targets s) = Some rows"
    and nums: "sorted_wrt (\<lambda>a b. et_num a < et_num b) (qs_targets s)"
    and args: "scan_args f = (dbi, bounds, i, j)"
    and envs: "those (map (epoch_env_of s) (qs_all_targets s)) = Some es"
  shows "rows = xs @ ys \<Longrightarrow> key_fields i j ys = Some flds \<Longrightarrow> pg_forward page \<Longrightarrow> 0 < pg_limit page \<Longrightarrow>
    cursor_at xs (pg_cursor page) \<Longrightarrow>
    stream_pages L s f emit page acc =
      emit_all emit (List.map_filter (index_row (status_in view (qs_db s) es) (qf_status f) (qf_conn_hash f)) flds) acc"
proof (induction "length ys" arbitrary: xs ys flds page acc rule: less_induct)
  case less
  let ?n = "pg_limit page" and ?row = "\<lambda>st. index_row st (qf_status f) (qf_conn_hash f)"
  have pg: "page_rows_epochs L dbi (fst bounds) (snd bounds) page s = Some (take ?n ys)"
    using page_at [of dbi "fst bounds" "snd bounds" s xs ys page] full nums less.prems
    by (simp add: max_absorb1 Suc_le_eq)
  obtain fa fb where f: "key_fields i j (take ?n ys) = Some fa" "key_fields i j (drop ?n ys) = Some fb"
    "flds = fa @ fb"
    using less.prems(2) [unfolded key_fields_append [of i j "take ?n ys" "drop ?n ys", unfolded append_take_drop_id]]
    by (auto elim!: bind_SomeE)
  obtain out where out: "batch_statuses L s (map snd fa) = Some out"
    "\<forall>c \<in> set (map snd fa). out c = status_in view (qs_db s) es c"
    using batch_statuses_eq [OF envs] by blast
  have rows: "List.map_filter (?row out) fa = List.map_filter (?row (status_in view (qs_db s) es)) fa"
    using out(2) by (intro map_filter_cong) (auto simp: index_row_def)
  have page: "qr_page L s f page =
      Some (paged (take ?n ys) (List.map_filter (?row (status_in view (qs_db s) es)) fa) ?n)"
    using qr_page_args [OF args] pg f(1) out(1) rows by (simp add: scan_qr_def)
  show ?case
  proof (cases "?n \<le> length ys")
    case False
    then have "fb = []" using f(2) by simp
    then show ?thesis
      using page False f(3) by (subst stream_pages.simps) (simp add: paged_def Let_def case_prod_beta)
  next
    case True
    then have ne: "take ?n ys \<noteq> []" "length (take ?n ys) = ?n" using less.prems(4) by (cases ys; simp)+
    obtain num k v where last: "last (take ?n ys) = (num, k, v)" by (cases "last (take ?n ys)")
    let ?page = "page\<lparr>pg_cursor := Some (encode_cursor num k)\<rparr>"
    have "stream_pages L s f emit ?page acc' = emit_all emit (List.map_filter
        (?row (status_in view (qs_db s) es)) fb) acc'" for acc'
    proof (rule less.hyps)
      show "length (drop ?n ys) < length ys" using True less.prems(4) by simp
      show "rows = (xs @ take ?n ys) @ drop ?n ys" using less.prems(1) by simp
      show "cursor_at (xs @ take ?n ys) (pg_cursor ?page)" using ne(1) last by (simp add: cursor_at_def)
    qed (use f(2) less.prems in simp_all)
    then show ?thesis
      using page ne last f(3) True by (subst stream_pages.simps)
        (simp add: paged_def Let_def map_filter_append emit_all_append)
  qed
qed

end

end
