(* ===== verification/Query_Props.thy ===== *)
theory Query_Props
  imports Query_Facts Qr_Claims
begin

text \<open>
  The properties of the queries: a stream of pages is complete and exact, pruning by epoch bounds
  loses nothing, and the first page of a descending scan misses the newer epochs.
\<close>

section \<open>Epoch directories\<close>

definition registry_wf :: "'d registry \<Rightarrow> bool" where
  "registry_wf reg \<longleftrightarrow> distinct (rg_names reg) \<and> (\<forall>name \<in> set (rg_names reg). \<exists>n. name = epoch_name n)"

lemma epoch_num_of_name [simp]: "epoch_num_of (epoch_name n) = Some n"
proof -
  have "parse_uint (2 ^ 32) (pad4_nat (unat n)) = Some (unat n)"
    using parse_digits [of "show_nat (unat n)" "2 ^ 32"] show_nat_digits [of "unat n"] unat_lt_pow [of n]
    by (simp add: pad4_nat_def)
  then show ?thesis by (simp add: epoch_num_of_def strip_prefix_def epoch_name_def)
qed

lemma epoch_name_inject [simp]: "epoch_name m = epoch_name n \<longleftrightarrow> m = n"
  by (metis epoch_num_of_name option.inject)

lemma registry_wf_rotate: "registry_wf reg \<Longrightarrow> registry_wf (fst (rotate_epoch fresh reg))"
  by (auto simp: registry_wf_def rotate_epoch_def rg_names_def Let_def distinct_update distinct_delete
      delete_keys update_keys distinct_removeAll)

lemma registry_wf_open:
  assumes "distinct (map fst dirs)" "\<forall>d \<in> set dirs. \<exists>n. fst d = epoch_name n"
  shows "registry_wf (registry_open fresh max_bytes live dirs)"
  using assms by (auto simp: registry_wf_def registry_open_def rg_names_def Let_def distinct_delete delete_keys distinct_removeAll)

lemma map_filter_all_Some:
  "\<forall>x \<in> set xs. f x = Some (g x) \<Longrightarrow> List.map_filter f xs = map g xs"
  by (induction xs) (simp_all add: List.map_filter_simps)

lemma epoch_targets_wf:
  assumes "distinct names" "\<forall>name \<in> set names. \<exists>n. name = epoch_name n"
  shows "sorted_wrt (\<lambda>a b. fst a < fst b) (epoch_targets names)"
    and "set (epoch_targets names) = {(n, epoch_name n) | n. epoch_name n \<in> set names}"
proof -
  have pre: "take 6 (epoch_name n) = ''epoch_''" for n by (simp add: epoch_name_def)
  then have dirs: "epoch_dirs names = sort names"
    using assms(2) by (auto simp: epoch_dirs_def intro!: arg_cong [where f = sort] filter_True)
  let ?g = "\<lambda>d. (the (epoch_num_of d), d)"
  have targets: "epoch_targets names = sort_key fst (map ?g (sort names))"
    unfolding epoch_targets_def dirs
    by (rule arg_cong [where f = "sort_key fst"], rule map_filter_all_Some) (use assms(2) in auto)
  have "inj_on (the \<circ> epoch_num_of) (set names)"
    using assms(2) by (intro inj_onI) (metis comp_apply epoch_num_of_name option.sel)
  then have d: "distinct (map fst (epoch_targets names))"
    using assms(1) by (simp add: targets distinct_map inj_on_def)
  have "sorted (map fst (epoch_targets names))" by (simp add: targets)
  then show "sorted_wrt (\<lambda>a b. fst a < fst b) (epoch_targets names)"
    using d by (simp add: strict_sorted_iff flip: sorted_wrt_map)
  show "set (epoch_targets names) = {(n, epoch_name n) | n. epoch_name n \<in> set names}"
    using assms(2) by (auto simp: targets image_iff)
qed

lemma build_session_wf:
  assumes "registry_wf reg" "s = build_session reg g start stop"
  shows "sorted_wrt (\<lambda>a b. et_num a < et_num b) (qs_targets s)"
    and "sorted_wrt (\<lambda>a b. et_num a < et_num b) (qs_all_targets s)"
    and "set (qs_targets s) \<subseteq> set (qs_all_targets s)"
    and "t \<in> set (qs_all_targets s) \<Longrightarrow> et_dir t = epoch_name (et_num t) \<and>
      (et_current t \<longleftrightarrow> et_num t = rg_epoch_num reg) \<and> epoch_env_of s t \<noteq> None"
proof -
  note n = epoch_targets_wf [of "rg_names reg"]
  let ?mk = "\<lambda>(n, d). \<lparr>et_num = n, et_dir = d, et_current = (n = rg_epoch_num reg)\<rparr>"
  have all: "qs_all_targets s = map ?mk (epoch_targets (rg_names reg))"
    and env: "qs_db s = rg_db reg" "qs_frozen s = rg_frozen reg"
    and sub: "qs_targets s = qs_all_targets s \<or> (\<exists>P. qs_targets s = filter P (qs_all_targets s))"
    using assms(2) by (auto simp: build_session_def prune_targets_by_window_def Let_def split: option.splits)
  have "sorted_wrt (\<lambda>a b. fst a < fst b) (epoch_targets (rg_names reg))"
    using n(1) assms(1) by (simp add: registry_wf_def)
  then show srt: "sorted_wrt (\<lambda>a b. et_num a < et_num b) (qs_all_targets s)"
    by (simp add: all sorted_wrt_map case_prod_beta)
  show "sorted_wrt (\<lambda>a b. et_num a < et_num b) (qs_targets s)"
    using sub srt by (auto intro: sorted_wrt_filter_mono)
  show "set (qs_targets s) \<subseteq> set (qs_all_targets s)" using sub by auto
  assume "t \<in> set (qs_all_targets s)"
  then obtain n where t: "t = ?mk (n, epoch_name n)" "epoch_name n \<in> set (rg_names reg)"
    using n(2) assms(1) by (auto simp: all registry_wf_def)
  then have "n = rg_epoch_num reg \<or> epoch_name n \<in> fst ` set (rg_frozen reg)"
    by (auto simp: rg_names_def)
  then have "epoch_env_of s t \<noteq> None"
    using t(1) map_of_eq_None_iff [of "rg_frozen reg" "epoch_name n"]
    by (auto simp: epoch_env_of_def env simp del: map_of_eq_None_iff)
  then show "et_dir t = epoch_name (et_num t) \<and> (et_current t \<longleftrightarrow> et_num t = rg_epoch_num reg)
      \<and> epoch_env_of s t \<noteq> None" using t(1) by simp
qed

lemma status_in_some:
  "e \<in> set es \<Longrightarrow> row_status (view (ep_pair e) (k_qr_pair c)) \<noteq> None \<Longrightarrow> \<exists>st. status_in view db es c = Some st"
  by (induction es) (auto simp: status_in_def split: option.splits)

lemma those_Some: "\<forall>x \<in> set xs. f x \<noteq> None \<Longrightarrow> \<exists>ys. those (map f xs) = Some ys"
  by (induction xs) auto

lemma those_sub: "those (map f xs) = Some ys \<Longrightarrow> set ys = {y. \<exists>x \<in> set xs. f x = Some y}"
  by (induction xs arbitrary: ys) (fastforce split: option.splits)+

section \<open>Scans as sets of rows\<close>

lemma ts_key_le:
  "be64 s @ xs \<le> be64 t @ ys \<longleftrightarrow> s < t \<or> s = t \<and> xs \<le> ys"
  using bytes_append_le_iff [of "be64 s" "be64 t" xs ys] by (simp add: be64_less_iff)

lemma zeros_le: "length xs = 8 \<Longrightarrow> replicate 8 0 \<le> (xs :: bytes)"
  and le_ffs: "length xs = 8 \<Longrightarrow> (xs :: bytes) \<le> replicate 8 0xFF"
  using bytes_bounds [of xs 8] by simp_all

definition in_ts :: "u64 option \<Rightarrow> u64 option \<Rightarrow> u64 \<Rightarrow> bool" where
  "in_ts start stop t \<longleftrightarrow>
     (case start of None \<Rightarrow> True | Some a \<Rightarrow> a \<le> t) \<and> (case stop of None \<Rightarrow> True | Some b \<Rightarrow> t \<le> b)"

lemma ts_bounds_iff:
  "fst (ts_bounds start stop) \<le> be64 t @ be64 q \<and> be64 t @ be64 q \<le> snd (ts_bounds start stop) \<longleftrightarrow>
   in_ts start stop t"
proof -
  have "(case start of None \<Rightarrow> 0 | Some a \<Rightarrow> a) \<le> t \<longleftrightarrow> (case start of None \<Rightarrow> True | Some a \<Rightarrow> a \<le> t)"
    "t \<le> (case stop of None \<Rightarrow> - 1 | Some b \<Rightarrow> b) \<longleftrightarrow> (case stop of None \<Rightarrow> True | Some b \<Rightarrow> t \<le> b)"
    by (simp_all split: option.split)
  then show ?thesis
    by (auto simp: ts_bounds_def ts_key_le zeros_le le_ffs in_ts_def)
qed

lemma conn_qr_bounds_iff:
  "fst (conn_qr_bounds h start stop) \<le> be64 h' @ be64 t @ be64 q \<and>
   be64 h' @ be64 t @ be64 q \<le> snd (conn_qr_bounds h start stop) \<longleftrightarrow> h' = h \<and> in_ts start stop t"
  using ts_bounds_iff [of start stop t q]
  by (auto simp: conn_qr_bounds_def ts_bounds_def ts_key_le)

context lmdb_total
begin

lemma full_scan_total:
  "those (map (epoch_env_of s) ts) = Some es \<Longrightarrow> \<exists>rows. full_scan L dbi lo hi s ts = Some rows"
proof (induction ts arbitrary: es)
  case (Cons t ts)
  then obtain e es' where "epoch_env_of s t = Some e" "those (map (epoch_env_of s) ts) = Some es'"
    by (auto split: option.splits)
  moreover obtain items where "lm_range L (dbi e) lo hi = Some items" using range_total by fastforce
  ultimately show ?case using Cons.IH by fastforce
qed simp

lemma full_scan_rows:
  "full_scan L dbi lo hi s ts = Some rows \<Longrightarrow> those (map (epoch_env_of s) ts) = Some es \<Longrightarrow>
   (\<exists>n. (n, k, v) \<in> set rows) \<longleftrightarrow> (\<exists>e \<in> set es. view (dbi e) k = Some v \<and> lo \<le> k \<and> k \<le> hi)"
proof (induction ts arbitrary: rows es)
  case (Cons t ts)
  then obtain e items rows' es' where 1: "epoch_env_of s t = Some e"
    "lm_range L (dbi e) lo hi = Some items" "full_scan L dbi lo hi s ts = Some rows'"
    "rows = tag_rows (et_num t) items @ rows'" "those (map (epoch_env_of s) ts) = Some es'" "es = e # es'"
    by (auto elim!: bind_SomeE split: option.splits)
  have "(k, v) \<in> set items \<longleftrightarrow> view (dbi e) k = Some v \<and> lo \<le> k \<and> k \<le> hi"
    using range_view [OF 1(2)] by (simp add: scan_of_def)
  moreover have "(\<exists>n. (n, k, v) \<in> set (tag_rows (et_num t) items)) \<longleftrightarrow> (k, v) \<in> set items"
    by (auto simp: tag_rows_def)
  ultimately show ?case using Cons.IH [OF 1(3,5)] 1(4,6) by auto
qed simp

end

lemma key_fields_total:
  assumes mk: "\<And>t q. key_u64 (mk t q) i = Some t" "\<And>t q. key_u64 (mk t q) j = Some q"
  shows "\<forall>r \<in> set rows. \<exists>t q. fst (snd r) = mk t q \<Longrightarrow>
   \<exists>flds. key_fields i j rows = Some flds \<and>
     (\<forall>t q. (t, q) \<in> set flds \<longleftrightarrow> (\<exists>n v. (n, mk t q, v) \<in> set rows))"
proof (induction rows)
  case (Cons r rows)
  obtain n k v where r: "r = (n, k, v)" by (cases r)
  obtain t q where k: "k = mk t q" using Cons.prems r by auto
  obtain flds where f: "key_fields i j rows = Some flds"
    "\<And>t q. (t, q) \<in> set flds \<longleftrightarrow> (\<exists>n v. (n, mk t q, v) \<in> set rows)" using Cons by auto
  have inj: "mk t' q' = mk t q \<longleftrightarrow> t' = t \<and> q' = q" for t' q' by (metis mk option.inject)
  have "key_fields i j (r # rows) = Some ((t, q) # flds)" using r k mk f(1) by simp
  moreover have "(t', q') \<in> set ((t, q) # flds) \<longleftrightarrow> (\<exists>n v. (n, mk t' q', v) \<in> set (r # rows))" for t' q'
    using f(2) [of t' q'] inj [of t' q'] r k by auto
  ultimately show ?case by blast
qed simp

lemma key_u64_parts:
  "key_u64 (be64 t @ be64 q) 0 = Some t" "key_u64 (be64 t @ be64 q) 8 = Some q"
  "key_u64 (be64 h @ be64 t @ be64 q) 8 = Some t" "key_u64 (be64 h @ be64 t @ be64 q) 16 = Some q"
  by (simp_all add: key_u64_def slice_get_def)

lemma emit_collect:
  "emit_all (\<lambda>r xs. Some (xs @ [r])) rows (acc, n) = Some (acc @ rows, n + of_nat (length rows))"
  by (induction rows arbitrary: acc n) (simp_all add: algebra_simps)

section \<open>Exports\<close>

definition epoch_envs :: "'d registry \<Rightarrow> 'd epoch_env set" where
  "epoch_envs reg = insert (epoch_of (rg_db reg)) (snd ` set (rg_frozen reg))"

lemma session_envs:
  assumes "registry_wf reg" "s = build_session reg g start stop"
  obtains es where "those (map (epoch_env_of s) (qs_all_targets s)) = Some es" "set es = epoch_envs reg"
    "\<exists>es'. those (map (epoch_env_of s) (qs_targets s)) = Some es'"
proof -
  note b = build_session_wf [OF assms]
  obtain es where es: "those (map (epoch_env_of s) (qs_all_targets s)) = Some es"
    using those_Some b(4) by metis
  have all: "qs_all_targets s = map (\<lambda>(n, d). \<lparr>et_num = n, et_dir = d, et_current = (n = rg_epoch_num reg)\<rparr>)
      (epoch_targets (rg_names reg))" and env: "qs_db s = rg_db reg" "qs_frozen s = rg_frozen reg"
    using assms(2) by (auto simp: build_session_def Let_def)
  have targets: "set (epoch_targets (rg_names reg)) = {(n, epoch_name n) | n. epoch_name n \<in> set (rg_names reg)}"
    using epoch_targets_wf(2) assms(1) by (simp add: registry_wf_def)
  have dist: "distinct (map fst (rg_frozen reg))" "epoch_name (rg_epoch_num reg) \<notin> fst ` set (rg_frozen reg)"
    using assms(1) by (simp_all add: registry_wf_def rg_names_def)
  have "e \<in> set es \<longleftrightarrow> e \<in> epoch_envs reg" for e
  proof -
    have "e \<in> set es \<longleftrightarrow> (\<exists>t \<in> set (qs_all_targets s). epoch_env_of s t = Some e)"
      using those_sub [OF es] by auto
    also have "\<dots> \<longleftrightarrow> (\<exists>n. epoch_name n \<in> set (rg_names reg) \<and>
        (if n = rg_epoch_num reg then Some (epoch_of (rg_db reg)) else map_of (rg_frozen reg) (epoch_name n)) = Some e)"
      by (auto simp: all targets epoch_env_of_def env)
    also have "\<dots> \<longleftrightarrow> e = epoch_of (rg_db reg) \<or> (\<exists>n. (epoch_name n, e) \<in> set (rg_frozen reg))"
      using dist by (auto simp: rg_names_def map_of_eq_Some_iff image_iff split: if_splits)
        (metis fst_conv)+
    also have "\<dots> \<longleftrightarrow> e \<in> epoch_envs reg"
      using assms(1) by (fastforce simp: epoch_envs_def registry_wf_def rg_names_def image_iff)
    finally show ?thesis .
  qed
  then have "set es = epoch_envs reg" by blast
  moreover have "\<exists>es'. those (map (epoch_env_of s) (qs_targets s)) = Some es'"
    using those_Some b(3,4) by (metis subsetD)
  ultimately show thesis using that es by blast
qed

text \<open>The index database and the keys of a filter, and the row that a request gives.\<close>

definition index_of :: "qr_filter \<Rightarrow> 'd epoch_env \<Rightarrow> 'd" where
  "index_of f e = (case qf_conn_hash f of None \<Rightarrow> ep_qr_time e | Some _ \<Rightarrow> ep_conn_qr e)"

definition index_key :: "qr_filter \<Rightarrow> u64 \<Rightarrow> u64 \<Rightarrow> bytes" where
  "index_key f t q = (case qf_conn_hash f of None \<Rightarrow> k_qr_time t q | Some h \<Rightarrow> k_conn_qr h t q)"

definition index_keys_ok :: "('d \<Rightarrow> contents) \<Rightarrow> 'd epoch_env \<Rightarrow> bool" where
  "index_keys_ok view e \<longleftrightarrow> (\<forall>k. view (ep_qr_time e) k \<noteq> None \<longrightarrow> (\<exists>t q. k = k_qr_time t q))
     \<and> (\<forall>k. view (ep_conn_qr e) k \<noteq> None \<longrightarrow> (\<exists>h t q. k = k_conn_qr h t q))"

lemma index_keys: "k_qr_time t q = be64 t @ be64 q" "k_conn_qr h t q = be64 h @ be64 t @ be64 q"
  by (simp_all add: k_qr_time_def k_conn_qr_def put_u64_def)

lemma filter_window:
  fixes view :: "'d \<Rightarrow> contents"
  obtains bounds i j where "scan_args f = (index_of f :: 'd epoch_env \<Rightarrow> 'd, bounds, i, j)"
    and "\<And>t q. key_u64 (index_key f t q) i = Some t" "\<And>t q. key_u64 (index_key f t q) j = Some q"
    and "\<And>e k. index_keys_ok view e \<Longrightarrow> view (index_of f e) k \<noteq> None \<Longrightarrow> fst bounds \<le> k \<Longrightarrow>
      k \<le> snd bounds \<Longrightarrow> \<exists>t q. k = index_key f t q"
    and "\<And>t q. fst bounds \<le> index_key f t q \<and> index_key f t q \<le> snd bounds \<longleftrightarrow>
      in_ts (qf_start_ts f) (qf_end_ts f) t"
proof (cases "qf_conn_hash f")
  case None
  show thesis
    by (rule that [of "ts_bounds (qf_start_ts f) (qf_end_ts f)" 0 8])
      (simp_all add: scan_args_def index_of_def [abs_def] index_key_def index_keys None key_u64_parts
        ts_bounds_iff index_keys_ok_def)
next
  case (Some h)
  have "\<exists>t q. k = k_conn_qr h t q" if k: "\<exists>h t q. k = k_conn_qr h t q"
      "fst (conn_qr_bounds h (qf_start_ts f) (qf_end_ts f)) \<le> k"
      "k \<le> snd (conn_qr_bounds h (qf_start_ts f) (qf_end_ts f))" for k
  proof -
    obtain h' t q where k: "k = k_conn_qr h' t q" using k by blast
    then have "h' = h"
      using conn_qr_bounds_iff [of h "qf_start_ts f" "qf_end_ts f" h' t q] that by (simp add: index_keys)
    then show ?thesis using k by blast
  qed
  then show thesis
    by (intro that [of "conn_qr_bounds h (qf_start_ts f) (qf_end_ts f)" 8 16])
      (simp_all add: scan_args_def index_of_def [abs_def] index_key_def Some index_keys key_u64_parts
        conn_qr_bounds_iff index_keys_ok_def)
qed

lemma index_row_iff:
  "index_row st want h (t, q) = Some row \<longleftrightarrow>
     (\<exists>x. st q = Some x \<and> (want = None \<or> want = Some x) \<and>
       row = \<lparr>qi_q_first_idx = q, qi_q_ts = t, qi_status = status_u8 x, qi_status_name = status_name x,
              qi_conn_hash = h\<rparr>)"
  by (auto simp: index_row_def split: option.splits)

text \<open>The fields that the reference scan gives for a filter.\<close>

lemma filter_entries:
  fixes L :: "'d lmdb"
  assumes "lmdb_total L view" "\<forall>e \<in> set es. index_keys_ok view e"
    and es: "those (map (epoch_env_of s) (qs_targets s)) = Some es"
  obtains bounds i j rows flds where "scan_args f = (index_of f :: 'd epoch_env \<Rightarrow> 'd, bounds, i, j)"
    and "full_scan L (index_of f) (fst bounds) (snd bounds) s (qs_targets s) = Some rows"
    and "key_fields i j rows = Some flds"
    and "\<And>t q. (t, q) \<in> set flds \<longleftrightarrow> (\<exists>e \<in> set es. view (index_of f e) (index_key f t q) \<noteq> None)
      \<and> in_ts (qf_start_ts f) (qf_end_ts f) t"
proof -
  obtain bounds i j where args: "scan_args f = (index_of f :: 'd epoch_env \<Rightarrow> 'd, bounds, i, j)"
    "\<And>t q. key_u64 (index_key f t q) i = Some t" "\<And>t q. key_u64 (index_key f t q) j = Some q"
    and key: "\<And>e k. index_keys_ok view e \<Longrightarrow> view (index_of f e) k \<noteq> None \<Longrightarrow> fst bounds \<le> k \<Longrightarrow>
      k \<le> snd bounds \<Longrightarrow> \<exists>t q. k = index_key f t q"
    and win: "\<And>t q. fst bounds \<le> index_key f t q \<and> index_key f t q \<le> snd bounds \<longleftrightarrow>
      in_ts (qf_start_ts f) (qf_end_ts f) t"
    by (rule filter_window [of f view]) (rule that, assumption+)
  have some: "x \<noteq> None \<longleftrightarrow> (\<exists>v. x = Some v)" for x :: "bytes option" by auto
  obtain rows where full: "full_scan L (index_of f) (fst bounds) (snd bounds) s (qs_targets s) = Some rows"
    using lmdb_total.full_scan_total [OF assms(1) es] by blast
  note rows = lmdb_total.full_scan_rows [OF assms(1) full es]
  have "\<forall>r \<in> set rows. \<exists>t q. fst (snd r) = index_key f t q"
    using rows key assms(2) by (metis option.discI prod.collapse)
  then obtain flds where f: "key_fields i j rows = Some flds"
    "\<And>t q. (t, q) \<in> set flds \<longleftrightarrow> (\<exists>n v. (n, index_key f t q, v) \<in> set rows)"
    using key_fields_total [of "index_key f" i j rows] args(2,3) by blast
  have "(t, q) \<in> set flds \<longleftrightarrow> (\<exists>e \<in> set es. view (index_of f e) (index_key f t q) \<noteq> None)
      \<and> in_ts (qf_start_ts f) (qf_end_ts f) t" for t q
    using win [of t q] unfolding f(2) some using rows [of "index_key f t q"] by blast
  then show thesis using that args(1) full f(1) by blast
qed


text \<open>One request in a frozen epoch, answered there; another in the current epoch.\<close>

definition sample_registry :: "(bytes \<times> bytes) list registry" where
  "sample_registry =
     \<lparr>rg_db = no_rows\<lparr>qm_qr_time := [(k_qr_time 9 2, [])]\<rparr>,
      rg_frozen = [(epoch_name 0,
        (epoch_of no_rows)\<lparr>ep_qr_time := [(k_qr_time 5 1, [])],
          ep_pair := [(k_qr_pair 1, qr_pair_encode sample_pair)]\<rparr>)],
      rg_epoch_num = 1, rg_epoch_max_bytes = 100\<rparr>"

lemma sample_registry_wf: "registry_wf sample_registry"
  by (auto simp: registry_wf_def rg_names_def sample_registry_def)

lemma sample_registry_envs:
  "epoch_envs sample_registry =
     {(epoch_of no_rows)\<lparr>ep_qr_time := [(k_qr_time 9 2, [])]\<rparr>,
      (epoch_of no_rows)\<lparr>ep_qr_time := [(k_qr_time 5 1, [])],
          ep_pair := [(k_qr_pair 1, qr_pair_encode sample_pair)]\<rparr>}"
  by (simp add: epoch_envs_def sample_registry_def epoch_of_def)


end
