(* ===== verification/Replay_Props.thy ===== *)
theory Replay_Props
  imports Query_Props
begin

text \<open>
  Replays of the record index: a replay over the epochs that the stored bounds leave is the replay
  over all epochs, and gives exactly the records of the window.
\<close>

section \<open>Pruning loses nothing\<close>

text \<open>The stored bounds of the frozen epochs hold: what \<open>maybe_rotate_epoch\<close> keeps true.\<close>

definition in_boundary :: "epoch_boundary \<Rightarrow> u64 \<Rightarrow> bool" where
  "in_boundary b t \<longleftrightarrow> in_ts (map_option word_of_int (eb_min_ts b)) (map_option word_of_int (eb_max_ts b)) t"

definition bounds_true :: "('d \<Rightarrow> contents) \<Rightarrow> 'd registry \<Rightarrow> ledger \<Rightarrow> bool" where
  "bounds_true view reg g \<longleftrightarrow>
     (\<forall>b \<in> set (lg_epochs g). \<forall>n e t q. eb_epoch_id b = uint n \<longrightarrow> (epoch_name n, e) \<in> set (rg_frozen reg) \<longrightarrow>
        view (ep_record_ts e) (k_record_ts t q) \<noteq> None \<longrightarrow> in_boundary b t)"

definition record_keys_ok :: "('d \<Rightarrow> contents) \<Rightarrow> 'd epoch_env \<Rightarrow> bool" where
  "record_keys_ok view e \<longleftrightarrow> (\<forall>k. view (ep_record_ts e) k \<noteq> None \<longrightarrow> (\<exists>t q. k = k_record_ts t q))"

lemma in_bounds_iff:
  "\<not> in_bounds start stop b \<Longrightarrow> in_boundary b t \<Longrightarrow> \<not> in_ts start stop t"
  by (auto simp: in_bounds_def in_boundary_def in_ts_def Let_def split: option.splits)

lemma replay_targets_filter:
  assumes "\<And>t. t \<in> set ts \<Longrightarrow> \<not> P t \<Longrightarrow>
    \<exists>env. epoch_env_of s t = Some env \<and> lm_range L (ep_record_ts env) lo hi = Some []"
  shows "replay_targets L s emit lo hi (filter P ts) acc = replay_targets L s emit lo hi ts acc"
  using assms
proof (induction ts arbitrary: acc)
  case (Cons t ts)
  show ?case
  proof (cases "P t")
    case True
    then show ?thesis using Cons by (simp cong: bind_cong_fundef option.case_cong)
  next
    case False
    then obtain env where "epoch_env_of s t = Some env" "lm_range L (ep_record_ts env) lo hi = Some []"
      using Cons.prems by auto
    then show ?thesis using False Cons by (cases acc) simp
  qed
qed simp

lemma replay_targets_cong:
  "qs_db s = qs_db s' \<Longrightarrow> qs_frozen s = qs_frozen s' \<Longrightarrow>
   replay_targets L s emit lo hi ts acc = replay_targets L s' emit lo hi ts acc"
  by (induction ts arbitrary: acc) (simp_all add: epoch_env_of_def cong: bind_cong_fundef)

text \<open>A window that misses the bounds of an epoch selects none of its rows.\<close>

lemma pruned_empty:
  assumes "lmdb_total L view" "record_keys_ok view e"
    and "\<And>t q. view (ep_record_ts e) (k_record_ts t q) \<noteq> None \<Longrightarrow> \<not> in_ts start stop t"
  shows "lm_range L (ep_record_ts e) (fst (ts_bounds start stop)) (snd (ts_bounds start stop)) = Some []"
proof -
  let ?lo = "fst (ts_bounds start stop)" and ?hi = "snd (ts_bounds start stop)"
  have store: "lmdb_store L view" using assms(1) by (simp add: lmdb_total_def)
  obtain items where items: "lm_range L (ep_record_ts e) ?lo ?hi = Some items"
    using lmdb_total.range_total [OF assms(1)] by fastforce
  note rows = lmdb_store.range_view [OF store items, unfolded scan_of_def]
  have "(k, v) \<notin> set items" for k v
  proof
    assume "(k, v) \<in> set items"
    then have k: "view (ep_record_ts e) k = Some v" "?lo \<le> k" "k \<le> ?hi" using rows by blast+
    then obtain t q where "k = k_record_ts t q" using assms(2) by (fastforce simp: record_keys_ok_def)
    then show False using k assms(3) [of t q] ts_bounds_iff [of start stop t q] by (simp add: k_record_ts_def)
  qed
  then have "items = []" by (metis list.set_intros(1) neq_Nil_conv prod.collapse)
  then show ?thesis using items by simp
qed

lemma replay_unpruned:
  assumes "lmdb_total L view" "registry_wf reg" "bounds_true view reg g"
    and "\<forall>e \<in> epoch_envs reg. record_keys_ok view e"
  shows "replay_scan L reg g emit start stop sink = replay_into_sink L (open_session reg) emit start stop sink"
proof -
  let ?s = "open_session reg" and ?p = "open_with_window reg g start stop"
  have s: "?s = build_session reg None None None" "qs_targets ?s = qs_all_targets ?s"
      "?p = build_session reg (Some g) start stop" "qs_all_targets ?p = qs_all_targets ?s"
      "qs_db ?p = qs_db ?s" "qs_frozen ?p = qs_frozen ?s" "qs_frozen ?s = rg_frozen reg" "qs_db ?s = rg_db reg"
      "qs_targets ?p = prune_targets_by_window (qs_all_targets ?s) g start stop"
    by (simp_all add: open_session_def open_with_window_def build_session_def Let_def)
  let ?bs = "map_of (rev (map (\<lambda>b. (eb_epoch_id b, b)) (epoch_boundaries g)))"
  let ?P = "\<lambda>t. start = None \<and> stop = None \<or> et_current t \<or>
    (case ?bs (uint (et_num t)) of None \<Rightarrow> True | Some b \<Rightarrow> in_bounds start stop b)"
  have pruned: "qs_targets ?p = filter ?P (qs_targets ?s)"
    unfolding s(2,9) prune_targets_by_window_def Let_def
    by (cases "start = None \<and> stop = None") (simp, auto intro!: filter_cong [OF refl] split: option.splits)
  have "\<exists>env. epoch_env_of ?s t = Some env \<and>
      lm_range L (ep_record_ts env) (fst (ts_bounds start stop)) (snd (ts_bounds start stop)) = Some []"
    if t: "t \<in> set (qs_targets ?s)" "\<not> ?P t" for t
  proof -
    obtain b where b: "?bs (uint (et_num t)) = Some b" "\<not> in_bounds start stop b" "\<not> et_current t"
      using t(2) by (auto split: option.splits)
    then have row: "b \<in> set (lg_epochs g)" "eb_epoch_id b = uint (et_num t)"
      by (auto simp: epoch_boundaries_def dest!: map_of_SomeD)
    note wf = build_session_wf(4) [OF assms(2) s(1), of t]
    obtain e where "epoch_env_of ?s t = Some e" "map_of (rg_frozen reg) (epoch_name (et_num t)) = Some e"
      using wf t(1) b(3) by (auto simp: s(2,7) epoch_env_of_def)
    then have e: "epoch_env_of ?s t = Some e" "(epoch_name (et_num t), e) \<in> set (rg_frozen reg)"
      by (auto intro: map_of_SomeD)
    then have "record_keys_ok view e" using assms(4) by (force simp: epoch_envs_def)
    moreover have "\<not> in_ts start stop u" if "view (ep_record_ts e) (k_record_ts u q) \<noteq> None" for u q
      using assms(3) row e(2) that in_bounds_iff [OF b(2)] unfolding bounds_true_def by blast
    ultimately show ?thesis using pruned_empty [OF assms(1)] e(1) by blast
  qed
  then have "replay_targets L ?s emit (fst (ts_bounds start stop)) (snd (ts_bounds start stop)) (qs_targets ?p) (sink, 0) =
      replay_targets L ?s emit (fst (ts_bounds start stop)) (snd (ts_bounds start stop)) (qs_targets ?s) (sink, 0)"
    unfolding pruned by (rule replay_targets_filter)
  then show ?thesis
    using replay_targets_cong [OF s(5,6), of L emit] by (simp add: replay_scan_def replay_into_sink_def case_prod_beta)
qed

section \<open>The rows of a replay\<close>

text \<open>The record row of an entry of \<open>RECORD_TS\<close>.\<close>

definition is_record :: "('d \<Rightarrow> contents) \<Rightarrow> 'd epoch_env \<Rightarrow> record_row \<Rightarrow> bool" where
  "is_record view e row \<longleftrightarrow>
     Option.bind (view (ep_record_ts e) (k_record_ts (rr_ts_ns row) (rr_packet_idx row)))
       v_record_summary_decode = Some (rr_summary row)"

lemma record_row_of_key:
  "record_row_of (k_record_ts t q, v) = Some (map_option
     (\<lambda>summary. \<lparr>rr_ts_ns = t, rr_packet_idx = q, rr_summary = summary\<rparr>) (v_record_summary_decode v))"
  by (simp add: record_row_of_def k_record_ts_def key_u64_parts split: option.splits)

lemma replay_items_rows:
  "record_rows items = Some rows \<Longrightarrow> replay_items emit items acc = emit_all emit rows acc"
proof (induction items arbitrary: rows acc)
  case (Cons kv items)
  then obtain r rows' where r: "record_row_of kv = Some r" "record_rows items = Some rows'"
    "rows = (case r of None \<Rightarrow> rows' | Some row \<Rightarrow> row # rows')"
    by (auto elim!: bind_SomeE)
  show ?case
    using r Cons.IH [OF r(2)] by (cases acc; cases r) (simp_all cong: bind_cong_fundef)
qed auto

lemma record_rows_total:
  "\<forall>kv \<in> set items. \<exists>t q. fst kv = k_record_ts t q \<Longrightarrow>
   \<exists>rows. record_rows items = Some rows \<and>
     (\<forall>row. row \<in> set rows \<longleftrightarrow> (\<exists>v. (k_record_ts (rr_ts_ns row) (rr_packet_idx row), v) \<in> set items \<and>
        v_record_summary_decode v = Some (rr_summary row)))"
proof (induction items)
  case (Cons kv items)
  then obtain t q v where kv: "kv = (k_record_ts t q, v)" by (cases kv) auto
  obtain rows where r: "record_rows items = Some rows"
    "\<And>row. row \<in> set rows \<longleftrightarrow> (\<exists>v. (k_record_ts (rr_ts_ns row) (rr_packet_idx row), v) \<in> set items \<and>
        v_record_summary_decode v = Some (rr_summary row))"
    using Cons by auto
  have inj: "k_record_ts t' q' = k_record_ts t q \<longleftrightarrow> t' = t \<and> q' = q" for t' q'
    by (auto simp: k_record_ts_def)
  show ?case
  proof (cases "v_record_summary_decode v")
    case None
    then show ?thesis using r by (auto simp: kv record_row_of_key inj)
  next
    case (Some summary)
    let ?row = "\<lparr>rr_ts_ns = t, rr_packet_idx = q, rr_summary = summary\<rparr>"
    have "row \<in> set (?row # rows) \<longleftrightarrow> (\<exists>v. (k_record_ts (rr_ts_ns row) (rr_packet_idx row), v) \<in> set (kv # items) \<and>
        v_record_summary_decode v = Some (rr_summary row))" for row
      using r(2) [of row] Some by (cases row) (auto simp: kv inj)
    then show ?thesis using r(1) Some
      by (intro exI [of _ "?row # rows"]) (simp add: kv record_row_of_key)
  qed
qed simp

lemma replay_targets_rows:
  assumes "lmdb_total L view"
  shows "those (map (epoch_env_of s) ts) = Some es \<Longrightarrow> \<forall>e \<in> set es. record_keys_ok view e \<Longrightarrow>
   \<exists>rows. replay_targets L s emit (fst (ts_bounds start stop)) (snd (ts_bounds start stop)) ts acc = emit_all emit rows acc \<and>
     (\<forall>row. row \<in> set rows \<longleftrightarrow> (\<exists>e \<in> set es. is_record view e row \<and> in_ts start stop (rr_ts_ns row)))"
proof (induction ts arbitrary: es acc)
  case Nil
  then show ?case by (intro exI [of _ "[]"]) auto
next
  case (Cons t ts)
  let ?lo = "fst (ts_bounds start stop)" and ?hi = "snd (ts_bounds start stop)"
  have store: "lmdb_store L view" using assms by (simp add: lmdb_total_def)
  obtain e es' where e: "epoch_env_of s t = Some e" "those (map (epoch_env_of s) ts) = Some es'" "es = e # es'"
    using Cons.prems(1) by (auto split: option.splits)
  obtain items where items: "lm_range L (ep_record_ts e) ?lo ?hi = Some items"
    using lmdb_total.range_total [OF assms] by fastforce
  have kv: "(k, v) \<in> set items \<longleftrightarrow> view (ep_record_ts e) k = Some v \<and> ?lo \<le> k \<and> k \<le> ?hi" for k v
    using lmdb_store.range_view [OF store items] by (simp add: scan_of_def)
  have "\<forall>kv \<in> set items. \<exists>t q. fst kv = k_record_ts t q"
    using kv Cons.prems(2) e(3) by (fastforce simp: record_keys_ok_def)
  then obtain rows where r: "record_rows items = Some rows"
    "\<And>row. row \<in> set rows \<longleftrightarrow> (\<exists>v. (k_record_ts (rr_ts_ns row) (rr_packet_idx row), v) \<in> set items \<and>
        v_record_summary_decode v = Some (rr_summary row))"
    using record_rows_total by blast
  have mem: "row \<in> set rows \<longleftrightarrow> is_record view e row \<and> in_ts start stop (rr_ts_ns row)" for row
    using ts_bounds_iff [of start stop "rr_ts_ns row" "rr_packet_idx row"]
    by (auto simp: r(2) kv is_record_def k_record_ts_def bind_eq_Some_conv)
  have tail: "\<forall>e \<in> set es'. record_keys_ok view e" using Cons.prems(2) e(3) by simp
  show ?case
  proof (cases "emit_all emit rows acc")
    case None
    obtain rows' where "\<And>row. row \<in> set rows' \<longleftrightarrow> (\<exists>e \<in> set es'. is_record view e row \<and> in_ts start stop (rr_ts_ns row))"
      using Cons.IH [OF e(2) tail] by blast
    then show ?thesis
      using e items mem None by (intro exI [of _ "rows @ rows'"]) (auto simp: replay_items_rows [OF r(1)] emit_all_append)
  next
    case (Some acc')
    obtain rows' where "replay_targets L s emit ?lo ?hi ts acc' = emit_all emit rows' acc'"
      "\<And>row. row \<in> set rows' \<longleftrightarrow> (\<exists>e \<in> set es'. is_record view e row \<and> in_ts start stop (rr_ts_ns row))"
      using Cons.IH [OF e(2) tail] by blast
    then show ?thesis
      using e items mem Some by (intro exI [of _ "rows @ rows'"]) (auto simp: replay_items_rows [OF r(1)] emit_all_append)
  qed
qed

lemma replay_scan_rows:
  assumes "lmdb_total L view" "registry_wf reg" "bounds_true view reg g"
    and "\<forall>e \<in> epoch_envs reg. record_keys_ok view e"
  obtains rows where "replay_scan L reg g emit start stop sink = emit_all emit rows (sink, 0)"
    and "\<And>row. row \<in> set rows \<longleftrightarrow> (\<exists>e \<in> epoch_envs reg. is_record view e row \<and> in_ts start stop (rr_ts_ns row))"
proof -
  let ?s = "open_session reg"
  have s: "?s = build_session reg None None None" "qs_targets ?s = qs_all_targets ?s"
    by (simp_all add: open_session_def build_session_def Let_def)
  obtain es where es: "those (map (epoch_env_of ?s) (qs_targets ?s)) = Some es" "set es = epoch_envs reg"
    using session_envs [OF assms(2) s(1)] s(2) by metis
  then show thesis
    using replay_targets_rows [OF assms(1) es(1), of emit start stop "(sink, 0)"] assms(4) that
      replay_unpruned [OF assms, of emit]
    by (auto simp: replay_into_sink_def case_prod_beta)
qed

text \<open>C34: A time-window replay (the one that exports packets) feeds any sink exactly the records of the
  window, from all epochs: the epochs it leaves out by their stored bounds have none, so that it does
  to the sink what a replay over all epochs does.\<close>

theorem replay_scan_exact:
  assumes "lmdb_total L view" "registry_wf reg" "bounds_true view reg g"
    and "\<forall>e \<in> epoch_envs reg. record_keys_ok view e"
  shows "\<exists>rows. replay_scan L reg g emit start stop sink = emit_all emit rows (sink, 0) \<and>
    replay_into_sink L (open_session reg) emit start stop sink = emit_all emit rows (sink, 0) \<and>
    (\<forall>row. row \<in> set rows \<longleftrightarrow>
      (\<exists>e \<in> epoch_envs reg. is_record view e row \<and> in_ts start stop (rr_ts_ns row)))"
  using replay_scan_rows [OF assms, of emit start stop sink] replay_unpruned [OF assms, of emit start stop sink]
  by metis

text \<open>The window starts after the last record of the frozen epoch, which is left out.\<close>

definition sample_summary :: record_summary where
  "sample_summary = \<lparr>rs_proto = 6, rs_flags = 0, rs_src_ip = 1, rs_dst_ip = 2, rs_sport = 3, rs_dport = 4, rs_len = 5\<rparr>"

definition replay_registry :: "(bytes \<times> bytes) list registry" where
  "replay_registry =
     \<lparr>rg_db = no_rows\<lparr>qm_record_ts := [(k_record_ts 9 2, v_record_summary_encode sample_summary)]\<rparr>,
      rg_frozen = [(epoch_name 0, (epoch_of no_rows)\<lparr>ep_record_ts :=
        [(k_record_ts 5 1, v_record_summary_encode sample_summary)]\<rparr>)],
      rg_epoch_num = 1, rg_epoch_max_bytes = 100\<rparr>"

definition replay_ledger :: ledger where
  "replay_ledger = ledger_init\<lparr>lg_epochs := [\<lparr>eb_epoch_id = 0, eb_dir = epoch_name 0, eb_min_ts = Some 5,
     eb_max_ts = Some 5, eb_record_count = 1, eb_state = EpochFrozen\<rparr>]\<rparr>"

theorem replay_scan_exact_witness:
  "\<exists>rows n. replay_scan ref_lmdb replay_registry replay_ledger (\<lambda>r xs. Some (xs @ [r])) (Some 9) None [] =
     Some (rows, n) \<and> (\<exists>row \<in> set rows. rr_ts_ns row = 9 \<and> rr_packet_idx row = 2)"
proof -
  have envs: "epoch_envs replay_registry =
     {(epoch_of no_rows)\<lparr>ep_record_ts := [(k_record_ts 9 2, v_record_summary_encode sample_summary)]\<rparr>,
      (epoch_of no_rows)\<lparr>ep_record_ts := [(k_record_ts 5 1, v_record_summary_encode sample_summary)]\<rparr>}"
    by (simp add: epoch_envs_def replay_registry_def epoch_of_def)
  have wf: "registry_wf replay_registry"
    by (auto simp: registry_wf_def rg_names_def replay_registry_def)
  have bounds: "bounds_true map_of replay_registry replay_ledger"
    by (auto simp: bounds_true_def replay_registry_def replay_ledger_def k_record_ts_def in_boundary_def in_ts_def
        split: if_splits)
  have "\<forall>e \<in> epoch_envs replay_registry. record_keys_ok map_of e"
    by (auto simp: envs record_keys_ok_def)
  note exact = replay_scan_exact [OF ref.lmdb_total_axioms wf bounds this, of "\<lambda>r xs. Some (xs @ [r])" "Some 9" None "[]"]
  let ?row = "\<lparr>rr_ts_ns = 9, rr_packet_idx = 2, rr_summary = sample_summary\<rparr>"
  have "is_record map_of ((epoch_of no_rows)\<lparr>ep_record_ts := [(k_record_ts 9 2, v_record_summary_encode sample_summary)]\<rparr>) ?row"
    by (simp add: is_record_def record_summary_roundtrip)
  then have "\<exists>e \<in> epoch_envs replay_registry. is_record map_of e ?row \<and> in_ts (Some 9) None (rr_ts_ns ?row)"
    by (auto simp: envs in_ts_def)
  then show ?thesis using exact by (auto simp: emit_collect) (metis record_row.select_convs(1,2))
qed

section \<open>Descending pages\<close>

text \<open>Without a cursor a descending scan starts at epoch 0: the first page misses every later epoch.\<close>

lemma backward_first_page:
  "pg_cursor page = None \<Longrightarrow> \<not> pg_forward page \<Longrightarrow> page_rows_epochs L dbi lo hi page s = Some rows \<Longrightarrow>
   \<forall>t \<in> set (qs_targets s). et_num t \<noteq> 0 \<Longrightarrow> rows = []"
  by (simp add: page_rows_epochs_def parse_cursor_def)

end
