(* ===== verification/Ingest_Frame.thy ===== *)
theory Ingest_Frame
  imports Ingest Replay_Props Qr_Index
begin

text \<open>
  What the handlers of the live ingest leave alone.  Whatever comes in, and whatever fails, the
  epochs table and the frozen stores are touched by a rotation only, and the record index of the
  current epoch only gets keys of the form that replays read.  So the stored bounds hold in every
  reachable state, and a replay that trusts them is exact.
\<close>

named_theorems epochs_kept

section \<open>The ledger\<close>

lemma insert_file_epochs: "insert_file path kind dev seq now g = Some (g', fid) \<Longrightarrow> lg_epochs g' = lg_epochs g"
  by (auto simp: insert_file_def Let_def split: if_splits)

lemma ledger_epochs [simp, epochs_kept]:
  "lg_epochs (set_file_state fid state g) = lg_epochs g"
  "lg_epochs (insert_anomalies evs g) = lg_epochs g"
  "lg_epochs (fst (ext_meta_upsert hint magic entropy fixed port now g)) = lg_epochs g"
  "lg_epochs (upsert_conn_archive a g) = lg_epochs g"
  by (simp_all add: set_file_state_def insert_anomalies_def ext_meta_upsert_def upsert_conn_archive_def Let_def
      split: option.splits)

lemma advance_epochs: "advance_watermark fid off g = Some g' \<Longrightarrow> lg_epochs g' = lg_epochs g"
  by (auto simp: advance_watermark_def Let_def split: if_splits)

lemma advance_all_epochs [simp]: "lg_epochs (fst (advance_all ends g)) = lg_epochs g"
  by (induction ends g rule: advance_all.induct) (auto split: option.splits dest: advance_epochs)

lemma write_ext_meta_epochs [simp]: "lg_epochs (write_ext_meta now evs g) = lg_epochs g"
  unfolding write_ext_meta_def by (induction evs arbitrary: g) simp_all

lemma write_conn_archives_epochs [simp]: "lg_epochs (write_conn_archives now archives g) = lg_epochs g"
  unfolding write_conn_archives_def by (induction archives arbitrary: g) simp_all

section \<open>The planes\<close>

text \<open>The current epoch only grows, and no pair leaves both stores.\<close>

definition index_kept :: "('d \<Rightarrow> contents) \<Rightarrow> 'd dual_db \<Rightarrow> 'd dual_db \<Rightarrow> bool" where
  "index_kept view m m' \<longleftrightarrow> epoch_grows view m m' \<and>
     pairs_step (view (qm_live_pair m)) (view (qm_ep_pair m)) (view (qm_live_pair m')) (view (qm_ep_pair m'))"

lemma index_kept_refl [simp, intro!]: "index_kept view m m"
  by (simp add: index_kept_def)

lemma index_kept_trans: "index_kept view m m' \<Longrightarrow> index_kept view m' m'' \<Longrightarrow> index_kept view m m''"
  unfolding index_kept_def using epoch_grows_trans pairs_step_trans by blast

lemma keeps_index: "keeps view m m' \<Longrightarrow> index_kept view m m'"
  by (simp add: keeps_def index_kept_def)

definition calm :: "('d \<Rightarrow> contents) \<Rightarrow> 'd planes \<Rightarrow> 'd planes \<Rightarrow> bool" where
  "calm view w w' \<longleftrightarrow> lg_epochs (w_ledger w') = lg_epochs (w_ledger w) \<and>
     (\<forall>k. view (qm_record_ts (w_db w')) k \<noteq> None \<longrightarrow>
        view (qm_record_ts (w_db w)) k \<noteq> None \<or> (\<exists>t q. k = k_record_ts t q)) \<and>
     index_kept view (w_db w) (w_db w')"

lemma calm_refl [simp, intro!]: "calm view w w"
  by (simp add: calm_def)

lemma calm_trans [trans]: "calm view w w' \<Longrightarrow> calm view w' w'' \<Longrightarrow> calm view w w''"
  unfolding calm_def using index_kept_trans by metis

lemma calm_world:
  "lg_epochs (w_ledger w') = lg_epochs (w_ledger w) \<Longrightarrow> w_db w' = w_db w \<Longrightarrow> calm view w w'"
  by (simp add: calm_def)

text \<open>The hot file: the ledger rows of files only.\<close>

lemma ensure_open_world:
  "ensure_open now hw w = ((hw', w'), ok) \<Longrightarrow>
     lg_epochs (w_ledger w') = lg_epochs (w_ledger w) \<and> world.more w' = world.more w"
  by (auto simp: ensure_open_def Let_def dest: insert_file_epochs split: if_splits option.splits)

lemma hot_rotate_world:
  "hot_rotate now hw w = ((hw', w'), ok) \<Longrightarrow>
     lg_epochs (w_ledger w') = lg_epochs (w_ledger w) \<and> world.more w' = world.more w"
  by (auto simp: hot_rotate_def Let_def dest!: ensure_open_world)

lemma hot_append_world:
  "hot_append enc now r hw w = ((hw', w'), res) \<Longrightarrow>
     lg_epochs (w_ledger w') = lg_epochs (w_ledger w) \<and> world.more w' = world.more w"
  by (cases "hot_rotate now hw w")
    (auto simp: hot_append_def Let_def dest!: hot_rotate_world split: if_splits option.splits prod.splits)

lemma hot_open_or_recover_world:
  "hot_open_or_recover now dir dev seq seg w = ((hw', w'), ok) \<Longrightarrow>
     lg_epochs (w_ledger w') = lg_epochs (w_ledger w) \<and> world.more w' = world.more w"
  by (auto simp: hot_open_or_recover_def hot_open_def Let_def dest!: ensure_open_world split: if_splits option.splits)

lemma more_db: "world.more w' = world.more (w :: 'd planes) \<Longrightarrow> w_db w' = w_db w"
  by (cases w, cases w') simp

lemmas calm_hot = calm_world [OF _ more_db]

section \<open>Commits and the pipeline\<close>

context lmdb_store
begin

lemma add_records_keys:
  "add_records C rs x k = Some v \<Longrightarrow> x k = Some v \<or> (\<exists>t q. k = k_record_ts t q)"
  using add_records_cases [of C rs x k v] by (auto simp: record_key_def)

lemma stage_index_kept:
  assumes "stage_lmdb_with_meta L C db records tol meta = Some (db', out)"
  shows "index_kept view db db'"
  using batch_steps [OF assms] by (simp add: index_kept_def)

lemma commit_calm:
  assumes "commit_batch_with_meta L C now records tol meta w = (w', ok)"
  shows "calm view w w'"
proof (cases "stage_lmdb_with_meta L C (w_db w) records tol meta")
  case None
  then show ?thesis using assms by (simp add: commit_batch_with_meta_def)
next
  case (Some r)
  obtain db anomalies ext_meta archives where r: "r = (db, anomalies, ext_meta, archives)" by (cases r)
  have "w_db w' = db" "lg_epochs (w_ledger w') = lg_epochs (w_ledger w)"
    using assms by (auto simp: commit_batch_with_meta_def stage_sqlite_def Some r case_prod_beta split: if_splits)
  then show ?thesis
    using batch_record_ts [OF Some [unfolded r]] add_records_keys [of C records "view (qm_record_ts (w_db w))"]
      stage_index_kept [OF Some [unfolded r]]
    by (auto simp: calm_def)
qed

lemma flush_calm: "flush_batch L C now p w = ((p', w'), ok) \<Longrightarrow> calm view w w'"
  by (auto simp: flush_batch_def Let_def split: if_splits prod.splits dest: commit_calm)

lemma rotate_calm: "rotate_hot now p w = ((p', w'), ok) \<Longrightarrow> calm view w w'"
  by (auto simp: rotate_hot_def split: prod.splits dest!: hot_rotate_world intro: calm_hot)

lemma barrier_calm: "file_barrier L C now r p w = ((p', w'), ok) \<Longrightarrow> calm view w w'"
  by (auto simp: file_barrier_def split: if_splits prod.splits dest!: flush_calm rotate_calm intro: calm_trans)

lemma append_calm: "append_pending enc now r p w = ((p', w'), ok) \<Longrightarrow> calm view w w'"
  by (auto simp: append_pending_def Let_def split: prod.splits option.splits dest!: hot_append_world intro: calm_hot)

lemma push_calm: "push_record L C enc now r p w = ((p', w'), ok) \<Longrightarrow> calm view w w'"
  by (auto simp: push_record_def split: if_splits prod.splits dest!: barrier_calm append_calm flush_calm
      intro: calm_trans)

lemma finish_calm: "finish L C now p w = ((p', w'), ok) \<Longrightarrow> calm view w w'"
  by (auto simp: finish_def split: if_splits prod.splits dest!: flush_calm rotate_calm intro: calm_trans)

lemma push_records_calm:
  assumes "ie_lmdb env = L"
  shows "push_records env now rs (p, w) = Some (p', w') \<Longrightarrow> calm view w w'"
proof (induction rs arbitrary: p w)
  case (Cons r rs)
  obtain p1 w1 ok where "push_record L (ie_consts env) (ie_enc env) now r p w = ((p1, w1), ok)"
    using prod_cases3 by (metis prod.collapse)
  then have "calm view w w1" "push_records env now rs (p1, w1) = Some (p', w')"
    using Cons.prems push_calm [of "ie_consts env" "ie_enc env" now r p w] assms by (auto split: if_splits)
  then show ?case using Cons.IH calm_trans by blast
qed simp

end

lemma open_or_recover_calm:
  "pipeline_open_or_recover now dir dev seq seg batch tol w = (w', p) \<Longrightarrow> calm view w w'"
  by (auto simp: pipeline_open_or_recover_def split: prod.splits dest!: hot_open_or_recover_world intro: calm_hot)

section \<open>The time-out scan\<close>

lemma cleanup_pending_record_ts: "cleanup_pending L h q m = Some m' \<Longrightarrow> qm_record_ts m' = qm_record_ts m"
  by (auto simp: cleanup_pending_def elim!: bind_SomeE split: option.splits)

lemma cleanup_residual_record_ts: "cleanup_residual L h q k m = Some m' \<Longrightarrow> qm_record_ts m' = qm_record_ts m"
  by (auto simp: cleanup_residual_def elim!: bind_SomeE dest!: cleanup_pending_record_ts)

lemma ttl_expire_record_ts: "ttl_expire L now hit st m = Some m' \<Longrightarrow> qm_record_ts m' = qm_record_ts m"
  by (auto simp: ttl_expire_def Let_def count_stale_def note_timeout_def elim!: bind_SomeE split: if_splits option.splits
      dest!: cleanup_pending_record_ts cleanup_residual_record_ts)

lemma ttl_load_record_ts: "ttl_load_conn L h m = (st, m') \<Longrightarrow> qm_record_ts m' = qm_record_ts m"
  by (auto simp: ttl_load_conn_def Let_def split: option.splits)

lemma ttl_loop_record_ts: "ttl_loop L now qr_ns short_ns hits m = Some m' \<Longrightarrow> qm_record_ts m' = qm_record_ts m"
proof (induction hits arbitrary: m)
  case (Cons hit hits)
  then show ?case
    by (auto split: prod.splits if_splits elim!: bind_SomeE dest!: ttl_load_record_ts ttl_expire_record_ts)
qed simp

lemma ttl_writeback_record_ts: "ttl_writeback L cs m = Some m' \<Longrightarrow> qm_record_ts m' = qm_record_ts m"
  by (induction L cs m rule: ttl_writeback.induct) (auto elim!: bind_SomeE)

lemma scan_record_ts:
  "scan_pending_ttl L now qr_secs fin_secs db = Some (db', evs, stats) \<Longrightarrow> qm_record_ts db' = qm_record_ts db"
  by (auto simp: scan_pending_ttl_def ttl_scan_txn_def ttl_begin_def dual_db.defs Let_def elim!: bind_SomeE
      dest!: ttl_loop_record_ts ttl_writeback_record_ts split: if_splits)

text \<open>The scan moves pairs as a batch does, whatever the state of the stores.\<close>

lemma cleanup_pending_pairs:
  "cleanup_pending L h q m = Some m' \<Longrightarrow> qm_live_pair m' = qm_live_pair m \<and> epoch_of m' = epoch_of m"
  by (auto simp: cleanup_pending_def epoch_of_def elim!: bind_SomeE split: option.splits)

definition run_kept :: "('d \<Rightarrow> contents) \<Rightarrow> 'd ttl_run \<Rightarrow> 'd ttl_run \<Rightarrow> bool" where
  "run_kept view m m' \<longleftrightarrow> epoch_grows view m m' \<and>
     pairs_step (view (qm_live_pair m)) (view (qm_ep_pair m)) (view (qm_live_pair m')) (view (qm_ep_pair m'))"

lemma run_kept_trans: "run_kept view m m' \<Longrightarrow> run_kept view m' m'' \<Longrightarrow> run_kept view m m''"
  unfolding run_kept_def using epoch_grows_trans pairs_step_trans by blast

lemma run_kept_same:
  "qm_live_pair m' = qm_live_pair m \<Longrightarrow> epoch_of m' = epoch_of m \<Longrightarrow> run_kept view m m'"
  by (simp add: run_kept_def epoch_grows_def epoch_of_def)

context lmdb_store
begin

lemma ttl_expire_kept:
  assumes "ttl_expire L now hit st m = Some m'"
  shows "run_kept view m m'"
proof -
  obtain d e b m1 t c where mi: "migrated view (th_q hit) timed_out m d e b"
    and cp: "cleanup_pending L (th_conn hit) (th_q hit) (m\<lparr>qm_live_pair := d, qm_ep_pair := e\<rparr>) = Some m1"
    and m': "m' = (if b then note_timeout now hit st else count_stale) (m1\<lparr>qm_ttl := t\<rparr>)"
    by (rule ttl_expire_Some [OF assms])
  have step: "pairs_step (view (qm_live_pair m)) (view (qm_ep_pair m)) (view d) (view e)"
    by (rule migrated_pairs_step [OF mi]) simp
  then have "run_kept view m (m\<lparr>qm_live_pair := d, qm_ep_pair := e\<rparr>)"
    by (simp add: run_kept_def epoch_grows_def pairs_step_def)
  also have "run_kept view (m\<lparr>qm_live_pair := d, qm_ep_pair := e\<rparr>) m'"
    using cleanup_pending_pairs [OF cp]
    by (intro run_kept_same) (simp_all add: m' note_timeout_def count_stale_def epoch_of_def Let_def)
  finally (run_kept_trans) show ?thesis .
qed

lemma ttl_loop_kept: "ttl_loop L now t s hits m = Some m' \<Longrightarrow> run_kept view m m'"
proof (induction hits arbitrary: m)
  case Nil
  then show ?case by (simp add: run_kept_same)
next
  case (Cons hit hits)
  obtain st ma where l: "ttl_load_conn L (th_conn hit) m = (st, ma)" by force
  then have same: "run_kept view m ma"
    by (intro run_kept_same) (auto simp: ttl_load_conn_def epoch_of_def Let_def split: option.splits)
  have "run_kept view ma m'"
    using Cons.prems Cons.IH ttl_expire_kept run_kept_trans by (fastforce simp: l elim!: bind_SomeE split: if_splits)
  then show ?case using same run_kept_trans by blast
qed

lemma ttl_writeback_kept: "ttl_writeback L cs m = Some m' \<Longrightarrow> run_kept view m m'"
proof (induction L cs m rule: ttl_writeback.induct)
  case (2 L h st cs m)
  then show ?case
    by (auto elim!: bind_SomeE simp: run_kept_def epoch_grows_def)
qed (simp add: run_kept_same)

lemma scan_index_kept:
  assumes "scan_pending_ttl L now qr_secs fin_secs db = Some (db', evs, stats)"
  shows "index_kept view db db'"
proof (cases "qr_secs = 0")
  case False
  then obtain n hits m m' where m: "ttl_loop L now (sat_mul64 qr_secs 1000000000) (ttl_short_ns qr_secs fin_secs) hits
      ((ttl_begin db)\<lparr>tr_stats := (tr_stats (ttl_begin db))\<lparr>tt_scanned := n\<rparr>\<rparr>) = Some m"
    "ttl_writeback L (tr_conns m) m = Some m'" "db' = dual_db.truncate m'"
    using assms by (auto simp: scan_pending_ttl_def ttl_scan_txn_def Let_def elim!: bind_SomeE)
  note k = run_kept_trans [OF ttl_loop_kept [OF m(1)] ttl_writeback_kept [OF m(2)]]
  then show ?thesis
    by (simp add: m(3) run_kept_def index_kept_def epoch_grows_def ttl_begin_def dual_db.defs)
qed (use assms in \<open>simp add: scan_pending_ttl_def\<close>)

end

section \<open>The handlers\<close>

definition still :: "('d \<Rightarrow> contents) \<Rightarrow> 'd live_ingest \<Rightarrow> 'd live_ingest \<Rightarrow> bool" where
  "still view s s' \<longleftrightarrow> calm view (li_planes s) (li_planes s') \<and>
     rg_frozen (li_reg s') = rg_frozen (li_reg s) \<and> rg_epoch_num (li_reg s') = rg_epoch_num (li_reg s)"

lemma still_refl [simp, intro!]: "still view s s"
  by (simp add: still_def)

lemma still_trans [trans]: "still view s s' \<Longrightarrow> still view s' s'' \<Longrightarrow> still view s s''"
  unfolding still_def using calm_trans by metis

lemma still_local:
  "li_reg s' = li_reg s \<Longrightarrow> lg_epochs (w_ledger (li_world s')) = lg_epochs (w_ledger (li_world s)) \<Longrightarrow> still view s s'"
  by (simp add: still_def calm_def li_planes_def)

lemma still_planes:
  "calm view (li_planes s) w \<Longrightarrow> still view s (put_planes w s)"
  by (simp add: still_def calm_def li_planes_def put_planes_def)

lemma still_planes_pipelines:
  "calm view (li_planes s) w \<Longrightarrow> still view s (put_planes w (s\<lparr>li_pipelines := ps\<rparr>))"
  by (simp add: still_def calm_def li_planes_def put_planes_def)

lemma feed_still: "feed_decoder env key data s = (recs, s') \<Longrightarrow> still view s s'"
  by (auto simp: feed_decoder_def Let_def split: prod.splits intro: still_local)

lemma upd_stats_still [simp, intro!]: "still view s (upd_stats f s)"
  by (rule still_local) (simp_all add: upd_stats_def)

lemma audit_still [simp, intro!]: "still view s (audit now kind dev seg detail s)"
  by (rule still_local) (simp_all add: audit_def put_ledger_def)

lemma pipeline_still:
  assumes "pipeline_for now dev s = (s', p)"
  shows "still view s s'"
proof (cases "map_of (li_pipelines s) (uint dev)")
  case None
  obtain w q where w: "pipeline_open_or_recover (ck_secs now) (dev_dir (li_hot_root s) dev) (uint dev) 0
      HOT_SEGMENT_SIZE (li_batch_size s) (li_ack_tol s) (li_planes s) = (w, q)" by force
  then have "still view s (put_planes w s)" using still_planes open_or_recover_calm by blast
  moreover have "still view (put_planes w s) s'"
    using assms by (auto simp: pipeline_for_def None w Let_def split: option.splits intro!: still_local)
  ultimately show ?thesis by (rule still_trans)
qed (use assms in \<open>auto simp: pipeline_for_def\<close>)

context lmdb_store
begin

lemma on_append_still:
  assumes "ie_lmdb env = L" "on_append env now dev seg data s = Some s'"
  shows "still view s s'"
proof -
  obtain recs s1 where f: "feed_decoder env (dev, seg) data s = (recs, s1)" by force
  let ?s = "s1\<lparr>li_total_records := li_total_records s1 + of_nat (length recs)\<rparr>"
  obtain s2 pipe where p: "pipeline_for now dev ?s = (s2, pipe)" by force
  have "still view s s1" by (rule feed_still [OF f])
  also have "still view s1 ?s" by (rule still_local) simp_all
  also have "still view ?s s2" by (rule pipeline_still [OF p])
  also have "still view s2 s'"
  proof (cases pipe)
    case (Some q)
    then obtain q' w where "push_records env (ck_secs now) recs (q, li_planes s2) = Some (q', w)"
      "s' = put_planes w (s2\<lparr>li_pipelines := AList.update (uint dev) q' (li_pipelines s2)\<rparr>)"
      using assms(2) f p by (auto simp: on_append_def Let_def elim!: bind_SomeE)
    then show ?thesis using push_records_calm [OF assms(1)] still_planes_pipelines by blast
  qed (use assms(2) f p in \<open>simp add: on_append_def\<close>)
  finally show ?thesis .
qed

lemma on_sealed_still:
  assumes "ie_lmdb env = L"
  shows "still view s (on_sealed env now dev seg s)"
proof -
  let ?s = "case map_of (li_pipelines s) (uint dev) of
            None \<Rightarrow> s
          | Some p \<Rightarrow>
              let ((p, w), _) = finish (ie_lmdb env) (ie_consts env) (ck_secs now) p (li_planes s)
              in put_planes w (s\<lparr>li_pipelines := AList.update (uint dev) p (li_pipelines s)\<rparr>)"
  have "still view s ?s"
    using assms finish_calm by (auto split: option.splits prod.splits intro!: still_planes_pipelines)
  also have "still view ?s (on_sealed env now dev seg s)"
    unfolding on_sealed_def Let_def [of ?s] by (rule still_local) (auto simp: upd_stats_def split: option.splits)
  finally show ?thesis .
qed

lemma drain_event_still:
  assumes "ie_lmdb env = L" "drain_event env now e s = Some s'"
  shows "still view s s'"
proof (cases e)
  case (Append dev seg off data)
  then show ?thesis using assms on_append_still by simp
next
  case (Sealed dev seg n)
  then show ?thesis using assms on_sealed_still by auto
qed (use assms(2) in \<open>auto intro!: still_local simp: upd_stats_def audit_def put_ledger_def\<close>)

lemma drain_events_still:
  assumes "ie_lmdb env = L"
  shows "drain_events env now es s = Some s' \<Longrightarrow> still view s s'"
  by (induction es arbitrary: s) (auto elim!: bind_SomeE dest!: drain_event_still [OF assms] intro: still_trans)

end

end
