(* ===== verification/Ingest_Props.thy ===== *)
theory Ingest_Props
  imports Ingest_Frame Ingest_Flow
begin

text \<open>
  Properties of the live ingest over any run of its main loop.  A run is made of rotations and of steps
  that leave the epochs alone (\<open>ingest_run\<close>): the epochs stay in order, and refills end.
\<close>

section \<open>The remaining handlers\<close>

lemma count_still [simp, intro!]:
  "still view s (frame_dropped s)" "still view s (count_chunk s)" "still view s (decrypt_dropped s)"
  by (simp_all add: frame_dropped_def count_chunk_def decrypt_dropped_def)

lemma place_payload_still:
  "place_payload env dev seg off n payload s = Some (evs, s') \<Longrightarrow> still view s s'"
  by (auto simp: place_payload_def elim!: bind_SomeE split: option.splits intro: still_local)

lemma place_entries_still:
  "place_entries env dev seg entries (evs, s) = Some (evs', s') \<Longrightarrow> still view s s'"
proof (induction entries arbitrary: evs s)
  case (Cons e entries)
  then obtain evs1 s1 where p:
    "place_payload env dev seg (ce_start_offset e) (ce_chunk_len e) (ce_payload e) (count_chunk s) = Some (evs1, s1)"
    "place_entries env dev seg entries (evs @ evs1, s1) = Some (evs', s')"
    by (auto elim!: bind_SomeE)
  have "still view s (count_chunk s)" by (rule count_still)
  also have "still view (count_chunk s) s1" by (rule place_payload_still [OF p(1)])
  also have "still view s1 s'" by (rule Cons.IH [OF p(2)])
  finally show ?case .
qed simp

lemma refill_stepE:
  assumes "refill_step env now key s = Some (s', qs)"
  obtains s1 st st' events r where "li_reg s1 = li_reg s" "li_world s1 = li_world s"
    "drain_events env now (filter (\<lambda>e. \<not> is_seal_gap e) events) s1 = Some s'"
    "map_of (li_refills s) key = Some st" "rf_rounds st' = rf_rounds st + 1"
    "seal (fst key) (snd key) (rf_sealed_size st) (li_reassembler s) = (events, r)" "li_reassembler s1 = r"
    "li_refills s1 = (if list_ex is_sealed events \<or> GAP_MAX_ROUNDS \<le> rf_rounds st' then AList.delete key (li_refills s)
       else AList.update key st' (li_refills s))"
proof -
  obtain st where st: "map_of (li_refills s) key = Some st" using assms by (auto simp: refill_step_def elim!: bind_SomeE)
  obtain events r where ev: "seal (fst key) (snd key) (rf_sealed_size st) (li_reassembler s) = (events, r)" by force
  define st' where "st' = (case seal_gap_of events of None \<Rightarrow> st | Some n \<Rightarrow> st\<lparr>rf_last_expected := n\<rparr>)
    \<lparr>rf_rounds := rf_rounds (case seal_gap_of events of None \<Rightarrow> st | Some n \<Rightarrow> st\<lparr>rf_last_expected := n\<rparr>) + 1\<rparr>"
  have rounds: "rf_rounds st' = rf_rounds st + 1" by (simp add: st'_def split: option.splits)
  define s0 where "s0 = s\<lparr>li_reassembler := r\<rparr>"
  show thesis
  proof (cases "list_ex is_sealed events")
    case True
    show thesis
      by (rule that [of "(upd_stats (\<lambda>t. t\<lparr>st_resolved_gaps := st_resolved_gaps t + 1\<rparr>) s0)
          \<lparr>li_refills := AList.delete key (li_refills s)\<rparr>", OF _ _ _ st rounds ev])
        (use assms True st ev in \<open>auto simp: refill_step_def Let_def upd_stats_def s0_def elim!: bind_SomeE\<close>)
  next
    case False
    show thesis
      by (rule that [of "s0\<lparr>li_refills := (if GAP_MAX_ROUNDS \<le> rf_rounds st' then AList.delete key (li_refills s)
          else AList.update key st' (li_refills s))\<rparr>", OF _ _ _ st rounds ev])
        (use assms False st ev in \<open>auto simp: refill_step_def Let_def s0_def st'_def elim!: bind_SomeE\<close>)
  qed
qed

context lmdb_store
begin

lemma on_batch_still:
  assumes "ie_lmdb env = L" "on_batch env now payload s = Some s'"
  shows "still view s s'"
proof (cases "ie_decode_batch env payload")
  case (Some b)
  obtain s0 evs s1 where s: "s0 = upd_stats (\<lambda>t. t\<lparr>st_batches := st_batches t + 1\<rparr>) s"
    "place_entries env (cb_dev_id b) (cb_segment_seq b) (cb_entries b) ([], s0) = Some (evs, s1)"
    "drain_events env now evs s1 = Some s'"
    using assms(2) by (auto simp: on_batch_def Some elim!: bind_SomeE)
  show ?thesis
    using still_trans [OF still_trans [OF upd_stats_still place_entries_still [OF s(2) [unfolded s(1)]]]
        drain_events_still [OF assms(1) s(3)]] .
qed (use assms(2) in \<open>auto simp: on_batch_def\<close>)

lemma on_chunk_still:
  assumes "ie_lmdb env = L" "on_chunk env now payload s = Some s'"
  shows "still view s s'"
proof (cases "ie_decode_chunk env payload")
  case (Some f)
  show ?thesis
  proof (cases "cf_ref_only f")
    case False
    then obtain evs s1 where s: "place_payload env (cf_dev_id f) (cf_segment_seq f) (cf_start_offset f)
        (cf_chunk_len f) (drop (ie_chunk_header_len env) payload) (count_chunk s) = Some (evs, s1)"
      "drain_events env now evs s1 = Some s'"
      using assms(2) by (auto simp: on_chunk_def Some Let_def elim!: bind_SomeE)
    show ?thesis
      using still_trans [OF still_trans [OF count_still(2) place_payload_still [OF s(1)]]
          drain_events_still [OF assms(1) s(2)]] .
  qed (use assms(2) Some in \<open>auto simp: on_chunk_def\<close>)
qed (use assms(2) in \<open>auto simp: on_chunk_def\<close>)

lemma on_seal_still:
  assumes "ie_lmdb env = L" "on_seal env now payload s = Some s'"
  shows "still view s s'"
proof (cases "ie_decode_seal env payload")
  case (Some f)
  obtain s0 evs r where s: "s0 = upd_stats (\<lambda>t. t\<lparr>st_seals := st_seals t + 1\<rparr>) s"
    "drain_events env now evs (s0\<lparr>li_reassembler := r\<rparr>) = Some s'"
    using assms(2) by (auto simp: on_seal_def Some Let_def split: prod.splits)
  have "still view s0 (s0\<lparr>li_reassembler := r\<rparr>)" by (rule still_local) simp_all
  then show ?thesis
    using still_trans [OF still_trans [OF upd_stats_still] drain_events_still [OF assms(1) s(2)]] s(1) by blast
qed (use assms(2) in \<open>auto simp: on_seal_def\<close>)

lemma refill_step_still:
  assumes "ie_lmdb env = L" "refill_step env now key s = Some (s', qs)"
  shows "still view s s'"
proof -
  obtain s1 evs where s1: "li_reg s1 = li_reg s" "li_world s1 = li_world s" "drain_events env now evs s1 = Some s'"
    by (rule refill_stepE [OF assms(2)]) (rule that)
  have "still view s s1" by (rule still_local) (simp_all add: s1)
  then show ?thesis using still_trans drain_events_still [OF assms(1) s1(3)] by blast
qed

lemma ttl_scan_still:
  assumes "ie_lmdb env = L"
  shows "still view s (ttl_scan env now s)"
proof (cases "scan_pending_ttl L (ck_ns now) (li_qr_timeout_secs s) (li_fin_short_secs s) (rg_db (li_reg s))")
  case (Some r)
  then obtain db evs stats where r: "r = (db, evs, stats)" by (cases r)
  have "qm_record_ts db = qm_record_ts (rg_db (li_reg s))" using scan_record_ts Some r by blast
  moreover have "index_kept view (rg_db (li_reg s)) db" using scan_index_kept Some r by blast
  ultimately show ?thesis
    by (simp add: ttl_scan_def Some r Let_def still_def calm_def li_planes_def put_ledger_def assms)
qed (simp add: ttl_scan_def assms)

lemma refill_all_still:
  assumes "ie_lmdb env = L"
  shows "refill_all env now keys s = Some (s', qs) \<Longrightarrow> still view s s'"
  by (induction keys arbitrary: s s' qs)
    (auto elim!: bind_SomeE dest!: refill_step_still [OF assms] intro: still_trans)

end

section \<open>The epochs stay in order\<close>

text \<open>Names, bounds and keys: what pruned replays rely on.\<close>

definition ingest_inv :: "('d \<Rightarrow> contents) \<Rightarrow> 'd live_ingest \<Rightarrow> bool" where
  "ingest_inv view s \<longleftrightarrow> registry_wf (li_reg s) \<and> bounds_true view (li_reg s) (w_ledger (li_world s)) \<and>
     (\<forall>e \<in> epoch_envs (li_reg s). record_keys_ok view e)"

lemma registry_wf_names:
  "rg_frozen reg' = rg_frozen reg \<Longrightarrow> rg_epoch_num reg' = rg_epoch_num reg \<Longrightarrow> registry_wf reg' = registry_wf reg"
  by (simp add: registry_wf_def rg_names_def)

lemma still_inv:
  assumes "still view s s'" "ingest_inv view s"
  shows "ingest_inv view s'"
proof -
  note st = assms(1) [unfolded still_def calm_def]
  have cur: "record_keys_ok view (epoch_of (rg_db (li_reg s)))"
    and old: "\<forall>e \<in> snd ` set (rg_frozen (li_reg s)). record_keys_ok view e"
    using assms(2) by (auto simp: ingest_inv_def epoch_envs_def)
  have "record_keys_ok view (epoch_of (rg_db (li_reg s')))"
    unfolding record_keys_ok_def
  proof (intro allI impI)
    fix k
    assume "view (ep_record_ts (epoch_of (rg_db (li_reg s')))) k \<noteq> None"
    then show "\<exists>t q. k = k_record_ts t q" using st cur unfolding record_keys_ok_def epoch_of_def li_planes_def by simp metis
  qed
  then have "\<forall>e \<in> epoch_envs (li_reg s'). record_keys_ok view e" using old st by (auto simp: epoch_envs_def)
  moreover have "bounds_true view (li_reg s') (w_ledger (li_world s'))"
    using assms(2) st by (simp add: ingest_inv_def bounds_true_def li_planes_def)
  ultimately show ?thesis
    using assms(2) st registry_wf_names [of "li_reg s'" "li_reg s"] by (simp add: ingest_inv_def)
qed

lemma update_append: "k \<notin> fst ` set xs \<Longrightarrow> AList.update k v xs = xs @ [(k, v)]"
  by (induction xs) auto

text \<open>A rotation freezes the current epoch under its name and opens the next one.\<close>

lemma rotated_frozen:
  assumes "registry_wf reg"
  shows "set (rg_frozen (fst (rotate_epoch fresh reg))) \<subseteq>
    insert (epoch_name (rg_epoch_num reg), epoch_of (rg_db reg)) (set (rg_frozen reg))"
  using assms by (auto simp: registry_wf_def rg_names_def rotate_epoch_def Let_def update_append AList.delete_eq)

lemma rotated_envs:
  assumes "registry_wf reg"
  shows "epoch_envs (fst (rotate_epoch fresh reg)) \<subseteq> insert fresh (epoch_envs reg)"
proof -
  have "epoch_of (rg_db (fst (rotate_epoch fresh reg))) \<in> insert fresh (epoch_envs reg)"
    using assms by (auto simp: registry_wf_def rg_names_def rotate_epoch_def Let_def open_or_create_def update_append
        epoch_envs_def image_iff dest!: map_of_SomeD split: option.splits) force
  then show ?thesis using rotated_frozen [OF assms, of fresh] by (force simp: epoch_envs_def)
qed

lemma maybe_rotateE:
  assumes "maybe_rotate_epoch env s = Some s'"
  obtains "s' = s"
  | lo hi n g where "current_epoch_bounds (ie_lmdb env) (li_reg s) = Some (lo, hi, n)"
      "upsert_epoch_boundary (frozen_bounds (rg_epoch_num (li_reg s)) lo hi n) (w_ledger (li_world s)) = Some g"
      "s' = (put_ledger g s)\<lparr>li_reg := fst (rotate_epoch (ie_fresh env) (li_reg s))\<rparr>"
proof (cases "epoch_should_rotate (ie_disk_size env) (li_reg s) = Some True")
  case True
  then show thesis
    using assms that(2) by (cases "rotate_epoch (ie_fresh env) (li_reg s)") (auto simp: maybe_rotate_epoch_def elim!: bind_SomeE)
next
  case False
  then show thesis using assms that(1) by (auto simp: maybe_rotate_epoch_def elim!: bind_SomeE split: if_splits)
qed

text \<open>A rotation stores the bounds of the epoch that it freezes.\<close>

context lmdb_store
begin

lemma key_ts [simp]: "record_key_ts (k_record_ts t q) = Some t"
  by (simp add: record_key_ts_def k_record_ts_def slice_get_def)

lemma current_bounds:
  assumes "current_epoch_bounds L reg = Some (lo, hi, n)" "record_keys_ok view (epoch_of (rg_db reg))"
    and "view (qm_record_ts (rg_db reg)) (k_record_ts t q) \<noteq> None"
  shows "in_boundary (frozen_bounds old lo hi n) t"
proof -
  let ?d = "qm_record_ts (rg_db reg)"
  obtain first last where b: "lm_first L ?d = Some first" "lm_last L ?d = Some last"
    "lo = Option.bind first (record_key_ts \<circ> fst)" "hi = Option.bind last (record_key_ts \<circ> fst)"
    using assms(1) by (auto simp: current_epoch_bounds_def Let_def elim!: bind_SomeE)
  note ex = first_view [OF b(1)] last_view [OF b(2)]
  have "first \<noteq> None" "last \<noteq> None" using ex assms(3) by (auto simp: extreme_of_def split: option.splits)
  then obtain k1 v1 k2 v2 where f: "first = Some (k1, v1)" "last = Some (k2, v2)" by auto
  then have v: "view ?d k1 = Some v1" "view ?d k2 = Some v2" "k1 \<le> k_record_ts t q" "k_record_ts t q \<le> k2"
    using ex assms(3) by (auto simp: extreme_of_def)
  obtain t1 q1 t2 q2 where k: "k1 = k_record_ts t1 q1" "k2 = k_record_ts t2 q2"
    using assms(2) v(1,2) by (force simp: record_keys_ok_def epoch_of_def)
  have "t1 \<le> t" "t \<le> t2"
    using v(3,4) by (auto simp: k k_record_ts_def ts_key_le)
  then show ?thesis by (simp add: in_boundary_def in_ts_def frozen_bounds_def b f k)
qed

lemma epoch_rotation_inv:
  assumes "ie_lmdb env = L" "record_keys_ok view (ie_fresh env)"
    and "maybe_rotate_epoch env s = Some s'" "ingest_inv view s"
  shows "ingest_inv view s'"
  using assms(3)
proof (rule maybe_rotateE)
  assume "s' = s"
  then show ?thesis using assms(4) by simp
next
  let ?reg = "li_reg s" and ?g = "w_ledger (li_world s)"
  let ?reg' = "fst (rotate_epoch (ie_fresh env) ?reg)" and ?cur = "epoch_of (rg_db ?reg)"
  fix lo hi n g
  assume b0: "current_epoch_bounds (ie_lmdb env) ?reg = Some (lo, hi, n)"
    and up: "upsert_epoch_boundary (frozen_bounds (rg_epoch_num ?reg) lo hi n) ?g = Some g"
    and s0: "s' = (put_ledger g s)\<lparr>li_reg := ?reg'\<rparr>"
  have s': "li_reg s' = ?reg'" "w_ledger (li_world s') = g" by (simp_all add: s0 put_ledger_def)
  have wf: "registry_wf ?reg" and keys: "\<forall>e \<in> epoch_envs ?reg. record_keys_ok view e"
    and bounds: "bounds_true view ?reg ?g" using assms(4) by (simp_all add: ingest_inv_def)
  have dist: "epoch_name (rg_epoch_num ?reg) \<notin> fst ` set (rg_frozen ?reg)"
    using wf by (simp add: registry_wf_def rg_names_def)
  note frozen = rotated_frozen [OF wf, of "ie_fresh env"]
  have "\<forall>e \<in> epoch_envs ?reg'. record_keys_ok view e"
    using rotated_envs [OF wf, of "ie_fresh env"] keys assms(2) by blast
  moreover have "bounds_true view ?reg' g"
    unfolding bounds_true_def
  proof (intro ballI allI impI)
    fix b n' e t q
    assume b: "b \<in> set (lg_epochs g)" "eb_epoch_id b = uint n'" "(epoch_name n', e) \<in> set (rg_frozen ?reg')"
      "view (ep_record_ts e) (k_record_ts t q) \<noteq> None"
    have rows: "b = frozen_bounds (rg_epoch_num ?reg) lo hi n \<or> b \<in> set (lg_epochs ?g) \<and> eb_epoch_id b \<noteq> uint (rg_epoch_num ?reg)"
      using b(1) up by (auto simp: upsert_epoch_boundary_def frozen_bounds_def update_where_def split: if_splits)
    show "in_boundary b t"
    proof (cases "n' = rg_epoch_num ?reg")
      case True
      then have "e = ?cur" using b(3) frozen dist by (metis fst_conv image_eqI insertE prod.inject subsetD)
      then show ?thesis
        using rows b(2,4) True current_bounds [OF b0 [unfolded assms(1)], of t q] keys by (auto simp: epoch_of_def epoch_envs_def)
    next
      case False
      then have "(epoch_name n', e) \<in> set (rg_frozen ?reg)" "b \<in> set (lg_epochs ?g)"
        using b(2,3) frozen rows by (auto simp: frozen_bounds_def word_uint_eq_iff)
      then show ?thesis using bounds b(2,4) unfolding bounds_true_def by metis
    qed
  qed
  ultimately show ?thesis using registry_wf_rotate [OF wf, of "ie_fresh env"] by (simp add: ingest_inv_def s')
qed

lemma finish_all_still:
  assumes "ie_lmdb env = L"
  shows "still view s (finish_all env now devs s)"
proof (induction devs arbitrary: s)
  case (Cons dev devs)
  show ?case
  proof (cases "map_of (li_pipelines s) dev")
    case (Some p)
    obtain p' w ok where f: "finish (ie_lmdb env) (ie_consts env) (ck_secs now) p (li_planes s) = ((p', w), ok)"
      by (metis prod.collapse)
    have "still view s (put_planes w (s\<lparr>li_pipelines := AList.update dev p' (li_pipelines s)\<rparr>))"
      using finish_calm f assms still_planes_pipelines by blast
    then show ?thesis using Cons.IH still_trans Some f by (fastforce simp: Let_def)
  qed (simp add: Cons.IH)
qed simp

text \<open>A run is made of rotations and of steps that leave the epochs alone.\<close>

lemma ingest_run:
  fixes R :: "'d live_ingest \<Rightarrow> 'd live_ingest \<Rightarrow> bool" and I :: "'d live_ingest \<Rightarrow> bool"
  assumes env: "ie_lmdb env = L"
    and still: "\<And>s s'. still view s s' \<Longrightarrow> I s \<Longrightarrow> R s s'"
    and rotate: "\<And>s s'. maybe_rotate_epoch env s = Some s' \<Longrightarrow> I s \<Longrightarrow> R s s'"
    and inv: "\<And>s s'. R s s' \<Longrightarrow> I s'"
    and trans: "\<And>s s' s''. R s s' \<Longrightarrow> R s' s'' \<Longrightarrow> R s s''"
    and run: "ingest_loop env msgs s = Some s1" and start: "I s"
  shows "R s s1" "R s (finalize env now s1)"
proof -
  have timers: "R s (tick_timers env now s)" if i: "I s" for now s
  proof -
    let ?s = "s\<lparr>li_ttl_ticks := li_ttl_ticks s + 1\<rparr>" and ?t = "ttl_scan env now (s\<lparr>li_ttl_ticks := 0\<rparr>)"
    have "still view s ?s" "still view s (s\<lparr>li_ttl_ticks := 0\<rparr>)" by (rule still_local; simp)+
    then have r: "R s ?s" "R s ?t" using still [OF _ i] still_trans ttl_scan_still [OF env] by blast+
    show ?thesis
      using r trans [OF r(2)] rotate [OF _ inv [OF r(2)]] by (auto simp: tick_timers_def Let_def split: option.splits)
  qed
  have step: "R s s'" if h: "handle_msg env (now, msg) s = Some s'" and i: "I s" for now msg s s'
  proof (cases msg)
    case MsgTick
    then obtain qs where "refill_all env now (map fst (li_refills (tick_timers env now s))) (tick_timers env now s) = Some (s', qs)"
      using h by (auto simp: on_tick_def Let_def elim!: bind_SomeE)
    then have "R (tick_timers env now s) s'" by (rule still [OF refill_all_still [OF env] inv [OF timers [OF i]]])
    then show ?thesis by (rule trans [OF timers [OF i]])
  qed (use h still [OF _ i] on_batch_still [OF env] on_chunk_still [OF env] on_seal_still [OF env] in auto)
  show run': "R s s1"
    using run start
  proof (induction msgs arbitrary: s)
    case Nil
    then show ?case using still [OF still_refl] by simp
  next
    case (Cons m msgs)
    obtain now msg where m: "m = (now, msg)" by (cases m)
    obtain s2 where s2: "handle_msg env (now, msg) s = Some s2" "ingest_loop env msgs s2 = Some s1"
      using Cons.prems(1) m by (auto elim!: bind_SomeE)
    note one = step [OF s2(1) Cons.prems(2)]
    show ?case by (rule trans [OF one Cons.IH [OF s2(2) inv [OF one]]])
  qed
  show "R s (finalize env now s1)"
    unfolding finalize_def by (rule trans [OF run' still [OF finish_all_still [OF env] inv [OF run']]])
qed

lemma ingest_epochs:
  fixes s :: "'d live_ingest"
  assumes "ie_lmdb env = L" "record_keys_ok view (ie_fresh env)" "ingest_loop env msgs s = Some s1" "ingest_inv view s"
  shows "ingest_inv view s1" "ingest_inv view (finalize env now s1)"
  by (rule ingest_run [where R = "\<lambda>_. ingest_inv view" and I = "ingest_inv view", OF assms(1) _ _ _ _ assms(3,4)];
      (assumption | erule (1) still_inv | erule (1) epoch_rotation_inv [OF assms(1,2)]))+

end

text \<open>The current epoch is the highest one, as long as the numbers do not wrap.\<close>

definition current_highest :: "'d registry \<Rightarrow> bool" where
  "current_highest reg \<longleftrightarrow> (\<forall>n. epoch_name n \<in> set (rg_names reg) \<longrightarrow> n \<le> rg_epoch_num reg)"

definition names_step :: "'d registry \<Rightarrow> 'd registry \<Rightarrow> bool" where
  "names_step reg reg' \<longleftrightarrow> registry_wf reg' \<and> set (rg_names reg) \<subseteq> set (rg_names reg') \<and>
     (current_highest reg \<longrightarrow> epoch_name (- 1) \<notin> set (rg_names reg') \<longrightarrow> current_highest reg')"

lemma names_step_same:
  assumes "rg_frozen reg' = rg_frozen reg" "rg_epoch_num reg' = rg_epoch_num reg" "registry_wf reg"
  shows "names_step reg reg'"
proof -
  have "rg_names reg' = rg_names reg" using assms(1,2) by (simp add: rg_names_def)
  then show ?thesis using assms(2,3) registry_wf_names [OF assms(1,2)] by (simp add: names_step_def current_highest_def)
qed

lemma names_step_trans: "names_step reg reg' \<Longrightarrow> names_step reg' reg'' \<Longrightarrow> names_step reg reg''"
  unfolding names_step_def by blast

lemma word_le_Suc: "m \<le> n \<Longrightarrow> n \<noteq> - 1 \<Longrightarrow> m \<le> n + (1 :: u32)"
proof -
  assume "m \<le> n" "n \<noteq> - 1"
  then have "unat n \<noteq> unat (- 1 :: u32)" by (metis word_unat_eq_iff)
  moreover have "unat (- 1 :: u32) = 2 ^ 32 - 1" by (simp add: unsigned_minus_1_eq_mask mask_eq_exp_minus_1)
  ultimately have "unat n + 1 < 2 ^ 32" using unat_lt_pow [of n] by simp
  then show ?thesis using \<open>m \<le> n\<close> by (simp add: word_le_nat_alt unat_word_ariths(1))
qed

lemma names_step_rotate:
  assumes "registry_wf reg"
  shows "names_step reg (fst (rotate_epoch fresh reg))"
proof -
  let ?reg' = "fst (rotate_epoch fresh reg)"
  have names: "set (rg_names ?reg') = insert (epoch_name (rg_epoch_num reg + 1)) (set (rg_names reg))"
    using assms by (auto simp: registry_wf_def rg_names_def rotate_epoch_def Let_def update_append delete_keys)
  have "current_highest ?reg'" if "current_highest reg" "epoch_name (- 1) \<notin> set (rg_names ?reg')"
  proof -
    have "rg_epoch_num reg \<noteq> - 1" using that(2) unfolding names by (auto simp: rg_names_def)
    then show ?thesis
      using that(1) word_le_Suc unfolding current_highest_def names by (auto simp: rotate_epoch_def Let_def)
  qed
  then show ?thesis using registry_wf_rotate [OF assms, of fresh] names by (auto simp: names_step_def)
qed

context lmdb_store
begin

lemma ingest_names:
  fixes s :: "'d live_ingest"
  assumes "ie_lmdb env = L" "registry_wf (li_reg s)" "ingest_loop env msgs s = Some s1"
  shows "names_step (li_reg s) (li_reg s1)" "names_step (li_reg s) (li_reg (finalize env now s1))"
proof -
  let ?R = "\<lambda>(s :: 'd live_ingest) s'. names_step (li_reg s) (li_reg s')" and ?I = "\<lambda>s :: 'd live_ingest. registry_wf (li_reg s)"
  have still: "?R s s'" if "still view s s'" "?I s" for s s'
    by (rule names_step_same) (use that in \<open>simp_all add: still_def\<close>)
  have rotate: "?R s s'" if r: "maybe_rotate_epoch env s = Some s'" and i: "?I s" for s s'
    by (rule maybe_rotateE [OF r]) (use i in \<open>auto intro: names_step_same names_step_rotate\<close>)
  have inv: "?I s'" if "?R s s'" for s s' using that by (simp add: names_step_def)
  show "?R s s1" "?R s (finalize env now s1)"
    by (rule ingest_run [where R = ?R and I = ?I, OF assms(1) _ _ _ _ assms(3,2)];
        (erule (1) still | erule (1) rotate | erule inv | erule (1) names_step_trans))+
qed

end

section \<open>Refills end\<close>

declare split_paired_All [simp del]

fun sealing :: "event \<Rightarrow> bool" where
  "sealing (Sealed _ _ _) \<longleftrightarrow> True"
| "sealing (SeqSkipped _ _) \<longleftrightarrow> True"
| "sealing _ \<longleftrightarrow> False"

lemma seal_events:
  "seal d q n r = (evs, r') \<Longrightarrow> list_all sealing (filter (\<lambda>e. \<not> is_seal_gap e) evs)"
  by (auto simp: seal_def Let_def list_all_iff split: option.splits if_splits)

lemma on_sealed_refills [simp]: "li_refills (on_sealed env now d q s) = li_refills s"
  by (auto simp: on_sealed_def upd_stats_def put_planes_def Let_def split: option.splits prod.splits)

lemma drain_sealing:
  "list_all sealing evs \<Longrightarrow> \<exists>s'. drain_events env now evs s = Some s' \<and> li_refills s' = li_refills s"
proof (induction evs arbitrary: s)
  case (Cons e evs)
  have "\<exists>s'. drain_event env now e s = Some s' \<and> li_refills s' = li_refills s"
    using Cons.prems by (cases e) (auto simp: audit_def put_ledger_def upd_stats_def)
  then show ?case using Cons by force
qed simp

text \<open>No refill has used all its rounds.\<close>

definition refills_ok :: "'d live_ingest \<Rightarrow> bool" where
  "refills_ok s \<longleftrightarrow> distinct (map fst (li_refills s)) \<and>
     (\<forall>k st. map_of (li_refills s) k = Some st \<longrightarrow> rf_rounds st < GAP_MAX_ROUNDS)"

lemma refills_ok_update:
  "refills_ok s \<Longrightarrow> rf_rounds st < GAP_MAX_ROUNDS \<Longrightarrow> li_refills s' = AList.update k st (li_refills s) \<Longrightarrow> refills_ok s'"
  by (auto simp: refills_ok_def update_conv' distinct_update)

lemma refills_ok_delete:
  "refills_ok s \<Longrightarrow> li_refills s' = AList.delete k (li_refills s) \<Longrightarrow> refills_ok s'"
  by (auto simp: refills_ok_def delete_conv' distinct_delete split: if_splits)

lemma refills_ok_cong: "li_refills s' = li_refills s \<Longrightarrow> refills_ok s' = refills_ok s"
  by (simp add: refills_ok_def)

text \<open>One refill: gone, or one round further; the others as they were.\<close>

definition advanced :: "segment_key \<Rightarrow> 'd live_ingest \<Rightarrow> 'd live_ingest \<Rightarrow> bool" where
  "advanced k s s' \<longleftrightarrow> (\<forall>st'. map_of (li_refills s') k = Some st' \<longrightarrow>
     (\<exists>st. map_of (li_refills s) k = Some st \<and> unat (rf_rounds st') = unat (rf_rounds st) + 1))"

lemma bind_Some_map: "Option.bind x (\<lambda>s. Some (f s)) = map_option f x"
  by (cases x) simp_all

lemma refill_step_total:
  assumes "refills_ok s" "map_of (li_refills s) key = Some st0"
  shows "\<exists>s' qs. refill_step env now key s = Some (s', qs) \<and> refills_ok s' \<and> advanced key s s' \<and>
    (\<forall>k. k \<noteq> key \<longrightarrow> map_of (li_refills s') k = map_of (li_refills s) k)"
proof -
  obtain events r where ev: "seal (fst key) (snd key) (rf_sealed_size st0) (li_reassembler s) = (events, r)" by force
  have "\<exists>s1 qs. refill_step env now key s =
      map_option (\<lambda>s'. (s', qs)) (drain_events env now (filter (\<lambda>e. \<not> is_seal_gap e) events) s1)"
    by (cases "list_ex is_sealed events")
      (simp_all add: refill_step_def Let_def assms(2) ev bind_Some_map, blast+)
  then obtain s' qs where step: "refill_step env now key s = Some (s', qs)"
    using drain_sealing [OF seal_events [OF ev]] by fastforce
  obtain s1 st st' events' r' where s1: "drain_events env now (filter (\<lambda>e. \<not> is_seal_gap e) events') s1 = Some s'"
    "map_of (li_refills s) key = Some st" "rf_rounds st' = rf_rounds st + 1"
    "seal (fst key) (snd key) (rf_sealed_size st) (li_reassembler s) = (events', r')"
    "li_refills s1 = (if list_ex is_sealed events' \<or> GAP_MAX_ROUNDS \<le> rf_rounds st' then AList.delete key (li_refills s)
       else AList.update key st' (li_refills s))"
    by (rule refill_stepE [OF step]) (rule that)
  have same: "li_refills s' = li_refills s1" using drain_sealing [OF seal_events [OF s1(4)], of env now s1] s1(1) by auto
  have "rf_rounds st < GAP_MAX_ROUNDS" using assms(1) s1(2) by (simp add: refills_ok_def)
  then have "unat (rf_rounds st') = unat (rf_rounds st) + 1"
    unfolding s1(3) by (simp add: unat_word_ariths(1) GAP_MAX_ROUNDS_def word_less_nat_alt)
  then have adv: "map_of (li_refills s') key = Some st' \<Longrightarrow> advanced key s s'" using s1(2) by (simp add: advanced_def)
  have "refills_ok s' \<and> advanced key s s' \<and> (\<forall>k. k \<noteq> key \<longrightarrow> map_of (li_refills s') k = map_of (li_refills s) k)"
  proof (cases "list_ex is_sealed events' \<or> GAP_MAX_ROUNDS \<le> rf_rounds st'")
    case True
    then have d: "li_refills s' = AList.delete key (li_refills s)" using same s1(5) by simp
    then show ?thesis using refills_ok_delete [OF assms(1) d] by (simp add: advanced_def delete_conv')
  next
    case False
    then have u: "li_refills s' = AList.update key st' (li_refills s)" "rf_rounds st' < GAP_MAX_ROUNDS"
      using same s1(5) by (auto simp: not_le split: if_splits)
    then show ?thesis using refills_ok_update [OF assms(1) u(2,1)] adv by (simp add: update_conv')
  qed
  then show ?thesis using step by blast
qed

lemma refill_all_total:
  "refills_ok s \<Longrightarrow> distinct keys \<Longrightarrow> \<forall>k \<in> set keys. map_of (li_refills s) k \<noteq> None \<Longrightarrow>
   \<exists>s' qs. refill_all env now keys s = Some (s', qs) \<and> refills_ok s' \<and>
     (\<forall>k. if k \<in> set keys then advanced k s s' else map_of (li_refills s') k = map_of (li_refills s) k)"
proof (induction keys arbitrary: s)
  case (Cons key keys)
  then obtain st0 where st0: "map_of (li_refills s) key = Some st0" by auto
  obtain s1 qs1 where s1: "refill_step env now key s = Some (s1, qs1)" "refills_ok s1" "advanced key s s1"
    "\<forall>k. k \<noteq> key \<longrightarrow> map_of (li_refills s1) k = map_of (li_refills s) k"
    using refill_step_total [OF Cons.prems(1) st0] by blast
  obtain s2 qs2 where s2: "refill_all env now keys s1 = Some (s2, qs2)" "refills_ok s2"
    "\<forall>k. if k \<in> set keys then advanced k s1 s2 else map_of (li_refills s2) k = map_of (li_refills s1) k"
    using Cons.IH [OF s1(2)] Cons.prems(2,3) s1(4) by (metis distinct.simps(2) list.set_intros(2))
  have "if k \<in> set (key # keys) then advanced k s s2 else map_of (li_refills s2) k = map_of (li_refills s) k" for k
    using s1(3) s1(4) [rule_format, of k] s2(3) [rule_format, of k] Cons.prems(2)
    by (cases "k = key") (auto simp: advanced_def split: if_splits)
  then show ?case using s1(1) s2(1,2) by auto
qed simp

lemma tick_timers_refills [simp]: "li_refills (tick_timers env now s) = li_refills s"
  by (auto simp: tick_timers_def ttl_scan_def maybe_rotate_epoch_def put_ledger_def Let_def
      split: option.splits if_splits prod.splits elim!: bind_SomeE)

lemma on_tick_total:
  assumes "refills_ok s"
  shows "\<exists>s'. handle_msg env (now, MsgTick) s = Some s' \<and> refills_ok s' \<and> (\<forall>k. advanced k s s')"
proof -
  let ?s = "tick_timers env now s"
  have "refills_ok ?s" "distinct (map fst (li_refills s))" using assms refills_ok_cong [of ?s s] by (simp_all add: refills_ok_def)
  moreover have "\<forall>k \<in> set (map fst (li_refills s)). map_of (li_refills ?s) k \<noteq> None" by (simp add: map_of_eq_None_iff)
  ultimately obtain s' qs where s': "refill_all env now (map fst (li_refills s)) ?s = Some (s', qs)" "refills_ok s'"
    "\<forall>k. if k \<in> set (map fst (li_refills s)) then advanced k ?s s' else map_of (li_refills s') k = map_of (li_refills ?s) k"
    using refill_all_total [of ?s "map fst (li_refills s)" env now] by blast
  have "advanced k s s'" for k
  proof (cases "k \<in> set (map fst (li_refills s))")
    case False
    then have "map_of (li_refills s') k = None" using s'(3) by (auto simp: map_of_eq_None_iff)
    then show ?thesis by (simp add: advanced_def)
  next
    case True
    then have "advanced k ?s s'" using s'(3) by meson
    then show ?thesis by (simp add: advanced_def)
  qed
  then show ?thesis using s' by (simp add: on_tick_def Let_def)
qed

lemma pipeline_for_refills: "pipeline_for now d s = (s', p) \<Longrightarrow> li_refills s' = li_refills s"
  by (auto simp: pipeline_for_def put_planes_def Let_def split: option.splits prod.splits)

lemma on_append_refills:
  assumes "on_append env now d q c s = Some s'"
  shows "li_refills s' = li_refills s"
proof -
  obtain recs s1 where f: "feed_decoder env (d, q) c s = (recs, s1)" by force
  obtain s2 pipe where p: "pipeline_for now d (s1\<lparr>li_total_records := li_total_records s1 + of_nat (length recs)\<rparr>) = (s2, pipe)" by force
  have "li_refills s1 = li_refills s" using f by (auto simp: feed_decoder_def Let_def split: prod.splits)
  then have "li_refills s2 = li_refills s" using pipeline_for_refills [OF p] by simp
  moreover have "li_refills s' = li_refills s2"
    using assms by (cases pipe) (auto simp: on_append_def f p put_planes_def elim!: bind_SomeE)
  ultimately show ?thesis by simp
qed

text \<open>Other messages: a new refill starts at round zero, and nothing else changes.\<close>

lemma drain_event_refills:
  assumes "drain_event env now e s = Some s'" "refills_ok s"
  shows "refills_ok s'"
proof (cases e)
  case (Append d q off c)
  have "li_refills s' = li_refills s" using assms(1) on_append_refills by (simp add: Append)
  then show ?thesis using assms(2) refills_ok_cong by metis
next
  case (SealGap d q n size)
  then show ?thesis
    using assms refills_ok_update [of s "\<lparr>rf_sealed_size = size, rf_last_expected = n, rf_rounds = 0\<rparr>" s' "(d, q)"]
    by (auto simp: upd_stats_def GAP_MAX_ROUNDS_def)
qed (use assms in \<open>auto simp: refills_ok_def upd_stats_def audit_def put_ledger_def\<close>)

lemma drain_events_refills: "drain_events env now es s = Some s' \<Longrightarrow> refills_ok s \<Longrightarrow> refills_ok s'"
  by (induction es arbitrary: s) (auto elim!: bind_SomeE dest!: drain_event_refills)

lemma place_refills:
  "place_payload env d q off n payload s = Some (evs, s') \<Longrightarrow> li_refills s' = li_refills s"
  by (auto simp: place_payload_def decrypt_dropped_def upd_stats_def elim!: bind_SomeE split: option.splits)

lemma place_entries_refills:
  "place_entries env d q entries (evs, s) = Some (evs', s') \<Longrightarrow> li_refills s' = li_refills s"
  by (induction entries arbitrary: evs s)
    (auto elim!: bind_SomeE dest!: place_refills simp: count_chunk_def upd_stats_def)

lemma handle_msg_refills:
  assumes "handle_msg env (now, msg) s = Some s'" "refills_ok s"
  shows "refills_ok s'"
proof (cases msg)
  case (MsgBatch p)
  show ?thesis
  proof (cases "ie_decode_batch env p")
    case (Some b)
    let ?s = "upd_stats (\<lambda>t. t\<lparr>st_batches := st_batches t + 1\<rparr>) s"
    obtain evs s1 where s1: "place_entries env (cb_dev_id b) (cb_segment_seq b) (cb_entries b) ([], ?s) = Some (evs, s1)"
      "drain_events env now evs s1 = Some s'"
      using assms(1) by (auto simp: MsgBatch on_batch_def Some elim!: bind_SomeE)
    have "li_refills s1 = li_refills s" using place_entries_refills [OF s1(1)] by (simp add: upd_stats_def)
    then have "refills_ok s1" using assms(2) by (simp add: refills_ok_def)
    then show ?thesis by (rule drain_events_refills [OF s1(2)])
  qed (use assms in \<open>auto simp: MsgBatch on_batch_def frame_dropped_def upd_stats_def refills_ok_def\<close>)
next
  case (MsgChunk p)
  show ?thesis
  proof (cases "ie_decode_chunk env p")
    case (Some f)
    consider "s' = count_chunk s" | evs s1 where "place_payload env (cf_dev_id f) (cf_segment_seq f) (cf_start_offset f)
        (cf_chunk_len f) (drop (ie_chunk_header_len env) p) (count_chunk s) = Some (evs, s1)" "drain_events env now evs s1 = Some s'"
      using assms(1) by (auto simp: MsgChunk on_chunk_def Some Let_def elim!: bind_SomeE split: if_splits)
    then show ?thesis
    proof cases
      case 1
      then show ?thesis using assms(2) by (simp add: count_chunk_def upd_stats_def refills_ok_def)
    next
      case 2
      then show ?thesis
        using drain_events_refills place_refills assms(2) refills_ok_cong [of s1 s] by (fastforce simp: upd_stats_def count_chunk_def)
    qed
  qed (use assms in \<open>auto simp: MsgChunk on_chunk_def frame_dropped_def upd_stats_def refills_ok_def\<close>)
next
  case (MsgSeal p)
  show ?thesis
  proof (cases "ie_decode_seal env p")
    case (Some f)
    obtain evs r where r: "seal (sf_dev_id f) (sf_segment_seq f) (sf_sealed_size f) (li_reassembler s) = (evs, r)" by force
    let ?s = "(upd_stats (\<lambda>t. t\<lparr>st_seals := st_seals t + 1\<rparr>) s)\<lparr>li_reassembler := r\<rparr>"
    have "drain_events env now evs ?s = Some s'"
      using assms(1) r by (simp add: MsgSeal on_seal_def Some upd_stats_def)
    moreover have "refills_ok ?s" using assms(2) by (simp add: refills_ok_def upd_stats_def)
    ultimately show ?thesis by (rule drain_events_refills)
  qed (use assms in \<open>auto simp: MsgSeal on_seal_def frame_dropped_def upd_stats_def refills_ok_def\<close>)
next
  case MsgTick
  then show ?thesis using on_tick_total [OF assms(2), of env now] assms(1) by auto
qed

lemma ingest_loop_refills:
  "ingest_loop env msgs s = Some s' \<Longrightarrow> refills_ok s \<Longrightarrow> refills_ok s'"
proof (induction msgs arbitrary: s)
  case (Cons m msgs)
  obtain now msg where m: "m = (now, msg)" by (cases m)
  obtain s1 where s1: "handle_msg env (now, msg) s = Some s1" "ingest_loop env msgs s1 = Some s'"
    using Cons.prems(1) m by (auto elim!: bind_SomeE)
  show ?case by (rule Cons.IH [OF s1(2) handle_msg_refills [OF s1(1) Cons.prems(2)]])
qed simp

lemma ingest_loop_snoc:
  "ingest_loop env (ms @ [m]) s = Option.bind (ingest_loop env ms s) (handle_msg env m)"
  by (induction ms arbitrary: s) (auto split: Option.bind_splits)

lemma ticks_run:
  "refills_ok s \<Longrightarrow> \<exists>s'. ingest_loop env (map (\<lambda>now. (now, MsgTick)) nows) s = Some s' \<and> refills_ok s' \<and>
     (\<forall>k st. map_of (li_refills s') k = Some st \<longrightarrow> length nows \<le> unat (rf_rounds st))"
proof (induction nows rule: rev_induct)
  case (snoc now nows)
  note loop = ingest_loop_snoc
  obtain s1 where s1: "ingest_loop env (map (\<lambda>now. (now, MsgTick)) nows) s = Some s1" "refills_ok s1"
    "\<And>k st. map_of (li_refills s1) k = Some st \<Longrightarrow> length nows \<le> unat (rf_rounds st)"
    using snoc by blast
  obtain s2 where s2: "handle_msg env (now, MsgTick) s1 = Some s2" "refills_ok s2" "\<forall>k. advanced k s1 s2"
    using on_tick_total [OF s1(2)] by blast
  have "length (nows @ [now]) \<le> unat (rf_rounds st)" if "map_of (li_refills s2) k = Some st" for k st
    using s2(3) [rule_format, of k] s1(3) [of k] that by (fastforce simp: advanced_def)
  then show ?case using s1(1) s2(1,2) by (auto simp: loop)
qed simp


section \<open>Concrete runs\<close>

text \<open>A seal without the first thirty bytes of its segment.\<close>

definition gap_env :: "(bytes \<times> bytes) list ingest_env" where
  "gap_env = flow_env\<lparr>ie_decode_seal := (\<lambda>_. Some \<lparr>sf_dev_id = 1, sf_segment_seq = 0, sf_sealed_size = 69\<rparr>)\<rparr>"


end
