(* ===== verification/Export.thy ===== *)
theory Export
  imports Query Batch
begin

text \<open>
  The packet export of \<open>src/src/export.rs\<close>: rows of the record index are filtered on their summary,
  read back from the data files, filtered on their flags, and written as synthesised frames.

  \<open>WalRecord::try_decode\<close> belongs to \<open>sov_probe\<close> and is the parameter \<open>try_decode\<close>; the pcap writer
  belongs to \<open>pcap_file\<close> and is a state with the parameter \<open>write\<close>, which may fail.
\<close>

section \<open>The filter\<close>

record bpf_filter =
  bf_proto :: "u8 option"
  bf_src_ip :: "u32 option"
  bf_dst_ip :: "u32 option"
  bf_sport :: "u16 option"
  bf_dport :: "u16 option"
  bf_flags_any :: "u8 option"
  bf_flags_all :: "u8 option"

definition matches_summary :: "bpf_filter \<Rightarrow> record_summary \<Rightarrow> bool" where
  "matches_summary f s =
     (if bf_proto f \<noteq> None \<and> bf_proto f \<noteq> Some (rs_proto s) then False
      else if bf_src_ip f \<noteq> None \<and> bf_src_ip f \<noteq> Some (rs_src_ip s) then False
      else if bf_dst_ip f \<noteq> None \<and> bf_dst_ip f \<noteq> Some (rs_dst_ip s) then False
      else if bf_sport f \<noteq> None \<and> bf_sport f \<noteq> Some (rs_sport s) then False
      else if bf_dport f \<noteq> None \<and> bf_dport f \<noteq> Some (rs_dport s) then False
      else True)"

definition matches_record :: "bpf_filter \<Rightarrow> wal_record \<Rightarrow> bool" where
  "matches_record f rec =
     (if (case bf_flags_any f of None \<Rightarrow> False | Some m \<Rightarrow> wr_tcp_flags rec AND m = 0) then False
      else if (case bf_flags_all f of None \<Rightarrow> False | Some m \<Rightarrow> wr_tcp_flags rec AND m \<noteq> m) then False
      else True)"

definition filter_is_empty :: "bpf_filter \<Rightarrow> bool" where
  "filter_is_empty f \<longleftrightarrow>
     bf_proto f = None \<and> bf_src_ip f = None \<and> bf_dst_ip f = None \<and> bf_sport f = None \<and>
     bf_dport f = None \<and> bf_flags_any f = None \<and> bf_flags_all f = None"

definition flag_bit :: "wal_consts \<Rightarrow> string \<Rightarrow> u8 option" where
  "flag_bit C n =
     (if n = ''fin'' then Some (wc_fin C) else if n = ''syn'' then Some (wc_syn C)
      else if n = ''rst'' then Some (wc_rst C) else if n = ''psh'' then Some (wc_psh C)
      else if n = ''ack'' then Some (wc_ack C) else if n = ''urg'' then Some (wc_urg C) else None)"

fun parse_flags_from :: "wal_consts \<Rightarrow> u8 \<Rightarrow> string list \<Rightarrow> u8 option" where
  "parse_flags_from C bits [] = Some bits"
| "parse_flags_from C bits (n # names) =
     do { b \<leftarrow> flag_bit C n; parse_flags_from C (bits OR b) names }"

definition parse_flags :: "wal_consts \<Rightarrow> string list \<Rightarrow> u8 option" where
  "parse_flags C names = parse_flags_from C 0 names"

section \<open>Reading back\<close>

text \<open>Paths and open files are cached.  A file that the ledger does not know is read as
  \<open>/dev/null\<close>, the handle \<open>None\<close>.\<close>

record resolver =
  rv_paths :: "u32 \<Rightarrow> string option option"
  rv_handles :: "u32 \<Rightarrow> string option option"

definition resolver_new :: resolver where
  "resolver_new = \<lparr>rv_paths = Map.empty, rv_handles = Map.empty\<rparr>"

definition resolver_path :: "ledger \<Rightarrow> u32 \<Rightarrow> resolver \<Rightarrow> resolver \<times> string option" where
  "resolver_path g fid rv =
     (case rv_paths rv fid of
        Some p \<Rightarrow> (rv, p)
      | None \<Rightarrow>
          let p = file_path (uint fid) g in (rv\<lparr>rv_paths := (rv_paths rv)(fid \<mapsto> p)\<rparr>, p))"

text \<open>\<open>handle\<close>: \<open>None\<close> when a known file cannot be opened.\<close>

definition resolver_handle ::
  "ledger \<Rightarrow> files \<Rightarrow> u32 \<Rightarrow> resolver \<Rightarrow> (resolver \<times> string option) option" where
  "resolver_handle g fs fid rv =
     (case rv_handles rv fid of
        Some h \<Rightarrow> Some (rv, h)
      | None \<Rightarrow>
          let (rv, p) = resolver_path g fid rv
          in if p \<noteq> None \<and> Option.bind p fs = None then None
             else Some (rv\<lparr>rv_handles := (rv_handles rv)(fid \<mapsto> p)\<rparr>, p))"

definition handle_bytes :: "files \<Rightarrow> string option \<Rightarrow> bytes" where
  "handle_bytes fs h = (case Option.bind h fs of None \<Rightarrow> [] | Some b \<Rightarrow> b)"

text \<open>\<open>load\<close>: header, payload length at 56, payload, checks.\<close>

definition resolver_load ::
  "(bytes \<Rightarrow> (wal_record \<times> nat) option) \<Rightarrow> ledger \<Rightarrow> files \<Rightarrow> u64 \<Rightarrow> resolver \<Rightarrow>
     (resolver \<times> wal_record option) option" where
  "resolver_load try_decode g fs packet_idx rv =
     do {
       let (fid, offset) = decode_idx packet_idx;
       (rv, h) \<leftarrow> resolver_handle g fs fid rv;
       let remaining = drop (unat offset) (handle_bytes fs h);
       let hdr = take 64 remaining;
       if length hdr \<noteq> 64 then Some (rv, None)
       else do {
         let payload_len = unat (of_be32 (take 4 (drop 56 hdr)) :: u32);
         if length remaining < 64 + payload_len then Some (rv, None)
         else Some (rv, map_option fst (try_decode (take (64 + payload_len) remaining)))
       }
     }"

section \<open>Frames\<close>

definition l4_header_len :: "wal_record \<Rightarrow> nat" where
  "l4_header_len rec = (if wr_proto rec = 6 then 20 else 8)"

definition synthesize :: "wal_record \<Rightarrow> bytes" where
  "synthesize rec =
     (let src_mac = [2, 0, 0, 0, 0, 1]; dst_mac = [2, 0, 0, 0, 0, 2];
          l4_len = l4_header_len rec + length (wr_payload rec);
          sum_len = 20 + l4_len;
          l4 = (if wr_proto rec = 6
            then be16 (wr_src_port rec) @ be16 (wr_dst_port rec) @ be32 (wr_tcp_seq rec) @ be32 (wr_tcp_ack rec)
              @ [0x50, wr_tcp_flags rec] @ be16 (wr_window_size rec) @ [0, 0, 0, 0]
            else be16 (wr_src_port rec) @ be16 (wr_dst_port rec)
              @ be16 (of_nat (8 + length (wr_payload rec))) @ [0, 0])
      in dst_mac @ src_mac @ [0x08, 0x00]
         @ [0x45, 0x00, of_nat (sum_len div 256), of_nat sum_len]
         @ [0x00, 0x01, 0x40, 0x00, 0x40, ucast (wr_proto rec), 0x00, 0x00]
         @ wr_src_ip rec @ wr_dst_ip rec @ l4 @ wr_payload rec)"

section \<open>The sink\<close>

record pcap_stats =
  ps_packets :: u64
  ps_filtered :: u64
  ps_unresolved :: u64
  ps_incl_bytes :: u64
  ps_orig_bytes :: u64

definition pcap_stats_default :: pcap_stats where
  "pcap_stats_default =
     \<lparr>ps_packets = 0, ps_filtered = 0, ps_unresolved = 0, ps_incl_bytes = 0, ps_orig_bytes = 0\<rparr>"

record pcap_packet =
  pp_timestamp_ns :: u64
  pp_orig_len :: u32
  pp_data :: bytes

record 'w pcap_sink =
  sk_writer :: 'w
  sk_resolver :: resolver
  sk_stats :: pcap_stats

definition pcap_sink_new :: "'w \<Rightarrow> 'w pcap_sink" where
  "pcap_sink_new w = \<lparr>sk_writer = w, sk_resolver = resolver_new, sk_stats = pcap_stats_default\<rparr>"

definition pcap_packet_of :: "wal_record \<Rightarrow> pcap_packet" where
  "pcap_packet_of rec =
     \<lparr>pp_timestamp_ns = wr_timestamp_ns rec,
      pp_orig_len = of_nat (14 + 20 + l4_header_len rec + unat (wr_orig_payload_len rec)),
      pp_data = synthesize rec\<rparr>"

definition count_filtered :: "'w pcap_sink \<Rightarrow> 'w pcap_sink" where
  "count_filtered k = k\<lparr>sk_stats := sk_stats k\<lparr>ps_filtered := ps_filtered (sk_stats k) + 1\<rparr>\<rparr>"

definition count_unresolved :: "'w pcap_sink \<Rightarrow> 'w pcap_sink" where
  "count_unresolved k = k\<lparr>sk_stats := sk_stats k\<lparr>ps_unresolved := ps_unresolved (sk_stats k) + 1\<rparr>\<rparr>"

definition count_exported :: "pcap_packet \<Rightarrow> 'w pcap_sink \<Rightarrow> 'w pcap_sink" where
  "count_exported p k =
     k\<lparr>sk_stats := sk_stats k\<lparr>ps_packets := ps_packets (sk_stats k) + 1,
        ps_incl_bytes := ps_incl_bytes (sk_stats k) + of_nat (length (pp_data p)),
        ps_orig_bytes := ps_orig_bytes (sk_stats k) + ucast (pp_orig_len p)\<rparr>\<rparr>"

definition pcap_record ::
  "(bytes \<Rightarrow> (wal_record \<times> nat) option) \<Rightarrow> ('w \<Rightarrow> pcap_packet \<Rightarrow> 'w option) \<Rightarrow> ledger \<Rightarrow> files \<Rightarrow>
     bpf_filter \<Rightarrow> record_row \<Rightarrow> 'w pcap_sink \<Rightarrow> 'w pcap_sink option" where
  "pcap_record try_decode write g fs f row k =
     (if \<not> matches_summary f (rr_summary row) then Some (count_filtered k)
      else do {
        (rv, rec) \<leftarrow> resolver_load try_decode g fs (rr_packet_idx row) (sk_resolver k);
        let k = k\<lparr>sk_resolver := rv\<rparr>;
        case rec of
          None \<Rightarrow> Some (count_unresolved k)
        | Some rec \<Rightarrow>
            if \<not> matches_record f rec then Some (count_filtered k)
            else do {
              let p = pcap_packet_of rec;
              w \<leftarrow> write (sk_writer k) p;
              Some (count_exported p (k\<lparr>sk_writer := w\<rparr>))
            }
      })"

definition export_pcap ::
  "'d lmdb \<Rightarrow> (bytes \<Rightarrow> (wal_record \<times> nat) option) \<Rightarrow> ('w \<Rightarrow> pcap_packet \<Rightarrow> 'w option) \<Rightarrow>
     ('w \<Rightarrow> 'w option) \<Rightarrow> 'd registry \<Rightarrow> ledger \<Rightarrow> files \<Rightarrow> bpf_filter \<Rightarrow> u64 option \<Rightarrow> u64 option \<Rightarrow> 'w \<Rightarrow>
     ('w \<times> pcap_stats) option" where
  "export_pcap L try_decode write flush_writer reg g fs f start stop out =
     do {
       (k, _) \<leftarrow> replay_scan L reg g (pcap_record try_decode write g fs f) start stop (pcap_sink_new out);
       w \<leftarrow> flush_writer (sk_writer k);
       Some (w, sk_stats k)
     }"

end
