(* ===== verification/Export_Props.thy ===== *)
theory Export_Props
  imports Export Replay_Props Wal_Codec Batch_Props
begin

text \<open>
  What an export writes: for every indexed record of the window that the filter selects, one packet
  with the synthesised frame of exactly the bytes on disk; no row is left unresolved.
\<close>

section \<open>Reading a record back\<close>

text \<open>The caches say what the ledger says.\<close>

definition resolver_ok :: "ledger \<Rightarrow> resolver \<Rightarrow> bool" where
  "resolver_ok g rv \<longleftrightarrow>
     (\<forall>fid p. rv_paths rv fid = Some p \<longrightarrow> p = file_path (uint fid) g) \<and>
     (\<forall>fid h. rv_handles rv fid = Some h \<longrightarrow> h = file_path (uint fid) g)"

lemma resolver_handle_ok:
  assumes "resolver_ok g rv" "file_path (uint fid) g = Some path" "fs path \<noteq> None"
  shows "\<exists>rv'. resolver_handle g fs fid rv = Some (rv', Some path) \<and> resolver_ok g rv'"
  using assms
  by (auto simp: resolver_handle_def resolver_path_def resolver_ok_def Let_def split: option.splits)

context wal_codec
begin

lemma load_stored:
  assumes "resolver_ok (w_ledger w) rv" "stored_at enc w q r"
  shows "\<exists>rv'. resolver_load try_decode (w_ledger w) (w_fs w) q rv = Some (rv', Some r) \<and>
    resolver_ok (w_ledger w) rv'"
proof -
  have ok: "wal_ok r" by (rule stored_ok [OF assms(2)])
  obtain path pre post where s: "file_path (uint (fst (decode_idx q))) (w_ledger w) = Some path"
    "w_fs w path = Some (pre @ enc r @ post)" "length pre = unat (snd (decode_idx q))"
    using assms(2) unfolding stored_at_def by blast
  obtain rv' where rv: "resolver_handle (w_ledger w) (w_fs w) (fst (decode_idx q)) rv = Some (rv', Some path)"
    "resolver_ok (w_ledger w) rv'"
    using resolver_handle_ok [OF assms(1) s(1)] s(2) by force
  have n: "unat (word_of_nat (length (wr_payload r)) :: u32) = length (wr_payload r)"
    using ok by (simp add: wal_ok_def unat_of_nat take_bit_nat_eq_self)
  have "take 4 (drop 56 (take 64 (enc r @ post))) = take 4 (drop 56 (enc r))"
    by (simp add: enc_length drop_take min_def)
  then show ?thesis
    using rv s n enc_length [of r] decode_enc [OF ok]
    by (simp add: resolver_load_def handle_bytes_def enc_payload_len Let_def case_prod_beta)
qed

end

section \<open>One run of the sink\<close>

definition selected :: "wal_consts \<Rightarrow> bpf_filter \<Rightarrow> wal_record \<Rightarrow> bool" where
  "selected C f r \<longleftrightarrow> matches_summary f (record_summary_of C r) \<and> matches_record f r"

text \<open>The row indexes the record, which is in the data files.\<close>

definition row_of_record :: "(wal_record \<Rightarrow> bytes) \<Rightarrow> wal_consts \<Rightarrow> 'z world_scheme \<Rightarrow> record_row \<Rightarrow> wal_record \<Rightarrow> bool" where
  "row_of_record enc C w row r \<longleftrightarrow>
     rr_ts_ns row = wr_timestamp_ns r \<and> rr_summary row = record_summary_of C r
     \<and> stored_at enc w (rr_packet_idx row) r"

abbreviation collect_packets :: "pcap_packet list \<Rightarrow> pcap_packet \<Rightarrow> pcap_packet list option" where
  "collect_packets out p \<equiv> Some (out @ [p])"

text \<open>The statistics after the packets of \<open>sel\<close> out of \<open>n\<close> rows.\<close>

definition stats_of :: "nat \<Rightarrow> wal_record list \<Rightarrow> pcap_stats" where
  "stats_of n sel =
     \<lparr>ps_packets = of_nat (length sel), ps_filtered = of_nat (n - length sel), ps_unresolved = 0,
      ps_incl_bytes = of_nat (sum_list (map (length \<circ> synthesize) sel)),
      ps_orig_bytes = sum_list (map (\<lambda>r. ucast (pp_orig_len (pcap_packet_of r))) sel)\<rparr>"

context wal_codec
begin

lemma stored_unique:
  assumes "stored_at enc w q r" "stored_at enc w q r'"
  shows "r = r'"
proof -
  have "resolver_ok (w_ledger w) resolver_new" by (simp add: resolver_ok_def resolver_new_def)
  from load_stored [OF this assms(1)] load_stored [OF this assms(2)] show ?thesis by auto
qed

lemma pcap_record_step:
  assumes "row_of_record enc C w row r" "resolver_ok (w_ledger w) (sk_resolver k)"
    and "sk_stats k = stats_of n sel" "length sel \<le> n"
  shows "\<exists>k'. pcap_record try_decode collect_packets (w_ledger w) (w_fs w) f row k = Some k' \<and>
    resolver_ok (w_ledger w) (sk_resolver k') \<and>
    sk_writer k' = sk_writer k @ (if selected C f r then [pcap_packet_of r] else []) \<and>
    sk_stats k' = stats_of (Suc n) (sel @ (if selected C f r then [r] else []))"
proof -
  have r: "rr_summary row = record_summary_of C r" "stored_at enc w (rr_packet_idx row) r"
    using assms(1) by (simp_all add: row_of_record_def)
  obtain rv where rv: "resolver_load try_decode (w_ledger w) (w_fs w) (rr_packet_idx row) (sk_resolver k) = Some (rv, Some r)"
    "resolver_ok (w_ledger w) rv"
    using load_stored [OF assms(2) r(2)] by blast
  have "stats_of (Suc n) sel = (stats_of n sel)\<lparr>ps_filtered := ps_filtered (stats_of n sel) + 1\<rparr>"
    using assms(4) by (simp add: stats_of_def Suc_diff_le)
  moreover have "stats_of (Suc n) (sel @ [r]) = (stats_of n sel)\<lparr>ps_packets := ps_packets (stats_of n sel) + 1,
      ps_incl_bytes := ps_incl_bytes (stats_of n sel) + of_nat (length (synthesize r)),
      ps_orig_bytes := ps_orig_bytes (stats_of n sel) + ucast (pp_orig_len (pcap_packet_of r))\<rparr>"
    using assms(4) by (simp add: stats_of_def)
  ultimately show ?thesis
    using assms(2,3) rv r(1)
    by (auto simp: pcap_record_def selected_def count_filtered_def count_exported_def Let_def pcap_packet_of_def)
qed

lemma pcap_run:
  "list_all2 (row_of_record enc C w) rows rs \<Longrightarrow> resolver_ok (w_ledger w) (sk_resolver k) \<Longrightarrow>
   sk_stats k = stats_of n sel \<Longrightarrow> length sel \<le> n \<Longrightarrow>
   \<exists>k'. emit_all (pcap_record try_decode collect_packets (w_ledger w) (w_fs w) f) rows (k, m) =
       Some (k', m + of_nat (length rows)) \<and>
     sk_writer k' = sk_writer k @ map pcap_packet_of (filter (selected C f) rs) \<and>
     sk_stats k' = stats_of (n + length rows) (sel @ filter (selected C f) rs)"
proof (induction rows arbitrary: rs k n sel m)
  case (Cons row rows)
  then obtain r rs' where rs: "rs = r # rs'" "row_of_record enc C w row r" "list_all2 (row_of_record enc C w) rows rs'"
    by (auto simp: list_all2_Cons1)
  obtain k' where k: "pcap_record try_decode collect_packets (w_ledger w) (w_fs w) f row k = Some k'"
    "resolver_ok (w_ledger w) (sk_resolver k')"
    "sk_writer k' = sk_writer k @ (if selected C f r then [pcap_packet_of r] else [])"
    "sk_stats k' = stats_of (Suc n) (sel @ (if selected C f r then [r] else []))"
    using pcap_record_step [OF rs(2) Cons.prems(2,3,4)] by blast
  have "length (sel @ (if selected C f r then [r] else [])) \<le> Suc n" using Cons.prems(4) by simp
  from Cons.IH [OF rs(3) k(2,4) this, of "m + 1"] show ?case
    using k by (auto simp: rs(1) algebra_simps)
qed auto

end

section \<open>Exports\<close>

text \<open>Every row of the record index of an epoch is of a record in the data files: the invariant
  \<open>index_anchored\<close> of the pipeline, for any epoch.\<close>

definition epoch_anchored ::
  "('d \<Rightarrow> contents) \<Rightarrow> (wal_record \<Rightarrow> bytes) \<Rightarrow> wal_consts \<Rightarrow> 'z world_scheme \<Rightarrow> 'd epoch_env \<Rightarrow> bool" where
  "epoch_anchored view enc C w e \<longleftrightarrow>
     (\<forall>k v. view (ep_record_ts e) k = Some v \<longrightarrow>
        (\<exists>q r. k = k_record_ts (wr_timestamp_ns r) q \<and> v = v_record_summary_encode (record_summary_of C r)
           \<and> stored_at enc w q r))"

definition indexed_in :: "('d \<Rightarrow> contents) \<Rightarrow> (wal_record \<Rightarrow> bytes) \<Rightarrow> 'z world_scheme \<Rightarrow> 'd epoch_env \<Rightarrow> wal_record \<Rightarrow> bool" where
  "indexed_in view enc w e r \<longleftrightarrow>
     (\<exists>q. view (ep_record_ts e) (k_record_ts (wr_timestamp_ns r) q) \<noteq> None \<and> stored_at enc w q r)"


lemma epoch_anchored_keys: "epoch_anchored view enc C w e \<Longrightarrow> record_keys_ok view e"
  unfolding epoch_anchored_def record_keys_ok_def by blast

lemma rows_have_records:
  assumes "\<forall>e \<in> es. epoch_anchored view enc C w e"
    and "\<And>row. row \<in> set rows \<Longrightarrow> \<exists>e \<in> es. is_record view e row"
  shows "\<exists>rs. list_all2 (row_of_record enc C w) rows rs"
proof -
  have "\<exists>r. row_of_record enc C w row r" if row: "row \<in> set rows" for row
  proof -
    obtain e where e: "e \<in> es" "is_record view e row" using assms(2) row by blast
    then obtain v where v: "view (ep_record_ts e) (k_record_ts (rr_ts_ns row) (rr_packet_idx row)) = Some v"
      "v_record_summary_decode v = Some (rr_summary row)"
      by (auto simp: is_record_def bind_eq_Some_conv)
    then obtain q r where "k_record_ts (rr_ts_ns row) (rr_packet_idx row) = k_record_ts (wr_timestamp_ns r) q"
      "v = v_record_summary_encode (record_summary_of C r)" "stored_at enc w q r"
      using assms(1) e(1) unfolding epoch_anchored_def by blast
    then show ?thesis
      using v(2) by (intro exI [of _ r]) (auto simp: row_of_record_def k_record_ts_def record_summary_roundtrip)
  qed
  then show ?thesis
  proof (induction rows)
    case (Cons row rows)
    obtain r where "row_of_record enc C w row r" using Cons.prems [of row] by auto
    moreover obtain rs where "list_all2 (row_of_record enc C w) rows rs" using Cons.IH Cons.prems by auto
    ultimately show ?case by (intro exI [of _ "r # rs"]) simp
  qed auto
qed

lemma exported_rows:
  assumes codec: "wal_codec enc td"
    and anchored: "\<forall>e \<in> es. epoch_anchored view enc C w e"
    and rows: "\<And>row. row \<in> set rows \<longleftrightarrow> (\<exists>e \<in> es. is_record view e row \<and> in_ts start stop (rr_ts_ns row))"
    and rs: "list_all2 (row_of_record enc C w) rows rs"
  shows "r \<in> set rs \<longleftrightarrow> (\<exists>e \<in> es. indexed_in view enc w e r \<and> in_ts start stop (wr_timestamp_ns r))"
proof
  assume "r \<in> set rs"
  then obtain row where row: "row \<in> set rows" "row_of_record enc C w row r"
    using rs by (metis in_set_conv_nth list_all2_conv_all_nth)
  then obtain e where "e \<in> es" "is_record view e row" "in_ts start stop (rr_ts_ns row)" using rows by blast
  then show "\<exists>e \<in> es. indexed_in view enc w e r \<and> in_ts start stop (wr_timestamp_ns r)"
    using row(2) by (auto simp: indexed_in_def row_of_record_def is_record_def bind_eq_Some_conv)
next
  assume "\<exists>e \<in> es. indexed_in view enc w e r \<and> in_ts start stop (wr_timestamp_ns r)"
  then obtain e q v where e: "e \<in> es" "in_ts start stop (wr_timestamp_ns r)" "stored_at enc w q r"
    "view (ep_record_ts e) (k_record_ts (wr_timestamp_ns r) q) = Some v"
    by (auto simp: indexed_in_def)
  then obtain q' r' where r': "k_record_ts (wr_timestamp_ns r) q = k_record_ts (wr_timestamp_ns r') q'"
    "v = v_record_summary_encode (record_summary_of C r')" "stored_at enc w q' r'"
    using anchored unfolding epoch_anchored_def by blast
  then have "r' = r"
    using wal_codec.stored_unique [OF codec e(3), of r'] by (simp add: k_record_ts_def)
  let ?row = "\<lparr>rr_ts_ns = wr_timestamp_ns r, rr_packet_idx = q, rr_summary = record_summary_of C r\<rparr>"
  have "is_record view e ?row" using e(4) r'(2) \<open>r' = r\<close> by (simp add: is_record_def record_summary_roundtrip)
  then have "?row \<in> set rows" using rows [of ?row] e(1,2) by auto
  then obtain r'' where "r'' \<in> set rs" "row_of_record enc C w ?row r''"
    using rs by (metis in_set_conv_nth list_all2_conv_all_nth)
  then show "r \<in> set rs"
    using wal_codec.stored_unique [OF codec e(3), of r''] by (simp add: row_of_record_def)
qed

lemma export_complete:
  assumes "lmdb_total L view" "wal_codec enc td" "registry_wf reg" "bounds_true view reg (w_ledger w)"
    and "\<forall>e \<in> epoch_envs reg. epoch_anchored view enc C w e"
  shows "\<exists>rs. export_pcap L td collect_packets Some reg (w_ledger w) (w_fs w) f start stop [] =
      Some (map pcap_packet_of (filter (selected C f) rs), stats_of (length rs) (filter (selected C f) rs)) \<and>
    (\<forall>r. r \<in> set rs \<longleftrightarrow>
      (\<exists>e \<in> epoch_envs reg. indexed_in view enc w e r \<and> in_ts start stop (wr_timestamp_ns r)))"
proof -
  let ?emit = "pcap_record td collect_packets (w_ledger w) (w_fs w) f" and ?k = "pcap_sink_new []"
  have keys: "\<forall>e \<in> epoch_envs reg. record_keys_ok view e" using assms(5) epoch_anchored_keys by blast
  obtain rows where rows: "replay_scan L reg (w_ledger w) ?emit start stop ?k = emit_all ?emit rows (?k, 0)"
    "\<And>row. row \<in> set rows \<longleftrightarrow> (\<exists>e \<in> epoch_envs reg. is_record view e row \<and> in_ts start stop (rr_ts_ns row))"
    by (rule replay_scan_rows [OF assms(1,3,4) keys, of ?emit start stop ?k]) (rule that)
  obtain rs where rs: "list_all2 (row_of_record enc C w) rows rs"
    using rows_have_records [OF assms(5)] rows(2) by metis
  have k: "resolver_ok (w_ledger w) (sk_resolver ?k)" "sk_stats ?k = stats_of 0 []" "sk_writer ?k = []"
    by (simp_all add: pcap_sink_new_def resolver_ok_def resolver_new_def pcap_stats_default_def stats_of_def)
  obtain k' where "emit_all ?emit rows (?k, 0) = Some (k', of_nat (length rows))"
    "sk_writer k' = map pcap_packet_of (filter (selected C f) rs)"
    "sk_stats k' = stats_of (length rs) (filter (selected C f) rs)"
    using wal_codec.pcap_run [OF assms(2) rs k(1,2), of f 0] k(3) list_all2_lengthD [OF rs] by auto
  moreover note exported_rows [OF assms(2,5) rows(2) rs]
  ultimately show ?thesis
    using rows(1) by (intro exI [of _ rs]) (simp add: export_pcap_def)
qed


text \<open>One indexed record on disk.\<close>

definition export_world :: world where
  "export_world = \<lparr>w_ledger = ledger_init\<lparr>lg_files := [sample_file_row]\<rparr>,
     w_fs = [fr_path sample_file_row \<mapsto> ref_enc sample_wal]\<rparr>"

definition export_registry :: "(bytes \<times> bytes) list registry" where
  "export_registry =
     \<lparr>rg_db = no_rows\<lparr>qm_record_ts := [(k_record_ts 1000 (encode_idx 1 0),
        v_record_summary_encode (record_summary_of sample_consts sample_wal))]\<rparr>,
      rg_frozen = [], rg_epoch_num = 0, rg_epoch_max_bytes = 100\<rparr>"

definition no_filter :: bpf_filter where
  "no_filter = \<lparr>bf_proto = None, bf_src_ip = None, bf_dst_ip = None, bf_sport = None, bf_dport = None,
     bf_flags_any = None, bf_flags_all = None\<rparr>"


end
