(* ===== verification/End_To_End.thy ===== *)
theory End_To_End
  imports Ingest_Flow Ingest_Props Export_Props
begin

text \<open>
  From the wire to the export: the chunk frames of a segment and its seal go in, and an export of the
  store that they leave gives back the packets.  The theorem composes the reassembly, the decoder, the
  batch pipeline, the matcher's index, the epoch pruning and the read-back of the export.
\<close>

section \<open>Pushing without errors\<close>

lemma push_no_panic:
  assumes "push_record L C enc now r p w = (pw, True)"
  shows "\<not> append_panics L C now r p w"
proof
  assume "append_panics L C now r p w"
  then obtain p1 w1 where b: "file_barrier L C now r p w = ((p1, w1), True)"
    "\<not> hw_segment_size (pl_hot p1) < hw_offset (pl_hot p1) + rec_len64 r" "hw_file (pl_hot p1) = None"
    by (auto simp: append_panics_def split: prod.splits)
  then show False using assms by (simp add: push_record_def append_pending_def hot_append_def Let_def)
qed

lemma push_records_all:
  "push_all (ie_lmdb env) (ie_consts env) (ie_enc env) now rs p w = (pw, True) \<Longrightarrow>
   push_records env now rs (p, w) = Some pw"
proof (induction rs arbitrary: p w)
  case (Cons r rs)
  then obtain p1 w1 where "push_record (ie_lmdb env) (ie_consts env) (ie_enc env) now r p w = ((p1, w1), True)"
    "push_all (ie_lmdb env) (ie_consts env) (ie_enc env) now rs p1 w1 = (pw, True)"
    by (auto split: prod.splits if_splits)
  then show ?case using Cons.IH push_no_panic by fastforce
qed simp

section \<open>The seal of a complete segment\<close>

lemma on_seal_complete:
  assumes "ie_decode_seal env payload = Some \<lparr>sf_dev_id = d, sf_segment_seq = q, sf_sealed_size = sb_next_expected sb\<rparr>"
    and "ra_last_seq (li_reassembler s) = []" "map_of (ra_segs (li_reassembler s)) (d, q) = Some sb"
    and "map_of (li_pipelines s) (uint d) = Some p"
    and "finish (ie_lmdb env) (ie_consts env) (ck_secs now) p (li_planes s) = ((p', w'), True)"
  shows "\<exists>s'. on_seal env now payload s = Some s' \<and> li_planes s' = w' \<and> map_of (li_pipelines s') (uint d) = Some p'"
proof -
  let ?s0 = "upd_stats (\<lambda>t. t\<lparr>st_seals := st_seals t + 1\<rparr>) s"
  have "fst (seal d q (sb_next_expected sb) (li_reassembler s)) = [Sealed d q (sb_next_expected sb)]"
    using assms(2,3) by (auto simp: seal_def Let_def)
  then obtain r where r: "seal d q (sb_next_expected sb) (li_reassembler s) = ([Sealed d q (sb_next_expected sb)], r)"
    by (metis prod.collapse)
  let ?s1 = "?s0\<lparr>li_reassembler := r\<rparr>"
  have "li_planes ?s1 = li_planes s" "li_pipelines ?s1 = li_pipelines s"
    by (simp_all add: upd_stats_def li_planes_def)
  then have "li_planes (on_sealed env now d q ?s1) = w' \<and> map_of (li_pipelines (on_sealed env now d q ?s1)) (uint d) = Some p'"
    using assms(4,5) by (cases w') (auto simp: on_sealed_def Let_def upd_stats_def put_planes_def li_planes_def update_conv'
        split: option.splits)
  then show ?thesis using assms(1) r by (simp add: on_seal_def upd_stats_def)
qed

section \<open>Frames do not touch the frozen epochs\<close>

fun is_frame :: "msg \<Rightarrow> bool" where
  "is_frame (MsgChunk _) \<longleftrightarrow> True"
| "is_frame (MsgSeal _) \<longleftrightarrow> True"
| "is_frame _ \<longleftrightarrow> False"

context lmdb_store
begin

lemma frames_still:
  assumes "ie_lmdb env = L"
  shows "ingest_loop env msgs s = Some s' \<Longrightarrow> \<forall>m \<in> set msgs. is_frame (snd m) \<Longrightarrow> still view s s'"
proof (induction msgs arbitrary: s)
  case (Cons m msgs)
  obtain now f where m: "m = (now, f)" by (cases m)
  obtain s1 where s1: "handle_msg env m s = Some s1" "ingest_loop env msgs s1 = Some s'"
    using Cons.prems(1) by (auto elim!: bind_SomeE)
  have "still view s s1"
    using s1(1) Cons.prems(2) on_chunk_still [OF assms] on_seal_still [OF assms] by (cases f) (auto simp: m)
  then show ?case using Cons.IH [OF s1(2)] Cons.prems(2) still_trans by auto
qed simp

end

lemma epoch_anchored_grows: "data_grows w w' \<Longrightarrow> epoch_anchored view enc C w e \<Longrightarrow> epoch_anchored view enc C w' e"
  unfolding epoch_anchored_def using stored_at_grows by blast

lemma epoch_anchored_current:
  "w_db w = rg_db reg \<Longrightarrow> epoch_anchored view enc C w (epoch_of (rg_db reg)) \<longleftrightarrow> index_anchored view enc C w"
  by (simp add: epoch_anchored_def index_anchored_def epoch_of_def)

lemma ingest_loop_append:
  "ingest_loop env (ms @ ms') s = do { s \<leftarrow> ingest_loop env ms s; ingest_loop env ms' s }"
  by (induction ms arbitrary: s) (auto split: Option.bind_splits)

text \<open>The epochs after the frames of a device.\<close>

lemma anchored_after:
  assumes "still view s s'" "\<forall>e \<in> epoch_envs (li_reg s). epoch_anchored view enc C (li_planes s) e"
    and "data_grows (li_planes s) (li_planes s')" "index_anchored view enc C (li_planes s')"
  shows "\<forall>e \<in> epoch_envs (li_reg s'). epoch_anchored view enc C (li_planes s') e"
proof
  fix e
  assume "e \<in> epoch_envs (li_reg s')"
  then consider "e = epoch_of (rg_db (li_reg s'))" | "e \<in> epoch_envs (li_reg s)"
    using assms(1) by (auto simp: epoch_envs_def still_def)
  then show "epoch_anchored view enc C (li_planes s') e"
  proof cases
    case 1
    then show ?thesis using assms(4) epoch_anchored_current [of "li_planes s'" "li_reg s'"] by (simp add: li_planes_def)
  next
    case 2
    then show ?thesis using assms(2) epoch_anchored_grows [OF assms(3)] by blast
  qed
qed

section \<open>From chunks to packets\<close>

text \<open>C1: When the chunk frames of a segment arrive (in any order, cut anywhere, repeated), followed by its
  seal, and no push or commit reports an error, then the ingest ends without a panic, and an export
  of the store it leaves succeeds, resolves every row, and contains the packet of every captured record
  that the window and the filter select.\<close>

theorem captured_packets_are_exported:
  fixes s :: "'d live_ingest"
  assumes env: "lmdb_total (ie_lmdb env) view" "wal_codec (ie_enc env) td" "wal_stream (ie_enc env) (ie_decode_stream env) F"
    and records: "\<forall>r \<in> set rs. wal_ok r \<and> length (ie_enc env r) \<le> M \<and> fits (pl_hot p) r" "rs \<noteq> []"
    and cut: "concat ps = concat (map (ie_enc env) rs)" "\<forall>c \<in> set ps. c \<noteq> [] \<and> length c + M \<le> WAL_RESIDUAL_CAP"
      "length (concat ps) < 2 ^ 64"
    and frames: "list_all2 (\<lambda>payload i. carries env (li_key s) (d, q) (border ps i) (ps ! i) payload) payloads is"
      "set is = {..<length ps}" "budgets_hold b (sum_list (map (\<lambda>i. length (ps ! i)) is))"
      "ie_decode_seal env seal_frame = Some \<lparr>sf_dev_id = d, sf_segment_seq = q, sf_sealed_size = length (concat ps)\<rparr>"
    and start: "li_reassembler s = reassembler_new b" "map_of (li_decoders s) (d, q) = None"
      "map_of (li_pipelines s) (uint d) = Some p" "ingest_inv view s"
      "\<forall>e \<in> epoch_envs (li_reg s). epoch_anchored view (ie_enc env) (ie_consts env) (li_planes s) e"
      "pipe_inv (ie_enc env) p (li_planes s)" "\<forall>x \<in> set (pl_pending p). wal_ok (ir_rec x)"
    and works: "push_all (ie_lmdb env) (ie_consts env) (ie_enc env) (ck_secs now) rs p (li_planes s) = ((p1, w1), True)"
      "finish (ie_lmdb env) (ie_consts env) (ck_secs now) p1 w1 = ((p2, w2), True)" "lg_files_seq (w_ledger w2) < 2 ^ 32"
  shows "\<exists>s' out stats. ingest_loop env (map (\<lambda>f. (now, MsgChunk f)) payloads @ [(now, MsgSeal seal_frame)]) s = Some s' \<and>
    export_pcap (ie_lmdb env) td collect_packets Some (li_reg s') (w_ledger (li_world s')) (w_fs (li_world s')) flt start stop [] =
      Some (out, stats) \<and> ps_unresolved stats = 0 \<and>
    (\<forall>r \<in> set rs. selected (ie_consts env) flt r \<and> in_ts start stop (wr_timestamp_ns r) \<longrightarrow> pcap_packet_of r \<in> set out)"
proof -
  have store: "lmdb_store (ie_lmdb env) view" using env(1) by (simp add: lmdb_total_def)
  have enc: "enc_ok (ie_enc env)" using wal_codec.enc_length [OF env(2)] by (simp add: enc_ok_def)
  have anch: "index_anchored view (ie_enc env) (ie_consts env) (li_planes s)"
    using start(5) epoch_anchored_current [of "li_planes s" "li_reg s"] by (simp add: epoch_envs_def li_planes_def)
  have fits: "\<forall>r \<in> set rs. fits (pl_hot p) r \<and> wal_ok r" using records by auto
  note pushed = pushed_indexed [OF store enc start(6) anch fits start(7) works]
  have small: "\<forall>r \<in> set rs. wal_ok r \<and> length (ie_enc env r) \<le> M" using records(1) by auto
  obtain s1 sb where s1: "ingest_loop env (map (\<lambda>f. (now, MsgChunk f)) payloads) s = Some s1"
    "map_of (li_pipelines s1) (uint d) = Some p1" "li_planes s1 = w1" "ra_last_seq (li_reassembler s1) = []"
    "map_of (ra_segs (li_reassembler s1)) (d, q) = Some sb" "sb_next_expected sb = length (concat ps)"
    using frames_become_records [OF env(3) small records(2) cut frames(1-3) start(1,2) pipeline_for_known [OF start(3)], of now]
      push_records_all [OF works(1)] by auto
  obtain s' where s': "on_seal env now seal_frame s1 = Some s'" "li_planes s' = w2"
    using on_seal_complete [OF _ s1(4,5,2), of env seal_frame now p2 w2] frames(4) works(2) s1(3,6) by auto
  have loop: "ingest_loop env (map (\<lambda>f. (now, MsgChunk f)) payloads @ [(now, MsgSeal seal_frame)]) s = Some s'"
    using s1(1) s'(1) by (simp add: ingest_loop_append)
  have still: "still view s s'"
    by (rule lmdb_store.frames_still [OF store refl loop]) auto
  have inv: "ingest_inv view s'" by (rule still_inv [OF still start(4)])
  have anchored: "\<forall>e \<in> epoch_envs (li_reg s'). epoch_anchored view (ie_enc env) (ie_consts env) (li_planes s') e"
    by (rule anchored_after [OF still]) (use start(5) pushed s'(2) in simp_all)
  obtain out_rs where e: "export_pcap (ie_lmdb env) td collect_packets Some (li_reg s') (w_ledger (li_planes s')) (w_fs (li_planes s')) flt start stop [] =
      Some (map pcap_packet_of (filter (selected (ie_consts env) flt) out_rs), stats_of (length out_rs) (filter (selected (ie_consts env) flt) out_rs))"
    "\<And>r. r \<in> set out_rs \<longleftrightarrow> (\<exists>e \<in> epoch_envs (li_reg s'). indexed_in view (ie_enc env) (li_planes s') e r \<and> in_ts start stop (wr_timestamp_ns r))"
    using export_complete [OF env(1,2) _ _ anchored, of flt start stop] inv by (auto simp: ingest_inv_def li_planes_def)
  have "r \<in> set out_rs" if "r \<in> set rs" "in_ts start stop (wr_timestamp_ns r)" for r
  proof -
    have "indexed_in view (ie_enc env) (li_planes s') (epoch_of (rg_db (li_reg s'))) r"
      using pushed that(1) s'(2) by (auto simp: indexed_in_def epoch_of_def li_planes_def)
    then show ?thesis using e(2) that(2) by (auto simp: epoch_envs_def)
  qed
  then show ?thesis using loop e(1) by (force simp: li_planes_def stats_of_def)
qed

section \<open>A concrete capture\<close>

definition capture_env :: "(bytes \<times> bytes) list ingest_env" where
  "capture_env = flow_env\<lparr>ie_decode_seal := (\<lambda>_. Some \<lparr>sf_dev_id = 1, sf_segment_seq = 0, sf_sealed_size = 69\<rparr>)\<rparr>"

lemma capture_planes: "li_planes flow_start = sample_planes"
  by (simp add: flow_start_def live_ingest_new_def li_planes_def sample_planes_def)

lemma capture_works:
  "push_all ref_lmdb sample_consts ref_enc 0 [sample_wal] (pipeline_of 10 4 sample_hot) sample_planes =
     ((sample_pipe1, sample_planes\<lparr>w_fs := [segment_path ''hot'' 0 \<mapsto> ref_enc sample_wal]\<rparr>), True)"
  "\<exists>p2 w2. finish ref_lmdb sample_consts 0 sample_pipe1 (sample_planes\<lparr>w_fs := [segment_path ''hot'' 0 \<mapsto> ref_enc sample_wal]\<rparr>) =
     ((p2, w2), True) \<and> lg_files_seq (w_ledger w2) < 2 ^ 32"
proof -
  have "length (ref_enc sample_wal) = 69" by (simp add: ref_codec.enc_length) (simp add: sample_wal_def)
  then show "push_all ref_lmdb sample_consts ref_enc 0 [sample_wal] (pipeline_of 10 4 sample_hot) sample_planes =
     ((sample_pipe1, sample_planes\<lparr>w_fs := [segment_path ''hot'' 0 \<mapsto> ref_enc sample_wal]\<rparr>), True)"
    by (simp add: sample_push_enc)
  let ?w = "sample_planes\<lparr>w_fs := [segment_path ''hot'' 0 \<mapsto> ref_enc sample_wal]\<rparr>"
  have "qm_inv map_of (w_db ?w)" "w_ledger ?w = w_ledger sample_planes1" "w_fs ?w (segment_path ''hot'' 1) = None"
    using no_rows_inv segment_0_1 [of "''hot''"] by (simp_all add: sample_planes_def sample_planes1_def)
  from sample_finish [OF ref.lmdb_total_axioms this]
  show "\<exists>p2 w2. finish ref_lmdb sample_consts 0 sample_pipe1 ?w = ((p2, w2), True) \<and> lg_files_seq (w_ledger w2) < 2 ^ 32"
    by fastforce
qed

lemma capture_start:
  "ingest_inv map_of flow_start" "\<forall>e \<in> epoch_envs (li_reg flow_start). epoch_anchored map_of enc C w e"
  by (auto simp: ingest_inv_def flow_start_def live_ingest_new_def registry_wf_def rg_names_def bounds_true_def
      epoch_envs_def epoch_of_def epoch_anchored_def record_keys_ok_def no_rows_def)

text \<open>One record in two chunks, the second one first, the first one twice.\<close>

theorem captured_packets_are_exported_witness:
  "\<exists>s' out stats. ingest_loop capture_env (map (\<lambda>f. (\<lparr>ck_secs = 0, ck_ns = 0\<rparr>, MsgChunk f))
       [flow_frame 30 (drop 30 (ref_enc sample_wal)), flow_frame 0 (take 30 (ref_enc sample_wal)),
        flow_frame 0 (take 30 (ref_enc sample_wal))] @ [(\<lparr>ck_secs = 0, ck_ns = 0\<rparr>, MsgSeal [])]) flow_start = Some s' \<and>
     export_pcap ref_lmdb ref_try_decode collect_packets Some (li_reg s') (w_ledger (li_world s')) (w_fs (li_world s'))
       no_filter (Some 1000) None [] = Some (out, stats) \<and> ps_unresolved stats = 0 \<and> pcap_packet_of sample_wal \<in> set out"
proof -
  let ?e = "ref_enc sample_wal" and ?now = "\<lparr>ck_secs = 0, ck_ns = 0\<rparr>"
  let ?ps = "[take 30 ?e, drop 30 ?e]" and ?is = "[1, 0, 0 :: nat]"
  let ?fs = "[flow_frame 30 (drop 30 ?e), flow_frame 0 (take 30 ?e), flow_frame 0 (take 30 ?e)]"
  let ?b = "sample_budgets\<lparr>l2_segment_cap := 100, l25_conn_cap := 100, l3_global_cap := 100\<rparr>"
  have rec: "wal_ok sample_wal" "length ?e = 69" "fits (pl_hot (pipeline_of 10 4 sample_hot)) sample_wal"
    by (simp_all add: ref_codec.enc_length fits_def pipeline_of_def sample_hot_def) (simp_all add: wal_ok_def sample_wal_def)
  have "carries capture_env key k off c payload = carries flow_env key k off c payload" for key k off c payload
    by (simp add: carries_def capture_env_def cong: option.case_cong)
  then have frames: "list_all2 (\<lambda>payload i. carries capture_env (li_key flow_start) (1, 0) (border ?ps i) (?ps ! i) payload) ?fs ?is"
    using flow_frame_carries [of "drop 30 ?e" _ 30] flow_frame_carries [of "take 30 ?e" _ 0] rec(2)
    by (simp add: border_def)
  have env: "lmdb_total (ie_lmdb capture_env) map_of" "wal_codec (ie_enc capture_env) ref_try_decode"
    "wal_stream (ie_enc capture_env) (ie_decode_stream capture_env) ref_format"
    using ref.lmdb_total_axioms ref_codec.wal_codec_axioms ref_stream.wal_stream_axioms
    by (simp_all add: capture_env_def flow_env_def)
  have envs [simp]: "ie_enc capture_env = ref_enc" "ie_lmdb capture_env = ref_lmdb" "ie_consts capture_env = sample_consts"
    "ie_decode_seal capture_env = (\<lambda>_. Some \<lparr>sf_dev_id = 1, sf_segment_seq = 0, sf_sealed_size = 69\<rparr>)"
    by (simp_all add: capture_env_def flow_env_def)
  obtain p2 w2 where fin: "finish ref_lmdb sample_consts 0 sample_pipe1
      (sample_planes\<lparr>w_fs := [segment_path ''hot'' 0 \<mapsto> ?e]\<rparr>) = ((p2, w2), True)" "lg_files_seq (w_ledger w2) < 2 ^ 32"
    using capture_works(2) by blast
  have budgets: "budgets_hold ?b (sum_list (map (\<lambda>i. length (?ps ! i)) ?is))" using rec(2) by (simp add: budgets_hold_def)
  have cut: "concat ?ps = concat (map (ie_enc capture_env) [sample_wal])"
    "\<forall>c \<in> set ?ps. c \<noteq> [] \<and> length c + 69 \<le> WAL_RESIDUAL_CAP" "length (concat ?ps) < 2 ^ 64"
    using rec(2) by (auto simp: WAL_RESIDUAL_CAP_def)
  have start: "li_reassembler flow_start = reassembler_new ?b" "map_of (li_decoders flow_start) (1, 0) = None"
    "map_of (li_pipelines flow_start) (uint (1 :: u32)) = Some (pipeline_of 10 4 sample_hot)"
    by (simp_all add: flow_start_def live_ingest_new_def)
  have "\<exists>s' out stats. ingest_loop capture_env (map (\<lambda>f. (?now, MsgChunk f)) ?fs @ [(?now, MsgSeal [])]) flow_start = Some s' \<and>
    export_pcap (ie_lmdb capture_env) ref_try_decode collect_packets Some (li_reg s') (w_ledger (li_world s')) (w_fs (li_world s')) no_filter (Some 1000) None [] =
      Some (out, stats) \<and> ps_unresolved stats = 0 \<and>
    (\<forall>r \<in> set [sample_wal]. selected (ie_consts capture_env) no_filter r \<and> in_ts (Some 1000) None (wr_timestamp_ns r) \<longrightarrow> pcap_packet_of r \<in> set out)"
    by (rule captured_packets_are_exported [OF env _ _ cut frames _ budgets _ start capture_start(1)])
      (use rec fin capture_start(2) capture_works(1) sample_inv in \<open>auto simp: capture_planes pipeline_of_def\<close>)
  moreover have "selected sample_consts no_filter sample_wal" "wr_timestamp_ns sample_wal = 1000"
    by (simp_all add: selected_def no_filter_def matches_summary_def matches_record_def sample_wal_def)
  ultimately show ?thesis by (auto simp: in_ts_def)
qed

end
