(* ===== verification/Config.thy ===== *)
theory Config
  imports Meta Reassembly Registry
begin

text \<open>
  The configuration of \<open>src/src/config.rs\<close>: its records with their defaults, the layers (file,
  environment, command line), the checks, and the paths and sizes derived from it.  Reading and
  parsing the TOML file is the parameter \<open>read_toml\<close> (the crate \<open>toml\<close>), which fills absent fields
  with the defaults below; the environment and the working directory are parameters too.
\<close>

section \<open>The records and their defaults\<close>

record zenoh_config =
  zc_connect :: "string list"
  zc_listen :: "string list"

record crypto_config =
  cc_key_file :: string
  cc_key_hex :: "string option"

record storage_config =
  sc_root :: string
  sc_hot_dir :: string
  sc_warm_dir :: string
  sc_ledger_db :: string
  sc_lmdb_dir :: string
  sc_lmdb_map_size :: string

record ingest_config =
  ic_subscribe_batches :: bool
  ic_subscribe_chunks :: bool
  ic_gap_self_heal :: bool
  ic_batch_size :: u32
  ic_pending_budget_bytes :: string
  ic_segment_pending_cap :: u64
  ic_conn_pending_cap_bytes :: string
  ic_conn_evict_window_secs :: u64
  ic_conn_evict_threshold :: u32
  ic_epoch_max_bytes :: string

record analysis_config =
  ac_conn_idle_timeout_secs :: u64
  ac_qr_pending_budget :: u64
  ac_ack_tolerance :: u32
  ac_qr_timeout_secs :: u64
  ac_ttl_scan_secs :: u64
  ac_fin_short_timeout_secs :: u64
  ac_meta_binds :: "meta_bind list"

record query_config =
  qc_export_buf_size :: u32

record config =
  cf_zenoh :: zenoh_config
  cf_crypto :: crypto_config
  cf_storage :: storage_config
  cf_ingest :: ingest_config
  cf_analysis :: analysis_config
  cf_query :: query_config

definition zenoh_default :: zenoh_config where
  "zenoh_default = \<lparr>zc_connect = [], zc_listen = []\<rparr>"

definition crypto_default :: crypto_config where
  "crypto_default = \<lparr>cc_key_file = ''/etc/sovvault/keys/slimsync.key'', cc_key_hex = None\<rparr>"

definition storage_default :: storage_config where
  "storage_default = \<lparr>sc_root = ''/var/lib/sovvault'', sc_hot_dir = ''hot'', sc_warm_dir = ''warm'',
     sc_ledger_db = ''ledger.db'', sc_lmdb_dir = ''qridx'', sc_lmdb_map_size = ''64GB''\<rparr>"

definition ingest_default :: ingest_config where
  "ingest_default = \<lparr>ic_subscribe_batches = True, ic_subscribe_chunks = False, ic_gap_self_heal = True,
     ic_batch_size = 10000, ic_pending_budget_bytes = ''256MB'', ic_segment_pending_cap = 0,
     ic_conn_pending_cap_bytes = ''16MB'', ic_conn_evict_window_secs = 30, ic_conn_evict_threshold = 3,
     ic_epoch_max_bytes = ''128MB''\<rparr>"

definition analysis_default :: analysis_config where
  "analysis_default = \<lparr>ac_conn_idle_timeout_secs = 300, ac_qr_pending_budget = 4096, ac_ack_tolerance = 4,
     ac_qr_timeout_secs = 30, ac_ttl_scan_secs = 1, ac_fin_short_timeout_secs = 5, ac_meta_binds = []\<rparr>"

definition query_default :: query_config where
  "query_default = \<lparr>qc_export_buf_size = 4096\<rparr>"

definition config_default :: config where
  "config_default = \<lparr>cf_zenoh = zenoh_default, cf_crypto = crypto_default, cf_storage = storage_default,
     cf_ingest = ingest_default, cf_analysis = analysis_default, cf_query = query_default\<rparr>"

record path_overrides =
  po_root :: "string option"
  po_hot_dir :: "string option"
  po_warm_dir :: "string option"
  po_ledger_db :: "string option"
  po_lmdb_dir :: "string option"
  po_lmdb_map_size :: "string option"

section \<open>The layers\<close>

type_synonym environment = "string \<Rightarrow> string option"

definition env_str :: "environment \<Rightarrow> string \<Rightarrow> string option" where
  "env_str env key = (case env key of None \<Rightarrow> None | Some s \<Rightarrow> if s = [] then None else Some s)"

text \<open>\<open>set_env\<close> gives the new value of its target.\<close>

definition set_env :: "environment \<Rightarrow> string \<Rightarrow> string \<Rightarrow> string" where
  "set_env env dst key = (case env_str env key of None \<Rightarrow> dst | Some v \<Rightarrow> v)"

definition apply_env :: "environment \<Rightarrow> config \<Rightarrow> config" where
  "apply_env env cfg =
     (let s = cf_storage cfg
      in cfg\<lparr>cf_storage := s\<lparr>
           sc_root := (case env_str env ''SOVVAULT_ROOT'' of None \<Rightarrow> sc_root s | Some v \<Rightarrow> v),
           sc_hot_dir := set_env env (sc_hot_dir s) ''SOVVAULT_HOT_DIR'',
           sc_warm_dir := set_env env (sc_warm_dir s) ''SOVVAULT_WARM_DIR'',
           sc_ledger_db := set_env env (sc_ledger_db s) ''SOVVAULT_LEDGER_DB'',
           sc_lmdb_dir := set_env env (sc_lmdb_dir s) ''SOVVAULT_LMDB_DIR'',
           sc_lmdb_map_size := set_env env (sc_lmdb_map_size s) ''SOVVAULT_LMDB_MAP_SIZE''\<rparr>\<rparr>)"

definition apply_cli :: "path_overrides \<Rightarrow> config \<Rightarrow> config" where
  "apply_cli cli cfg =
     (let s = cf_storage cfg;
          s = (case po_root cli of None \<Rightarrow> s | Some v \<Rightarrow> s\<lparr>sc_root := v\<rparr>);
          s = (case po_hot_dir cli of None \<Rightarrow> s | Some v \<Rightarrow> s\<lparr>sc_hot_dir := v\<rparr>);
          s = (case po_warm_dir cli of None \<Rightarrow> s | Some v \<Rightarrow> s\<lparr>sc_warm_dir := v\<rparr>);
          s = (case po_ledger_db cli of None \<Rightarrow> s | Some v \<Rightarrow> s\<lparr>sc_ledger_db := v\<rparr>);
          s = (case po_lmdb_dir cli of None \<Rightarrow> s | Some v \<Rightarrow> s\<lparr>sc_lmdb_dir := v\<rparr>);
          s = (case po_lmdb_map_size cli of None \<Rightarrow> s | Some v \<Rightarrow> s\<lparr>sc_lmdb_map_size := v\<rparr>)
      in cfg\<lparr>cf_storage := s\<rparr>)"

definition validate :: "config \<Rightarrow> unit option" where
  "validate cfg =
     (if sc_lmdb_map_size (cf_storage cfg) = [] then None
      else if ic_batch_size (cf_ingest cfg) = 0 then None
      else if ac_qr_pending_budget (cf_analysis cfg) = 0 then None
      else Some ())"

definition config_load ::
  "(string \<Rightarrow> config option) \<Rightarrow> environment \<Rightarrow> string option \<Rightarrow> path_overrides \<Rightarrow> config option" where
  "config_load read_toml env path cli =
     do {
       cfg \<leftarrow> (case path of None \<Rightarrow> Some config_default | Some p \<Rightarrow> read_toml p);
       let cfg = apply_env env cfg;
       let cfg = apply_cli cli cfg;
       validate cfg;
       Some cfg
     }"

section \<open>Paths and sizes\<close>

text \<open>\<open>Path::join\<close> of Unix: an absolute path replaces the first one.\<close>

definition is_absolute :: "string \<Rightarrow> bool" where
  "is_absolute p \<longleftrightarrow> (case p of [] \<Rightarrow> False | c # _ \<Rightarrow> c = CHR ''/'')"

definition path_join :: "string \<Rightarrow> string \<Rightarrow> string" where
  "path_join a b =
     (if is_absolute b then b
      else if a = [] \<or> last a = CHR ''/'' then a @ b
      else a @ ''/'' @ b)"

definition storage_root :: "string option \<Rightarrow> config \<Rightarrow> string" where
  "storage_root cwd cfg =
     (let r = sc_root (cf_storage cfg)
      in if is_absolute r then r else case cwd of None \<Rightarrow> r | Some c \<Rightarrow> path_join c r)"

definition cfg_hot_dir :: "string option \<Rightarrow> config \<Rightarrow> string" where
  "cfg_hot_dir cwd cfg = path_join (storage_root cwd cfg) (sc_hot_dir (cf_storage cfg))"

definition cfg_warm_dir :: "string option \<Rightarrow> config \<Rightarrow> string" where
  "cfg_warm_dir cwd cfg = path_join (storage_root cwd cfg) (sc_warm_dir (cf_storage cfg))"

definition cfg_ledger_path :: "string option \<Rightarrow> config \<Rightarrow> string" where
  "cfg_ledger_path cwd cfg = path_join (storage_root cwd cfg) (sc_ledger_db (cf_storage cfg))"

definition cfg_lmdb_dir :: "string option \<Rightarrow> config \<Rightarrow> string" where
  "cfg_lmdb_dir cwd cfg = path_join (storage_root cwd cfg) (sc_lmdb_dir (cf_storage cfg))"

definition lmdb_epoch_dir :: "string option \<Rightarrow> config \<Rightarrow> u32 \<Rightarrow> string" where
  "lmdb_epoch_dir cwd cfg n = path_join (cfg_lmdb_dir cwd cfg) (epoch_name n)"

text \<open>\<open>list_dir\<close> gives the names of the readable entries, or \<open>None\<close>.\<close>

definition lmdb_epoch_dirs :: "(string \<Rightarrow> string list option) \<Rightarrow> string option \<Rightarrow> config \<Rightarrow> string list" where
  "lmdb_epoch_dirs list_dir cwd cfg =
     (let base = cfg_lmdb_dir cwd cfg
      in case list_dir base of
           None \<Rightarrow> []
         | Some names \<Rightarrow> sort (map (path_join base) (filter (\<lambda>n. take 6 n = ''epoch_'') names)))"

definition lmdb_map_size_bytes :: "config \<Rightarrow> u64 option" where
  "lmdb_map_size_bytes cfg = parse_size (sc_lmdb_map_size (cf_storage cfg))"

definition pending_budget_bytes :: "config \<Rightarrow> u64 option" where
  "pending_budget_bytes cfg = parse_size (ic_pending_budget_bytes (cf_ingest cfg))"

definition conn_pending_cap_bytes :: "config \<Rightarrow> u64 option" where
  "conn_pending_cap_bytes cfg = parse_size (ic_conn_pending_cap_bytes (cf_ingest cfg))"

definition cfg_epoch_max_bytes :: "config \<Rightarrow> u64 option" where
  "cfg_epoch_max_bytes cfg = parse_size (ic_epoch_max_bytes (cf_ingest cfg))"

section \<open>The layers in order\<close>

text \<open>The value of a setting with its layers: the command line, the environment, the base.\<close>

definition layered :: "string option \<Rightarrow> environment \<Rightarrow> string \<Rightarrow> string \<Rightarrow> string" where
  "layered cli env key base =
     (case cli of Some v \<Rightarrow> v | None \<Rightarrow> (case env_str env key of Some v \<Rightarrow> v | None \<Rightarrow> base))"

lemma override_storage:
  "(case x of None \<Rightarrow> s | Some v \<Rightarrow> s\<lparr>sc_root := v\<rparr>) = s\<lparr>sc_root := case x of None \<Rightarrow> sc_root s | Some v \<Rightarrow> v\<rparr>"
  "(case x of None \<Rightarrow> s | Some v \<Rightarrow> s\<lparr>sc_hot_dir := v\<rparr>) = s\<lparr>sc_hot_dir := case x of None \<Rightarrow> sc_hot_dir s | Some v \<Rightarrow> v\<rparr>"
  "(case x of None \<Rightarrow> s | Some v \<Rightarrow> s\<lparr>sc_warm_dir := v\<rparr>) = s\<lparr>sc_warm_dir := case x of None \<Rightarrow> sc_warm_dir s | Some v \<Rightarrow> v\<rparr>"
  "(case x of None \<Rightarrow> s | Some v \<Rightarrow> s\<lparr>sc_ledger_db := v\<rparr>) = s\<lparr>sc_ledger_db := case x of None \<Rightarrow> sc_ledger_db s | Some v \<Rightarrow> v\<rparr>"
  "(case x of None \<Rightarrow> s | Some v \<Rightarrow> s\<lparr>sc_lmdb_dir := v\<rparr>) = s\<lparr>sc_lmdb_dir := case x of None \<Rightarrow> sc_lmdb_dir s | Some v \<Rightarrow> v\<rparr>"
  "(case x of None \<Rightarrow> s | Some v \<Rightarrow> s\<lparr>sc_lmdb_map_size := v\<rparr>) =
     s\<lparr>sc_lmdb_map_size := case x of None \<Rightarrow> sc_lmdb_map_size s | Some v \<Rightarrow> v\<rparr>"
  by (cases x, simp_all)+

lemma apply_cli_env:
  "cf_storage (apply_cli cli (apply_env env cfg)) =
     (let s = cf_storage cfg
      in \<lparr>sc_root = layered (po_root cli) env ''SOVVAULT_ROOT'' (sc_root s),
          sc_hot_dir = layered (po_hot_dir cli) env ''SOVVAULT_HOT_DIR'' (sc_hot_dir s),
          sc_warm_dir = layered (po_warm_dir cli) env ''SOVVAULT_WARM_DIR'' (sc_warm_dir s),
          sc_ledger_db = layered (po_ledger_db cli) env ''SOVVAULT_LEDGER_DB'' (sc_ledger_db s),
          sc_lmdb_dir = layered (po_lmdb_dir cli) env ''SOVVAULT_LMDB_DIR'' (sc_lmdb_dir s),
          sc_lmdb_map_size = layered (po_lmdb_map_size cli) env ''SOVVAULT_LMDB_MAP_SIZE'' (sc_lmdb_map_size s)\<rparr>)"
  unfolding apply_cli_def Let_def override_storage
  by (cases "cf_storage cfg") (simp add: apply_env_def set_env_def layered_def Let_def cong: option.case_cong)

lemma apply_keeps:
  "cf_ingest (apply_cli cli cfg) = cf_ingest cfg" "cf_analysis (apply_cli cli cfg) = cf_analysis cfg"
  "cf_ingest (apply_env env cfg) = cf_ingest cfg" "cf_analysis (apply_env env cfg) = cf_analysis cfg"
  "apply_cli cli cfg = cfg\<lparr>cf_storage := cf_storage (apply_cli cli cfg)\<rparr>"
  "apply_env env cfg = cfg\<lparr>cf_storage := cf_storage (apply_env env cfg)\<rparr>"
  by (simp_all add: apply_cli_def apply_env_def Let_def)

text \<open>C40: Loading gives every storage setting the value of its highest layer (command line, environment
  variable unless it is empty, file or default) and leaves all other settings as the file has them;
  it fails exactly when the file cannot be read, or the resulting map size is empty, or the batch
  size or the pending budget is zero.\<close>

theorem config_layers:
  "config_load read_toml env path cli =
    (case (case path of None \<Rightarrow> Some config_default | Some p \<Rightarrow> read_toml p) of
       None \<Rightarrow> None
     | Some cfg \<Rightarrow>
         if layered (po_lmdb_map_size cli) env ''SOVVAULT_LMDB_MAP_SIZE'' (sc_lmdb_map_size (cf_storage cfg)) = []
           \<or> ic_batch_size (cf_ingest cfg) = 0 \<or> ac_qr_pending_budget (cf_analysis cfg) = 0 then None
         else Some (cfg\<lparr>cf_storage :=
           \<lparr>sc_root = layered (po_root cli) env ''SOVVAULT_ROOT'' (sc_root (cf_storage cfg)),
            sc_hot_dir = layered (po_hot_dir cli) env ''SOVVAULT_HOT_DIR'' (sc_hot_dir (cf_storage cfg)),
            sc_warm_dir = layered (po_warm_dir cli) env ''SOVVAULT_WARM_DIR'' (sc_warm_dir (cf_storage cfg)),
            sc_ledger_db = layered (po_ledger_db cli) env ''SOVVAULT_LEDGER_DB'' (sc_ledger_db (cf_storage cfg)),
            sc_lmdb_dir = layered (po_lmdb_dir cli) env ''SOVVAULT_LMDB_DIR'' (sc_lmdb_dir (cf_storage cfg)),
            sc_lmdb_map_size = layered (po_lmdb_map_size cli) env ''SOVVAULT_LMDB_MAP_SIZE'' (sc_lmdb_map_size (cf_storage cfg))\<rparr>\<rparr>))"
proof (cases "case path of None \<Rightarrow> Some config_default | Some p \<Rightarrow> read_toml p")
  case (Some cfg)
  let ?c = "apply_cli cli (apply_env env cfg)"
  have "?c = cfg\<lparr>cf_storage := cf_storage ?c\<rparr>"
    by (subst apply_keeps(5), subst apply_keeps(6)) simp
  then show ?thesis
    by (simp add: config_load_def Some validate_def apply_keeps(1-4) apply_cli_env Let_def)
qed (simp add: config_load_def)

text \<open>The defaults load, with the sizes that the comments promise.\<close>

lemma default_config:
  "config_load read_toml (\<lambda>_. None) None \<lparr>po_root = None, po_hot_dir = None, po_warm_dir = None, po_ledger_db = None,
     po_lmdb_dir = None, po_lmdb_map_size = None\<rparr> = Some config_default"
  "lmdb_map_size_bytes config_default = Some (64 * 1024 * 1024 * 1024)"
  "pending_budget_bytes config_default = Some (256 * 1024 * 1024)"
  "conn_pending_cap_bytes config_default = Some (16 * 1024 * 1024)"
  "cfg_epoch_max_bytes config_default = Some (128 * 1024 * 1024)"
  by (simp_all add: config_load_def config_default_def apply_env_def apply_cli_def set_env_def env_str_def validate_def
      storage_default_def ingest_default_def analysis_default_def lmdb_map_size_bytes_def pending_budget_bytes_def
      conn_pending_cap_bytes_def cfg_epoch_max_bytes_def parse_size_def trim_def is_space_def ends_with_def strip_last_def
      parse_uint_def is_digit_def digits_value_def digit_value_def Let_def)

end
