(* ===== verification/Cli.thy ===== *)
theory Cli
  imports Config Export Ingest
begin

text \<open>
  The commands of \<open>src/src/main.rs\<close> but serve as functions of the planes: what each one reads, in which
  order, and the rows it prints; and the start of the live ingest.  The JSON text of a row (the crate \<open>serde_json\<close>), the argument parser (the
  crate \<open>clap\<close>) and the log lines are not modelled: a command gives its rows.  \<open>None\<close> is an error that
  ends the command.
\<close>

section \<open>Numbers in hexadecimal\<close>

definition hex_value :: "char \<Rightarrow> nat option" where
  "hex_value c =
     (let n = of_char c :: nat
      in if 48 \<le> n \<and> n \<le> 57 then Some (n - 48)
         else if 97 \<le> n \<and> n \<le> 102 then Some (n - 87)
         else if 65 \<le> n \<and> n \<le> 70 then Some (n - 55) else None)"

text \<open>\<open>u64::from_str_radix(s, 16)\<close>: a plus sign is accepted.\<close>

definition parse_hex :: "string \<Rightarrow> u64 option" where
  "parse_hex s =
     (let ds = (case s of [] \<Rightarrow> [] | c # cs \<Rightarrow> if c = CHR ''+'' then cs else s)
      in if ds = [] then None
         else do {
           vs \<leftarrow> those (map hex_value ds);
           let n = foldl (\<lambda>n v. 16 * n + v) 0 vs;
           if n < 2 ^ 64 then Some (of_nat n) else None
         })"

section \<open>Offline scan\<close>

text \<open>The totals of \<open>ingest\<close>: records, payload bytes and dirty bytes.\<close>

definition ingest_totals :: "wal_file_scan list \<Rightarrow> u64 \<times> u64 \<times> u64" where
  "ingest_totals scans =
     foldl (\<lambda>(records, payload_bytes, dirty) s.
       (records + ss_records (fs_stats s), payload_bytes + ss_payload_bytes (fs_stats s),
        dirty + ss_dirty_tail_bytes (fs_stats s))) (0, 0, 0) scans"

definition cmd_ingest ::
  "wal_format \<Rightarrow> (bytes \<Rightarrow> wal_record list \<times> nat) \<Rightarrow> (string \<Rightarrow> (u64 \<times> bytes option list) option) \<Rightarrow>
     (string \<Rightarrow> (string \<times> bool) option list option) \<Rightarrow> string option \<Rightarrow> config \<Rightarrow> string option \<Rightarrow>
     (wal_file_scan list \<times> u64 \<times> u64 \<times> u64) option" where
  "cmd_ingest F decode_stream open_file read_dir cwd cfg wal_dir =
     do {
       let dir = (case wal_dir of None \<Rightarrow> cfg_hot_dir cwd cfg | Some d \<Rightarrow> d);
       scans \<leftarrow> scan_all F decode_stream open_file (read_dir dir);
       Some (scans, ingest_totals scans)
     }"

section \<open>Queries\<close>

definition page_of :: "nat \<Rightarrow> page" where
  "page_of limit = page_default\<lparr>pg_limit := limit\<rparr>"

definition cmd_query ::
  "'d lmdb \<Rightarrow> 'd registry \<Rightarrow> ledger \<Rightarrow> u64 option \<Rightarrow> u64 option \<Rightarrow> nat \<Rightarrow> record_row page_rows option" where
  "cmd_query L reg g start stop limit =
     scan_records L (open_with_window reg g start stop) start stop (page_of limit)"

datatype qr_line =
    PairLine qr_pair_value
  | PacketLine u64 u64
  | RowLine qr_index_row

text \<open>The rows with their details.\<close>

fun row_lines :: "'d lmdb \<Rightarrow> 'd session \<Rightarrow> bool \<Rightarrow> qr_index_row list \<Rightarrow> qr_line list option" where
  "row_lines L s detail [] = Some []"
| "row_lines L s detail (row # rows) =
     do {
       pair \<leftarrow> (if detail then qr_by_idx L s (qi_q_first_idx row) else Some None);
       rest_lines \<leftarrow> row_lines L s detail rows;
       Some (RowLine row # (case pair of None \<Rightarrow> [] | Some p \<Rightarrow> [PairLine p]) @ rest_lines)
     }"

definition qr_session ::
  "'d lmdb \<Rightarrow> 'd registry \<Rightarrow> ledger \<Rightarrow> u64 option \<Rightarrow> u64 option \<Rightarrow> u64 option \<Rightarrow> 'd session option" where
  "qr_session L reg g hash start stop =
     (case hash of
        Some h \<Rightarrow> if start = None \<and> stop = None then open_for_conn L reg g h
                  else Some (open_with_window reg g start stop)
      | None \<Rightarrow> Some (open_with_window reg g start stop))"

definition cmd_qr ::
  "'d lmdb \<Rightarrow> 'd registry \<Rightarrow> ledger \<Rightarrow> string option \<Rightarrow> u64 option \<Rightarrow> u64 option \<Rightarrow> u64 option \<Rightarrow> u64 option \<Rightarrow>
     string option \<Rightarrow> nat \<Rightarrow> bool \<Rightarrow> qr_line list option" where
  "cmd_qr L reg g conn idx packet start stop status limit detail =
     do {
       hash \<leftarrow> (case conn of None \<Rightarrow> Some None | Some h \<Rightarrow> map_option Some (parse_hex h));
       s \<leftarrow> qr_session L reg g hash start stop;
       status \<leftarrow> (case status of None \<Rightarrow> Some None | Some raw \<Rightarrow> map_option Some (status_parse raw));
       case idx of
         Some q \<Rightarrow> do { p \<leftarrow> qr_by_idx L s q; Some (case p of None \<Rightarrow> [] | Some p \<Rightarrow> [PairLine p]) }
       | None \<Rightarrow>
           (case packet of
              Some p \<Rightarrow>
                do {
                  found \<leftarrow> qr_by_packet L s p;
                  case found of
                    None \<Rightarrow> Some []
                  | Some q \<Rightarrow>
                      do {
                        pair \<leftarrow> (if detail then qr_by_idx L s q else Some None);
                        Some (PacketLine p q # (case pair of None \<Rightarrow> [] | Some pair \<Rightarrow> [PairLine pair]))
                      }
                }
            | None \<Rightarrow>
                do {
                  let f = \<lparr>qf_conn_hash = hash, qf_start_ts = start, qf_end_ts = stop, qf_status = status\<rparr>;
                  r \<leftarrow> (case hash of
                      Some _ \<Rightarrow> scan_conn_qr L s f (page_of limit)
                    | None \<Rightarrow> scan_time_qr L s f (page_of limit));
                  row_lines L s detail (pr_rows r)
                })
     }"

definition cmd_anomaly ::
  "ledger \<Rightarrow> int option \<Rightarrow> int option \<Rightarrow> int option \<Rightarrow> nat \<Rightarrow> (int \<times> int) list \<times> anomaly_event list" where
  "cmd_anomaly g kind start stop limit = (anomaly_summary start stop g, query_anomalies kind start stop limit g)"

text \<open>\<open>JsonlSink\<close>: one line for each row; \<open>to_json\<close> may fail, and so may the write.\<close>

definition jsonl_line :: "('r \<Rightarrow> string option) \<Rightarrow> ('w \<Rightarrow> string \<Rightarrow> 'w option) \<Rightarrow> 'r \<Rightarrow> 'w \<Rightarrow> 'w option" where
  "jsonl_line to_json write_str row w = do { text \<leftarrow> to_json row; write_str w (text @ [CHR 0x0A]) }"

section \<open>Export\<close>

text \<open>The filter of the command line: all named flags have to be set.\<close>

definition export_filter ::
  "wal_consts \<Rightarrow> u8 option \<Rightarrow> string option \<Rightarrow> string option \<Rightarrow> u16 option \<Rightarrow> u16 option \<Rightarrow> string option \<Rightarrow> bpf_filter option" where
  "export_filter C proto src_ip dst_ip sport dport flags =
     do {
       flags_all \<leftarrow> (case flags of
           None \<Rightarrow> Some None
         | Some raw \<Rightarrow> map_option Some (parse_flags C (map trim (split_at (CHR '','') raw))));
       src_ip \<leftarrow> (case src_ip of None \<Rightarrow> Some None | Some s \<Rightarrow> map_option Some (ip4_from_string s));
       dst_ip \<leftarrow> (case dst_ip of None \<Rightarrow> Some None | Some s \<Rightarrow> map_option Some (ip4_from_string s));
       Some \<lparr>bf_proto = proto, bf_src_ip = src_ip, bf_dst_ip = dst_ip, bf_sport = sport, bf_dport = dport,
             bf_flags_any = None, bf_flags_all = flags_all\<rparr>
     }"

text \<open>\<open>out\<close> is the created output file, \<open>None\<close> when that fails.\<close>

definition cmd_export ::
  "'d lmdb \<Rightarrow> wal_consts \<Rightarrow> (bytes \<Rightarrow> (wal_record \<times> nat) option) \<Rightarrow> ('w \<Rightarrow> pcap_packet \<Rightarrow> 'w option) \<Rightarrow> ('w \<Rightarrow> 'w option) \<Rightarrow>
     'd registry \<Rightarrow> ledger \<Rightarrow> files \<Rightarrow> u64 option \<Rightarrow> u64 option \<Rightarrow> u8 option \<Rightarrow> string option \<Rightarrow> string option \<Rightarrow>
     u16 option \<Rightarrow> u16 option \<Rightarrow> string option \<Rightarrow> 'w option \<Rightarrow> ('w \<times> pcap_stats) option" where
  "cmd_export L C try_decode write flush_writer reg g fs start stop proto src_ip dst_ip sport dport flags out =
     do {
       f \<leftarrow> export_filter C proto src_ip dst_ip sport dport flags;
       out \<leftarrow> out;
       export_pcap L try_decode write flush_writer reg g fs f start stop out
     }"

section \<open>Binding rules\<close>

fun register_all :: "meta_bind list \<Rightarrow> ledger \<Rightarrow> ledger \<times> int list" where
  "register_all [] g = (g, [])"
| "register_all (b # binds) g =
     (let (g, new_id) = upsert_meta_bind (mb_name b) (uint (mb_proto b)) (uint (mb_dst_port b)) (mb_fingerprint b)
            (mb_extractor b) g;
          (g, ids) = register_all binds g
      in (g, new_id # ids))"

definition cmd_meta ::
  "config \<Rightarrow> bool \<Rightarrow> bool \<Rightarrow> ledger \<Rightarrow> ledger \<times> int list \<times> (meta_bind_row list \<times> ext_meta_row list) option" where
  "cmd_meta cfg register list_rows g =
     (let (g, ids) = (if register then register_all (ac_meta_binds (cf_analysis cfg)) g else (g, []))
      in (g, ids, if list_rows \<or> \<not> register then Some (list_meta_binds g, list_ext_meta g) else None))"

section \<open>Serve\<close>

definition serves_online :: "config \<Rightarrow> bool" where
  "serves_online cfg \<longleftrightarrow> zc_connect (cf_zenoh cfg) \<noteq> [] \<or> zc_listen (cf_zenoh cfg) \<noteq> []"

text \<open>The opened live store and the epoch directories; \<open>None\<close> when a size of the configuration is bad.\<close>

definition open_registry :: "'d epoch_env \<Rightarrow> 'd dual_db \<Rightarrow> (string \<times> 'd epoch_env) list \<Rightarrow> config \<Rightarrow> 'd registry option" where
  "open_registry fresh live dirs cfg =
     do {
       map_size \<leftarrow> lmdb_map_size_bytes cfg;
       max_bytes \<leftarrow> cfg_epoch_max_bytes cfg;
       Some (registry_open fresh max_bytes live dirs)
     }"

text \<open>\<open>run\<close> of the live ingest before its loop; the key comes from the configuration or its file.\<close>

definition run_live ::
  "(string \<Rightarrow> bytes option) \<Rightarrow> (string \<Rightarrow> bytes option) \<Rightarrow> 'd epoch_env \<Rightarrow> 'd dual_db \<Rightarrow> (string \<times> 'd epoch_env) list \<Rightarrow>
     string option \<Rightarrow> world \<Rightarrow> config \<Rightarrow> 'd live_ingest option" where
  "run_live hex_decode read_file fresh live dirs cwd w cfg =
     do {
       reg \<leftarrow> open_registry fresh live dirs cfg;
       key \<leftarrow> (case cc_key_hex (cf_crypto cfg) of
           Some h \<Rightarrow> from_key_hex hex_decode h
         | None \<Rightarrow> from_key_file read_file (cc_key_file (cf_crypto cfg)));
       conn_cap \<leftarrow> conn_pending_cap_bytes cfg;
       global_cap \<leftarrow> pending_budget_bytes cfg;
       let ing = cf_ingest cfg;
       let an = cf_analysis cfg;
       let b = budgets_from_config (unat (ic_segment_pending_cap ing)) (unat conn_cap) (unat global_cap)
         (unat (ic_conn_evict_window_secs ing)) (unat (ic_conn_evict_threshold ing));
       Some (ingest_start reg w key b (ac_meta_binds an)
         \<lparr>ip_batch_size = ic_batch_size ing, ip_ack_tol = ac_ack_tolerance an, ip_hot_dir = cfg_hot_dir cwd cfg,
           ip_ttl_scan_secs = ac_ttl_scan_secs an, ip_qr_timeout_secs = ac_qr_timeout_secs an,
           ip_fin_short_secs = ac_fin_short_timeout_secs an\<rparr>)
     }"

text \<open>\<open>run_ttl_loop\<close> of \<open>anomaly.rs\<close>, the thread of \<open>serve\<close> without end points: its rounds, each with
  the shut-down flag and the clock; an error of a scan is logged.\<close>

fun run_ttl_loop :: "'d lmdb \<Rightarrow> u64 \<Rightarrow> u64 \<Rightarrow> (bool \<times> u64) list \<Rightarrow> 'd registry \<times> ledger \<Rightarrow> 'd registry \<times> ledger" where
  "run_ttl_loop L qr_timeout_secs fin_short_secs [] (reg, g) = (reg, g)"
| "run_ttl_loop L qr_timeout_secs fin_short_secs ((shutdown, now_ns) # rounds) (reg, g) =
     (if shutdown then (reg, g)
      else run_ttl_loop L qr_timeout_secs fin_short_secs rounds
        (case scan_pending_ttl L now_ns qr_timeout_secs fin_short_secs (rg_db reg) of
           None \<Rightarrow> (reg, g)
         | Some (db, events, stats) \<Rightarrow> (reg\<lparr>rg_db := db\<rparr>, insert_anomalies events g)))"

end
