(* ===== verification/Service.thy ===== *)
theory Service
  imports Cli
begin

text \<open>
  The program as a whole: \<open>main\<close> and \<open>cmd_serve\<close> of \<open>src/src/main.rs\<close> and the session of \<open>run\<close> in
  \<open>src/src/ingest/zenoh.rs\<close>.  What lies in the configured directories between two invocations is a
  \<open>disk\<close>; an invocation takes its arguments, the inputs that it gets while it runs and the disk, and
  gives the disk that it leaves and its output.  Everything outside (LMDB, the crates, the file system
  below the planes, the environment variables) is the record \<open>outside\<close>.
\<close>

section \<open>Between invocations\<close>

text \<open>The live store, the epoch directories, and the ledger with the data files.  The epoch part of
  \<open>dk_live\<close> is not used.\<close>

record 'd disk =
  dk_live :: "'d dual_db"
  dk_dirs :: "(string \<times> 'd epoch_env) list"
  dk_world :: world

definition disk_of :: "'d registry \<Rightarrow> world \<Rightarrow> 'd disk" where
  "disk_of reg w =
     \<lparr>dk_live = rg_db reg, dk_dirs = (epoch_name (rg_epoch_num reg), epoch_of (rg_db reg)) # rg_frozen reg, dk_world = w\<rparr>"

definition put_disk_ledger :: "ledger \<Rightarrow> 'd disk \<Rightarrow> 'd disk" where
  "put_disk_ledger g d = d\<lparr>dk_world := (dk_world d)\<lparr>w_ledger := g\<rparr>\<rparr>"

section \<open>The session of the live ingest\<close>

datatype topic = BatchTopic | ChunkTopic | SealTopic

text \<open>Chunk frames are subscribed to when the configuration says so; the others always.\<close>

fun subscribed :: "ingest_config \<Rightarrow> topic \<Rightarrow> bool" where
  "subscribed c ChunkTopic = ic_subscribe_chunks c"
| "subscribed c t = True"

fun msg_of :: "topic \<Rightarrow> bytes \<Rightarrow> msg" where
  "msg_of BatchTopic p = MsgBatch p"
| "msg_of ChunkTopic p = MsgChunk p"
| "msg_of SealTopic p = MsgSeal p"

text \<open>The reply to every query for an existing chunk.\<close>

definition exists_reply :: string where
  "exists_reply = ''false''"

text \<open>What \<open>select\<close> can take next.  The branch of a closed channel is there, but \<open>run\<close> keeps a sender itself,
  so it is not taken.  The process may also be killed before it takes anything more.\<close>

datatype select_event = Published topic bytes | Ticker | StatTicker | Closed | CtrlC | Killed

fun handled :: "ingest_config \<Rightarrow> (clock \<times> select_event) list \<Rightarrow> (clock \<times> msg) list" where
  "handled c [] = []"
| "handled c ((now, Published t p) # es) = (if subscribed c t then (now, msg_of t p) # handled c es else handled c es)"
| "handled c ((now, Ticker) # es) = (now, MsgTick) # handled c es"
| "handled c ((now, StatTicker) # es) = handled c es"
| "handled c ((now, Closed) # es) = []"
| "handled c ((now, CtrlC) # es) = []"
| "handled c ((now, Killed) # es) = []"

text \<open>Whether the loop is left, so that the pipelines are finished.\<close>

fun orderly :: "(clock \<times> select_event) list \<Rightarrow> bool" where
  "orderly [] \<longleftrightarrow> True"
| "orderly ((now, Closed) # es) \<longleftrightarrow> True"
| "orderly ((now, CtrlC) # es) \<longleftrightarrow> True"
| "orderly ((now, Killed) # es) \<longleftrightarrow> False"
| "orderly (e # es) \<longleftrightarrow> orderly es"

section \<open>Everything outside\<close>

record ('d, 'w) outside =
  ou_ingest :: "'d ingest_env"
  ou_format :: wal_format
  ou_try_decode :: "bytes \<Rightarrow> (wal_record \<times> nat) option"
  ou_open_wal :: "string \<Rightarrow> (u64 \<times> bytes option list) option"
  ou_read_dir :: "string \<Rightarrow> (string \<times> bool) option list option"
  ou_read_file :: "string \<Rightarrow> bytes option"
  ou_hex_decode :: "string \<Rightarrow> bytes option"
  ou_read_toml :: "string \<Rightarrow> config option"
  ou_environment :: environment
  ou_cwd :: "string option"
  ou_create :: "string \<Rightarrow> 'w option"
  ou_write :: "'w \<Rightarrow> pcap_packet \<Rightarrow> 'w option"
  ou_flush :: "'w \<Rightarrow> 'w option"

text \<open>What a run of the service gets: the inputs of the session and the clock at its end, or the
  rounds of the time-out thread.\<close>

record inputs =
  in_events :: "(clock \<times> select_event) list"
  in_end :: clock
  in_rounds :: "(bool \<times> u64) list"

definition open_disk :: "('d, 'w) outside \<Rightarrow> config \<Rightarrow> 'd disk \<Rightarrow> 'd registry option" where
  "open_disk os cfg d = open_registry (ie_fresh (ou_ingest os)) (dk_live d) (dk_dirs d) cfg"

definition serve_online :: "('d, 'w) outside \<Rightarrow> config \<Rightarrow> inputs \<Rightarrow> 'd disk \<Rightarrow> 'd disk option" where
  "serve_online os cfg inp d =
     do {
       s \<leftarrow> run_live (ou_hex_decode os) (ou_read_file os) (ie_fresh (ou_ingest os)) (dk_live d) (dk_dirs d) (ou_cwd os)
         (dk_world d) cfg;
       s \<leftarrow> ingest_loop (ou_ingest os) (handled (cf_ingest cfg) (in_events inp)) s;
       let s = (if orderly (in_events inp) then finalize (ou_ingest os) (in_end inp) s else s);
       Some (disk_of (li_reg s) (li_world s))
     }"

text \<open>Without end points only the time-out thread runs.\<close>

definition serve_offline :: "('d, 'w) outside \<Rightarrow> config \<Rightarrow> inputs \<Rightarrow> 'd disk \<Rightarrow> 'd disk option" where
  "serve_offline os cfg inp d =
     do {
       reg \<leftarrow> open_disk os cfg d;
       let an = cf_analysis cfg;
       let (reg, g) = run_ttl_loop (ie_lmdb (ou_ingest os)) (ac_qr_timeout_secs an) (ac_fin_short_timeout_secs an)
         (in_rounds inp) (reg, w_ledger (dk_world d));
       Some (disk_of reg ((dk_world d)\<lparr>w_ledger := g\<rparr>))
     }"

definition cmd_serve :: "('d, 'w) outside \<Rightarrow> config \<Rightarrow> inputs \<Rightarrow> 'd disk \<Rightarrow> 'd disk option" where
  "cmd_serve os cfg inp d = (if serves_online cfg then serve_online os cfg inp d else serve_offline os cfg inp d)"

section \<open>The command line\<close>

datatype command =
    Serve
  | Ingest (c_wal_dir: "string option")
  | Export (c_start: "u64 option") (c_end: "u64 option") (c_proto: "u8 option") (c_src_ip: "string option")
      (c_dst_ip: "string option") (c_sport: "u16 option") (c_dport: "u16 option") (c_flags: "string option") (c_output: string)
  | Meta (c_register: bool) (c_list: bool)
  | Query "u64 option" "u64 option" nat
  | Qr (c_conn: "string option") (c_idx: "u64 option") (c_packet: "u64 option") "u64 option" "u64 option"
      (c_status: "string option") nat (c_detail: bool)
  | Anomaly (c_kind: "int option") "int option" "int option" nat
  | Stat

record cli =
  cl_config :: "string option"
  cl_root :: "string option"
  cl_hot_dir :: "string option"
  cl_warm_dir :: "string option"
  cl_ledger_db :: "string option"
  cl_lmdb_dir :: "string option"
  cl_lmdb_map_size :: "string option"
  cl_command :: command

definition overrides_of :: "cli \<Rightarrow> path_overrides" where
  "overrides_of c =
     \<lparr>po_root = cl_root c, po_hot_dir = cl_hot_dir c, po_warm_dir = cl_warm_dir c, po_ledger_db = cl_ledger_db c,
      po_lmdb_dir = cl_lmdb_dir c, po_lmdb_map_size = cl_lmdb_map_size c\<rparr>"

datatype 'w command_output =
    NoOutput
  | ScanOutput "wal_file_scan list" "u64 \<times> u64 \<times> u64"
  | RecordOutput "record_row page_rows"
  | QrOutput "qr_line list"
  | AnomalyOutput "(int \<times> int) list" "anomaly_event list"
  | ExportOutput 'w pcap_stats
  | MetaOutput "int list" "(meta_bind_row list \<times> ext_meta_row list) option"

text \<open>Every command that opens the registry leaves the directory of the current epoch behind.\<close>

fun run_command ::
  "('d, 'w) outside \<Rightarrow> config \<Rightarrow> inputs \<Rightarrow> command \<Rightarrow> 'd disk \<Rightarrow> ('d disk \<times> 'w command_output) option" where
  "run_command os cfg inp Serve d = map_option (\<lambda>d. (d, NoOutput)) (cmd_serve os cfg inp d)"
| "run_command os cfg inp (Ingest wal_dir) d =
     do {
       (scans, totals) \<leftarrow> cmd_ingest (ou_format os) (ie_decode_stream (ou_ingest os)) (ou_open_wal os) (ou_read_dir os)
         (ou_cwd os) cfg wal_dir;
       Some (d, ScanOutput scans totals)
     }"
| "run_command os cfg inp (Query start stop limit) d =
     do {
       reg \<leftarrow> open_disk os cfg d;
       rows \<leftarrow> cmd_query (ie_lmdb (ou_ingest os)) reg (w_ledger (dk_world d)) start stop limit;
       Some (disk_of reg (dk_world d), RecordOutput rows)
     }"
| "run_command os cfg inp (Qr conn idx packet start stop status limit detail) d =
     do {
       reg \<leftarrow> open_disk os cfg d;
       out_lines \<leftarrow> cmd_qr (ie_lmdb (ou_ingest os)) reg (w_ledger (dk_world d)) conn idx packet start stop status limit detail;
       Some (disk_of reg (dk_world d), QrOutput out_lines)
     }"
| "run_command os cfg inp (Anomaly kind start stop limit) d =
     (let (summary, rows) = cmd_anomaly (w_ledger (dk_world d)) kind start stop limit
      in Some (d, AnomalyOutput summary rows))"
| "run_command os cfg inp (Export start stop proto src_ip dst_ip sport dport flags output) d =
     do {
       reg \<leftarrow> open_disk os cfg d;
       (w, stats) \<leftarrow> cmd_export (ie_lmdb (ou_ingest os)) (ie_consts (ou_ingest os)) (ou_try_decode os) (ou_write os)
         (ou_flush os) reg (w_ledger (dk_world d)) (w_fs (dk_world d)) start stop proto src_ip dst_ip sport dport flags
         (ou_create os output);
       Some (disk_of reg (dk_world d), ExportOutput w stats)
     }"
| "run_command os cfg inp (Meta register list_rows) d =
     (let (g, ids, rows) = cmd_meta cfg register list_rows (w_ledger (dk_world d))
      in Some (put_disk_ledger g d, MetaOutput ids rows))"
| "run_command os cfg inp Stat d = None"

text \<open>\<open>main\<close>.\<close>

definition program ::
  "('d, 'w) outside \<Rightarrow> cli \<times> inputs \<Rightarrow> 'd disk \<Rightarrow> ('d disk \<times> 'w command_output) option" where
  "program os = (\<lambda>(c, inp) d.
     do {
       cfg \<leftarrow> config_load (ou_read_toml os) (ou_environment os) (cl_config c) (overrides_of c);
       run_command os cfg inp (cl_command c) d
     })"

text \<open>Invocations one after the other, on the same directories.\<close>

fun invocations :: "('d, 'w) outside \<Rightarrow> (cli \<times> inputs) list \<Rightarrow> 'd disk \<Rightarrow> 'd disk option" where
  "invocations os [] d = Some d"
| "invocations os (i # is) d = do { (d, out) \<leftarrow> program os i d; invocations os is d }"

end
