(* ===== verification/Ingest_History.thy ===== *)
theory Ingest_History
  imports Ingest_Props
begin

text \<open>
  History survives the live ingest.  Across batches, time-out scans, epoch rotations and the final
  flush, whatever fails on the way, no epoch store loses or changes a row, no directory of an epoch is
  lost, and a request that a query finds is found for ever: in the live store while it is pending, in
  some epoch store afterwards.
\<close>

section \<open>Epochs by name\<close>

definition reg_epochs :: "'d registry \<Rightarrow> (string \<times> 'd epoch_env) set" where
  "reg_epochs reg = insert (epoch_name (rg_epoch_num reg), epoch_of (rg_db reg)) (set (rg_frozen reg))"

definition env_grows :: "('d \<Rightarrow> contents) \<Rightarrow> 'd epoch_env \<Rightarrow> 'd epoch_env \<Rightarrow> bool" where
  "env_grows view e e' \<longleftrightarrow>
     view (ep_pair e) \<subseteq>\<^sub>m view (ep_pair e') \<and> view (ep_conn_qr e) \<subseteq>\<^sub>m view (ep_conn_qr e') \<and>
     view (ep_qr_key e) \<subseteq>\<^sub>m view (ep_qr_key e') \<and> view (ep_qr_time e) \<subseteq>\<^sub>m view (ep_qr_time e') \<and>
     view (ep_packet_qr e) \<subseteq>\<^sub>m view (ep_packet_qr e') \<and> view (ep_record_ts e) \<subseteq>\<^sub>m view (ep_record_ts e')"

text \<open>Pending rows in the live store, final ones in every epoch.\<close>

definition registry_ok :: "('d \<Rightarrow> contents) \<Rightarrow> 'd registry \<Rightarrow> bool" where
  "registry_ok view reg \<longleftrightarrow> registry_wf reg \<and>
     (\<forall>e \<in> epoch_envs reg. pairs_ok (view (qm_live_pair (rg_db reg))) (view (ep_pair e)))"

definition pair_present :: "('d \<Rightarrow> contents) \<Rightarrow> 'd registry \<Rightarrow> bytes \<Rightarrow> bool" where
  "pair_present view reg k \<longleftrightarrow> view (qm_live_pair (rg_db reg)) k \<noteq> None \<or>
     (\<exists>e \<in> epoch_envs reg. view (ep_pair e) k \<noteq> None)"

text \<open>What a part of a run does to the stores.\<close>

definition history_kept :: "('d \<Rightarrow> contents) \<Rightarrow> 'd registry \<Rightarrow> 'd registry \<Rightarrow> bool" where
  "history_kept view reg reg' \<longleftrightarrow> registry_ok view reg' \<and>
     (\<forall>(name, e) \<in> reg_epochs reg. \<exists>e'. (name, e') \<in> reg_epochs reg' \<and> env_grows view e e') \<and>
     (\<forall>k. pair_present view reg k \<longrightarrow> pair_present view reg' k)"

lemma env_grows_refl [simp, intro!]: "env_grows view e e"
  by (simp add: env_grows_def)

lemma env_grows_trans: "env_grows view e e' \<Longrightarrow> env_grows view e' e'' \<Longrightarrow> env_grows view e e''"
  unfolding env_grows_def using map_le_trans by blast

lemma epoch_envs_named: "epoch_envs reg = snd ` reg_epochs reg"
  by (simp add: epoch_envs_def reg_epochs_def)

lemma history_kept_trans:
  assumes "history_kept view reg reg'" "history_kept view reg' reg''"
  shows "history_kept view reg reg''"
  unfolding history_kept_def
proof (intro conjI ballI allI)
  show "registry_ok view reg''" using assms(2) by (simp add: history_kept_def)
  show "pair_present view reg k \<longrightarrow> pair_present view reg'' k" for k using assms by (simp add: history_kept_def)
  fix ne assume ne: "ne \<in> reg_epochs reg"
  obtain name e where [simp]: "ne = (name, e)" by (cases ne)
  obtain e' where e': "(name, e') \<in> reg_epochs reg'" "env_grows view e e'"
    using assms(1) ne by (fastforce simp: history_kept_def)
  obtain e'' where "(name, e'') \<in> reg_epochs reg''" "env_grows view e' e''"
    using assms(2) e'(1) by (fastforce simp: history_kept_def)
  then show "case ne of (name, e) \<Rightarrow> \<exists>e'. (name, e') \<in> reg_epochs reg'' \<and> env_grows view e e'"
    using env_grows_trans [OF e'(2)] by auto
qed

lemma index_history:
  assumes names: "rg_frozen reg' = rg_frozen reg" "rg_epoch_num reg' = rg_epoch_num reg"
    and "index_kept view (rg_db reg) (rg_db reg')" "registry_ok view reg"
  shows "history_kept view reg reg'"
proof -
  let ?m = "rg_db reg" and ?m' = "rg_db reg'"
  have grows: "env_grows view (epoch_of ?m) (epoch_of ?m')"
    and step: "pairs_step (view (qm_live_pair ?m)) (view (qm_ep_pair ?m)) (view (qm_live_pair ?m')) (view (qm_ep_pair ?m'))"
    using assms(3) by (simp_all add: index_kept_def epoch_grows_def env_grows_def epoch_of_def)
  have envs: "epoch_envs reg' = insert (epoch_of ?m') (snd ` set (rg_frozen reg))"
    "epoch_envs reg = insert (epoch_of ?m) (snd ` set (rg_frozen reg))"
    by (simp_all add: epoch_envs_def names)
  have "pairs_ok (view (qm_live_pair ?m)) (view (qm_ep_pair ?m))"
    using assms(4) by (simp add: registry_ok_def envs epoch_of_def)
  then have "pairs_ok (view (qm_live_pair ?m')) (view (qm_ep_pair ?m'))" using step by (simp add: pairs_step_def)
  then have "\<forall>e \<in> epoch_envs reg'. pairs_ok (view (qm_live_pair ?m')) (view (ep_pair e))"
    using assms(4) by (auto simp: registry_ok_def envs pairs_ok_def epoch_of_def)
  then have "registry_ok view reg'"
    using assms(4) registry_wf_names [OF names] by (simp add: registry_ok_def)
  moreover have "pair_present view reg k \<longrightarrow> pair_present view reg' k" for k
    using pairs_step_present [OF step, of k] by (auto simp: pair_present_def envs epoch_of_def)
  moreover have "\<exists>e'. (name, e') \<in> reg_epochs reg' \<and> env_grows view e e'" if "(name, e) \<in> reg_epochs reg" for name e
    using that grows by (auto simp: reg_epochs_def names)
  ultimately show ?thesis by (auto simp: history_kept_def)
qed

lemma history_kept_refl: "registry_ok view reg \<Longrightarrow> history_kept view reg reg"
  by (rule index_history) simp_all

lemma still_history:
  assumes "still view s s'" "registry_ok view (li_reg s)"
  shows "history_kept view (li_reg s) (li_reg s')"
  by (rule index_history [OF _ _ _ assms(2)]) (use assms(1) in \<open>simp_all add: still_def calm_def li_planes_def\<close>)

text \<open>A rotation keeps every named store as it is.\<close>

lemma rotated_epochs:
  assumes "registry_wf reg"
  shows "reg_epochs reg \<subseteq> reg_epochs (fst (rotate_epoch fresh reg))"
proof -
  let ?name = "epoch_name (rg_epoch_num reg + 1)"
  let ?frozen = "rg_frozen reg @ [(epoch_name (rg_epoch_num reg), epoch_of (rg_db reg))]"
  have wf: "epoch_name (rg_epoch_num reg) \<notin> fst ` set (rg_frozen reg)" "distinct (map fst ?frozen)"
    using assms by (auto simp: registry_wf_def rg_names_def)
  have old: "reg_epochs reg = set ?frozen" by (simp add: reg_epochs_def)
  have new: "reg_epochs (fst (rotate_epoch fresh reg)) =
      insert (?name, open_or_create fresh ?name ?frozen) (set (AList.delete ?name ?frozen))"
    using wf(1) by (simp add: reg_epochs_def rotate_epoch_def Let_def update_append)
  have "ne \<in> reg_epochs (fst (rotate_epoch fresh reg))" if "ne \<in> set ?frozen" for ne
  proof (cases "fst ne = ?name")
    case True
    then have "map_of ?frozen ?name = Some (snd ne)"
      using map_of_is_SomeI [OF wf(2)] that by (metis prod.collapse)
    then show ?thesis unfolding new using True by (simp add: open_or_create_def prod_eq_iff)
  next
    case False
    then show ?thesis unfolding new using that by (simp add: AList.delete_eq case_prod_beta)
  qed
  then show ?thesis using old by blast
qed

lemma rotation_history:
  assumes "maybe_rotate_epoch env s = Some s'" "registry_ok view (li_reg s)"
    and "view (ep_pair (ie_fresh env)) = Map.empty"
  shows "history_kept view (li_reg s) (li_reg s')"
  using assms(1)
proof (rule maybe_rotateE)
  assume "s' = s"
  then show ?thesis using history_kept_refl [OF assms(2)] by simp
next
  let ?reg = "li_reg s" and ?reg' = "fst (rotate_epoch (ie_fresh env) (li_reg s))"
  fix g assume "s' = (put_ledger g s)\<lparr>li_reg := ?reg'\<rparr>"
  then have s': "li_reg s' = ?reg'" by simp
  have wf: "registry_wf ?reg" using assms(2) by (simp add: registry_ok_def)
  have live: "qm_live_pair (rg_db ?reg') = qm_live_pair (rg_db ?reg)"
    by (simp add: rotate_epoch_def Let_def with_epoch_def)
  note sub = rotated_epochs [OF wf, of "ie_fresh env"]
  have "pairs_ok (view (qm_live_pair (rg_db ?reg))) (view (ep_pair (ie_fresh env)))"
    using assms(2) by (auto simp: registry_ok_def pairs_ok_def assms(3) epoch_envs_def)
  then have "\<forall>e \<in> epoch_envs ?reg'. pairs_ok (view (qm_live_pair (rg_db ?reg))) (view (ep_pair e))"
    using assms(2) rotated_envs [OF wf, of "ie_fresh env"] by (auto simp: registry_ok_def)
  then have "registry_ok view ?reg'" using registry_wf_rotate [OF wf] by (simp add: registry_ok_def live)
  then show ?thesis
    using sub by (auto simp: history_kept_def s' pair_present_def live epoch_envs_named intro: env_grows_refl)
qed

lemma epoch_row_kept:
  assumes "history_kept view reg reg'" "e \<in> epoch_envs reg"
  shows "view (ep_pair e) k = Some v \<Longrightarrow> \<exists>e' \<in> epoch_envs reg'. view (ep_pair e') k = Some v"
    and "view (ep_packet_qr e) k = Some v \<Longrightarrow> \<exists>e' \<in> epoch_envs reg'. view (ep_packet_qr e') k = Some v"
proof -
  obtain name e' where e': "(name, e') \<in> reg_epochs reg'" "env_grows view e e'"
    using assms by (fastforce simp: history_kept_def epoch_envs_named)
  then have "e' \<in> epoch_envs reg'" by (force simp: epoch_envs_named)
  moreover have "view (ep_pair e) \<subseteq>\<^sub>m view (ep_pair e')" "view (ep_packet_qr e) \<subseteq>\<^sub>m view (ep_packet_qr e')"
    using e'(2) by (simp_all add: env_grows_def)
  ultimately show "view (ep_pair e) k = Some v \<Longrightarrow> \<exists>e' \<in> epoch_envs reg'. view (ep_pair e') k = Some v"
    "view (ep_packet_qr e) k = Some v \<Longrightarrow> \<exists>e' \<in> epoch_envs reg'. view (ep_packet_qr e') k = Some v"
    by (metis domI map_le_def)+
qed

context lmdb_store
begin

lemma run_history:
  fixes s :: "'d live_ingest"
  assumes "ie_lmdb env = L" "view (ep_pair (ie_fresh env)) = Map.empty" "registry_ok view (li_reg s)"
    and "ingest_loop env msgs s = Some s1"
  shows "history_kept view (li_reg s) (li_reg s1)" "history_kept view (li_reg s) (li_reg (finalize env now s1))"
proof -
  let ?R = "\<lambda>(s :: 'd live_ingest) s'. history_kept view (li_reg s) (li_reg s')"
  have inv: "registry_ok view (li_reg s')" if "?R s s'" for s s' :: "'d live_ingest" using that by (simp add: history_kept_def)
  have rotate: "?R s s'" if "maybe_rotate_epoch env s = Some s'" "registry_ok view (li_reg s)" for s s'
    by (rule rotation_history [OF that assms(2)])
  show "?R s s1" "?R s (finalize env now s1)"
    by (rule ingest_run [where R = ?R and I = "\<lambda>s. registry_ok view (li_reg s)", OF assms(1) _ _ _ _ assms(4,3)];
        (erule (1) still_history | erule (1) rotate | erule inv | erule (1) history_kept_trans))+
qed

end

section \<open>Queries\<close>

context lmdb_total
begin

lemma epoch_get_found:
  assumes "valid_key k"
  shows "those (map (epoch_env_of s) ts) = Some es \<Longrightarrow>
    \<exists>r. epoch_get L dbi k decode s ts = Some r \<and> (r \<noteq> None \<longleftrightarrow> (\<exists>e \<in> set es. Option.bind (view (dbi e) k) decode \<noteq> None))"
proof (induction ts arbitrary: es)
  case (Cons t ts)
  then obtain e es' where e: "epoch_env_of s t = Some e" "those (map (epoch_env_of s) ts) = Some es'" "es = e # es'"
    by (auto split: option.splits)
  obtain r where r: "epoch_get L dbi k decode s ts = Some r"
    "r \<noteq> None \<longleftrightarrow> (\<exists>e \<in> set es'. Option.bind (view (dbi e) k) decode \<noteq> None)"
    using Cons.IH [OF e(2)] by blast
  have g: "lm_get L (dbi e) k = Some (view (dbi e) k)" by (rule get_Some [OF assms])
  show ?case
  proof (cases "Option.bind (view (dbi e) k) decode")
    case None
    then show ?thesis using r by (simp add: e(1,3) g)
  qed (simp add: e(1,3) g)
qed simp

text \<open>The answer comes from the live store, if the row is there, and from an epoch store otherwise.\<close>

lemma qr_by_idx_found:
  assumes "registry_ok view reg" "s = build_session reg g start stop"
  shows "\<exists>r. qr_by_idx L s q = Some r \<and>
    (if view (qm_live_pair (rg_db reg)) (k_qr_pair q) \<noteq> None
     then \<exists>p. r = Some p \<and> qp_status p = status_u8 Pending
     else r \<noteq> None \<longleftrightarrow> (\<exists>e \<in> epoch_envs reg. Option.bind (view (ep_pair e) (k_qr_pair q)) qr_pair_decode \<noteq> None))"
proof -
  let ?k = "k_qr_pair q" and ?v = "view (qm_live_pair (rg_db reg)) (k_qr_pair q)"
  have wf: "registry_wf reg" using assms(1) by (simp add: registry_ok_def)
  obtain es where es: "those (map (epoch_env_of s) (qs_all_targets s)) = Some es" "set es = epoch_envs reg"
    using session_envs [OF wf assms(2)] by metis
  have valid: "valid_key ?k" by simp
  have live: "lm_get L (qm_live_pair (qs_db s)) ?k = Some ?v"
    using get_Some [OF valid] by (simp add: assms(2) build_session_def Let_def)
  have pending: "\<exists>p. Option.bind ?v qr_pair_decode = Some p \<and> qp_status p = status_u8 Pending" if some: "?v \<noteq> None"
  proof -
    obtain v where v: "?v = Some v" using some by blast
    then have "pending_row v" using assms(1) by (auto simp: registry_ok_def epoch_envs_def pairs_ok_def)
    then show ?thesis using pending_row_decode v by simp
  qed
  obtain r where r: "epoch_get L ep_pair ?k qr_pair_decode s (qs_all_targets s) = Some r"
      "r \<noteq> None \<longleftrightarrow> (\<exists>e \<in> epoch_envs reg. Option.bind (view (ep_pair e) ?k) qr_pair_decode \<noteq> None)"
    using epoch_get_found [OF valid es(1), of ep_pair qr_pair_decode] unfolding es(2) by auto
  show ?thesis
  proof (cases "?v = None")
    case True
    then have "qr_by_idx L s q = Some r" using r(1) live by (simp add: qr_by_idx_def)
    then show ?thesis using True r(2) by (intro exI [of _ r]) simp
  next
    case False
    then obtain p where p: "Option.bind ?v qr_pair_decode = Some p" "qp_status p = status_u8 Pending" using pending by blast
    then have "qr_by_idx L s q = Some (Some p)" using live by (simp add: qr_by_idx_def)
    then show ?thesis using False p(2) by (intro exI [of _ "Some p"]) simp
  qed
qed

lemma qr_by_packet_found:
  assumes "registry_wf reg" "s = build_session reg g start stop"
  shows "\<exists>r. qr_by_packet L s idx = Some r \<and>
    (r \<noteq> None \<longleftrightarrow> (\<exists>e \<in> epoch_envs reg. Option.bind (view (ep_packet_qr e) (k_packet_qr idx)) v_packet_qr_decode \<noteq> None))"
proof -
  obtain es where es: "those (map (epoch_env_of s) (qs_all_targets s)) = Some es" "set es = epoch_envs reg"
    using session_envs [OF assms] by metis
  have "valid_key (k_packet_qr idx)" by simp
  from epoch_get_found [OF this es(1), of ep_packet_qr v_packet_qr_decode] show ?thesis
    by (simp add: qr_by_packet_def es(2))
qed

end

end
