(* ===== verification/Service_Props.thy ===== *)
theory Service_Props
  imports Service Ingest_History
begin

text \<open>
  History across invocations.  Every command opens the directories that the last one left, and serve
  runs the live ingest or the time-out thread on them; nothing that was stored is lost or changed.
\<close>

section \<open>The disk\<close>

definition disk_ok :: "('d \<Rightarrow> contents) \<Rightarrow> 'd disk \<Rightarrow> bool" where
  "disk_ok view d \<longleftrightarrow> distinct (map fst (dk_dirs d)) \<and> (\<forall>(name, e) \<in> set (dk_dirs d). \<exists>n. name = epoch_name n) \<and>
     (\<forall>k v. view (qm_live_pair (dk_live d)) k = Some v \<longrightarrow> pending_row v) \<and>
     (\<forall>(name, e) \<in> set (dk_dirs d). \<forall>k v. view (ep_pair e) k = Some v \<longrightarrow> terminal_row v)"

definition disk_pair :: "('d \<Rightarrow> contents) \<Rightarrow> 'd disk \<Rightarrow> bytes \<Rightarrow> bool" where
  "disk_pair view d k \<longleftrightarrow> view (qm_live_pair (dk_live d)) k \<noteq> None \<or>
     (\<exists>(name, e) \<in> set (dk_dirs d). view (ep_pair e) k \<noteq> None)"

definition disk_kept :: "('d \<Rightarrow> contents) \<Rightarrow> 'd disk \<Rightarrow> 'd disk \<Rightarrow> bool" where
  "disk_kept view d d' \<longleftrightarrow> disk_ok view d' \<and>
     (\<forall>(name, e) \<in> set (dk_dirs d). \<exists>e'. (name, e') \<in> set (dk_dirs d') \<and> env_grows view e e') \<and>
     (\<forall>k. disk_pair view d k \<longrightarrow> disk_pair view d' k)"

lemma disk_dirs: "disk_ok view d \<Longrightarrow> distinct (map fst (dk_dirs d))"
  by (simp add: disk_ok_def)

lemma disk_kept_row:
  assumes "disk_kept view d d'" "(name, e) \<in> set (dk_dirs d)"
  obtains e' where "(name, e') \<in> set (dk_dirs d')" "env_grows view e e'"
  using assms by (fastforce simp: disk_kept_def)

lemma disk_kept_trans:
  assumes "disk_kept view d d'" "disk_kept view d' d''"
  shows "disk_kept view d d''"
proof -
  have "\<exists>e''. (name, e'') \<in> set (dk_dirs d'') \<and> env_grows view e e''" if "(name, e) \<in> set (dk_dirs d)" for name e
    using disk_kept_row [OF assms(1) that] disk_kept_row [OF assms(2)] env_grows_trans by metis
  then show ?thesis using assms by (auto simp: disk_kept_def)
qed

lemma disk_kept_refl: "disk_ok view d \<Longrightarrow> disk_kept view d d"
  by (auto simp: disk_kept_def)

lemma disk_kept_ledger: "disk_ok view d \<Longrightarrow> disk_kept view d (put_disk_ledger g d)"
  by (auto simp: disk_kept_def disk_ok_def disk_pair_def put_disk_ledger_def)

lemma dirs_disk_of: "set (dk_dirs (disk_of reg w)) = reg_epochs reg"
  by (simp add: disk_of_def reg_epochs_def)

lemma disk_pair_disk_of: "disk_pair view (disk_of reg w) k = pair_present view reg k"
  by (simp add: disk_pair_def pair_present_def dirs_disk_of epoch_envs_named case_prod_beta) (simp add: disk_of_def)

lemma disk_of_ok:
  assumes "registry_ok view reg"
  shows "disk_ok view (disk_of reg w)"
proof -
  have wf: "distinct (rg_names reg)" "\<forall>name \<in> set (rg_names reg). \<exists>n. name = epoch_name n"
    and pairs: "\<forall>e \<in> epoch_envs reg. pairs_ok (view (qm_live_pair (rg_db reg))) (view (ep_pair e))"
    using assms by (simp_all add: registry_ok_def registry_wf_def)
  have names: "map fst (dk_dirs (disk_of reg w)) = rg_names reg" by (simp add: disk_of_def rg_names_def)
  have "\<exists>n. fst d = epoch_name n" if "d \<in> set (dk_dirs (disk_of reg w))" for d
    using wf(2) that unfolding names [symmetric] by simp
  moreover have "terminal_row v" if "d \<in> set (dk_dirs (disk_of reg w))" "view (ep_pair (snd d)) k = Some v" for d k v
    using that pairs by (fastforce simp: dirs_disk_of epoch_envs_named pairs_ok_def)
  moreover have "pending_row v" if "view (qm_live_pair (dk_live (disk_of reg w))) k = Some v" for k v
    using that pairs by (auto simp: disk_of_def epoch_envs_def pairs_ok_def)
  ultimately show ?thesis
    unfolding disk_ok_def names case_prod_beta using wf(1) by blast
qed

lemma history_disk:
  assumes "history_kept view reg reg'"
  shows "disk_kept view (disk_of reg w) (disk_of reg' w')"
  using assms disk_of_ok [of view reg'] by (simp add: history_kept_def disk_kept_def dirs_disk_of disk_pair_disk_of)

section \<open>Opening\<close>

lemma upsert_meta_bind_epochs [simp]: "lg_epochs (fst (upsert_meta_bind name proto port fp extractor g)) = lg_epochs g"
  by (simp add: upsert_meta_bind_def register_meta_bind_def Let_def split: option.splits)

lemma register_all_epochs [simp]: "lg_epochs (fst (register_all binds g)) = lg_epochs g"
  by (induction binds arbitrary: g) (simp_all add: case_prod_beta Let_def)

lemma register_rules_epochs [simp]: "lg_epochs (fst (register_rules i binds (g, meta))) = lg_epochs g"
  by (induction binds arbitrary: i g meta) (simp_all add: case_prod_beta Let_def)

lemma foldl_highest:
  assumes "\<forall>name \<in> set names. \<exists>n. name = epoch_name n"
  shows "foldl (\<lambda>m name. case epoch_num_of name of None \<Rightarrow> m | Some n \<Rightarrow> if m \<le> n then n else m) m names
    \<in> insert m {n. epoch_name n \<in> set names}"
  using assms
proof (induction names arbitrary: m)
  case (Cons name names)
  then obtain n where n: "name = epoch_name n" by auto
  let ?m = "if m \<le> n then n else m"
  have "foldl (\<lambda>m name. case epoch_num_of name of None \<Rightarrow> m | Some n \<Rightarrow> if m \<le> n then n else m) ?m names
      \<in> insert ?m {n. epoch_name n \<in> set names}"
    by (rule Cons.IH) (use Cons.prems in simp)
  then show ?case by (auto simp: n split: if_splits)
qed simp

lemma highest_epoch_in:
  assumes "\<forall>name \<in> set names. \<exists>n. name = epoch_name n" "names \<noteq> []"
  shows "epoch_name (highest_epoch names) \<in> set names"
proof -
  obtain n rest where names: "names = epoch_name n # rest" using assms by (cases names) auto
  then show ?thesis
    using foldl_highest [of rest n] assms(1) by (auto simp: highest_epoch_def)
qed

lemma open_epochs:
  assumes dist: "distinct (map fst (dk_dirs d))" and reg: "reg = registry_open fresh max_bytes (dk_live d) (dk_dirs d)"
  shows "set (dk_dirs d) \<subseteq> reg_epochs reg" "epoch_envs reg \<subseteq> insert fresh (snd ` set (dk_dirs d))"
proof -
  let ?name = "epoch_name (highest_epoch (map fst (dk_dirs d)))"
  have new: "reg_epochs reg = insert (?name, open_or_create fresh ?name (dk_dirs d)) (set (AList.delete ?name (dk_dirs d)))"
    by (simp add: reg registry_open_def reg_epochs_def Let_def)
  have "ne \<in> reg_epochs reg" if "ne \<in> set (dk_dirs d)" for ne
  proof (cases "fst ne = ?name")
    case True
    then have "map_of (dk_dirs d) ?name = Some (snd ne)"
      using map_of_is_SomeI [OF dist] that by (metis prod.collapse)
    then show ?thesis unfolding new using True by (simp add: open_or_create_def prod_eq_iff)
  next
    case False
    then show ?thesis unfolding new using that by (simp add: AList.delete_eq case_prod_beta)
  qed
  then show "set (dk_dirs d) \<subseteq> reg_epochs reg" by blast
  show "epoch_envs reg \<subseteq> insert fresh (snd ` set (dk_dirs d))"
    unfolding epoch_envs_named new
    by (auto simp: open_or_create_def AList.delete_eq image_iff dest!: map_of_SomeD split: option.splits) force
qed

lemma open_disk_kept:
  assumes "disk_ok view d" "open_disk os cfg d = Some reg" "view (ep_pair (ie_fresh (ou_ingest os))) = Map.empty"
  shows "registry_ok view reg" "disk_kept view d (disk_of reg w)"
proof -
  obtain max_bytes where reg: "reg = registry_open (ie_fresh (ou_ingest os)) max_bytes (dk_live d) (dk_dirs d)"
    using assms(2) by (auto simp: open_disk_def open_registry_def elim!: bind_SomeE)
  note e = open_epochs [OF disk_dirs [OF assms(1)] reg]
  have live: "qm_live_pair (rg_db reg) = qm_live_pair (dk_live d)" by (simp add: reg registry_open_def Let_def with_epoch_def)
  have "registry_wf reg" unfolding reg by (rule registry_wf_open) (use assms(1) in \<open>auto simp: disk_ok_def\<close>)
  moreover have "pairs_ok (view (qm_live_pair (rg_db reg))) (view (ep_pair x))" if "x \<in> epoch_envs reg" for x
    using that e(2) assms(1,3) by (fastforce simp: disk_ok_def pairs_ok_def live)
  ultimately show ok: "registry_ok view reg" by (simp add: registry_ok_def)
  have "disk_pair view d k \<longrightarrow> pair_present view reg k" for k
    using e(1) by (force simp: disk_pair_def pair_present_def live epoch_envs_named)
  then show "disk_kept view d (disk_of reg w)"
    using e(1) disk_of_ok [OF ok] by (auto simp: disk_kept_def dirs_disk_of disk_pair_disk_of)
qed

section \<open>Invocations\<close>

lemma run_live_registry:
  assumes "run_live hex read_file fresh live dirs cwd w cfg = Some s"
  shows "open_registry fresh live dirs cfg = Some (li_reg s)"
  using assms by (auto simp: run_live_def ingest_start_def live_ingest_new_def Let_def case_prod_beta elim!: bind_SomeE)

lemma serve_onlineE:
  assumes "cmd_serve os cfg inp d = Some d'" "serves_online cfg"
  obtains s s1 s2 where "run_live (ou_hex_decode os) (ou_read_file os) (ie_fresh (ou_ingest os)) (dk_live d) (dk_dirs d)
      (ou_cwd os) (dk_world d) cfg = Some s" "ingest_loop (ou_ingest os) (handled (cf_ingest cfg) (in_events inp)) s = Some s1"
    "s2 = s1 \<or> s2 = finalize (ou_ingest os) (in_end inp) s1" "d' = disk_of (li_reg s2) (li_world s2)"
proof -
  obtain s s1 where "run_live (ou_hex_decode os) (ou_read_file os) (ie_fresh (ou_ingest os)) (dk_live d) (dk_dirs d)
      (ou_cwd os) (dk_world d) cfg = Some s" "ingest_loop (ou_ingest os) (handled (cf_ingest cfg) (in_events inp)) s = Some s1"
    "d' = (let s2 = (if orderly (in_events inp) then finalize (ou_ingest os) (in_end inp) s1 else s1) in disk_of (li_reg s2) (li_world s2))"
    using assms by (auto simp: cmd_serve_def serve_online_def Let_def elim!: bind_SomeE)
  then show thesis
    using that [of s s1 "if orderly (in_events inp) then finalize (ou_ingest os) (in_end inp) s1 else s1"] by (simp add: Let_def)
qed

lemma serve_offlineE:
  assumes "cmd_serve os cfg inp d = Some d'" "\<not> serves_online cfg"
  obtains reg reg' g where "open_disk os cfg d = Some reg"
    "run_ttl_loop (ie_lmdb (ou_ingest os)) (ac_qr_timeout_secs (cf_analysis cfg)) (ac_fin_short_timeout_secs (cf_analysis cfg))
       (in_rounds inp) (reg, w_ledger (dk_world d)) = (reg', g)" "d' = disk_of reg' ((dk_world d)\<lparr>w_ledger := g\<rparr>)"
  using assms by (auto simp: cmd_serve_def serve_offline_def Let_def elim!: bind_SomeE split: prod.splits)

text \<open>What a command does to the disk.\<close>

lemma run_commandE:
  assumes "run_command os cfg inp c d = Some (d', out)"
  obtains (serve) "cmd_serve os cfg inp d = Some d'" | (same) "d' = d"
  | (ledger) g where "d' = put_disk_ledger g d" "lg_epochs g = lg_epochs (w_ledger (dk_world d))"
  | (opened) reg where "open_disk os cfg d = Some reg" "d' = disk_of reg (dk_world d)"
proof (cases c)
  case Serve
  then show thesis using assms serve by auto
next
  case (Meta register list_rows)
  let ?g = "fst (cmd_meta cfg register list_rows (w_ledger (dk_world d)))"
  have "d' = put_disk_ledger ?g d" using assms Meta by (simp add: case_prod_beta)
  moreover have "lg_epochs ?g = lg_epochs (w_ledger (dk_world d))" by (simp add: cmd_meta_def case_prod_beta)
  ultimately show thesis by (rule ledger)
next
  case (Query start stop limit)
  then show thesis using assms opened by (auto elim!: bind_SomeE)
next
  case Qr
  then show thesis using assms opened by (auto elim!: bind_SomeE)
next
  case Export
  then show thesis using assms opened by (auto elim!: bind_SomeE)
next
  case (Ingest wal_dir)
  then have "d' = d" using assms by (auto elim!: bind_SomeE)
  then show thesis by (rule same)
next
  case (Anomaly kind start stop limit)
  then have "d' = d" using assms by (simp add: case_prod_beta)
  then show thesis by (rule same)
qed (use assms in simp)

lemma invocations_ConsE:
  assumes "invocations os (i # is) d = Some d'"
  obtains cfg d1 out where "run_command os cfg (snd i) (cl_command (fst i)) d = Some (d1, out)" "invocations os is d1 = Some d'"
  using assms by (auto simp: program_def case_prod_beta elim!: bind_SomeE)

lemma run_live_start:
  assumes "run_live hex read_file fresh live dirs cwd w cfg = Some s"
  shows "li_pipelines s = []" "li_refills s = []" "li_ttl_ticks s = 0" "li_ttl_secs s = ac_ttl_scan_secs (cf_analysis cfg)"
    and "ac_meta_binds (cf_analysis cfg) = [] \<Longrightarrow> li_world s = w"
  using assms by (auto simp: run_live_def ingest_start_def live_ingest_new_def Let_def case_prod_beta elim!: bind_SomeE)

context lmdb_store
begin

lemma ttl_thread_history:
  "run_ttl_loop L qr_secs fin_secs rounds (reg, g) = (reg', g') \<Longrightarrow> registry_ok view reg \<Longrightarrow> history_kept view reg reg'"
proof (induction rounds arbitrary: reg g)
  case Nil
  then show ?case by (simp add: history_kept_refl)
next
  case (Cons r rounds)
  obtain shutdown now where r: "r = (shutdown, now)" by (cases r)
  show ?case
  proof (cases "\<not> shutdown \<and> scan_pending_ttl L now qr_secs fin_secs (rg_db reg) \<noteq> None")
    case True
    then obtain db events stats where s: "scan_pending_ttl L now qr_secs fin_secs (rg_db reg) = Some (db, events, stats)" by auto
    have one: "history_kept view reg (reg\<lparr>rg_db := db\<rparr>)"
      by (rule index_history) (use scan_index_kept [OF s] Cons.prems(2) in simp_all)
    then have "registry_ok view (reg\<lparr>rg_db := db\<rparr>)" by (simp add: history_kept_def)
    then have "history_kept view (reg\<lparr>rg_db := db\<rparr>) reg'"
      using Cons.IH [of "reg\<lparr>rg_db := db\<rparr>" "insert_anomalies events g"] Cons.prems(1) True s by (simp add: r)
    then show ?thesis by (rule history_kept_trans [OF one])
  next
    case False
    then show ?thesis
      using Cons by (cases "scan_pending_ttl L now qr_secs fin_secs (rg_db reg)") (auto simp: r history_kept_refl split: if_splits)
  qed
qed

lemma serve_kept:
  fixes d :: "'d disk"
  assumes "ie_lmdb (ou_ingest os) = L" "view (ep_pair (ie_fresh (ou_ingest os))) = Map.empty"
    and "disk_ok view d" "cmd_serve os cfg inp d = Some d'"
  shows "disk_kept view d d'"
proof (cases "serves_online cfg")
  case True
  obtain s s1 s2 where s: "run_live (ou_hex_decode os) (ou_read_file os) (ie_fresh (ou_ingest os)) (dk_live d) (dk_dirs d)
      (ou_cwd os) (dk_world d) cfg = Some s" "ingest_loop (ou_ingest os) (handled (cf_ingest cfg) (in_events inp)) s = Some s1"
    "s2 = s1 \<or> s2 = finalize (ou_ingest os) (in_end inp) s1" "d' = disk_of (li_reg s2) (li_world s2)"
    by (rule serve_onlineE [OF assms(4) True])
  have "open_disk os cfg d = Some (li_reg s)" using run_live_registry [OF s(1)] by (simp add: open_disk_def)
  note opened = open_disk_kept [OF assms(3) this assms(2)]
  have "history_kept view (li_reg s) (li_reg s2)" using s(3) run_history [OF assms(1,2) opened(1) s(2)] by blast
  then show ?thesis unfolding s(4) by (rule disk_kept_trans [OF opened(2) history_disk])
next
  case False
  obtain reg reg' g where s: "open_disk os cfg d = Some reg"
    "run_ttl_loop L (ac_qr_timeout_secs (cf_analysis cfg)) (ac_fin_short_timeout_secs (cf_analysis cfg)) (in_rounds inp)
       (reg, w_ledger (dk_world d)) = (reg', g)" "d' = disk_of reg' ((dk_world d)\<lparr>w_ledger := g\<rparr>)"
    by (rule serve_offlineE [OF assms(4) False, unfolded assms(1)])
  note opened = open_disk_kept [OF assms(3) s(1) assms(2)]
  show ?thesis
    unfolding s(3) using disk_kept_trans [OF opened(2) history_disk [OF ttl_thread_history [OF s(2) opened(1)]]] .
qed

lemma command_kept:
  fixes d :: "'d disk"
  assumes "ie_lmdb (ou_ingest os) = L" "view (ep_pair (ie_fresh (ou_ingest os))) = Map.empty"
    and "disk_ok view d" "run_command os cfg inp c d = Some (d', out)"
  shows "disk_kept view d d'"
  using assms(4)
proof (cases rule: run_commandE)
  case serve
  then show ?thesis by (rule serve_kept [OF assms(1-3)])
next
  case (ledger g)
  then show ?thesis using disk_kept_ledger [OF assms(3)] by simp
next
  case (opened reg)
  then show ?thesis using open_disk_kept(2) [OF assms(3) _ assms(2)] by simp
qed (simp add: disk_kept_refl [OF assms(3)])

lemma invocations_kept:
  fixes d :: "'d disk"
  assumes "ie_lmdb (ou_ingest os) = L" "view (ep_pair (ie_fresh (ou_ingest os))) = Map.empty"
  shows "invocations os is d = Some d' \<Longrightarrow> disk_ok view d \<Longrightarrow> disk_kept view d d'"
proof (induction "is" arbitrary: d)
  case Nil
  then show ?case by (simp add: disk_kept_refl)
next
  case (Cons i "is")
  obtain cfg d1 out where s: "run_command os cfg (snd i) (cl_command (fst i)) d = Some (d1, out)" "invocations os is d1 = Some d'"
    using Cons.prems(1) by (rule invocations_ConsE)
  have one: "disk_kept view d d1" by (rule command_kept [OF assms Cons.prems(2) s(1)])
  then have "disk_ok view d1" by (simp add: disk_kept_def)
  then show ?case using Cons.IH [OF s(2)] disk_kept_trans [OF one] by blast
qed

end

text \<open>What the queries of the command line give, in terms of the stores.\<close>

lemma query_final:
  assumes total: "lmdb_total (ie_lmdb (ou_ingest os)) view" and fresh: "view (ep_pair (ie_fresh (ou_ingest os))) = Map.empty"
    and ok: "disk_ok view d"
    and q: "run_command os cfg inp (Qr None (Some q) None None None None n False) d = Some (d1, QrOutput [PairLine p])"
    and final: "qp_status p \<noteq> status_u8 Pending"
  obtains name e where "(name, e) \<in> set (dk_dirs d)" "Option.bind (view (ep_pair e) (k_qr_pair q)) qr_pair_decode \<noteq> None"
    "open_disk os cfg d \<noteq> None"
proof -
  obtain reg where reg: "open_disk os cfg d = Some reg"
    "qr_by_idx (ie_lmdb (ou_ingest os)) (open_with_window reg (w_ledger (dk_world d)) None None) q = Some (Some p)"
    using q by (auto simp: cmd_qr_def qr_session_def elim!: bind_SomeE split: option.splits)
  obtain max_bytes where open_reg: "reg = registry_open (ie_fresh (ou_ingest os)) max_bytes (dk_live d) (dk_dirs d)"
    using reg(1) by (auto simp: open_disk_def open_registry_def elim!: bind_SomeE)
  obtain e where e: "e \<in> epoch_envs reg" "Option.bind (view (ep_pair e) (k_qr_pair q)) qr_pair_decode \<noteq> None"
    using lmdb_total.qr_by_idx_found [OF total open_disk_kept(1) [OF ok reg(1) fresh] open_with_window_def,
        of "w_ledger (dk_world d)" None None q] reg(2) final
    by (auto split: if_splits)
  then have "e \<noteq> ie_fresh (ou_ingest os)" using fresh by auto
  then show thesis using that reg(1) e open_epochs(2) [OF disk_dirs [OF ok] open_reg] by auto
qed

lemma query_found:
  assumes total: "lmdb_total (ie_lmdb (ou_ingest os)) view" and fresh: "view (ep_pair (ie_fresh (ou_ingest os))) = Map.empty"
    and ok: "disk_ok view d" and opened: "open_disk os cfg d \<noteq> None"
    and e: "(name, e) \<in> set (dk_dirs d)" "Option.bind (view (ep_pair e) (k_qr_pair q)) qr_pair_decode \<noteq> None"
  shows "\<exists>d1 p. run_command os cfg inp (Qr None (Some q) None None None None n False) d = Some (d1, QrOutput [PairLine p])"
proof -
  obtain reg where reg: "open_disk os cfg d = Some reg" using opened by blast
  then obtain max_bytes where open_reg: "reg = registry_open (ie_fresh (ou_ingest os)) max_bytes (dk_live d) (dk_dirs d)"
    by (auto simp: open_disk_def open_registry_def elim!: bind_SomeE)
  have "e \<in> epoch_envs reg" using open_epochs(1) [OF disk_dirs [OF ok] open_reg] e(1) by (force simp: epoch_envs_named)
  then obtain p where "qr_by_idx (ie_lmdb (ou_ingest os)) (open_with_window reg (w_ledger (dk_world d)) None None) q = Some (Some p)"
    using lmdb_total.qr_by_idx_found [OF total open_disk_kept(1) [OF ok reg fresh] open_with_window_def,
        of "w_ledger (dk_world d)" None None q] e(2)
    by (auto split: if_splits)
  then show ?thesis by (simp add: cmd_qr_def qr_session_def reg)
qed


section \<open>A concrete run\<close>

text \<open>An epoch with one answered request; the service freezes it at its first tick and is stopped, the
  rules are registered, and the request is asked for again.\<close>

definition history_pair :: qr_pair_value where
  "history_pair = \<lparr>qp_status = status_u8 Matched, qp_conn_hash = 9, qp_q_ts = 5, qp_r_ts = 6, qp_latency_ms = 0,
     qp_q_len = 1, qp_r_len = 1, qp_abs_q_seq = 0, qp_abs_q_end = 1, qp_pseudo = 0, qp_q_idx = [3], qp_r_idx = [4],
     qp_req_key = [], qp_resp_key = []\<rparr>"

definition service_disk :: "(bytes \<times> bytes) list disk" where
  "service_disk = \<lparr>dk_live = no_rows,
     dk_dirs = [(epoch_name 0, (epoch_of no_rows)\<lparr>ep_pair := [(k_qr_pair 3, qr_pair_encode history_pair)],
       ep_record_ts := [(k_record_ts 5 1, v_record_summary_encode sample_summary)]\<rparr>)],
     dk_world = \<lparr>w_ledger = ledger_init, w_fs = Map.empty\<rparr>\<rparr>"

definition service_config :: config where
  "service_config = config_default\<lparr>cf_zenoh := \<lparr>zc_connect = [''tcp/10.0.0.1:7447''], zc_listen = []\<rparr>,
     cf_crypto := crypto_default\<lparr>cc_key_hex := Some ''00''\<rparr>\<rparr>"

definition service_outside :: "((bytes \<times> bytes) list, unit) outside" where
  "service_outside = \<lparr>ou_ingest = flow_env\<lparr>ie_disk_size := (\<lambda>_. Some (2 ^ 40))\<rparr>, ou_format = ref_format,
     ou_try_decode = (\<lambda>_. None), ou_open_wal = (\<lambda>_. None), ou_read_dir = (\<lambda>_. None), ou_read_file = (\<lambda>_. None),
     ou_hex_decode = (\<lambda>_. Some (replicate 32 0)), ou_read_toml = (\<lambda>_. Some service_config), ou_environment = (\<lambda>_. None),
     ou_cwd = None, ou_create = (\<lambda>_. None), ou_write = (\<lambda>_ _. None), ou_flush = Some\<rparr>"

definition cli_for :: "command \<Rightarrow> cli" where
  "cli_for c = \<lparr>cl_config = Some ''vault.toml'', cl_root = None, cl_hot_dir = None, cl_warm_dir = None, cl_ledger_db = None,
     cl_lmdb_dir = None, cl_lmdb_map_size = None, cl_command = c\<rparr>"

definition service_run :: "(cli \<times> inputs) list" where
  "service_run =
     [(cli_for Serve, \<lparr>in_events = [(\<lparr>ck_secs = 0, ck_ns = 0\<rparr>, Ticker), (\<lparr>ck_secs = 1, ck_ns = 1\<rparr>, CtrlC)],
         in_end = \<lparr>ck_secs = 1, ck_ns = 1\<rparr>, in_rounds = []\<rparr>),
      (cli_for (Meta True False), \<lparr>in_events = [], in_end = \<lparr>ck_secs = 2, ck_ns = 2\<rparr>, in_rounds = []\<rparr>)]"

lemma service_config_loads:
  "program service_outside (cli_for c, inp) d = run_command service_outside service_config inp c d"
  by (simp add: program_def cli_for_def service_outside_def config_load_def overrides_of_def service_config_def config_default_def
      apply_env_def apply_cli_def set_env_def env_str_def validate_def storage_default_def ingest_default_def
      analysis_default_def Let_def)

lemma service_sizes:
  "lmdb_map_size_bytes service_config = Some (64 * 1024 * 1024 * 1024)"
  "pending_budget_bytes service_config = Some (256 * 1024 * 1024)"
  "conn_pending_cap_bytes service_config = Some (16 * 1024 * 1024)"
  "cfg_epoch_max_bytes service_config = Some (128 * 1024 * 1024)"
  using default_config(2-5)
  by (simp_all add: service_config_def lmdb_map_size_bytes_def pending_budget_bytes_def conn_pending_cap_bytes_def
      cfg_epoch_max_bytes_def)

text \<open>A scan does not matter to a rotation that is due.\<close>

lemma scan_then_rotate:
  fixes s :: "(bytes \<times> bytes) list live_ingest"
  assumes "li_reg s = \<lparr>rg_db = db, rg_frozen = [], rg_epoch_num = 0, rg_epoch_max_bytes = m\<rparr>" "lg_epochs (w_ledger (li_world s)) = []"
    and "qm_record_ts db = [(k_record_ts a b, v)]" "ie_lmdb env = ref_lmdb" "ie_disk_size env = (\<lambda>_. Some n)" "m \<le> n"
  shows "\<exists>s'. maybe_rotate_epoch env (ttl_scan env now s) = Some s' \<and> li_pipelines s' = li_pipelines s \<and> li_refills s' = li_refills s \<and>
    rg_epoch_num (li_reg s') = 1 \<and> map fst (rg_frozen (li_reg s')) = [epoch_name 0] \<and>
    lg_epochs (w_ledger (li_world s')) = [frozen_bounds 0 (Some a) (Some a) 1]"
proof -
  let ?t = "ttl_scan env now s"
  have "qm_record_ts (rg_db (li_reg ?t)) = qm_record_ts (rg_db (li_reg s))"
    using scan_record_ts by (auto simp: ttl_scan_def put_ledger_def Let_def split: option.splits)
  then have ts: "qm_record_ts (rg_db (li_reg ?t)) = [(k_record_ts a b, v)]" using assms(1,3) by simp
  have t: "li_pipelines ?t = li_pipelines s" "li_refills ?t = li_refills s" "rg_frozen (li_reg ?t) = []" "rg_epoch_num (li_reg ?t) = 0"
    "rg_epoch_max_bytes (li_reg ?t) = m" "lg_epochs (w_ledger (li_world ?t)) = []"
    using assms(1,2) by (simp_all add: ttl_scan_def put_ledger_def Let_def split: option.splits)
  show ?thesis
    using assms(6) by (simp add: maybe_rotate_epoch_def epoch_should_rotate_def current_epoch_bounds_def assms(4,5) t ts ref_lmdb_def
        sorted_entries_def record_key_ts_def slice_get_def k_record_ts_def upsert_epoch_boundary_def rotate_epoch_def Let_def put_ledger_def)
qed

lemma service_key [simp]: "cc_key_hex (cf_crypto service_config) = Some ''00''"
  by (simp add: service_config_def)

lemma service_runs:
  obtains d' where "invocations service_outside service_run service_disk = Some d'"
    "map fst (dk_dirs d') = [epoch_name 1, epoch_name 0]"
    "lg_epochs (w_ledger (dk_world d')) = [frozen_bounds 0 (Some 5) (Some 5) 1]"
proof -
  let ?now = "\<lparr>ck_secs = 0, ck_ns = 0\<rparr>" and ?stop = "\<lparr>ck_secs = 1, ck_ns = 1\<rparr>"
  let ?reg = "registry_open (epoch_of no_rows) (128 * 1024 * 1024) no_rows (dk_dirs service_disk)"
  have live: "dk_live service_disk = no_rows" "ie_fresh (ou_ingest service_outside) = epoch_of no_rows"
    by (simp_all add: service_disk_def service_outside_def flow_env_def)
  obtain s where run: "run_live (ou_hex_decode service_outside) (ou_read_file service_outside) (ie_fresh (ou_ingest service_outside))
      (dk_live service_disk) (dk_dirs service_disk) (ou_cwd service_outside) (dk_world service_disk) service_config = Some s"
    by (simp add: run_live_def open_registry_def service_sizes from_key_hex_def service_outside_def Let_def)
  have "ac_meta_binds (cf_analysis service_config) = []" "ac_ttl_scan_secs (cf_analysis service_config) = 1"
    by (simp_all add: service_config_def config_default_def analysis_default_def)
  then have s: "li_pipelines s = []" "li_refills s = []" "li_ttl_ticks s = 0" "li_ttl_secs s = 1"
    "li_world s = \<lparr>w_ledger = ledger_init, w_fs = Map.empty\<rparr>" "li_reg s = ?reg"
    using run_live_start [OF run] run_live_registry [OF run]
    by (simp_all add: open_registry_def service_sizes live service_disk_def)
  have reg: "?reg = \<lparr>rg_db = with_epoch (snd (hd (dk_dirs service_disk))) no_rows, rg_frozen = [], rg_epoch_num = 0,
      rg_epoch_max_bytes = 128 * 1024 * 1024\<rparr>"
    by (simp add: registry_open_def service_disk_def highest_epoch_def open_or_create_def)
  let ?s = "s\<lparr>li_ttl_ticks := 0\<rparr>"
  obtain s1 where s1: "maybe_rotate_epoch (ou_ingest service_outside) (ttl_scan (ou_ingest service_outside) ?now ?s) = Some s1"
    "li_pipelines s1 = []" "li_refills s1 = []" "rg_epoch_num (li_reg s1) = 1" "map fst (rg_frozen (li_reg s1)) = [epoch_name 0]"
    "lg_epochs (w_ledger (li_world s1)) = [frozen_bounds 0 (Some 5) (Some 5) 1]"
    using scan_then_rotate [of ?s "with_epoch (snd (hd (dk_dirs service_disk))) no_rows" "128 * 1024 * 1024" 5 1
        "v_record_summary_encode sample_summary" "ou_ingest service_outside" "2 ^ 40" ?now] s reg
    by (auto simp: service_outside_def flow_env_def service_disk_def with_epoch_def ledger_init_def)
  have loop: "ingest_loop (ou_ingest service_outside) [(?now, MsgTick)] s = Some s1"
    using s1(1,3) s(3,4) by (simp add: on_tick_def tick_timers_def)
  have "handled (cf_ingest service_config) [(?now, Ticker), (?stop, CtrlC)] = [(?now, MsgTick)]" by simp
  moreover have "finalize (ou_ingest service_outside) ?stop s1 = s1" using s1(2) by (simp add: finalize_def)
  moreover have "serves_online service_config" by (simp add: serves_online_def service_config_def)
  ultimately have "program service_outside (hd service_run) service_disk = Some (disk_of (li_reg s1) (li_world s1), NoOutput)"
    using run loop by (simp add: service_run_def service_config_loads cmd_serve_def serve_online_def del: ingest_loop.simps)
  moreover have "program service_outside (hd (tl service_run)) d =
      Some (put_disk_ledger (fst (cmd_meta service_config True False (w_ledger (dk_world d)))) d,
        MetaOutput (fst (snd (cmd_meta service_config True False (w_ledger (dk_world d)))))
          (snd (snd (cmd_meta service_config True False (w_ledger (dk_world d))))))" for d
    by (simp add: service_run_def service_config_loads case_prod_beta)
  ultimately have "invocations service_outside service_run service_disk =
      Some (put_disk_ledger (fst (cmd_meta service_config True False (w_ledger (li_world s1)))) (disk_of (li_reg s1) (li_world s1)))"
    by (simp add: service_run_def) (simp add: disk_of_def)
  then show thesis
    by (rule that) (use s1(4-6) in \<open>simp_all add: put_disk_ledger_def disk_of_def cmd_meta_def case_prod_beta\<close>)
qed

lemma epoch_targets_single: "epoch_targets [epoch_name n] = [(n, epoch_name n)]"
proof -
  have "epoch_dirs [epoch_name n] = [epoch_name n]" by (simp add: epoch_dirs_def epoch_name_def)
  then show ?thesis by (simp add: epoch_targets_def List.map_filter_simps)
qed

lemma service_query:
  "\<exists>d1. run_command service_outside service_config inp (Qr None (Some 3) None None None None n False) service_disk =
     Some (d1, QrOutput [PairLine history_pair])"
proof -
  let ?e = "snd (hd (dk_dirs service_disk))"
  have dec: "qr_pair_decode (qr_pair_encode history_pair) = Some history_pair"
    by (rule qr_pair_decode_encode) (simp add: qr_pair_wf_def history_pair_def)
  have e: "ep_pair ?e = [(k_qr_pair 3, qr_pair_encode history_pair)]" by (simp add: service_disk_def)
  have live: "qm_live_pair (with_epoch ?e no_rows) = []" by (simp add: no_rows_def with_epoch_def)
  define reg :: "(bytes \<times> bytes) list registry" where
    "reg = \<lparr>rg_db = with_epoch ?e no_rows, rg_frozen = [], rg_epoch_num = 0, rg_epoch_max_bytes = 128 * 1024 * 1024\<rparr>"
  have opened: "open_disk service_outside service_config service_disk = Some reg"
    by (simp add: open_disk_def open_registry_def service_sizes registry_open_def reg_def highest_epoch_def open_or_create_def)
      (simp add: service_disk_def open_or_create_def)
  have "qr_by_idx ref_lmdb (open_with_window reg g None None) 3 = Some (Some history_pair)" for g
    by (simp add: qr_by_idx_def open_with_window_def build_session_def rg_names_def reg_def epoch_targets_single
        epoch_env_of_def ref_lmdb_def e dec live Let_def)
  moreover have "ie_lmdb (ou_ingest service_outside) = ref_lmdb" by (simp add: service_outside_def flow_env_def)
  ultimately show ?thesis by (simp add: opened cmd_qr_def qr_session_def)
qed


end
