(* ===== verification/Service_Epochs.thy ===== *)
theory Service_Epochs
  imports Service_Props
begin

text \<open>
  The bounds of frozen epochs across invocations: every command leaves names, record keys and stored
  bounds in order, so what pruned replays rely on holds after any number of restarts.
\<close>

section \<open>Registries and disks\<close>

definition epochs_ok :: "('d \<Rightarrow> contents) \<Rightarrow> 'd registry \<Rightarrow> ledger \<Rightarrow> bool" where
  "epochs_ok view reg g \<longleftrightarrow> registry_wf reg \<and> bounds_true view reg g \<and> (\<forall>e \<in> epoch_envs reg. record_keys_ok view e)"

lemma ingest_inv_epochs: "ingest_inv view s = epochs_ok view (li_reg s) (w_ledger (li_world s))"
  by (simp add: ingest_inv_def epochs_ok_def)

lemma epochs_ok_ledger: "lg_epochs g' = lg_epochs g \<Longrightarrow> epochs_ok view reg g' = epochs_ok view reg g"
  by (simp add: epochs_ok_def bounds_true_def)

definition disk_wf :: "'d disk \<Rightarrow> bool" where
  "disk_wf d \<longleftrightarrow> distinct (map fst (dk_dirs d)) \<and> (\<forall>x \<in> set (dk_dirs d). \<exists>n. fst x = epoch_name n)"

text \<open>The highest directory is the next current epoch; all others are frozen.\<close>

definition disk_epochs :: "('d \<Rightarrow> contents) \<Rightarrow> 'd disk \<Rightarrow> bool" where
  "disk_epochs view d \<longleftrightarrow> disk_wf d \<and> (\<forall>x \<in> set (dk_dirs d). record_keys_ok view (snd x)) \<and>
     (\<forall>b \<in> set (lg_epochs (w_ledger (dk_world d))). \<forall>n e t q. eb_epoch_id b = uint n \<longrightarrow> (epoch_name n, e) \<in> set (dk_dirs d) \<longrightarrow>
        n \<noteq> highest_epoch (map fst (dk_dirs d)) \<longrightarrow> view (ep_record_ts e) (k_record_ts t q) \<noteq> None \<longrightarrow> in_boundary b t)"

definition disk_names :: "'d disk \<Rightarrow> string set" where
  "disk_names d = fst ` set (dk_dirs d)"

definition epochs_step :: "('d \<Rightarrow> contents) \<Rightarrow> 'd disk \<Rightarrow> 'd disk \<Rightarrow> bool" where
  "epochs_step view d d' \<longleftrightarrow> disk_wf d' \<and> disk_names d \<subseteq> disk_names d' \<and>
     (disk_epochs view d \<longrightarrow> epoch_name (- 1) \<notin> disk_names d' \<longrightarrow> disk_epochs view d')"

lemma epochs_step_refl: "disk_wf d \<Longrightarrow> epochs_step view d d"
  by (simp add: epochs_step_def)

lemma epochs_step_trans: "epochs_step view d d' \<Longrightarrow> epochs_step view d' d'' \<Longrightarrow> epochs_step view d d''"
  unfolding epochs_step_def by blast

lemma epochs_step_ledger:
  "lg_epochs g = lg_epochs (w_ledger (dk_world d)) \<Longrightarrow> disk_wf d \<Longrightarrow> epochs_step view d (put_disk_ledger g d)"
  by (simp add: epochs_step_def disk_names_def put_disk_ledger_def disk_epochs_def disk_wf_def)

lemma foldl_highest_le:
  assumes "\<forall>name \<in> set names. \<exists>n. name = epoch_name n"
  shows "m \<le> foldl (\<lambda>m name. case epoch_num_of name of None \<Rightarrow> m | Some n \<Rightarrow> if m \<le> n then n else m) m names \<and>
    (\<forall>n. epoch_name n \<in> set names \<longrightarrow>
       n \<le> foldl (\<lambda>m name. case epoch_num_of name of None \<Rightarrow> m | Some n \<Rightarrow> if m \<le> n then n else m) m names)"
  using assms
proof (induction names arbitrary: m)
  case (Cons name names)
  then obtain n where n: "name = epoch_name n" by auto
  let ?m = "if m \<le> n then n else m"
  let ?f = "foldl (\<lambda>m name. case epoch_num_of name of None \<Rightarrow> m | Some n \<Rightarrow> if m \<le> n then n else m) ?m names"
  have IH: "?m \<le> ?f" "\<And>k. epoch_name k \<in> set names \<Longrightarrow> k \<le> ?f" using Cons.IH [of ?m] Cons.prems by auto
  have "m \<le> ?m" "n \<le> ?m" by auto
  then have "m \<le> ?f" "n \<le> ?f" using IH(1) by (meson order_trans)+
  then show ?case using IH(2) by (auto simp: n)
qed simp

lemma highest_epoch_ge:
  "\<forall>name \<in> set names. \<exists>n. name = epoch_name n \<Longrightarrow> epoch_name n \<in> set names \<Longrightarrow> n \<le> highest_epoch names"
  using foldl_highest_le [of names 0] by (simp add: highest_epoch_def)

lemma highest_current:
  assumes "registry_wf reg" "current_highest reg"
  shows "highest_epoch (rg_names reg) = rg_epoch_num reg"
proof (rule order_antisym)
  have wf: "\<forall>name \<in> set (rg_names reg). \<exists>n. name = epoch_name n" using assms(1) by (simp add: registry_wf_def)
  have "rg_names reg \<noteq> []" by (simp add: rg_names_def)
  then show "highest_epoch (rg_names reg) \<le> rg_epoch_num reg"
    using highest_epoch_in [OF wf] assms(2) by (simp add: current_highest_def)
  show "rg_epoch_num reg \<le> highest_epoch (rg_names reg)"
    using highest_epoch_ge [OF wf] by (simp add: rg_names_def)
qed

section \<open>Opening and closing\<close>

lemma open_names:
  assumes "disk_wf d" "open_disk os cfg d = Some reg"
  shows "registry_wf reg" "current_highest reg" "disk_names d \<subseteq> set (rg_names reg)"
    and "rg_frozen reg = AList.delete (epoch_name (highest_epoch (map fst (dk_dirs d)))) (dk_dirs d)"
    and "epoch_envs reg \<subseteq> insert (ie_fresh (ou_ingest os)) (snd ` set (dk_dirs d))"
proof -
  obtain max_bytes where reg: "reg = registry_open (ie_fresh (ou_ingest os)) max_bytes (dk_live d) (dk_dirs d)"
    using assms(2) by (auto simp: open_disk_def open_registry_def elim!: bind_SomeE)
  note dirs = assms(1) [unfolded disk_wf_def]
  let ?n = "highest_epoch (map fst (dk_dirs d))"
  have num: "rg_epoch_num reg = ?n" by (simp add: reg registry_open_def Let_def)
  show frozen: "rg_frozen reg = AList.delete (epoch_name ?n) (dk_dirs d)"
    by (simp add: reg registry_open_def Let_def)
  have names: "set (rg_names reg) = insert (epoch_name ?n) (disk_names d)"
    by (auto simp: rg_names_def num frozen delete_keys disk_names_def)
  then show "disk_names d \<subseteq> set (rg_names reg)" by blast
  have "\<forall>name \<in> set (map fst (dk_dirs d)). \<exists>n. name = epoch_name n" using dirs by auto
  note ge = highest_epoch_ge [OF this]
  show "current_highest reg" unfolding current_highest_def names num using ge by (auto simp: disk_names_def)
  show "registry_wf reg" unfolding reg by (rule registry_wf_open) (use dirs in auto)
  show "epoch_envs reg \<subseteq> insert (ie_fresh (ou_ingest os)) (snd ` set (dk_dirs d))"
    by (rule open_epochs(2) [OF _ reg]) (use dirs in simp)
qed

lemma open_epochs_ok:
  assumes "disk_epochs view d" "open_disk os cfg d = Some reg" "record_keys_ok view (ie_fresh (ou_ingest os))"
  shows "epochs_ok view reg (w_ledger (dk_world d))"
proof -
  have "disk_wf d" using assms(1) by (simp add: disk_epochs_def)
  note o = open_names [OF this assms(2)]
  have "bounds_true view reg (w_ledger (dk_world d))"
    unfolding bounds_true_def o(4)
  proof (intro ballI allI impI)
    fix b n e t q
    assume b: "b \<in> set (lg_epochs (w_ledger (dk_world d)))" "eb_epoch_id b = uint n"
      "(epoch_name n, e) \<in> set (AList.delete (epoch_name (highest_epoch (map fst (dk_dirs d)))) (dk_dirs d))"
      "view (ep_record_ts e) (k_record_ts t q) \<noteq> None"
    have "(epoch_name n, e) \<in> set (dk_dirs d)" "n \<noteq> highest_epoch (map fst (dk_dirs d))" using b(3) by (auto simp: AList.delete_eq)
    then show "in_boundary b t" using assms(1) b unfolding disk_epochs_def by blast
  qed
  moreover have "record_keys_ok view e" if "e \<in> epoch_envs reg" for e
    using that o(5) assms(1,3) by (auto simp: disk_epochs_def)
  ultimately show ?thesis using o(1) by (simp add: epochs_ok_def)
qed

lemma disk_of_wf:
  assumes "registry_wf reg"
  shows "disk_wf (disk_of reg w)" "disk_names (disk_of reg w) = set (rg_names reg)" "map fst (dk_dirs (disk_of reg w)) = rg_names reg"
proof -
  show names: "map fst (dk_dirs (disk_of reg w)) = rg_names reg" by (simp add: disk_of_def rg_names_def)
  then show dn: "disk_names (disk_of reg w) = set (rg_names reg)" unfolding disk_names_def by (metis image_set)
  have "\<exists>n. fst x = epoch_name n" if "x \<in> set (dk_dirs (disk_of reg w))" for x
  proof -
    have "fst x \<in> set (rg_names reg)" using that unfolding dn [symmetric] disk_names_def by blast
    then show ?thesis using assms by (auto simp: registry_wf_def)
  qed
  then show "disk_wf (disk_of reg w)" using assms unfolding disk_wf_def names by (simp add: registry_wf_def)
qed

lemma close_epochs_ok:
  assumes "epochs_ok view reg (w_ledger w)" "current_highest reg"
  shows "disk_epochs view (disk_of reg w)"
proof -
  have wf: "registry_wf reg" and bounds: "bounds_true view reg (w_ledger w)" and keys: "\<forall>e \<in> epoch_envs reg. record_keys_ok view e"
    using assms(1) by (simp_all add: epochs_ok_def)
  note d = disk_of_wf [OF wf, of w]
  have "record_keys_ok view (snd x)" if "x \<in> set (dk_dirs (disk_of reg w))" for x
    using that keys by (auto simp: dirs_disk_of epoch_envs_named)
  moreover have "in_boundary b t" if b: "b \<in> set (lg_epochs (w_ledger w))" "eb_epoch_id b = uint n"
      "(epoch_name n, e) \<in> set (dk_dirs (disk_of reg w))" "n \<noteq> rg_epoch_num reg" "view (ep_record_ts e) (k_record_ts t q) \<noteq> None" for b n e t q
  proof -
    have "(epoch_name n, e) \<in> set (rg_frozen reg)" using b(3,4) by (simp add: disk_of_def)
    then show ?thesis using bounds b unfolding bounds_true_def by blast
  qed
  ultimately show ?thesis
    unfolding disk_epochs_def d(3) highest_current [OF wf assms(2)] using d(1) by (auto simp: disk_of_def)
qed

text \<open>From the opened registry to the one that is left.\<close>

lemma epochs_step_run:
  assumes "disk_wf d" "open_disk os cfg d = Some reg" "record_keys_ok view (ie_fresh (ou_ingest os))"
    and "names_step reg reg'" "epochs_ok view reg (w_ledger (dk_world d)) \<Longrightarrow> epochs_ok view reg' (w_ledger w)"
  shows "epochs_step view d (disk_of reg' w)"
proof -
  note o = open_names [OF assms(1,2)]
  have wf: "registry_wf reg'" "set (rg_names reg) \<subseteq> set (rg_names reg')" using assms(4) by (simp_all add: names_step_def)
  note d = disk_of_wf [OF wf(1), of w]
  have "disk_epochs view (disk_of reg' w)" if "disk_epochs view d" "epoch_name (- 1) \<notin> set (rg_names reg')"
    by (rule close_epochs_ok [OF assms(5) [OF open_epochs_ok [OF that(1) assms(2,3)]]])
      (use that(2) o(2) assms(4) in \<open>simp add: names_step_def\<close>)
  then show ?thesis using d(1) o(3) wf(2) unfolding epochs_step_def d(2) by blast
qed

lemma names_step_refl: "registry_wf reg \<Longrightarrow> names_step reg reg"
  by (rule names_step_same) simp_all

section \<open>Commands\<close>

lemma run_live_epochs:
  assumes "run_live hex read_file fresh live dirs cwd w cfg = Some s"
  shows "lg_epochs (w_ledger (li_world s)) = lg_epochs (w_ledger w)"
  using assms by (auto simp: run_live_def ingest_start_def live_ingest_new_def Let_def case_prod_beta elim!: bind_SomeE)

context lmdb_store
begin

lemma ttl_thread_epochs:
  "run_ttl_loop L qr_secs fin_secs rounds (reg, g) = (reg', g') \<Longrightarrow>
     (epochs_ok view reg g \<longrightarrow> epochs_ok view reg' g') \<and> rg_frozen reg' = rg_frozen reg \<and> rg_epoch_num reg' = rg_epoch_num reg"
proof (induction rounds arbitrary: reg g)
  case (Cons r rounds)
  obtain shutdown now where r: "r = (shutdown, now)" by (cases r)
  show ?case
  proof (cases "\<not> shutdown \<and> scan_pending_ttl L now qr_secs fin_secs (rg_db reg) \<noteq> None")
    case True
    then obtain db events stats where s: "scan_pending_ttl L now qr_secs fin_secs (rg_db reg) = Some (db, events, stats)" by auto
    have "qm_record_ts db = qm_record_ts (rg_db reg)" using scan_record_ts s by blast
    then have "epoch_envs (reg\<lparr>rg_db := db\<rparr>) = insert (epoch_of db) (snd ` set (rg_frozen reg))"
      "ep_record_ts (epoch_of db) = ep_record_ts (epoch_of (rg_db reg))" by (simp_all add: epoch_envs_def epoch_of_def)
    then have "epochs_ok view (reg\<lparr>rg_db := db\<rparr>) (insert_anomalies events g)" if "epochs_ok view reg g"
      using that registry_wf_names [of "reg\<lparr>rg_db := db\<rparr>" reg]
      by (simp add: epochs_ok_def bounds_true_def epoch_envs_def record_keys_ok_def)
    then show ?thesis
      using Cons.IH [of "reg\<lparr>rg_db := db\<rparr>" "insert_anomalies events g"] Cons.prems True s by (simp add: r)
  next
    case False
    then show ?thesis
      using Cons by (cases "scan_pending_ttl L now qr_secs fin_secs (rg_db reg)") (auto simp: r split: if_splits)
  qed
qed simp

lemma serve_epochs:
  fixes d :: "'d disk"
  assumes "ie_lmdb (ou_ingest os) = L" "record_keys_ok view (ie_fresh (ou_ingest os))"
    and "disk_wf d" "cmd_serve os cfg inp d = Some d'"
  shows "epochs_step view d d'"
proof (cases "serves_online cfg")
  case True
  obtain s s1 s2 where s: "run_live (ou_hex_decode os) (ou_read_file os) (ie_fresh (ou_ingest os)) (dk_live d) (dk_dirs d)
      (ou_cwd os) (dk_world d) cfg = Some s" "ingest_loop (ou_ingest os) (handled (cf_ingest cfg) (in_events inp)) s = Some s1"
    "s2 = s1 \<or> s2 = finalize (ou_ingest os) (in_end inp) s1" "d' = disk_of (li_reg s2) (li_world s2)"
    by (rule serve_onlineE [OF assms(4) True])
  have opened: "open_disk os cfg d = Some (li_reg s)" using run_live_registry [OF s(1)] by (simp add: open_disk_def)
  have names: "names_step (li_reg s) (li_reg s2)"
    using s(3) ingest_names [OF assms(1) open_names(1) [OF assms(3) opened] s(2)] by blast
  have "epochs_ok view (li_reg s2) (w_ledger (li_world s2))" if "epochs_ok view (li_reg s) (w_ledger (dk_world d))"
  proof -
    have "ingest_inv view s" using that epochs_ok_ledger [OF run_live_epochs [OF s(1)], of view "li_reg s"] by (simp add: ingest_inv_epochs)
    then have "ingest_inv view s2" using s(3) ingest_epochs [OF assms(1,2) s(2)] by blast
    then show ?thesis by (simp add: ingest_inv_epochs)
  qed
  then show ?thesis unfolding s(4) by (rule epochs_step_run [OF assms(3) opened assms(2) names])
next
  case False
  obtain reg reg' g where s: "open_disk os cfg d = Some reg"
    "run_ttl_loop L (ac_qr_timeout_secs (cf_analysis cfg)) (ac_fin_short_timeout_secs (cf_analysis cfg)) (in_rounds inp)
       (reg, w_ledger (dk_world d)) = (reg', g)" "d' = disk_of reg' ((dk_world d)\<lparr>w_ledger := g\<rparr>)"
    by (rule serve_offlineE [OF assms(4) False, unfolded assms(1)])
  note r = ttl_thread_epochs [OF s(2)]
  have "names_step reg reg'" by (rule names_step_same) (use r open_names(1) [OF assms(3) s(1)] in simp_all)
  then show ?thesis unfolding s(3) by (rule epochs_step_run [OF assms(3) s(1) assms(2)]) (use r in simp)
qed

lemma command_epochs:
  fixes d :: "'d disk"
  assumes "ie_lmdb (ou_ingest os) = L" "record_keys_ok view (ie_fresh (ou_ingest os))"
    and "disk_wf d" "run_command os cfg inp c d = Some (d', out)"
  shows "epochs_step view d d'"
  using assms(4)
proof (cases rule: run_commandE)
  case serve
  then show ?thesis by (rule serve_epochs [OF assms(1-3)])
next
  case (ledger g)
  then show ?thesis using epochs_step_ledger [OF _ assms(3)] by simp
next
  case (opened reg)
  then show ?thesis
    using epochs_step_run [OF assms(3) opened(1) assms(2) names_step_refl [OF open_names(1) [OF assms(3) opened(1)]]] by simp
qed (simp add: epochs_step_refl [OF assms(3)])

lemma invocations_epochs:
  fixes d :: "'d disk"
  assumes "ie_lmdb (ou_ingest os) = L" "record_keys_ok view (ie_fresh (ou_ingest os))"
  shows "invocations os is d = Some d' \<Longrightarrow> disk_wf d \<Longrightarrow> epochs_step view d d'"
proof (induction "is" arbitrary: d)
  case Nil
  then show ?case by (simp add: epochs_step_refl)
next
  case (Cons i "is")
  obtain cfg d1 out where s: "run_command os cfg (snd i) (cl_command (fst i)) d = Some (d1, out)" "invocations os is d1 = Some d'"
    using Cons.prems(1) by (rule invocations_ConsE)
  have one: "epochs_step view d d1" by (rule command_epochs [OF assms Cons.prems(2) s(1)])
  then have "disk_wf d1" by (simp add: epochs_step_def)
  then show ?case using Cons.IH [OF s(2)] epochs_step_trans [OF one] by blast
qed

end



end
