(* ===== verification/Spec2Isabelle.thy ===== *)
theory Spec2Isabelle
  imports Meta_Facts End_To_End Service_Epochs
begin

text \<open>
  A model of sovVault, the store of a packet-capture platform, with its correctness theorems.  The
  crate is \<open>src/src\<close>; all file names below are relative to it.

  \<^bold>\<open>The program.\<close>  Probes send encrypted chunks of write-ahead-log files.  \<open>ingest/zenoh.rs\<close> decrypts them
  (\<open>decrypt.rs\<close>), puts the segments together (\<open>reassembly.rs\<close>), decodes records and hands them to one
  batch pipeline for each device (\<open>batch.rs\<close>).  A pipeline writes three planes: the data plane (hot files),
  the index plane (two LMDB environments: live, and the current epoch; \<open>db.rs\<close>) and the management
  plane (SQLite, \<open>ledger.rs\<close>).  While a batch goes to the index plane, \<open>qr.rs\<close> follows every TCP
  connection (\<open>connection.rs\<close>) and matches requests with the acknowledgements that answer them, with
  keys extracted by \<open>meta.rs\<close>; \<open>anomaly.rs\<close> times requests out.  \<open>query.rs\<close> and \<open>export.rs\<close> read the planes,
  and \<open>main.rs\<close>, \<open>config.rs\<close> are the command line.

  \<^bold>\<open>Conventions.\<close>  Machine integers are words where they can wrap, sizes of buffers in memory are \<open>nat\<close>,
  SQLite integers are \<open>int\<close>.  A Rust struct is a record and an enum a datatype.  \<open>None\<close> as the result of an
  operation is an error that \<open>?\<close> propagates or a panic; where a failing call leaves effects behind
  (files, ledger, batch pipeline) the operation returns its state with a flag instead.  A \<open>HashMap\<close> or
  \<open>BTreeMap\<close> that is iterated over is an association list (\<^theory_text>\<open>Maps\<close>), otherwise a map.  The code is
  serial: one thread owns all state, and its events are lists of messages or steps.

  \<^bold>\<open>Parameters.\<close>  What is not in the repository is a parameter.  The key-value store is a record of functions
  \<open>lmdb\<close> (\<^theory_text>\<open>Store\<close>) with the contracts \<open>lmdb_store\<close> (a call that succeeds does what the documentation
  of LMDB says) and \<open>lmdb_total\<close> (calls succeed), both interpreted on sorted association lists.  The
  record codec of the crate \<open>sov_probe\<close> is \<open>enc\<close>, \<open>try_decode\<close>, \<open>decode_stream\<close> with the contracts \<open>wal_codec\<close>,
  \<open>wal_stream\<close> (\<^theory_text>\<open>Wal_Codec\<close>), interpreted on a reference codec.  The cipher, the frame decoders, the
  clock, the size of a store on disk, the TOML parser and the sinks of exports are plain arguments.

  \<^bold>\<open>Theories, bottom up.\<close>
  \<^item> \<^theory_text>\<open>Prelude\<close>, \<^theory_text>\<open>Maps\<close>: integer types, big-endian codecs and their order, the iterated containers.
  \<^item> \<^theory_text>\<open>Idx\<close> (\<open>id.rs\<close>), \<^theory_text>\<open>Codec\<close> and \<^theory_text>\<open>Values\<close> (keys and values of \<open>db.rs\<close>), \<^theory_text>\<open>Connection\<close>
    (\<open>connection.rs\<close>), \<^theory_text>\<open>Util\<close> (\<open>util.rs\<close>, \<open>parse_size\<close>), \<^theory_text>\<open>Records\<close>: data and round trips.
  \<^item> \<^theory_text>\<open>Seq_Stream\<close>: the 32-bit translator \<open>SeqStream\<close> refines true 48-bit stream positions.
  \<^item> \<^theory_text>\<open>Reassembly\<close> (\<open>reassembly.rs\<close>) with \<^theory_text>\<open>Reassembly_Inv\<close> (accounts: the three byte counters are sums
    over the segments), \<^theory_text>\<open>Reassembly_Run\<close> (locale \<open>segment_property\<close>: what every operation keeps of one
    segment, every run keeps; no panic, faithful delivery, the L2 cap) and \<^theory_text>\<open>Reassembly_Complete\<close> (any arrival
    order of the pieces delivers everything).
  \<^item> \<^theory_text>\<open>Meta\<close>, \<^theory_text>\<open>Meta_Facts\<close> (\<open>meta.rs\<close>): protocol detection, extraction of keys, its one panic.
  \<^item> \<^theory_text>\<open>Store\<close>, \<^theory_text>\<open>Registry\<close> (\<open>DbRegistry\<close> of \<open>db.rs\<close>), \<^theory_text>\<open>Ledger\<close> (\<open>ledger.rs\<close>).
  \<^item> \<^theory_text>\<open>Qr\<close> (\<open>qr.rs\<close>, \<open>stage_lmdb_with_meta\<close> of \<open>batch.rs\<close>), with \<^theory_text>\<open>Qr_Inv\<close> (invariant \<open>qm_inv\<close> of the two
    stores, step relation \<open>keeps\<close>), \<^theory_text>\<open>Qr_Ingest\<close>, \<^theory_text>\<open>Qr_Props\<close>, \<^theory_text>\<open>Qr_Total\<close> (no handler fails without a store
    error), \<^theory_text>\<open>Qr_Replay\<close> (replay after a crash between the commits, by forward simulation), \<^theory_text>\<open>Qr_Index\<close>
    (the record index), \<^theory_text>\<open>Qr_Claims\<close> (the properties with their runs).
  \<^item> \<^theory_text>\<open>Anomaly\<close>, \<^theory_text>\<open>Anomaly_Facts\<close> (\<open>anomaly.rs\<close>): the windowed scan expires exactly the due rows.
  \<^item> \<^theory_text>\<open>System\<close>: an inductive step relation over one epoch: batches, crashes with replay, time-out scans;
    its reachable states are in order and lose no history.
  \<^item> \<^theory_text>\<open>Batch\<close> (\<open>batch.rs\<close>), with \<^theory_text>\<open>Batch_Facts\<close> (invariant \<open>pipe_inv\<close>: committed bytes, then the pending
    records), \<^theory_text>\<open>Batch_Claims\<close>, \<^theory_text>\<open>Batch_Props\<close>.
  \<^item> \<^theory_text>\<open>Query\<close>, \<^theory_text>\<open>Query_Facts\<close>, \<^theory_text>\<open>Query_Props\<close>, \<^theory_text>\<open>Replay_Props\<close> (\<open>query.rs\<close>): pages and pruned replays against
    \<open>full_scan\<close>, one scan over all epochs.
  \<^item> \<^theory_text>\<open>Wal_Codec\<close>, \<^theory_text>\<open>Export\<close>, \<^theory_text>\<open>Export_Props\<close> (\<open>export.rs\<close>), \<^theory_text>\<open>Transport\<close>, \<^theory_text>\<open>Transport_Props\<close> (\<open>decrypt.rs\<close>,
    \<open>walscan.rs\<close>, \<open>ingest/offline.rs\<close>, \<open>WalStreamDecoder\<close>).
  \<^item> \<^theory_text>\<open>Ingest\<close> (\<open>LiveIngest\<close> and the main loop of \<open>ingest/zenoh.rs\<close>), with \<^theory_text>\<open>Ingest_Frame\<close> (what its handlers
    leave alone, and how they move the index), \<^theory_text>\<open>Ingest_Flow\<close> (chunk frames become records),
    \<^theory_text>\<open>Ingest_Props\<close> (a run is made of rotations and of steps that leave the epochs alone; names and bounds of the
    epochs; refills end), \<^theory_text>\<open>Ingest_History\<close> (what a run keeps of the stores of all epochs).
  \<^item> \<^theory_text>\<open>End_To_End\<close>: chunk frames and a seal go in, and an export gives back the packets; it composes the
    theorems on reassembly, decoder, pipeline, index, pruning and read-back.
  \<^item> \<^theory_text>\<open>Config\<close> (\<open>config.rs\<close>), \<^theory_text>\<open>Cli\<close> (the commands of \<open>main.rs\<close>, \<open>run_ttl_loop\<close>, the start of \<open>run\<close>).
  \<^item> \<^theory_text>\<open>Service\<close> (\<open>main\<close> and \<open>cmd_serve\<close>): the program as a function on what lies in its directories (\<open>disk\<close>),
    and sequences of invocations, which lose no history (\<^theory_text>\<open>Service_Props\<close>) and leave the bounds of frozen
    epochs true (\<^theory_text>\<open>Service_Epochs\<close>).

  \<^bold>\<open>Loops.\<close>  There is no fuel.  Recursion is structural, or has a measure: \<open>drain_contiguous\<close> uses up the
  pending chunks, \<open>sni_extensions\<close> and \<open>dns_labels\<close> the bytes that are left.  \<open>stream_pages\<close>, which follows the
  cursors of \<open>stream_qrs\<close>, is a partial function; the theorem on \<open>stream_qrs\<close> shows that it ends.  Loops that
  wait for input (the main loop, a file scan, the time-out thread) take the list of their inputs.

  \<^bold>\<open>Not modelled.\<close>  Opening the Zenoh session, its subscribers and tasks (the samples that arrive are inputs);
  the JSON and log texts; the argument parser; creation of directories and threads; LMDB map sizes,
  SQLite pragmas and I/O errors of SQLite; the text of errors.  The clock is read once for each handler.
  Two invocations at the same time are not modelled.  \<^theory_text>\<open>System\<close> covers one epoch, with crashes; rotations,
  restarts and kills between two inputs are in \<^theory_text>\<open>Service_Props\<close> and \<^theory_text>\<open>Service_Epochs\<close>.  Entropy is a real number, not an \<open>f64\<close>.
\<close>

end
